(* ===== verification/Prelude.thy ===== *)
theory Prelude
  imports Main "HOL-Library.Word"
begin

text \<open>
  The prelude of the development: the result codes that the library's functions return, the
  faults that stop a process (a failed \<^verbatim>\<open>assert\<close>, the \<^verbatim>\<open>LOSE\<close> macro's null store, a call of
  \<^verbatim>\<open>exit\<close>), the theorem collections that carry the component proofs, and generic lemmas on
  lists and function updates that several components share.
\<close>

section \<open>Result codes and faults\<close>

text \<open>
  The \<^verbatim>\<open>errno.h\<close> codes the sources use.  \<open>OK\<close> is the code 0; \<open>KERN_ERR\<close> stands for any other
  non-zero code that a kernel or C-library call may return.
\<close>

datatype rc =
    OK
  | EINVAL | EBUSY | ESRCH | ENOMEM | EAGAIN | EDEADLK | EPERM | ETIMEDOUT
  | ENOTSUP | ENOSYS | EINTR | EOPNOTSUPP
  | EMACH_SEND_TIMED_OUT | EMACH_RCV_TIMED_OUT
  | KERN_ERR

datatype fault =
    Assert_failed        \<comment> \<open>a failed \<^verbatim>\<open>assert\<close> or \<^verbatim>\<open>assert_perror\<close>, an \<^verbatim>\<open>abort\<close>\<close>
  | Null_store           \<comment> \<open>\<^verbatim>\<open>LOSE\<close>, i.e. \<^verbatim>\<open>* (int *) 0 = 0\<close>\<close>
  | Wild_access          \<comment> \<open>an access outside an array or through a null pointer\<close>
  | Process_exit int     \<comment> \<open>the process ends: \<^verbatim>\<open>exit (n)\<close>\<close>
  | Panicked             \<comment> \<open>a call of \<^verbatim>\<open>panic\<close>\<close>
  | Undefined_shift      \<comment> \<open>a shift by a count that C leaves undefined\<close>
  | Signed_overflow      \<comment> \<open>an \<^verbatim>\<open>int\<close> operation whose result is out of range, which C leaves undefined\<close>
  | Uninitialised        \<comment> \<open>an access through a pointer variable that has not been written\<close>
  | Thread_ended         \<comment> \<open>the calling kernel thread has been terminated\<close>

type_synonym thr = nat   \<comment> \<open>the address of a \<^verbatim>\<open>struct __pthread\<close>\<close>
type_synonym ptr = nat   \<comment> \<open>an opaque \<^verbatim>\<open>void *\<close>, 0 being \<^verbatim>\<open>NULL\<close>\<close>

text \<open>The largest \<^verbatim>\<open>int\<close> of the 32-bit machine.\<close>

definition INT_MAX :: int where
  "INT_MAX = 2147483647"

record timespec =
  tv_sec :: int
  tv_nsec :: int

text \<open>The range check that every timed operation makes on the nanoseconds of its deadline.\<close>

definition bad_nsec :: "timespec option \<Rightarrow> bool" where
  "bad_nsec abstime =
     (case abstime of
        None \<Rightarrow> False
      | Some ts \<Rightarrow> tv_nsec ts < 0 \<or> tv_nsec ts \<ge> 1000000000)"

section \<open>Theorem collections\<close>

named_theorems run_simps \<open>symbolic execution of programs\<close>
named_theorems requests_simps \<open>the outside calls of programs\<close>
named_theorems queue_laws \<open>the contract of the intrusive wait queues\<close>
named_theorems section_defs \<open>definitions of critical sections\<close>

section \<open>Generic lemmas\<close>

lemma bad_nsec_None [simp]: "\<not> bad_nsec None"
  by (simp add: bad_nsec_def)

lemma bad_nsec_Some [simp]:
  "bad_nsec (Some ts) \<longleftrightarrow> tv_nsec ts < 0 \<or> tv_nsec ts \<ge> 1000000000"
  by (simp add: bad_nsec_def)

lemma removeAll_distinct_split:
  "distinct (xs @ x # ys) \<Longrightarrow> removeAll x (xs @ x # ys) = xs @ ys"
  by auto

end
