(* ===== verification/Sigset.thy ===== *)
theory Sigset
  imports Prelude
begin

unbundle bit_operations_syntax

text \<open>
  Signal numbers, signal sets and the data of the signal implementation: \<^verbatim>\<open>signal/signal.h\<close>,
  \<^verbatim>\<open>signal/sig-internal.h\<close> and the functions on sets, \<^verbatim>\<open>sysdeps/generic/sig*set.c\<close> and
  \<^verbatim>\<open>sigismember.c\<close>.  A \<^verbatim>\<open>sigset_t\<close> is a 64-bit integer in which bit \<^verbatim>\<open>sig - 1\<close> stands for the
  signal \<^verbatim>\<open>sig\<close>.
\<close>

section \<open>Signal numbers\<close>

definition SIGHUP :: int where "SIGHUP = 1"
definition SIGINT :: int where "SIGINT = 2"
definition SIGQUIT :: int where "SIGQUIT = 3"
definition SIGILL :: int where "SIGILL = 4"
definition SIGTRAP :: int where "SIGTRAP = 5"
definition SIGABRT :: int where "SIGABRT = 6"
definition SIGBUS :: int where "SIGBUS = 7"
definition SIGFPE :: int where "SIGFPE = 8"
definition SIGKILL :: int where "SIGKILL = 9"
definition SIGUSR1 :: int where "SIGUSR1 = 10"
definition SIGSEGV :: int where "SIGSEGV = 11"
definition SIGUSR2 :: int where "SIGUSR2 = 12"
definition SIGPIPE :: int where "SIGPIPE = 13"
definition SIGALRM :: int where "SIGALRM = 14"
definition SIGTERM :: int where "SIGTERM = 15"
definition SIGSTKFLT :: int where "SIGSTKFLT = 16"
definition SIGCHLD :: int where "SIGCHLD = 17"
definition SIGCONT :: int where "SIGCONT = 18"
definition SIGSTOP :: int where "SIGSTOP = 19"
definition SIGTSTP :: int where "SIGTSTP = 20"
definition SIGTTIN :: int where "SIGTTIN = 21"
definition SIGTTOU :: int where "SIGTTOU = 22"
definition SIGURG :: int where "SIGURG = 23"
definition SIGXCPU :: int where "SIGXCPU = 24"
definition SIGXFSZ :: int where "SIGXFSZ = 25"
definition SIGVTALRM :: int where "SIGVTALRM = 26"
definition SIGPROF :: int where "SIGPROF = 27"
definition SIGWINCH :: int where "SIGWINCH = 28"
definition SIGIO :: int where "SIGIO = 29"
definition SIGPWR :: int where "SIGPWR = 30"
definition SIGSYS :: int where "SIGSYS = 31"
definition NSIG :: int where "NSIG = 32"

lemmas signal_numbers =
  SIGHUP_def SIGINT_def SIGQUIT_def SIGILL_def SIGTRAP_def SIGABRT_def SIGBUS_def SIGFPE_def
  SIGKILL_def SIGUSR1_def SIGSEGV_def SIGUSR2_def SIGPIPE_def SIGALRM_def SIGTERM_def
  SIGSTKFLT_def SIGCHLD_def SIGCONT_def SIGSTOP_def SIGTSTP_def SIGTTIN_def SIGTTOU_def
  SIGURG_def SIGXCPU_def SIGXFSZ_def SIGVTALRM_def SIGPROF_def SIGWINCH_def SIGIO_def SIGPWR_def
  SIGSYS_def NSIG_def

text \<open>The handlers that are not functions, and the flags.\<close>

definition SIG_DFL :: int where "SIG_DFL = 0"
definition SIG_ERR :: int where "SIG_ERR = -1"
definition SIG_IGN :: int where "SIG_IGN = 1"

definition SA_ONSTACK :: "32 word" where "SA_ONSTACK = 1"
definition SA_RESETHAND :: "32 word" where "SA_RESETHAND = 4"
definition SA_RESTART :: "32 word" where "SA_RESTART = 8"
definition SA_NODEFER :: "32 word" where "SA_NODEFER = 64"
definition SS_ONSTACK :: "32 word" where "SS_ONSTACK = 1"
definition SS_DISABLE :: "32 word" where "SS_DISABLE = 2"

lemmas signal_flags =
  SIG_DFL_def SIG_ERR_def SIG_IGN_def SA_ONSTACK_def SA_RESETHAND_def SA_RESTART_def
  SA_NODEFER_def SS_ONSTACK_def SS_DISABLE_def

section \<open>Default actions\<close>

datatype sig_action = sig_core | sig_terminate | sig_ignore | sig_cont | sig_stop

text \<open>\<^verbatim>\<open>default_action\<close>; \<open>None\<close> is the call of \<^verbatim>\<open>panic\<close> for a number that is no signal.\<close>

definition default_action :: "int \<Rightarrow> sig_action option" where
  "default_action signo =
     (if signo \<in> {SIGABRT, SIGBUS, SIGFPE, SIGILL, SIGQUIT, SIGSEGV, SIGSTKFLT, SIGSYS, SIGTRAP,
                  SIGXCPU, SIGXFSZ} then Some sig_core
      else if signo \<in> {SIGALRM, SIGHUP, SIGINT, SIGIO, SIGKILL, SIGPIPE, SIGPROF, SIGTERM, SIGUSR1,
                       SIGUSR2, SIGVTALRM} then Some sig_terminate
      else if signo \<in> {SIGCHLD, SIGPWR, SIGURG, SIGWINCH} then Some sig_ignore
      else if signo = SIGCONT then Some sig_cont
      else if signo \<in> {SIGSTOP, SIGTSTP, SIGTTIN, SIGTTOU} then Some sig_stop
      else None)"

section \<open>Signal sets\<close>

type_synonym sigset = "64 word"

text \<open>\<^verbatim>\<open>1ULL << (sig - 1)\<close>, which C defines for shift counts from 0 to 63 only.\<close>

definition sigmask :: "int \<Rightarrow> sigset" where
  "sigmask sig = push_bit (nat (sig - 1)) 1"

definition shift_defined :: "int \<Rightarrow> bool" where
  "shift_defined sig \<longleftrightarrow> 1 \<le> sig \<and> sig \<le> 64"

definition STOPSIGS :: sigset where
  "STOPSIGS = sigmask SIGTTIN OR sigmask SIGTTOU OR sigmask SIGSTOP OR sigmask SIGTSTP"

text \<open>
  The functions yield 0 or, with -1 returned, the value of \<^verbatim>\<open>errno\<close>, and the new set.
  \<^verbatim>\<open>sigismember\<close> yields 1 or 0, or \<open>None\<close> for -1 with \<^verbatim>\<open>errno\<close> \<^verbatim>\<open>EINVAL\<close>.
\<close>

definition bad_signo :: "int \<Rightarrow> bool" where
  "bad_signo signo \<longleftrightarrow> signo \<le> 0 \<or> signo \<ge> NSIG"

definition sigaddset :: "sigset \<Rightarrow> int \<Rightarrow> rc \<times> sigset" where
  "sigaddset sigset signo =
     (if bad_signo signo then (EINVAL, sigset) else (OK, sigset OR sigmask signo))"

definition sigdelset :: "sigset \<Rightarrow> int \<Rightarrow> rc \<times> sigset" where
  "sigdelset sigset signo =
     (if bad_signo signo then (EINVAL, sigset) else (OK, sigset AND NOT (sigmask signo)))"

definition sigemptyset :: "sigset \<Rightarrow> rc \<times> sigset" where
  "sigemptyset sigset = (OK, 0)"

definition sigfillset :: "sigset \<Rightarrow> rc \<times> sigset" where
  "sigfillset sigset = (OK, push_bit (nat (NSIG - 1)) 1 - 1)"

definition sigismember :: "sigset \<Rightarrow> int \<Rightarrow> int option" where
  "sigismember sigset signo =
     (if bad_signo signo then None
      else if sigset AND sigmask signo \<noteq> 0 then Some 1 else Some 0)"

section \<open>The data of the signal implementation\<close>

record siginfo =
  si_signo :: int
  si_code :: int
  si_errno :: int
  si_pid :: int
  si_uid :: int
  si_addr :: int
  si_status :: int
  si_band :: int
  si_value :: int

definition zero_siginfo :: siginfo where
  "zero_siginfo = \<lparr>si_signo = 0, si_code = 0, si_errno = 0, si_pid = 0, si_uid = 0, si_addr = 0,
     si_status = 0, si_band = 0, si_value = 0\<rparr>"

text \<open>\<^verbatim>\<open>struct sigaction\<close>; the union of \<^verbatim>\<open>sa_handler\<close> and \<^verbatim>\<open>sa_sigaction\<close> is one address.\<close>

record sigaction_t =
  sa_handler :: int
  sa_mask :: sigset
  sa_flags :: "32 word"

record stack_t =
  ss_sp :: "32 word"
  ss_size :: "32 word"
  ss_flags :: "32 word"

text \<open>
  \<^verbatim>\<open>struct signal_state\<close>, one per thread; its mutex is \<open>Ss_lock\<close>.  The arrays have \<^verbatim>\<open>NSIG\<close> elements,
  at the indices from 0.  \<^verbatim>\<open>struct sigwaiter\<close> is a local variable of the thread that waits, so
  waiters are named by their threads.
\<close>

record signal_state =
  ss_pending :: sigset
  ss_blocked :: sigset
  ss_stack :: stack_t
  ss_actions :: "int \<Rightarrow> sigaction_t"
  ss_info :: "int \<Rightarrow> siginfo"
  ss_sigwaiter :: "thr option"

record sigwaiter =
  w_next :: "thr option"
  w_prev :: "thr option"
  w_ss :: thr
  w_signals :: sigset
  w_info :: siginfo

text \<open>The variables of \<^verbatim>\<open>sig-internal.c\<close> and \<^verbatim>\<open>sigwaiter.c\<close>, and the signal states and waiters.\<close>

record signals =
  process_pending :: sigset
  process_pending_info :: "int \<Rightarrow> siginfo"
  sigwaiters :: "thr option"
  waiter_at :: "thr \<Rightarrow> sigwaiter"
  state_of :: "thr \<Rightarrow> signal_state"
  asleep :: "thr \<Rightarrow> bool"    \<comment> \<open>of the port: who sleeps on the futex of his waiter\<close>

definition zero_signals :: signals where
  "zero_signals =
     \<lparr>process_pending = 0, process_pending_info = (\<lambda>_. zero_siginfo), sigwaiters = None,
      waiter_at = (\<lambda>_. \<lparr>w_next = None, w_prev = None, w_ss = 0, w_signals = 0, w_info = zero_siginfo\<rparr>),
      state_of = (\<lambda>_. \<lparr>ss_pending = 0, ss_blocked = 0,
        ss_stack = \<lparr>ss_sp = 0, ss_size = 0, ss_flags = 0\<rparr>,
        ss_actions = (\<lambda>_. \<lparr>sa_handler = 0, sa_mask = 0, sa_flags = 0\<rparr>),
        ss_info = (\<lambda>_. zero_siginfo), ss_sigwaiter = None\<rparr>), asleep = (\<lambda>_. False)\<rparr>"

section \<open>Signal sets as sets\<close>

text \<open>The signals in a set: the abstraction that the functions are judged by.\<close>

definition members :: "sigset \<Rightarrow> int set" where
  "members w = {n. \<not> bad_signo n \<and> bit w (nat (n - 1))}"

lemma bit_sigmask: "bit (sigmask sig) n \<longleftrightarrow> n = nat (sig - 1) \<and> n < 64"
  by (auto simp: sigmask_def bit_simps)

lemma and_sigmask: "w AND sigmask sig \<noteq> 0 \<longleftrightarrow> bit w (nat (sig - 1))"
proof -
  have "w AND sigmask sig = 0 \<longleftrightarrow> (\<forall>n. \<not> bit (w AND sigmask sig) n)"
    by (auto intro: bit_eqI)
  then show ?thesis
    using bit_imp_le_length [of w "nat (sig - 1)"] by (auto simp: bit_and_iff bit_sigmask)
qed

lemma bad_signo_iff: "bad_signo n \<longleftrightarrow> \<not> (1 \<le> n \<and> n < 32)"
  by (auto simp: bad_signo_def NSIG_def)

lemma sigismember_members:
  "sigismember w n = (if bad_signo n then None else Some (of_bool (n \<in> members w)))"
  using and_sigmask [of w n] by (simp add: sigismember_def members_def)

lemma members_sigaddset: "\<not> bad_signo n \<Longrightarrow> members (snd (sigaddset w n)) = insert n (members w)"
  by (auto simp: members_def sigaddset_def bit_simps bit_sigmask bad_signo_iff)

lemma members_sigdelset: "members (snd (sigdelset w n)) = members w - {n}"
  by (auto simp: members_def sigdelset_def bit_simps bit_sigmask bad_signo_iff)

lemma members_zero [simp]: "members 0 = {}"
  by (simp add: members_def)

lemma members_sigfillset: "members (snd (sigfillset w)) = {n. \<not> bad_signo n}"
proof -
  have "snd (sigfillset w) = mask 31"
    by (simp add: sigfillset_def NSIG_def mask_eq_exp_minus_1 push_bit_eq_mult)
  then show ?thesis by (auto simp: members_def bit_simps bad_signo_iff)
qed

lemma default_action_total: "\<not> bad_signo n \<Longrightarrow> \<exists>a. default_action n = Some a"
proof -
  assume "\<not> bad_signo n"
  then have "n \<in> {1, 2, 3, 4, 5, 6, 7, 8, 9, 10, 11, 12, 13, 14, 15, 16, 17, 18, 19, 20, 21, 22, 23,
      24, 25, 26, 27, 28, 29, 30, 31}"
    by (simp add: bad_signo_iff) presburger
  then show ?thesis by (auto simp: default_action_def signal_numbers)
qed

text \<open>
  C37: The functions on signal sets implement operations on sets of signals: the empty set, the set of
  all signals, inserting, removing and membership; for a number that is no signal they fail with
  \<^verbatim>\<open>EINVAL\<close> and leave the set unchanged.
\<close>

theorem sigset_operations:
  "members (snd (sigemptyset w)) = {} \<and> members (snd (sigfillset w)) = {m. \<not> bad_signo m} \<and>
   (if bad_signo n
    then sigaddset w n = (EINVAL, w) \<and> sigdelset w n = (EINVAL, w) \<and> sigismember w n = None
    else fst (sigaddset w n) = OK \<and> members (snd (sigaddset w n)) = insert n (members w) \<and>
         fst (sigdelset w n) = OK \<and> members (snd (sigdelset w n)) = members w - {n} \<and>
         sigismember w n = Some (of_bool (n \<in> members w)))"
proof (cases "bad_signo n")
  case True
  then show ?thesis
    by (simp add: sigemptyset_def sigaddset_def sigdelset_def sigismember_members members_sigfillset)
next
  case False
  moreover from this have "fst (sigaddset w n) = OK" "fst (sigdelset w n) = OK"
    by (simp_all add: sigaddset_def sigdelset_def)
  ultimately show ?thesis
    by (simp add: sigemptyset_def sigismember_members members_sigfillset members_sigaddset members_sigdelset)
qed

end
