(* ===== verification/Prog.thy ===== *)
theory Prog
  imports Sigset
begin

text \<open>
  C functions as programs.  A program is a tree of atomic actions on the shared state and of
  calls to code outside the library (the Mach kernel, the C library): the caller of \<open>Sys\<close>
  continues with whatever that code replies.  The outside code is a parameter, an
  \<open>env\<close>, of the two ways to execute programs: \<open>run\<close> executes one program alone until it
  returns, crashes or has to wait; \<open>pstep\<close> is one atomic step, from which the interleavings of
  several threads are built.
\<close>

section \<open>Programs\<close>

text \<open>The calls to code outside the library; a thread is named by its structure's address.\<close>

datatype syscall =
    Mach_send thr                     \<comment> \<open>\<^verbatim>\<open>__mach_msg\<close>: send the wakeup message of a thread\<close>
  | Mach_recv thr                     \<comment> \<open>\<^verbatim>\<open>__mach_msg\<close>: receive on the thread's wakeup port\<close>
  | Mach_recv_timeout thr "32 word"   \<comment> \<open>the same with \<^verbatim>\<open>MACH_RCV_TIMEOUT\<close> milliseconds\<close>
  | Clock_gettime int
  | Clock_getres int
  | Malloc
  | Free ptr
  | Mach_port_allocate
  | Mach_port_insert_right int
  | Mach_port_set_qlimit int int
  | Mach_port_destroy int
  | Mach_port_deallocate int
  | Mach_thread_self
  | Thread_create
  | Thread_terminate int
  | Thread_suspend int
  | Thread_resume int
  | Thread_abort int
  | Thread_set_pcsptp int
  | Vm_allocate int int
  | Vm_deallocate int int
  | Vm_protect int int
  | Dl_allocate_tls
  | Dl_deallocate_tls int
  | Sched_yield
  | Sigprocmask
  | Realloc int
  | Ihash_create                      \<comment> \<open>libihash: hash tables with integer keys\<close>
  | Ihash_add int int int
  | Ihash_find int int
  | Ihash_remove int int
  | Ihash_free int
  | Sig_handler int int siginfo       \<comment> \<open>a signal handler, applied to a signal and its information\<close>
  | Dispatch_lowlevel thr int siginfo \<comment> \<open>\<^verbatim>\<open>signal_dispatch_lowlevel\<close> of the port\<close>
  | Extern string "int list"          \<comment> \<open>any other external function, by name\<close>
  | Callback ptr ptr                  \<comment> \<open>a function pointer of the program, applied to an argument\<close>

type_synonym reply = "rc \<times> int \<times> int"   \<comment> \<open>the return code and up to two results\<close>

datatype ('s, 'a) prog =
    Return 'a
  | Crash fault
  | Act "'s \<Rightarrow> bool" "'s \<Rightarrow> 's" "'s \<Rightarrow> ('s, 'a) prog"
  | Sys syscall "reply \<Rightarrow> ('s, 'a) prog"

text \<open>
  \<open>Act g u k\<close> waits until \<open>g\<close> holds and then, in one atomic action, moves the state from \<open>s\<close> to
  \<open>u s\<close> and continues as \<open>k s\<close>.
\<close>

primrec andthen :: "('s, 'a) prog \<Rightarrow> ('a \<Rightarrow> ('s, 'b) prog) \<Rightarrow> ('s, 'b) prog" where
  "andthen (Return a) f = f a"
| "andthen (Crash e) f = Crash e"
| "andthen (Act g u k) f = Act g u (\<lambda>s. andthen (k s) f)"
| "andthen (Sys c k) f = Sys c (\<lambda>r. andthen (k r) f)"

definition modify :: "('s \<Rightarrow> 's) \<Rightarrow> ('s, unit) prog" where
  "modify u = Act (\<lambda>_. True) u (\<lambda>_. Return ())"

definition gets :: "('s \<Rightarrow> 'a) \<Rightarrow> ('s, 'a) prog" where
  "gets f = Act (\<lambda>_. True) (\<lambda>s. s) (\<lambda>s. Return (f s))"

text \<open>
  \<open>section_of g f\<close>: when \<open>g\<close> holds, the state function \<open>f\<close> is executed atomically; it yields
  the result, or the fault that it ran into, and the new state.
\<close>

definition of_sum :: "fault + 'a \<Rightarrow> ('s, 'a) prog" where
  "of_sum r = (case r of Inl e \<Rightarrow> Crash e | Inr a \<Rightarrow> Return a)"

definition section_of :: "('s \<Rightarrow> bool) \<Rightarrow> ('s \<Rightarrow> (fault + 'a) \<times> 's) \<Rightarrow> ('s, 'a) prog" where
  "section_of g f = Act g (\<lambda>s. snd (f s)) (\<lambda>s. of_sum (fst (f s)))"

text \<open>A program that never continues: a loop that runs forever.\<close>

definition stuck :: "('s, 'a) prog" where
  "stuck = Act (\<lambda>_. False) (\<lambda>s. s) (\<lambda>_. Crash Assert_failed)"

definition assert_p :: "bool \<Rightarrow> ('s, unit) prog" where
  "assert_p b = (if b then Return () else Crash Assert_failed)"

definition syscall :: "syscall \<Rightarrow> ('s, reply) prog" where
  "syscall c = Sys c Return"

section \<open>Execution\<close>

type_synonym 's env = "syscall \<Rightarrow> 's \<Rightarrow> (reply \<times> 's) option"
  \<comment> \<open>what the outside code replies, with its effect; \<open>None\<close> while the call blocks\<close>

datatype ('s, 'a) outcome =
    Done 'a 's
  | Waiting "('s, 'a) prog" 's
  | Failed fault 's

primrec run :: "('s, 'a) prog \<Rightarrow> 's env \<Rightarrow> 's \<Rightarrow> ('s, 'a) outcome" where
  "run (Return a) h s = Done a s"
| "run (Crash e) h s = Failed e s"
| "run (Act g u k) h s = (if g s then run (k s) h (u s) else Waiting (Act g u k) s)"
| "run (Sys c k) h s =
     (case h c s of None \<Rightarrow> Waiting (Sys c k) s | Some (r, s') \<Rightarrow> run (k r) h s')"

text \<open>
  What an execution does besides its result: the outside calls that it makes, in their order, a call that
  blocks included; and the states that it passes through, its first and its last one included.
\<close>

primrec requests :: "('s, 'a) prog \<Rightarrow> 's env \<Rightarrow> 's \<Rightarrow> syscall list" where
  "requests (Return a) h s = []"
| "requests (Crash e) h s = []"
| "requests (Act g u k) h s = (if g s then requests (k s) h (u s) else [])"
| "requests (Sys c k) h s = c # (case h c s of None \<Rightarrow> [] | Some (r, s') \<Rightarrow> requests (k r) h s')"

primrec visits :: "('s, 'a) prog \<Rightarrow> 's env \<Rightarrow> 's \<Rightarrow> 's set" where
  "visits (Return a) h s = {s}"
| "visits (Crash e) h s = {s}"
| "visits (Act g u k) h s = insert s (if g s then visits (k s) h (u s) else {})"
| "visits (Sys c k) h s = insert s (case h c s of None \<Rightarrow> {} | Some (r, s') \<Rightarrow> visits (k r) h s')"

inductive pstep :: "'s env \<Rightarrow> ('s, 'a) prog \<Rightarrow> 's \<Rightarrow> ('s, 'a) prog \<Rightarrow> 's \<Rightarrow> bool" for h where
  act: "g s \<Longrightarrow> pstep h (Act g u k) s (k s) (u s)"
| sys: "h c s = Some (r, s') \<Longrightarrow> pstep h (Sys c k) s (k r) s'"

inductive_cases pstep_ActE: "pstep h (Act g u k) s p s'"
inductive_cases pstep_SysE: "pstep h (Sys c k) s p s'"
inductive_cases pstep_ReturnE: "pstep h (Return a) s p s'"
inductive_cases pstep_CrashE: "pstep h (Crash e) s p s'"

inductive_simps pstep_Act_iff: "pstep h (Act g u k) s p s'"
inductive_simps pstep_Sys_iff: "pstep h (Sys c k) s p s'"
inductive_simps pstep_Return_iff: "pstep h (Return a) s p s'"
inductive_simps pstep_Crash_iff: "pstep h (Crash e) s p s'"

lemmas pstep_iffs = pstep_Act_iff pstep_Sys_iff pstep_Return_iff pstep_Crash_iff

primrec outcome_bind ::
    "('s, 'a) outcome \<Rightarrow> ('a \<Rightarrow> ('s, 'b) prog) \<Rightarrow> 's env \<Rightarrow> ('s, 'b) outcome" where
  "outcome_bind (Done a s) f h = run (f a) h s"
| "outcome_bind (Waiting p s) f h = Waiting (andthen p f) s"
| "outcome_bind (Failed e s) f h = Failed e s"

section \<open>Laws\<close>

lemma andthen_Return_right [simp]: "andthen p Return = p"
  by (induction p) auto

lemma andthen_assoc [simp]:
  "andthen (andthen p f) g = andthen p (\<lambda>x. andthen (f x) g)"
  by (induction p) auto

lemma run_andthen [run_simps]:
  "run (andthen p f) h s = outcome_bind (run p h s) f h"
  by (induction p arbitrary: s) (auto split: option.splits)

lemma run_modify [run_simps]: "run (modify u) h s = Done () (u s)"
  by (simp add: modify_def)

lemma run_gets [run_simps]: "run (gets f) h s = Done (f s) s"
  by (simp add: gets_def)

lemma of_sum_simps [simp]:
  "of_sum (Inl e) = Crash e"
  "of_sum (Inr a) = Return a"
  by (simp_all add: of_sum_def)

lemma run_section_of [run_simps]:
  "run (section_of g f) h s =
     (if g s then (case fst (f s) of Inl e \<Rightarrow> Failed e (snd (f s)) | Inr a \<Rightarrow> Done a (snd (f s)))
      else Waiting (section_of g f) s)"
  by (auto simp: section_of_def split: sum.splits)

lemma run_assert_p [run_simps]:
  "run (assert_p b) h s = (if b then Done () s else Failed Assert_failed s)"
  by (simp add: assert_p_def)

lemma run_syscall [run_simps]:
  "run (syscall c) h s =
     (case h c s of None \<Rightarrow> Waiting (syscall c) s | Some (r, s') \<Rightarrow> Done r s')"
  by (simp add: syscall_def split: option.splits)

lemma run_if [run_simps]:
  "run (if b then p else q) h s = (if b then run p h s else run q h s)"
  by simp

lemma andthen_section_of:
  "andthen (section_of g f) k =
     Act g (\<lambda>s. snd (f s)) (\<lambda>s. case fst (f s) of Inl e \<Rightarrow> Crash e | Inr a \<Rightarrow> k a)"
  by (auto simp: section_of_def fun_eq_iff split: sum.splits)

lemma andthen_syscall: "andthen (syscall c) k = Sys c k"
  by (simp add: syscall_def)

lemma requests_andthen [requests_simps]:
  "requests (andthen p f) h s =
     requests p h s @ (case run p h s of Done a s' \<Rightarrow> requests (f a) h s' | Waiting q s' \<Rightarrow> [] | Failed e s' \<Rightarrow> [])"
  by (induction p arbitrary: s) (auto split: option.splits)

lemma requests_basic [requests_simps]:
  "requests (modify u) h s = []" "requests (gets v) h s = []" "requests (section_of g f) h s = []"
  "requests (assert_p b) h s = []" "requests (syscall c) h s = [c]"
  by (auto simp: modify_def gets_def section_of_def assert_p_def syscall_def of_sum_def split: sum.split option.split)

lemma requests_if [requests_simps]: "requests (if b then p else q) h s = (if b then requests p h s else requests q h s)"
  by simp

lemma visits_andthen:
  "visits (andthen p f) h s =
     visits p h s \<union> (case run p h s of Done a s' \<Rightarrow> visits (f a) h s' | Waiting q s' \<Rightarrow> {} | Failed e s' \<Rightarrow> {})"
proof (induction p arbitrary: s)
  case (Return a)
  then show ?case by (cases "f a") auto
qed (auto split: option.splits)

text \<open>Executing alone is a sequence of atomic steps.\<close>

inductive psteps :: "'s env \<Rightarrow> ('s, 'a) prog \<Rightarrow> 's \<Rightarrow> ('s, 'a) prog \<Rightarrow> 's \<Rightarrow> bool" for h where
  refl: "psteps h p s p s"
| step: "pstep h p s q t \<Longrightarrow> psteps h q t r u \<Longrightarrow> psteps h p s r u"

lemma run_Done_psteps: "run p h s = Done a t \<Longrightarrow> psteps h p s (Return a) t"
proof (induction p arbitrary: s)
  case (Act g u k)
  then show ?case
    by (auto split: if_splits intro: psteps.step [OF pstep.act])
next
  case (Sys c k)
  then show ?case
    by (fastforce split: option.splits intro: psteps.step [OF pstep.sys])
qed (auto intro: psteps.refl)

lemma visits_start: "s \<in> visits p h s"
  by (cases p) auto

lemma run_visits: "run p h s = Done a s' \<Longrightarrow> s' \<in> visits p h s"
  by (induction p arbitrary: s) (auto split: if_splits option.splits)

lemma psteps_visits: "psteps h p s q s' \<Longrightarrow> s' \<in> visits p h s"
proof (induction rule: psteps.induct)
  case (step p s q t r u)
  from step.hyps(1) have "visits q h t \<subseteq> visits p h s" by cases auto
  with step.IH show ?case by blast
qed (rule visits_start)

lemma run_Waiting_stuck: "run p h s = Waiting q t \<Longrightarrow> \<not> pstep h q t r u"
proof (induction p arbitrary: s)
  case (Act g u k)
  then show ?case by (auto split: if_splits simp: pstep_iffs)
next
  case (Sys c k)
  then show ?case by (fastforce split: option.splits simp: pstep_iffs)
qed auto

end
