(* ===== verification/Pt_State.thy ===== *)
theory Pt_State
  imports Prog
begin

text \<open>
  The data structures of the library, after \<^verbatim>\<open>pthread/pt-internal.h\<close>,
  \<^verbatim>\<open>sysdeps/generic/bits/*.h\<close>, \<^verbatim>\<open>include/pthread/pthreadtypes.h\<close> and
  \<^verbatim>\<open>sysdeps/mach/hurd/pt-sysdep.h\<close>, and the one shared state of a process.

  Addresses are values of datatypes: \<open>State_lock t\<close> is \<^verbatim>\<open>&t->state_lock\<close>, \<open>M_held m\<close> is
  \<^verbatim>\<open>&m->__held\<close>, \<open>Next t\<close> is \<^verbatim>\<open>&t->next\<close>, \<open>Mutex_queue m\<close> is \<^verbatim>\<open>&m->__queue\<close>.  A store maps
  every address to its contents.  So a pointer to a pointer, as the queue links use it, is an
  address of type \<open>loc\<close>, and two pointers alias exactly when the addresses are equal.

  Members that no function of the library reads (\<^verbatim>\<open>cthreadscompat1\<close>, \<^verbatim>\<open>data\<close>, \<^verbatim>\<open>__impl\<close>) are left out.
\<close>

section \<open>Addresses\<close>

datatype maddr =
    State_lock thr | Cancel_lock thr | Free_threads_lock | Key_lock | Sig_lock | Ss_lock thr
  | User_mutex nat

datatype caddr = State_cond thr | User_cond nat

datatype rwaddr = Threads_lock | User_rwlock nat

type_synonym saddr = nat
type_synonym baddr = nat

datatype oaddr = Key_once | User_once nat

datatype spinaddr =
    M_held maddr | M_lock maddr | C_lock caddr | R_held rwaddr | R_lock rwaddr
  | S_lock saddr | B_lock baddr | O_lock oaddr | Sigstate_lock thr

text \<open>The cells that hold a \<^verbatim>\<open>struct __pthread *\<close> link: the queue heads and the \<^verbatim>\<open>next\<close> members.\<close>

datatype loc =
    Next thr
  | Mutex_queue maddr | Cond_queue caddr | Reader_queue rwaddr | Writer_queue rwaddr
  | Sem_queue saddr | Barrier_queue baddr | Free_threads

section \<open>Attributes and synchronisation objects\<close>

text \<open>Enumerations are C integers; the values are those of \<^verbatim>\<open>pthreadtypes.h\<close> and \<^verbatim>\<open>pthread.h\<close>.\<close>

definition PTHREAD_MUTEX_NORMAL :: int where "PTHREAD_MUTEX_NORMAL = 0"
definition PTHREAD_MUTEX_ERRORCHECK :: int where "PTHREAD_MUTEX_ERRORCHECK = 1"
definition PTHREAD_MUTEX_RECURSIVE :: int where "PTHREAD_MUTEX_RECURSIVE = 2"
definition PTHREAD_PROCESS_PRIVATE :: int where "PTHREAD_PROCESS_PRIVATE = 0"
definition PTHREAD_PROCESS_SHARED :: int where "PTHREAD_PROCESS_SHARED = 1"
definition PTHREAD_PRIO_NONE :: int where "PTHREAD_PRIO_NONE = 0"
definition PTHREAD_PRIO_INHERIT :: int where "PTHREAD_PRIO_INHERIT = 1"
definition PTHREAD_PRIO_PROTECT :: int where "PTHREAD_PRIO_PROTECT = 2"
definition PTHREAD_EXPLICIT_SCHED :: int where "PTHREAD_EXPLICIT_SCHED = 0"
definition PTHREAD_INHERIT_SCHED :: int where "PTHREAD_INHERIT_SCHED = 1"
definition PTHREAD_SCOPE_SYSTEM :: int where "PTHREAD_SCOPE_SYSTEM = 0"
definition PTHREAD_SCOPE_PROCESS :: int where "PTHREAD_SCOPE_PROCESS = 1"
definition PTHREAD_CREATE_JOINABLE :: int where "PTHREAD_CREATE_JOINABLE = 0"
definition PTHREAD_CREATE_DETACHED :: int where "PTHREAD_CREATE_DETACHED = 1"
definition PTHREAD_CANCEL_DISABLE :: int where "PTHREAD_CANCEL_DISABLE = 0"
definition PTHREAD_CANCEL_ENABLE :: int where "PTHREAD_CANCEL_ENABLE = 1"
definition PTHREAD_CANCEL_DEFERRED :: int where "PTHREAD_CANCEL_DEFERRED = 0"
definition PTHREAD_CANCEL_ASYNCHRONOUS :: int where "PTHREAD_CANCEL_ASYNCHRONOUS = 1"

lemmas pthread_consts =
  PTHREAD_MUTEX_NORMAL_def PTHREAD_MUTEX_ERRORCHECK_def PTHREAD_MUTEX_RECURSIVE_def
  PTHREAD_PROCESS_PRIVATE_def PTHREAD_PROCESS_SHARED_def
  PTHREAD_PRIO_NONE_def PTHREAD_PRIO_INHERIT_def PTHREAD_PRIO_PROTECT_def
  PTHREAD_EXPLICIT_SCHED_def PTHREAD_INHERIT_SCHED_def
  PTHREAD_SCOPE_SYSTEM_def PTHREAD_SCOPE_PROCESS_def
  PTHREAD_CREATE_JOINABLE_def PTHREAD_CREATE_DETACHED_def
  PTHREAD_CANCEL_DISABLE_def PTHREAD_CANCEL_ENABLE_def
  PTHREAD_CANCEL_DEFERRED_def PTHREAD_CANCEL_ASYNCHRONOUS_def

record pthread_mutexattr =
  ma_prioceiling :: int
  ma_protocol :: int
  ma_pshared :: int
  ma_mutex_type :: int

text \<open>
  The \<^verbatim>\<open>attr\<close> pointer of a mutex: null, one of the two magic pointers
  \<^verbatim>\<open>__PTHREAD_ERRORCHECK_MUTEXATTR\<close> and \<^verbatim>\<open>__PTHREAD_RECURSIVE_MUTEXATTR\<close>, or a pointer to a
  heap block at an address, with its contents.
\<close>

datatype mutexattr_ptr =
    Attr_null | Attr_errorcheck | Attr_recursive | Attr_heap ptr pthread_mutexattr

record pthread_mutex =
  m_attr :: mutexattr_ptr
  m_owner :: "thr option"
  m_locks :: "32 word"

record pthread_condattr =
  ca_pshared :: int
  ca_clock :: int

record pthread_cond =
  c_attr :: "pthread_condattr option"

record pthread_rwlockattr =
  ra_pshared :: int

record pthread_rwlock =
  rw_readers :: int
  rw_attr :: "pthread_rwlockattr option"

record semaphore =
  sem_pshared :: int
  sem_value :: int

record pthread_barrierattr =
  ba_pshared :: int

record pthread_barrier =
  b_pending :: "32 word"
  b_count :: "32 word"
  b_attr :: "pthread_barrierattr option"

record pthread_once_t =
  once_run :: int

text \<open>\<^verbatim>\<open>struct sched_param\<close> has the one member \<^verbatim>\<open>sched_priority\<close>.\<close>

record pthread_attr =
  at_sched_priority :: int
  at_stackaddr :: "32 word"
  at_stacksize :: "32 word"
  at_guardsize :: "32 word"
  at_detachstate :: int
  at_inheritsched :: int
  at_contentionscope :: int
  at_schedpolicy :: int

section \<open>The thread structure\<close>

datatype pthread_state =
    PTHREAD_JOINABLE | PTHREAD_DETACHED | PTHREAD_EXITED | PTHREAD_TERMINATED

text \<open>
  \<open>p_cancel_hook\<close> stands for the pair \<^verbatim>\<open>cancel_hook\<close>, \<^verbatim>\<open>cancel_hook_arg\<close>: the only hook of the
  library is that of \<^verbatim>\<open>pt-cond-timedwait.c\<close>, whose argument is the thread to wake and its condition.
  The handler stack is the list of the handlers with their arguments: a function of the program, or
  \<^verbatim>\<open>__pthread_mutex_unlock\<close>, which \<^verbatim>\<open>pthread_join\<close> pushes.  \<open>p_thread_specifics\<close> is the address of
  the hash table with the thread-specific data, 0 if there is none.
\<close>

datatype cleanup = Cleanup_call ptr ptr | Cleanup_unlock maddr

record pthread =
  p_thread :: int
  p_cancel_hook :: "(thr \<times> caddr) option"
  p_cancel_state :: int
  p_cancel_type :: int
  p_cancel_pending :: int
  p_cancelation_handlers :: "cleanup list"
  p_stackaddr :: "32 word"
  p_stacksize :: "32 word"
  p_guardsize :: "32 word"
  p_stack :: int
  p_status :: int
  p_state :: pthread_state
  p_pc :: "32 word"
  p_sp :: "32 word"
  p_tcb :: int
  p_kernel_thread :: int
  p_wakeup_port :: int
  p_have_kernel_resources :: int
  p_thread_specifics :: int

text \<open>
  The members of glibc's \<^verbatim>\<open>struct hurd_sigstate\<close> that the library accesses; its spin lock is
  \<open>Sigstate_lock\<close>.  The hook of the Hurd's condition waits wakes a thread that waits on a condition.
\<close>

record hurd_sigstate =
  hss_blocked :: "32 word"
  hss_pending :: "32 word"
  hss_intr_port :: int
  hss_cancel :: int
  hss_cancel_hook :: "(thr \<times> caddr) option"

section \<open>The state of a process\<close>

text \<open>An element of \<^verbatim>\<open>__pthread_key_destructors\<close>: null, \<^verbatim>\<open>PTHREAD_KEY_INVALID\<close>, or a function.\<close>

datatype destructor = Dtor_null | Dtor_invalid | Dtor ptr

text \<open>
  \<open>threads_ptr\<close> is the pointer \<^verbatim>\<open>__pthread_threads\<close>, \<open>threads_tab\<close> its array; the elements that \<open>num_threads\<close> counts have been
  written.  \<open>key_index\<close> and \<open>clock_avail\<close> are the static variables \<^verbatim>\<open>index\<close> of \<^verbatim>\<open>pthread_key_create\<close> and
  \<^verbatim>\<open>avail\<close> of \<^verbatim>\<open>pthread_condattr_setclock\<close>; \<open>next_stack_base\<close> that of \<^verbatim>\<open>pt-stack-alloc.c\<close>.  \<open>tcb_self\<close>
  and \<open>tcb_tcb\<close> are the members \<^verbatim>\<open>self\<close> and \<^verbatim>\<open>tcb\<close> of the thread control blocks, \<open>tls_self\<close> the thread-local variable \<^verbatim>\<open>___pthread_self\<close>
  of a kernel thread, \<open>stack_mem\<close> the memory words of the stacks.

  \<open>kmsgs\<close> and \<open>kexpired\<close> belong to the kernel, not to the library: the number of messages queued
  on a thread's wakeup port, and whether the deadline of its timed receive has passed; \<open>ihashes\<close> are the
  hash tables of libihash.  No definition of the library reads or writes them; only an \<open>env\<close> does.
  \<open>sigs\<close> is the data of the signal implementation.
\<close>

record pt_state =
  cell :: "loc \<Rightarrow> thr option"
  prevp :: "thr \<Rightarrow> loc option"
  spin :: "spinaddr \<Rightarrow> int"
  mutexes :: "maddr \<Rightarrow> pthread_mutex"
  conds :: "caddr \<Rightarrow> pthread_cond"
  rwlocks :: "rwaddr \<Rightarrow> pthread_rwlock"
  sems :: "saddr \<Rightarrow> semaphore"
  barriers :: "baddr \<Rightarrow> pthread_barrier"
  onces :: "oaddr \<Rightarrow> pthread_once_t"
  pthreads :: "thr \<Rightarrow> pthread"
  errno :: "thr \<Rightarrow> rc"
  threads_ptr :: ptr
  threads_tab :: "thr option list"
  max_threads :: int
  num_threads :: int
  total_threads :: int
  default_attr :: pthread_attr
  concurrency :: int
  clock_avail :: int
  key_destructors :: "destructor list"
  key_size :: int
  key_count :: int
  key_invalid_count :: int
  key_index :: int
  sigstates :: "thr \<Rightarrow> hurd_sigstate"
  next_stack_base :: "32 word"
  threadvar_stack_mask :: "32 word"
  threadvar_stack_offset :: "32 word"
  tcb_self :: "int \<Rightarrow> int"
  tcb_tcb :: "int \<Rightarrow> int"
  tls_self :: "int \<Rightarrow> thr option"
  stack_mem :: "32 word \<Rightarrow> 32 word"
  kmsgs :: "thr \<Rightarrow> nat"
  kexpired :: "thr \<Rightarrow> bool"
  ihashes :: "int \<Rightarrow> (int \<Rightarrow> int option) option"
  sigs :: signals

type_synonym 'a pt = "(pt_state, 'a) prog"

abbreviation upd_mutex :: "maddr \<Rightarrow> (pthread_mutex \<Rightarrow> pthread_mutex) \<Rightarrow> pt_state \<Rightarrow> pt_state" where
  "upd_mutex m f s \<equiv> s\<lparr>mutexes := (mutexes s)(m := f (mutexes s m))\<rparr>"

abbreviation upd_spin :: "spinaddr \<Rightarrow> int \<Rightarrow> pt_state \<Rightarrow> pt_state" where
  "upd_spin l v s \<equiv> s\<lparr>spin := (spin s)(l := v)\<rparr>"

abbreviation upd_rwlock ::
    "rwaddr \<Rightarrow> (pthread_rwlock \<Rightarrow> pthread_rwlock) \<Rightarrow> pt_state \<Rightarrow> pt_state" where
  "upd_rwlock r f s \<equiv> s\<lparr>rwlocks := (rwlocks s)(r := f (rwlocks s r))\<rparr>"

abbreviation upd_sem :: "saddr \<Rightarrow> (semaphore \<Rightarrow> semaphore) \<Rightarrow> pt_state \<Rightarrow> pt_state" where
  "upd_sem x f s \<equiv> s\<lparr>sems := (sems s)(x := f (sems s x))\<rparr>"

abbreviation upd_barrier ::
    "baddr \<Rightarrow> (pthread_barrier \<Rightarrow> pthread_barrier) \<Rightarrow> pt_state \<Rightarrow> pt_state" where
  "upd_barrier b f s \<equiv> s\<lparr>barriers := (barriers s)(b := f (barriers s b))\<rparr>"

abbreviation upd_sigstate ::
    "thr \<Rightarrow> (hurd_sigstate \<Rightarrow> hurd_sigstate) \<Rightarrow> pt_state \<Rightarrow> pt_state" where
  "upd_sigstate t f s \<equiv> s\<lparr>sigstates := (sigstates s)(t := f (sigstates s t))\<rparr>"

abbreviation upd_pthread :: "thr \<Rightarrow> (pthread \<Rightarrow> pthread) \<Rightarrow> pt_state \<Rightarrow> pt_state" where
  "upd_pthread t f s \<equiv> s\<lparr>pthreads := (pthreads s)(t := f (pthreads s t))\<rparr>"

text \<open>
  A process before its first call: every object zeroed, as static storage is, and the default
  attributes as \<^verbatim>\<open>pt-attr.c\<close> initialises them.
\<close>

definition zero_pthread :: pthread where
  "zero_pthread =
     \<lparr>p_thread = 0, p_cancel_hook = None, p_cancel_state = 0, p_cancel_type = 0,
      p_cancel_pending = 0, p_cancelation_handlers = [], p_stackaddr = 0, p_stacksize = 0,
      p_guardsize = 0, p_stack = 0, p_status = 0, p_state = PTHREAD_JOINABLE, p_pc = 0, p_sp = 0,
      p_tcb = 0, p_kernel_thread = 0, p_wakeup_port = 0, p_have_kernel_resources = 0,
      p_thread_specifics = 0\<rparr>"

definition zero_attr :: pthread_attr where
  "zero_attr =
     \<lparr>at_sched_priority = 0, at_stackaddr = 0, at_stacksize = 2097152, at_guardsize = 1,
      at_detachstate = 0, at_inheritsched = 0, at_contentionscope = 0, at_schedpolicy = 0\<rparr>"

definition zero_state :: pt_state where
  "zero_state =
     \<lparr>cell = (\<lambda>_. None), prevp = (\<lambda>_. None), spin = (\<lambda>_. 0),
      mutexes = (\<lambda>_. \<lparr>m_attr = Attr_null, m_owner = None, m_locks = 0\<rparr>),
      conds = (\<lambda>_. \<lparr>c_attr = None\<rparr>),
      rwlocks = (\<lambda>_. \<lparr>rw_readers = 0, rw_attr = None\<rparr>),
      sems = (\<lambda>_. \<lparr>sem_pshared = 0, sem_value = 0\<rparr>),
      barriers = (\<lambda>_. \<lparr>b_pending = 0, b_count = 0, b_attr = None\<rparr>),
      onces = (\<lambda>_. \<lparr>once_run = 0\<rparr>), pthreads = (\<lambda>_. zero_pthread),
      errno = (\<lambda>_. OK), threads_ptr = 0, threads_tab = [], max_threads = 0, num_threads = 0, total_threads = 0,
      default_attr = zero_attr, concurrency = 0, clock_avail = 0, key_destructors = [],
      key_size = 0, key_count = 0, key_invalid_count = 0, key_index = 0,
      sigstates = (\<lambda>_. \<lparr>hss_blocked = 0, hss_pending = 0, hss_intr_port = 0, hss_cancel = 0,
        hss_cancel_hook = None\<rparr>), next_stack_base = 0, threadvar_stack_mask = 0,
      threadvar_stack_offset = 0, tcb_self = (\<lambda>_. 0), tcb_tcb = (\<lambda>_. 0), tls_self = (\<lambda>_. None), stack_mem = (\<lambda>_. 0),
      kmsgs = (\<lambda>_. 0), kexpired = (\<lambda>_. False), ihashes = (\<lambda>_. None),
      sigs = zero_signals\<rparr>"

lemma zero_state_simps [simp]:
  "cell zero_state = (\<lambda>_. None)" "prevp zero_state = (\<lambda>_. None)" "spin zero_state = (\<lambda>_. 0)"
  "mutexes zero_state = (\<lambda>_. \<lparr>m_attr = Attr_null, m_owner = None, m_locks = 0\<rparr>)"
  "conds zero_state = (\<lambda>_. \<lparr>c_attr = None\<rparr>)"
  "rwlocks zero_state = (\<lambda>_. \<lparr>rw_readers = 0, rw_attr = None\<rparr>)"
  "sems zero_state = (\<lambda>_. \<lparr>sem_pshared = 0, sem_value = 0\<rparr>)"
  "barriers zero_state = (\<lambda>_. \<lparr>b_pending = 0, b_count = 0, b_attr = None\<rparr>)"
  "onces zero_state = (\<lambda>_. \<lparr>once_run = 0\<rparr>)" "pthreads zero_state = (\<lambda>_. zero_pthread)"
  "errno zero_state = (\<lambda>_. OK)" "threads_ptr zero_state = 0" "threads_tab zero_state = []" "max_threads zero_state = 0"
  "num_threads zero_state = 0" "total_threads zero_state = 0" "default_attr zero_state = zero_attr"
  "concurrency zero_state = 0" "clock_avail zero_state = 0" "key_destructors zero_state = []"
  "key_size zero_state = 0" "key_count zero_state = 0" "key_invalid_count zero_state = 0"
  "key_index zero_state = 0"
  "sigstates zero_state = (\<lambda>_. \<lparr>hss_blocked = 0, hss_pending = 0, hss_intr_port = 0, hss_cancel = 0,
        hss_cancel_hook = None\<rparr>)" "next_stack_base zero_state = 0"
  "threadvar_stack_mask zero_state = 0" "threadvar_stack_offset zero_state = 0"
  "tcb_self zero_state = (\<lambda>_. 0)" "tcb_tcb zero_state = (\<lambda>_. 0)" "tls_self zero_state = (\<lambda>_. None)" "stack_mem zero_state = (\<lambda>_. 0)"
  "ihashes zero_state = (\<lambda>_. None)" "sigs zero_state = zero_signals"
  "kmsgs zero_state = (\<lambda>_. 0)" "kexpired zero_state = (\<lambda>_. False)"
  by (simp_all add: zero_state_def)

end
