(* ===== verification/Spin_Lock.thy ===== *)
theory Spin_Lock
  imports Pt_State
begin

text \<open>
  Spin locks (\<^verbatim>\<open>sysdeps/i386/bits/spin-lock-inline.h\<close>, \<^verbatim>\<open>sysdeps/posix/pt-spin.c\<close>) and the shape that
  the critical sections of the synchronisation objects have.  A section under a spin lock without a
  call to outside code is one atomic action here: nobody who respects the lock sees the state in
  between.  A section that returns without unlocking leaves the lock word at 1, and every later
  section on that lock waits forever.
\<close>

section \<open>Operations\<close>

text \<open>\<^verbatim>\<open>xchgl\<close> of 1 into the lock word.\<close>

definition pthread_spin_trylock :: "spinaddr \<Rightarrow> pt_state \<Rightarrow> rc \<times> pt_state" where
  "pthread_spin_trylock l s = (if spin s l \<noteq> 0 then EBUSY else OK, upd_spin l 1 s)"

definition pthread_spin_unlock :: "spinaddr \<Rightarrow> pt_state \<Rightarrow> pt_state" where
  "pthread_spin_unlock l s = upd_spin l 0 s"

definition pthread_spin_init :: "spinaddr \<Rightarrow> pt_state \<Rightarrow> rc \<times> pt_state" where
  "pthread_spin_init l s = (OK, upd_spin l 0 s)"

definition pthread_spin_destroy :: "spinaddr \<Rightarrow> pt_state \<Rightarrow> rc \<times> pt_state" where
  "pthread_spin_destroy l s = (OK, s)"

definition spin_trylock_p :: "spinaddr \<Rightarrow> rc pt" where
  "spin_trylock_p l =
     section_of (\<lambda>_. True) (\<lambda>s. case pthread_spin_trylock l s of (r, s') \<Rightarrow> (Inr r, s'))"

text \<open>The inner \<^verbatim>\<open>for\<close> loop of the spinning slow path, for \<open>i\<close> more attempts.\<close>

primrec spin_attempts :: "nat \<Rightarrow> spinaddr \<Rightarrow> bool pt" where
  "spin_attempts 0 l = Return False"
| "spin_attempts (Suc i) l =
     andthen (spin_trylock_p l) (\<lambda>r. if r = OK then Return True else spin_attempts i l)"

text \<open>The slow path, for \<open>n\<close> rounds of the outer loop; it does not return within fewer.\<close>

primrec spin_lock_slow :: "nat \<Rightarrow> nat \<Rightarrow> spinaddr \<Rightarrow> rc pt" where
  "spin_lock_slow 0 spin_count l = stuck"
| "spin_lock_slow (Suc n) spin_count l =
     andthen (spin_attempts spin_count l) (\<lambda>got.
       if got then Return OK
       else andthen (syscall Sched_yield) (\<lambda>_. spin_lock_slow n spin_count l))"

text \<open>The inline fast path: one attempt, then the slow path.\<close>

definition pthread_spin_lock :: "nat \<Rightarrow> nat \<Rightarrow> spinaddr \<Rightarrow> rc pt" where
  "pthread_spin_lock n spin_count l =
     andthen (spin_trylock_p l) (\<lambda>r.
       if r \<noteq> OK then spin_lock_slow n spin_count l else Return OK)"

text \<open>Its specification: wait until the word is 0 and set it to 1.\<close>

definition spin_acquire :: "spinaddr \<Rightarrow> rc pt" where
  "spin_acquire l = Act (\<lambda>s. spin s l = 0) (upd_spin l 1) (\<lambda>_. Return OK)"

definition spin_release :: "spinaddr \<Rightarrow> unit pt" where
  "spin_release l = modify (pthread_spin_unlock l)"

text \<open>
  A critical section: \<^verbatim>\<open>__pthread_spin_lock (l)\<close> and the code up to the matching unlock (or the
  return that forgets it).  \<open>f\<close> is applied to the state with the lock taken.
\<close>

definition spin_section ::
    "spinaddr \<Rightarrow> (pt_state \<Rightarrow> (fault + 'a) \<times> pt_state) \<Rightarrow> 'a pt" where
  "spin_section l f = section_of (\<lambda>s. spin s l = 0) (\<lambda>s. f (upd_spin l 1 s))"

section \<open>Properties\<close>

lemma run_spin_section [run_simps]:
  "run (spin_section l f) h s =
     (if spin s l = 0 then
        (case fst (f (upd_spin l 1 s)) of
           Inl e \<Rightarrow> Failed e (snd (f (upd_spin l 1 s)))
         | Inr a \<Rightarrow> Done a (snd (f (upd_spin l 1 s))))
      else Waiting (spin_section l f) s)"
  by (simp add: spin_section_def run_simps)

lemma pstep_spin_section:
  "pstep h (andthen (spin_section l f) k) s p s' \<longleftrightarrow>
     spin s l = 0 \<and> s' = snd (f (upd_spin l 1 s)) \<and>
     p = (case fst (f (upd_spin l 1 s)) of Inl e \<Rightarrow> Crash e | Inr x \<Rightarrow> k x)"
  by (auto simp: spin_section_def andthen_section_of pstep_iffs)

lemma pstep_spin_section_last:
  "pstep h (spin_section l f) s p s' \<longleftrightarrow>
     spin s l = 0 \<and> s' = snd (f (upd_spin l 1 s)) \<and>
     p = (case fst (f (upd_spin l 1 s)) of Inl e \<Rightarrow> Crash e | Inr x \<Rightarrow> Return x)"
  using pstep_spin_section [of h l f Return] by simp

lemma run_spin_acquire [run_simps]:
  "run (spin_acquire l) h s =
     (if spin s l = 0 then Done OK (upd_spin l 1 s) else Waiting (spin_acquire l) s)"
  by (simp add: spin_acquire_def)

lemma run_spin_release [run_simps]:
  "run (spin_release l) h s = Done () (upd_spin l 0 s)"
  by (simp add: spin_release_def pthread_spin_unlock_def run_simps)

lemma run_spin_trylock_p [run_simps]:
  "run (spin_trylock_p l) h s = Done (if spin s l \<noteq> 0 then EBUSY else OK) (upd_spin l 1 s)"
  by (simp add: spin_trylock_p_def pthread_spin_trylock_def run_simps)

lemma requests_spin [requests_simps]:
  "requests (spin_section l f) h s = []" "requests (spin_acquire l) h s = []" "requests (spin_release l) h s = []"
  by (simp_all add: spin_section_def spin_acquire_def spin_release_def requests_simps)

lemma upd_spin_same [simp]: "spin s l = v \<Longrightarrow> upd_spin l v s = s"
  by (simp add: fun_upd_idem)

lemma run_spin_attempts_free:
  "spin s l = 0 \<Longrightarrow> run (spin_attempts (Suc i) l) h s = Done True (upd_spin l 1 s)"
  by (simp add: run_simps)

lemma run_spin_attempts_busy:
  "spin s l = 1 \<Longrightarrow> run (spin_attempts i l) h s = Done False s"
  by (induction i) (simp_all add: run_simps)

text \<open>The steps of a failing attempt leave a held lock as it is, so spinning disturbs nobody.\<close>

lemma spin_trylock_busy_no_effect:
  "spin s l = 1 \<Longrightarrow> snd (pthread_spin_trylock l s) = s"
  by (simp add: pthread_spin_trylock_def)

text \<open>
  The states \<open>\<sigma> 0\<close>, \<open>\<sigma> 1\<close>, \<open>\<dots>\<close> in which the caller comes back from its yields: others may have changed
  anything in between, but before the \<open>k\<close>-th of them nobody has released the lock.
\<close>

definition yields_to :: "pt_state env \<Rightarrow> (nat \<Rightarrow> pt_state) \<Rightarrow> nat \<Rightarrow> spinaddr \<Rightarrow> bool" where
  "yields_to h \<sigma> k l \<longleftrightarrow>
     (\<forall>i<k. spin (\<sigma> i) l = 1 \<and> (\<exists>r. h Sched_yield (\<sigma> i) = Some (r, \<sigma> (Suc i))))"

lemma run_spin_lock_slow:
  assumes "yields_to h \<sigma> k l" and "0 < c"
  shows "j + n \<le> k \<Longrightarrow> run (spin_lock_slow n c l) h (\<sigma> j) = Waiting stuck (\<sigma> (j + n))"
    and "spin (\<sigma> k) l = 0 \<Longrightarrow> j \<le> k \<Longrightarrow> k < j + n \<Longrightarrow>
      run (spin_lock_slow n c l) h (\<sigma> j) = Done OK (upd_spin l 1 (\<sigma> k))"
proof (induction n arbitrary: j)
  case 0
  {
    case 1
    then show ?case by (simp add: stuck_def)
  next
    case 2
    then show ?case by simp
  }
next
  case (Suc n)
  have y: "run (spin_lock_slow (Suc n) c l) h (\<sigma> j) = run (spin_lock_slow n c l) h (\<sigma> (Suc j))" if "j < k" for j
  proof -
    from that assms(1) obtain r where "h Sched_yield (\<sigma> j) = Some (r, \<sigma> (Suc j))" "spin (\<sigma> j) l = 1"
      unfolding yields_to_def by blast
    then show ?thesis by (simp add: run_simps run_spin_attempts_busy)
  qed
  {
    case 1
    then have "j < k" by simp
    note y [OF this]
    with 1 Suc.IH(1) [of "Suc j"] show ?case by (simp del: spin_lock_slow.simps)
  next
    case 2
    obtain c' where c: "c = Suc c'" using assms(2) by (cases c) auto
    show ?case
    proof (cases "j = k")
      case True
      with 2(1) c run_spin_attempts_free [of "\<sigma> k" l c' h] show ?thesis
        by (simp add: run_simps fun_upd_def del: spin_attempts.simps)
    next
      case False
      with 2 have "j < k" by simp
      note y [OF this]
      with 2 False Suc.IH(2) [of "Suc j"] show ?thesis by (simp del: spin_lock_slow.simps)
    qed
  }
qed

text \<open>
  C32: The spin lock operation, its inline attempt followed by the loop of attempts and yields, meets its specification
  \<open>spin_acquire\<close>: it takes the lock and returns 0 in the first state in which it finds it free after a yield, whatever
  others have done meanwhile, provided that the loop is given more rounds than it has to yield; until then it has not
  returned and has itself changed nothing, however many rounds it has spun.
\<close>

theorem spin_lock_meets_spec:
  assumes "yields_to h \<sigma> k l" and "0 < spin_count"
  shows "(spin (\<sigma> k) l = 0 \<and> (k = 0 \<or> k < n) \<longrightarrow>
      run (pthread_spin_lock n spin_count l) h (\<sigma> 0) = run (spin_acquire l) h (\<sigma> k)) \<and>
    (0 < k \<and> n \<le> k \<longrightarrow> run (pthread_spin_lock n spin_count l) h (\<sigma> 0) = Waiting stuck (\<sigma> n))"
proof (cases "k = 0")
  case True
  then show ?thesis by (simp add: pthread_spin_lock_def run_simps)
next
  case False
  with assms(1) have "spin (\<sigma> 0) l = 1" by (simp add: yields_to_def)
  with run_spin_lock_slow [OF assms, of 0 n] False show ?thesis
    by (auto simp: pthread_spin_lock_def run_simps)
qed

text \<open>For the witness: while the caller yields for the first time, the lock is released.\<close>

definition release_env :: "pt_state env" where
  "release_env c s = Some ((OK, 0, 0), upd_spin (S_lock 0) 0 s)"

theorem spin_lock_meets_spec_witness:
  "run (pthread_spin_lock 3 1 (S_lock 0)) release_env (upd_spin (S_lock 0) 1 zero_state) =
     run (spin_acquire (S_lock 0)) release_env zero_state"
  using spin_lock_meets_spec [of release_env "\<lambda>i. if i = 0 then upd_spin (S_lock 0) 1 zero_state else zero_state"
      1 "S_lock 0" 1 3]
  by (simp add: yields_to_def release_env_def fun_upd_idem)

end
