(* ===== verification/Wait_Queue.thy ===== *)
theory Wait_Queue
  imports Pt_State
begin

text \<open>
  The intrusive queues of waiting threads (\<^verbatim>\<open>pthread/pt-internal.h\<close>): a thread structure carries
  a \<^verbatim>\<open>next\<close> pointer and a \<^verbatim>\<open>prevp\<close> pointer to the cell that points to it.  The operations below work
  on the cells, as the C code does.  The abstract view is one list of threads per queue head;
  \<open>queues\<close> relates the two, and the locale \<open>wait_queue\<close> states what the synchronisation
  objects rely on.
\<close>

section \<open>The operations\<close>

text \<open>\<open>None\<close> is a failed assertion.\<close>

definition pthread_enqueue :: "loc \<Rightarrow> thr \<Rightarrow> pt_state \<Rightarrow> pt_state option" where
  "pthread_enqueue head thread s =
     (if prevp s thread \<noteq> None then None
      else
        (let s1 = s\<lparr>cell := (cell s)(Next thread := cell s head),
                    prevp := (prevp s)(thread := Some head)\<rparr>;
             s2 = (case cell s1 head of
                     None \<Rightarrow> s1
                   | Some t \<Rightarrow> s1\<lparr>prevp := (prevp s1)(t := Some (Next thread))\<rparr>)
         in Some (s2\<lparr>cell := (cell s2)(head := Some thread)\<rparr>)))"

definition pthread_dequeue :: "thr \<Rightarrow> pt_state \<Rightarrow> pt_state option" where
  "pthread_dequeue thread s =
     (case prevp s thread of
        None \<Rightarrow> None
      | Some l \<Rightarrow>
          (let s1 = (case cell s (Next thread) of
                       None \<Rightarrow> s
                     | Some n \<Rightarrow> s\<lparr>prevp := (prevp s)(n := Some l)\<rparr>);
               s2 = s1\<lparr>cell := (cell s1)(l := cell s1 (Next thread))\<rparr>
           in Some (s2\<lparr>prevp := (prevp s2)(thread := None)\<rparr>)))"

text \<open>
  \<^verbatim>\<open>__pthread_queue_iterate\<close>: the elements from a given one on, in the order in which the loop
  visits them.  The loop follows the \<^verbatim>\<open>next\<close> cells, which the first argument bounds.
\<close>

fun pthread_queue_iterate :: "nat \<Rightarrow> thr option \<Rightarrow> pt_state \<Rightarrow> thr list option" where
  "pthread_queue_iterate n None s = Some []"
| "pthread_queue_iterate 0 (Some t) s = None"
| "pthread_queue_iterate (Suc n) (Some t) s =
     map_option ((#) t) (pthread_queue_iterate n (cell s (Next t)) s)"

text \<open>
  \<^verbatim>\<open>__pthread_dequeuing_iterate\<close>: each round loads the next element, clears the \<^verbatim>\<open>prevp\<close> of the
  current one and executes the body.  The first argument bounds the number of rounds; a longer walk
  does not return.
\<close>

fun pthread_dequeuing_iterate :: "nat \<Rightarrow> thr option \<Rightarrow> (thr \<Rightarrow> unit pt) \<Rightarrow> unit pt" where
  "pthread_dequeuing_iterate n None body = Return ()"
| "pthread_dequeuing_iterate 0 (Some t) body = stuck"
| "pthread_dequeuing_iterate (Suc n) (Some t) body =
     Act (\<lambda>_. True) (\<lambda>s. s\<lparr>prevp := (prevp s)(t := None)\<rparr>)
       (\<lambda>s. andthen (body t)
         (\<lambda>_. pthread_dequeuing_iterate n (cell s (Next t)) body))"

section \<open>The abstract view\<close>

fun is_head :: "loc \<Rightarrow> bool" where
  "is_head (Next t) = False"
| "is_head _ = True"

text \<open>\<open>chain c p l xs\<close>: from cell \<open>l\<close> on, the links spell the list \<open>xs\<close>.\<close>

primrec chain :: "(loc \<Rightarrow> thr option) \<Rightarrow> (thr \<Rightarrow> loc option) \<Rightarrow> loc \<Rightarrow> thr list \<Rightarrow> bool" where
  "chain c p l [] \<longleftrightarrow> c l = None"
| "chain c p l (x # xs) \<longleftrightarrow> c l = Some x \<and> p x = Some l \<and> chain c p (Next x) xs"

type_synonym queue_view = "loc \<Rightarrow> thr list"

definition linked :: "(loc \<Rightarrow> thr option) \<Rightarrow> (thr \<Rightarrow> loc option) \<Rightarrow> queue_view \<Rightarrow> bool" where
  "linked c p Q \<longleftrightarrow>
     (\<forall>h. is_head h \<longrightarrow> chain c p h (Q h)) \<and>
     (\<forall>t. p t \<noteq> None \<longrightarrow> (\<exists>h. is_head h \<and> t \<in> set (Q h)))"

abbreviation queues :: "pt_state \<Rightarrow> queue_view \<Rightarrow> bool" where
  "queues s Q \<equiv> linked (cell s) (prevp s) Q"

abbreviation queued :: "pt_state \<Rightarrow> thr \<Rightarrow> bool" where
  "queued s t \<equiv> prevp s t \<noteq> None"

section \<open>The contract\<close>

locale wait_queue =
  fixes valid :: "'h \<Rightarrow> bool"
    and enq :: "'h \<Rightarrow> 't \<Rightarrow> 's \<Rightarrow> 's option"
    and deq :: "'t \<Rightarrow> 's \<Rightarrow> 's option"
    and first :: "'s \<Rightarrow> 'h \<Rightarrow> 't option"
    and waits :: "'s \<Rightarrow> 't \<Rightarrow> bool"
    and view :: "'s \<Rightarrow> ('h \<Rightarrow> 't list) \<Rightarrow> bool"
  assumes enq_ok: "view s Q \<Longrightarrow> valid h \<Longrightarrow> \<not> waits s t \<Longrightarrow>
      \<exists>s'. enq h t s = Some s' \<and> view s' (Q(h := t # Q h))"
    and enq_twice: "waits s t \<Longrightarrow> enq h t s = None"
    and deq_ok: "view s Q \<Longrightarrow> valid h \<Longrightarrow> t \<in> set (Q h) \<Longrightarrow>
      \<exists>s'. deq t s = Some s' \<and> view s' (Q(h := removeAll t (Q h)))"
    and deq_none: "\<not> waits s t \<Longrightarrow> deq t s = None"
    and first_view: "view s Q \<Longrightarrow> valid h \<Longrightarrow>
      first s h = (case Q h of [] \<Rightarrow> None | t # _ \<Rightarrow> Some t)"
    and waits_view: "view s Q \<Longrightarrow> waits s t \<longleftrightarrow> (\<exists>h. valid h \<and> t \<in> set (Q h))"
    and view_distinct: "view s Q \<Longrightarrow> valid h \<Longrightarrow> distinct (Q h)"
    and view_disjoint: "view s Q \<Longrightarrow> valid h \<Longrightarrow> valid h' \<Longrightarrow>
      t \<in> set (Q h) \<Longrightarrow> t \<in> set (Q h') \<Longrightarrow> h = h'"
begin

text \<open>Taking the first waiter off a queue, as every wakeup of one thread does.\<close>

lemma deq_first:
  assumes "view s Q" and "valid h" and "Q h = t # ts"
  shows "first s h = Some t"
    and "\<exists>s'. deq t s = Some s' \<and> view s' (Q(h := ts)) \<and> \<not> waits s' t"
proof -
  show "first s h = Some t" using assms by (simp add: first_view)
  from view_distinct [OF assms(1,2)] assms(3) have nt: "t \<notin> set ts" by simp
  from deq_ok [OF assms(1,2), of t] assms(3) nt
  obtain s' where s': "deq t s = Some s'" "view s' (Q(h := ts))" by auto
  moreover have "\<not> waits s' t"
  proof
    assume "waits s' t"
    then obtain h' where h': "valid h'" "t \<in> set ((Q(h := ts)) h')"
      using s'(2) waits_view by blast
    with nt have "h' \<noteq> h" "t \<in> set (Q h')" by (auto split: if_splits)
    with view_disjoint [OF assms(1,2) h'(1), of t] assms(3) show False by simp
  qed
  ultimately show "\<exists>s'. deq t s = Some s' \<and> view s' (Q(h := ts)) \<and> \<not> waits s' t" by blast
qed

text \<open>A thread that enqueues itself and is taken off again leaves every queue as it was.\<close>

lemma enq_deq:
  assumes "view s Q" and "valid h" and "\<not> waits s t"
  shows "\<exists>s1 s2. enq h t s = Some s1 \<and> deq t s1 = Some s2 \<and> view s2 Q"
proof -
  obtain s1 where s1: "enq h t s = Some s1" "view s1 (Q(h := t # Q h))"
    using enq_ok [OF assms] by blast
  from deq_first(2) [OF s1(2) assms(2), of t "Q h"]
  obtain s2 where "deq t s1 = Some s2" "view s2 (Q(h := t # Q h, h := Q h))" by auto
  with s1(1) show ?thesis by auto
qed

text \<open>The queues are last in, first out: the newest waiter is the one that is woken.\<close>

lemma enq_is_first:
  assumes "view s Q" and "valid h" and "\<not> waits s t"
  shows "\<exists>s1. enq h t s = Some s1 \<and> first s1 h = Some t \<and> waits s1 t"
proof -
  obtain s1 where s1: "enq h t s = Some s1" "view s1 (Q(h := t # Q h))"
    using enq_ok [OF assms] by blast
  from s1(2) assms(2) have "first s1 h = Some t" by (simp add: first_view)
  moreover from s1(2) assms(2) have "waits s1 t" by (fastforce simp: waits_view)
  ultimately show ?thesis using s1(1) by blast
qed

end

section \<open>Chains\<close>

text \<open>\<open>seg c p l xs\<close>: the links from \<open>l\<close> on spell \<open>xs\<close>; \<open>tail_loc l xs\<close> is the cell behind it.\<close>

primrec seg :: "(loc \<Rightarrow> thr option) \<Rightarrow> (thr \<Rightarrow> loc option) \<Rightarrow> loc \<Rightarrow> thr list \<Rightarrow> bool" where
  "seg c p l [] \<longleftrightarrow> True"
| "seg c p l (x # xs) \<longleftrightarrow> c l = Some x \<and> p x = Some l \<and> seg c p (Next x) xs"

definition tail_loc :: "loc \<Rightarrow> thr list \<Rightarrow> loc" where
  "tail_loc l xs = (if xs = [] then l else Next (last xs))"

lemma tail_loc_simps [simp]:
  "tail_loc l [] = l"
  "tail_loc l (x # xs) = tail_loc (Next x) xs"
  by (auto simp: tail_loc_def)

lemma chain_append:
  "chain c p l (xs @ ys) \<longleftrightarrow> seg c p l xs \<and> chain c p (tail_loc l xs) ys"
  by (induction xs arbitrary: l) auto

lemma chain_nth:
  "chain c p l xs \<Longrightarrow> i < length xs \<Longrightarrow>
     p (xs ! i) = Some (case i of 0 \<Rightarrow> l | Suc j \<Rightarrow> Next (xs ! j))"
  by (induction xs arbitrary: l i) (auto simp: nth_Cons split: nat.splits)

lemma chain_prevp: "chain c p l xs \<Longrightarrow> t \<in> set xs \<Longrightarrow> p t \<noteq> None"
  by (induction xs arbitrary: l) auto

lemma chain_nth_inj:
  assumes "chain c p h xs" and "chain c p h' ys" and "is_head h" and "is_head h'"
  shows "i < length xs \<Longrightarrow> j < length ys \<Longrightarrow> xs ! i = ys ! j \<Longrightarrow> i = j \<and> h = h'"
proof (induction i arbitrary: j)
  case 0
  then show ?case
    using chain_nth [OF assms(1), of 0] chain_nth [OF assms(2), of j] assms(3)
    by (auto split: nat.splits)
next
  case (Suc i)
  then obtain j' where j: "j = Suc j'"
    using chain_nth [OF assms(1), of "Suc i"] chain_nth [OF assms(2), of j] assms(4)
    by (auto split: nat.splits)
  with Suc.prems have "xs ! i = ys ! j'"
    using chain_nth [OF assms(1), of "Suc i"] chain_nth [OF assms(2), of j] by auto
  with Suc.IH [of j'] Suc.prems j show ?case by simp
qed

lemma chain_distinct: "chain c p h xs \<Longrightarrow> is_head h \<Longrightarrow> distinct xs"
  unfolding distinct_conv_nth using chain_nth_inj by blast

lemma chain_disjoint:
  assumes "chain c p h xs" and "chain c p h' ys" and "is_head h" and "is_head h'"
    and "t \<in> set xs" and "t \<in> set ys"
  shows "h = h'"
  using assms(5,6) chain_nth_inj [OF assms(1-4)] by (metis in_set_conv_nth)

lemma seg_cong:
  "seg c p l xs \<Longrightarrow> (\<And>x. x \<in> set xs \<Longrightarrow> p' x = p x) \<Longrightarrow> (xs \<noteq> [] \<Longrightarrow> c' l = c l) \<Longrightarrow>
     (\<And>x. x \<in> set (butlast xs) \<Longrightarrow> c' (Next x) = c (Next x)) \<Longrightarrow> seg c' p' l xs"
proof (induction xs arbitrary: l)
  case (Cons x xs)
  then have "xs \<noteq> [] \<Longrightarrow> seg c' p' (Next x) xs" by simp
  then have "seg c' p' (Next x) xs" by (cases "xs = []") simp_all
  with Cons.prems show ?case by simp
qed simp

lemma chain_cong:
  "chain c p l xs \<Longrightarrow> (\<And>x. x \<in> set xs \<Longrightarrow> p' x = p x) \<Longrightarrow> c' l = c l \<Longrightarrow>
     (\<And>x. x \<in> set xs \<Longrightarrow> c' (Next x) = c (Next x)) \<Longrightarrow> chain c' p' l xs"
  by (induction xs arbitrary: l) auto

lemma head_not_Next [simp]: "is_head h \<Longrightarrow> h \<noteq> Next t" "is_head h \<Longrightarrow> Next t \<noteq> h"
  by auto

section \<open>The operations keep the links\<close>

lemma linkedD:
  assumes "linked c p Q"
  shows "is_head h \<Longrightarrow> chain c p h (Q h)"
    and "p t \<noteq> None \<Longrightarrow> \<exists>h. is_head h \<and> t \<in> set (Q h)"
  using assms by (auto simp: linked_def)

lemma linked_distinct: "linked c p Q \<Longrightarrow> is_head h \<Longrightarrow> distinct (Q h)"
  by (blast intro: chain_distinct dest: linkedD)

lemma linked_disjoint:
  "linked c p Q \<Longrightarrow> is_head h \<Longrightarrow> is_head h' \<Longrightarrow> t \<in> set (Q h) \<Longrightarrow> t \<in> set (Q h') \<Longrightarrow> h = h'"
  by (blast intro: chain_disjoint dest: linkedD)

lemma linked_prevp_iff:
  "linked c p Q \<Longrightarrow> p t \<noteq> None \<longleftrightarrow> (\<exists>h. is_head h \<and> t \<in> set (Q h))"
  by (meson chain_prevp linkedD)

text \<open>The links after an enqueue and after a dequeue, as maps.\<close>

definition enq_links ::
    "loc \<Rightarrow> thr \<Rightarrow> (loc \<Rightarrow> thr option) \<Rightarrow> (thr \<Rightarrow> loc option) \<Rightarrow>
     (loc \<Rightarrow> thr option) \<times> (thr \<Rightarrow> loc option)" where
  "enq_links h t c p =
     (c(Next t := c h, h := Some t),
      (case c h of None \<Rightarrow> p(t := Some h) | Some x \<Rightarrow> p(t := Some h, x := Some (Next t))))"

definition deq_links ::
    "loc \<Rightarrow> thr \<Rightarrow> (loc \<Rightarrow> thr option) \<Rightarrow> (thr \<Rightarrow> loc option) \<Rightarrow>
     (loc \<Rightarrow> thr option) \<times> (thr \<Rightarrow> loc option)" where
  "deq_links l t c p =
     (c(l := c (Next t)),
      (case c (Next t) of None \<Rightarrow> p(t := None) | Some n \<Rightarrow> p(n := Some l, t := None)))"

lemma chain_enq_same:
  assumes "chain c p h xs" and "is_head h" and "p t = None"
  shows "chain (fst (enq_links h t c p)) (snd (enq_links h t c p)) h (t # xs)"
proof (cases xs)
  case Nil
  with assms show ?thesis by (auto simp: enq_links_def)
next
  case (Cons x ys)
  have "distinct xs" using assms chain_distinct by blast
  moreover have "t \<notin> set xs" using assms chain_prevp by blast
  moreover have "chain c p (Next x) ys" using assms(1) Cons by simp
  then have "chain (c(Next t := c h, h := Some t)) (p(t := Some h, x := Some (Next t))) (Next x) ys"
    by (rule chain_cong) (use calculation Cons assms(2) in auto)
  ultimately show ?thesis using assms Cons by (auto simp: enq_links_def)
qed

lemma chain_enq_other:
  assumes "chain c p h xs" and "is_head h" and "p t = None"
    and "chain c p h' ys" and "is_head h'" and "h' \<noteq> h"
  shows "chain (fst (enq_links h t c p)) (snd (enq_links h t c p)) h' ys"
proof (rule chain_cong [OF assms(4)])
  fix y assume y: "y \<in> set ys"
  then have "y \<noteq> t" using assms chain_prevp by blast
  moreover have "c h \<noteq> Some y"
    using chain_disjoint [OF assms(1,4,2,5), of y] y assms(1,6) by (cases xs) auto
  ultimately show "snd (enq_links h t c p) y = p y"
    by (auto simp: enq_links_def split: option.splits)
  from \<open>y \<noteq> t\<close> show "fst (enq_links h t c p) (Next y) = c (Next y)"
    using assms(2) by (auto simp: enq_links_def)
qed (use assms in \<open>auto simp: enq_links_def\<close>)

lemma linked_enq:
  assumes "linked c p Q" and "is_head h" and "p t = None"
  shows "linked (fst (enq_links h t c p)) (snd (enq_links h t c p)) (Q(h := t # Q h))"
  unfolding linked_def
proof (intro conjI allI impI)
  fix h' assume "is_head h'"
  then show "chain (fst (enq_links h t c p)) (snd (enq_links h t c p)) h' ((Q(h := t # Q h)) h')"
    using chain_enq_same [OF linkedD(1) [OF assms(1,2)] assms(2,3)]
      chain_enq_other [OF linkedD(1) [OF assms(1,2)] assms(2,3) linkedD(1) [OF assms(1)]]
    by auto
next
  fix u assume u: "snd (enq_links h t c p) u \<noteq> None"
  show "\<exists>h'. is_head h' \<and> u \<in> set ((Q(h := t # Q h)) h')"
  proof (cases "u = t \<or> c h = Some u")
    case True
    then show ?thesis
      using linkedD(1) [OF assms(1,2)] assms(2)
      by (intro exI [of _ h]) (cases "Q h"; auto)
  next
    case False
    with u have "p u \<noteq> None" by (auto simp: enq_links_def split: option.splits if_splits)
    with linkedD(2) [OF assms(1)] obtain h' where "is_head h'" "u \<in> set (Q h')" by blast
    then show ?thesis by (intro exI [of _ h']) auto
  qed
qed

lemma chain_deq_same:
  assumes ch: "chain c p h (xs @ t # ys)" and hd: "is_head h"
  shows "p t = Some (tail_loc h xs)"
    and "chain (fst (deq_links (tail_loc h xs) t c p)) (snd (deq_links (tail_loc h xs) t c p))
           h (xs @ ys)"
proof -
  let ?l = "tail_loc h xs"
  let ?c = "fst (deq_links ?l t c p)" and ?p = "snd (deq_links ?l t c p)"
  from ch have sg: "seg c p h xs" and l: "p t = Some ?l" and tl: "chain c p (Next t) ys"
    by (simp_all add: chain_append)
  show "p t = Some ?l" by (rule l)
  have dist: "distinct (xs @ t # ys)" using chain_distinct [OF ch hd] .
  have p_xs: "?p x = p x" if "x \<in> set xs" for x
    using that dist tl by (cases ys) (auto simp: deq_links_def split: option.splits)
  have "seg ?c ?p h xs"
  proof (rule seg_cong [OF sg p_xs])
    show "?c h = c h" if "xs \<noteq> []"
      using that hd by (simp add: deq_links_def tail_loc_def)
    show "?c (Next x) = c (Next x)" if "x \<in> set (butlast xs)" for x
      using that dist hd
      by (cases xs rule: rev_cases) (auto simp: deq_links_def tail_loc_def)
  qed
  moreover have "chain ?c ?p ?l ys"
  proof (cases ys)
    case Nil
    with tl show ?thesis by (simp add: deq_links_def)
  next
    case (Cons n zs)
    with tl have n: "c (Next t) = Some n" "chain c p (Next n) zs" by simp_all
    have "last xs \<notin> set zs" if "xs \<noteq> []"
      using last_in_set [OF that] dist Cons by auto
    with n(2) have "chain ?c ?p (Next n) zs"
      by (elim chain_cong) (use dist Cons n hd in \<open>auto simp: deq_links_def tail_loc_def\<close>)
    with n Cons dist show ?thesis by (simp add: deq_links_def)
  qed
  ultimately show "chain ?c ?p h (xs @ ys)" by (simp add: chain_append)
qed

lemma chain_deq_other:
  assumes ch: "chain c p h (xs @ t # ys)" and hd: "is_head h"
    and ch': "chain c p h' zs" and hd': "is_head h'" and ne: "h' \<noteq> h"
  shows "chain (fst (deq_links (tail_loc h xs) t c p)) (snd (deq_links (tail_loc h xs) t c p)) h' zs"
proof (rule chain_cong [OF ch'])
  have disj: "z \<notin> set (xs @ t # ys)" if "z \<in> set zs" for z
    using chain_disjoint [OF ch ch' hd hd'] that ne by blast
  from ch have tl: "chain c p (Next t) ys" by (simp add: chain_append)
  fix z assume z: "z \<in> set zs"
  show "snd (deq_links (tail_loc h xs) t c p) z = p z"
    using disj [OF z] tl by (cases ys) (auto simp: deq_links_def split: option.splits)
  show "fst (deq_links (tail_loc h xs) t c p) (Next z) = c (Next z)"
    using disj [OF z] hd by (auto simp: deq_links_def tail_loc_def)
next
  show "fst (deq_links (tail_loc h xs) t c p) h' = c h'"
    using hd' ne by (auto simp: deq_links_def tail_loc_def)
qed

lemma linked_deq:
  assumes "linked c p Q" and "is_head h" and "t \<in> set (Q h)"
  obtains l where "p t = Some l"
    and "linked (fst (deq_links l t c p)) (snd (deq_links l t c p)) (Q(h := removeAll t (Q h)))"
proof -
  from assms(3) obtain xs ys where q: "Q h = xs @ t # ys" by (auto simp: in_set_conv_decomp)
  have ch: "chain c p h (xs @ t # ys)" using linkedD(1) [OF assms(1,2)] q by simp
  have rm: "removeAll t (Q h) = xs @ ys"
    using removeAll_distinct_split linked_distinct [OF assms(1,2)] q by metis
  let ?l = "tail_loc h xs"
  let ?c = "fst (deq_links ?l t c p)" and ?p = "snd (deq_links ?l t c p)"
  have "linked ?c ?p (Q(h := removeAll t (Q h)))"
    unfolding linked_def
  proof (intro conjI allI impI)
    fix h' assume "is_head h'"
    then show "chain ?c ?p h' ((Q(h := removeAll t (Q h))) h')"
      using chain_deq_same(2) [OF ch assms(2)] rm
        chain_deq_other [OF ch assms(2) linkedD(1) [OF assms(1)]] by auto
  next
    fix u assume u: "?p u \<noteq> None"
    then have ut: "u \<noteq> t" by (auto simp: deq_links_def split: option.splits)
    have "p u \<noteq> None \<or> c (Next t) = Some u"
      using u by (auto simp: deq_links_def split: option.splits if_splits)
    moreover have "u \<in> set (Q h)" if "c (Next t) = Some u"
      using that ch q by (cases ys) (auto simp: chain_append)
    ultimately obtain h' where "is_head h'" "u \<in> set (Q h')"
      using linkedD(2) [OF assms(1)] assms(2) by blast
    then show "\<exists>h'. is_head h' \<and> u \<in> set ((Q(h := removeAll t (Q h))) h')"
      using ut by (intro exI [of _ h']) auto
  qed
  with chain_deq_same(1) [OF ch assms(2)] show thesis by (rule that)
qed

section \<open>The contract holds\<close>

lemma pthread_enqueue_links:
  "is_head h \<Longrightarrow> prevp s t = None \<Longrightarrow>
   pthread_enqueue h t s =
     Some (s\<lparr>cell := fst (enq_links h t (cell s) (prevp s)),
             prevp := snd (enq_links h t (cell s) (prevp s))\<rparr>)"
  by (auto simp: pthread_enqueue_def enq_links_def Let_def split: option.splits)

lemma pthread_dequeue_links:
  "prevp s t = Some l \<Longrightarrow>
   pthread_dequeue t s =
     Some (s\<lparr>cell := fst (deq_links l t (cell s) (prevp s)),
             prevp := snd (deq_links l t (cell s) (prevp s))\<rparr>)"
  by (auto simp: pthread_dequeue_def deq_links_def Let_def split: option.splits)

interpretation wq: wait_queue is_head pthread_enqueue pthread_dequeue cell queued queues
proof unfold_locales
  fix s Q h t
  assume a: "queues s Q" "is_head h" "\<not> queued s t"
  then show "\<exists>s'. pthread_enqueue h t s = Some s' \<and> queues s' (Q(h := t # Q h))"
    using linked_enq [OF a(1,2)] by (simp add: pthread_enqueue_links)
next
  fix s :: pt_state and Q h t
  assume a: "queues s Q" "is_head h" "t \<in> set (Q h)"
  from linked_deq [OF a] obtain l where l: "prevp s t = Some l"
    "linked (fst (deq_links l t (cell s) (prevp s))) (snd (deq_links l t (cell s) (prevp s)))
       (Q(h := removeAll t (Q h)))" .
  then show "\<exists>s'. pthread_dequeue t s = Some s' \<and> queues s' (Q(h := removeAll t (Q h)))"
    by (simp add: pthread_dequeue_links)
next
  fix s :: pt_state and Q h
  assume "queues s Q" "is_head h"
  then show "cell s h = (case Q h of [] \<Rightarrow> None | t # _ \<Rightarrow> Some t)"
    by (auto dest!: linkedD(1) split: list.splits)
next
  fix s :: pt_state and Q t
  assume "queues s Q"
  then show "queued s t \<longleftrightarrow> (\<exists>h. is_head h \<and> t \<in> set (Q h))" by (rule linked_prevp_iff)
qed (auto simp: pthread_enqueue_def pthread_dequeue_def
          intro: linked_distinct dest: linked_disjoint)

text \<open>Enqueueing and dequeueing change the links only.\<close>

lemma pthread_enqueue_frame:
  "pthread_enqueue h t s = Some s' \<Longrightarrow> s' = s\<lparr>cell := cell s', prevp := prevp s'\<rparr>"
  by (auto simp: pthread_enqueue_def Let_def split: if_splits option.splits)

lemma pthread_dequeue_frame:
  "pthread_dequeue t s = Some s' \<Longrightarrow> s' = s\<lparr>cell := cell s', prevp := prevp s'\<rparr>"
  by (auto simp: pthread_dequeue_def Let_def split: if_splits option.splits)

text \<open>Clearing the \<^verbatim>\<open>prevp\<close> of all elements and then the head empties the queue.\<close>

lemma linked_clear:
  assumes "linked c p Q" and "is_head h"
  shows "linked (c(h := None)) (\<lambda>t. if t \<in> set (Q h) then None else p t) (Q(h := []))"
  unfolding linked_def
proof (intro conjI allI impI)
  fix h' assume h': "is_head h'"
  show "chain (c(h := None)) (\<lambda>t. if t \<in> set (Q h) then None else p t) h' ((Q(h := [])) h')"
  proof (cases "h' = h")
    case False
    have "chain (c(h := None)) (\<lambda>t. if t \<in> set (Q h) then None else p t) h' (Q h')"
      by (rule chain_cong [OF linkedD(1) [OF assms(1) h']])
        (use False assms h' linked_disjoint [OF assms(1,2) h'] in auto)
    with False show ?thesis by simp
  qed simp
next
  fix t assume "(if t \<in> set (Q h) then None else p t) \<noteq> None"
  then have "t \<notin> set (Q h)" "p t \<noteq> None" by (auto split: if_splits)
  with linkedD(2) [OF assms(1)] show "\<exists>h'. is_head h' \<and> t \<in> set ((Q(h := [])) h')"
    by (metis fun_upd_other)
qed

text \<open>The dequeuing loop executes its body once for every element, in the order of the queue.\<close>

definition clear_prevp :: "thr \<Rightarrow> pt_state \<Rightarrow> pt_state" where
  "clear_prevp t s = s\<lparr>prevp := (prevp s)(t := None)\<rparr>"

lemma dequeuing_iterate_Suc:
  "pthread_dequeuing_iterate (Suc n) (Some t) body =
     Act (\<lambda>_. True) (clear_prevp t)
       (\<lambda>s. andthen (body t) (\<lambda>_. pthread_dequeuing_iterate n (cell s (Next t)) body))"
  by (simp add: clear_prevp_def [abs_def])

primrec path :: "(loc \<Rightarrow> thr option) \<Rightarrow> thr option \<Rightarrow> thr list \<Rightarrow> bool" where
  "path c st [] \<longleftrightarrow> st = None"
| "path c st (t # ts) \<longleftrightarrow> st = Some t \<and> path c (c (Next t)) ts"

lemma chain_path: "chain c p l ts \<Longrightarrow> path c (c l) ts"
  by (induction ts arbitrary: l) auto

lemma path_cong: "path c st ts \<Longrightarrow> (\<And>t. t \<in> set ts \<Longrightarrow> c' (Next t) = c (Next t)) \<Longrightarrow> path c' st ts"
  by (induction ts arbitrary: st) auto

lemma run_dequeuing_iterate:
  assumes "path (cell s) st ts" and "length ts \<le> n" and "distinct ts"
    and "\<And>t. t \<in> set ts \<Longrightarrow> ok t s"
    and body: "\<And>t s'. t \<in> set ts \<Longrightarrow> ok t (clear_prevp t s') \<Longrightarrow>
      run (body t) h (clear_prevp t s') = Done () (f t (clear_prevp t s'))"
    and keep: "\<And>t s'. cell (f t (clear_prevp t s')) = cell s'"
    and stays: "\<And>t u s'. ok t s' \<Longrightarrow> ok t (clear_prevp t s')"
      "\<And>t u s'. ok t s' \<Longrightarrow> u \<noteq> t \<Longrightarrow> ok t (f u (clear_prevp u s'))"
  shows "run (pthread_dequeuing_iterate n st body) h s =
    Done () (fold (\<lambda>t s. f t (clear_prevp t s)) ts s)"
  using assms(1-4) body
proof (induction ts arbitrary: s st n)
  case Nil
  then show ?case by simp
next
  case (Cons t ts)
  let ?s = "f t (clear_prevp t s)"
  from Cons.prems(2) obtain k where n: "n = Suc k" "length ts \<le> k" by (cases n) auto
  have b: "run (body t) h (clear_prevp t s) = Done () ?s"
    using Cons.prems(5) [of t s] stays(1) [of t s] Cons.prems(4) [of t] by simp
  have IH: "run (pthread_dequeuing_iterate k (cell s (Next t)) body) h ?s =
      Done () (fold (\<lambda>t s. f t (clear_prevp t s)) ts ?s)"
  proof (rule Cons.IH)
    show "path (cell ?s) (cell s (Next t)) ts" using Cons.prems(1) by (simp add: keep)
    show "ok u ?s" if "u \<in> set ts" for u
      using that Cons.prems(3,4) stays(2) [of u s t] by auto
  qed (use n(2) Cons.prems in auto)
  from Cons.prems(1) have "st = Some t" by simp
  with n(1) b IH show ?case
    by (simp add: dequeuing_iterate_Suc run_andthen keep del: pthread_dequeuing_iterate.simps)
qed

section \<open>Properties\<close>

text \<open>
  C13: The intrusive doubly linked queues implement lists of threads: enqueueing a thread that is in
  no queue puts it in front of the list of that queue head and changes no other queue, and
  enqueueing a thread that is in a queue fails the assertion.
\<close>

theorem enqueue_refines_cons:
  assumes "queues s Q" and "is_head h"
  shows "if queued s t then pthread_enqueue h t s = None
         else \<exists>s'. pthread_enqueue h t s = Some s' \<and> queues s' (Q(h := t # Q h)) \<and>
                s' = s\<lparr>cell := cell s', prevp := prevp s'\<rparr>"
proof (cases "queued s t")
  case True
  then show ?thesis by (simp add: wq.enq_twice)
next
  case False
  with wq.enq_ok [OF assms] obtain s'
    where s': "pthread_enqueue h t s = Some s'" "queues s' (Q(h := t # Q h))" by blast
  with pthread_enqueue_frame [OF s'(1)] False show ?thesis by auto
qed

lemma zero_queues [simp]: "linked (\<lambda>_. None) (\<lambda>_. None) (\<lambda>_. [])"
  by (simp add: linked_def)

theorem enqueue_refines_cons_witness:
  "if queued zero_state 5 then pthread_enqueue (Sem_queue 0) 5 zero_state = None
   else \<exists>s'. pthread_enqueue (Sem_queue 0) 5 zero_state = Some s' \<and>
          queues s' ((\<lambda>_. [])(Sem_queue 0 := 5 # (\<lambda>_. []) (Sem_queue 0))) \<and>
          s' = zero_state\<lparr>cell := cell s', prevp := prevp s'\<rparr>"
  by (rule enqueue_refines_cons) simp_all

text \<open>
  C14: Dequeueing a thread from the middle or either end of its queue removes exactly that thread
  from the list and leaves the order of the others and every other queue as they were; dequeueing a
  thread that is in no queue fails the assertion.
\<close>

theorem dequeue_refines_remove:
  assumes "queues s Q" and "is_head h"
  shows "(if queued s t then t \<in> set (Q h) \<longrightarrow>
            (\<exists>s'. pthread_dequeue t s = Some s' \<and> queues s' (Q(h := removeAll t (Q h))) \<and>
               \<not> queued s' t \<and> s' = s\<lparr>cell := cell s', prevp := prevp s'\<rparr>)
          else pthread_dequeue t s = None)"
proof -
  have gone: "\<not> queued s' t"
    if q: "queues s' (Q(h := removeAll t (Q h)))" and t: "t \<in> set (Q h)" for s'
  proof
    assume "queued s' t"
    with wq.waits_view [OF q, of t] obtain h'
      where h': "is_head h'" "t \<in> set ((Q(h := removeAll t (Q h))) h')" by auto
    then have "h' \<noteq> h" "t \<in> set (Q h')" by (auto split: if_splits)
    with wq.view_disjoint [OF assms h'(1) t] show False by simp
  qed
  show ?thesis
  proof (cases "queued s t \<and> t \<in> set (Q h)")
    case True
    then obtain s' where s': "pthread_dequeue t s = Some s'"
      "queues s' (Q(h := removeAll t (Q h)))" using wq.deq_ok [OF assms, of t] by blast
    with gone True pthread_dequeue_frame [OF s'(1)] show ?thesis by auto
  next
    case False
    then show ?thesis using wq.deq_none [of s t] by auto
  qed
qed

definition three_state :: pt_state where
  "three_state = zero_state\<lparr>
     cell := (\<lambda>_. None)(Sem_queue 0 := Some 3, Next 3 := Some 2, Next 2 := Some 1),
     prevp := (\<lambda>_. None)(3 := Some (Sem_queue 0), 2 := Some (Next 3), 1 := Some (Next 2))\<rparr>"

lemma three_queues: "queues three_state ((\<lambda>_. [])(Sem_queue 0 := [3, 2, 1]))"
  by (auto simp: three_state_def linked_def intro!: exI [of _ "Sem_queue 0"] elim!: is_head.elims)

theorem dequeue_refines_remove_witness:
  "\<exists>s'. pthread_dequeue 2 three_state = Some s' \<and>
     queues s' (((\<lambda>_. [])(Sem_queue 0 := [3, 2, 1]))(Sem_queue 0 := [3, 1])) \<and> \<not> queued s' 2"
  using dequeue_refines_remove [OF three_queues, of "Sem_queue 0" 2]
  by (auto simp: three_state_def)

end
