(* ===== verification/Block.thy ===== *)
theory Block
  imports Spin_Lock Wait_Queue
begin

text \<open>
  Blocking and waking threads (\<^verbatim>\<open>sysdeps/mach/pt-block.c\<close>, \<^verbatim>\<open>pt-timedblock.c\<close>, \<^verbatim>\<open>pt-wakeup.c\<close>): a
  thread waits for a message on its own port, whose queue holds one message.  The Mach kernel is
  outside the library; what the library relies on is the hypothesis \<open>mach_ports\<close>.
\<close>

section \<open>Operations\<close>

definition pthread_block :: "thr \<Rightarrow> unit pt" where
  "pthread_block thread =
     andthen (syscall (Mach_recv thread)) (\<lambda>(err, _, _). assert_p (err = OK))"

definition pthread_wakeup :: "thr \<Rightarrow> unit pt" where
  "pthread_wakeup thread =
     andthen (syscall (Mach_send thread)) (\<lambda>(err, _, _). assert_p (err = OK))"

text \<open>
  The relative timeout in milliseconds.  The seconds and nanoseconds are of the 32-bit type \<^verbatim>\<open>long\<close>: their difference
  and its product with 1000 are computed in 32-bit words, in which the machine wraps around where C leaves the overflow
  undefined (\<open>timeout_overflows\<close>).  \<^verbatim>\<open>mach_msg_timeout_t\<close> is an unsigned 32-bit integer.  The divisions have non-negative
  operands of less than 2 seconds.
\<close>

definition timedblock_timeout :: "timespec \<Rightarrow> timespec \<Rightarrow> 32 word" where
  "timedblock_timeout now abstime =
     (let timeout = (word_of_int (tv_sec abstime) - word_of_int (tv_sec now)) * 1000
      in if tv_nsec abstime \<ge> tv_nsec now
         then timeout + word_of_int ((tv_nsec abstime - tv_nsec now + 999999) div 1000000)
         else timeout - word_of_int ((tv_nsec now - tv_nsec abstime + 999999) div 1000000))"


definition past :: "timespec \<Rightarrow> timespec \<Rightarrow> bool" where
  "past now abstime \<longleftrightarrow>
     tv_sec now > tv_sec abstime \<or>
     (tv_sec now = tv_sec abstime \<and> tv_nsec now > tv_nsec abstime)"

definition pthread_timedblock :: "thr \<Rightarrow> timespec \<Rightarrow> int \<Rightarrow> rc pt" where
  "pthread_timedblock thread abstime clock_id =
     andthen (syscall (Clock_gettime clock_id)) (\<lambda>(err, sec, nsec).
     andthen (assert_p (err = OK)) (\<lambda>_.
       let now = \<lparr>tv_sec = sec, tv_nsec = nsec\<rparr> in
       if past now abstime then Return ETIMEDOUT
       else
         andthen (syscall (Mach_recv_timeout thread (timedblock_timeout now abstime)))
           (\<lambda>(err, _, _).
             if err = EMACH_RCV_TIMED_OUT then Return ETIMEDOUT
             else andthen (assert_p (err = OK)) (\<lambda>_. Return OK))))"

definition CLOCK_REALTIME :: int where "CLOCK_REALTIME = 0"
definition CLOCK_MONOTONIC :: int where "CLOCK_MONOTONIC = 1"

text \<open>
  The two-way block of the timed operations:
  \<^verbatim>\<open>if (abstime) err = __pthread_timedblock (...); else { err = 0; __pthread_block (self); }\<close>.
\<close>

definition block_until :: "thr \<Rightarrow> timespec option \<Rightarrow> int \<Rightarrow> rc pt" where
  "block_until self abstime clock_id =
     (case abstime of
        Some ts \<Rightarrow> pthread_timedblock self ts clock_id
      | None \<Rightarrow> andthen (pthread_block self) (\<lambda>_. Return OK))"

section \<open>What the library relies on\<close>

text \<open>
  The documented behaviour of a Mach port with a queue limit of one message: a send with a zero
  timeout to an empty port queues the message, to a full one it fails with
  \<^verbatim>\<open>MACH_SEND_TIMED_OUT\<close>; a receive takes a queued message and blocks while there is none; a timed
  receive on an empty port fails with \<^verbatim>\<open>MACH_RCV_TIMED_OUT\<close> once the timeout has passed.
\<close>

definition mach_ports :: "pt_state env \<Rightarrow> bool" where
  "mach_ports h \<longleftrightarrow>
     (\<forall>s t. h (Mach_send t) s =
        (if kmsgs s t = 0 then Some ((OK, 0, 0), s\<lparr>kmsgs := (kmsgs s)(t := 1)\<rparr>)
         else Some ((EMACH_SEND_TIMED_OUT, 0, 0), s))) \<and>
     (\<forall>s t. h (Mach_recv t) s =
        (if kmsgs s t = 0 then None
         else Some ((OK, 0, 0), s\<lparr>kmsgs := (kmsgs s)(t := kmsgs s t - 1)\<rparr>))) \<and>
     (\<forall>s t ms. h (Mach_recv_timeout t ms) s =
        (if kmsgs s t \<noteq> 0 then Some ((OK, 0, 0), s\<lparr>kmsgs := (kmsgs s)(t := kmsgs s t - 1)\<rparr>)
         else if kexpired s t then Some ((EMACH_RCV_TIMED_OUT, 0, 0), s)
         else None))"

text \<open>\<^verbatim>\<open>clock_gettime\<close> succeeds for the clocks the library uses and changes nothing.\<close>

definition clock_ok :: "pt_state env \<Rightarrow> bool" where
  "clock_ok h \<longleftrightarrow> (\<forall>c s. \<exists>sec nsec. h (Clock_gettime c) s = Some ((OK, sec, nsec), s))"

text \<open>A concrete kernel with these two properties, whose clock stands at a given time.\<close>

definition port_env :: "timespec \<Rightarrow> pt_state env" where
  "port_env now c s =
     (case c of
        Mach_send t \<Rightarrow>
          (if kmsgs s t = 0 then Some ((OK, 0, 0), s\<lparr>kmsgs := (kmsgs s)(t := 1)\<rparr>)
           else Some ((EMACH_SEND_TIMED_OUT, 0, 0), s))
      | Mach_recv t \<Rightarrow>
          (if kmsgs s t = 0 then None
           else Some ((OK, 0, 0), s\<lparr>kmsgs := (kmsgs s)(t := kmsgs s t - 1)\<rparr>))
      | Mach_recv_timeout t ms \<Rightarrow>
          (if kmsgs s t \<noteq> 0 then Some ((OK, 0, 0), s\<lparr>kmsgs := (kmsgs s)(t := kmsgs s t - 1)\<rparr>)
           else if kexpired s t then Some ((EMACH_RCV_TIMED_OUT, 0, 0), s)
           else None)
      | Clock_gettime c \<Rightarrow> Some ((OK, tv_sec now, tv_nsec now), s)
      | _ \<Rightarrow> Some ((OK, 0, 0), s))"

abbreviation port0 :: "pt_state env" where
  "port0 \<equiv> port_env \<lparr>tv_sec = 1, tv_nsec = 0\<rparr>"

lemma mach_ports_port_env [simp]: "mach_ports (port_env now)"
  by (simp add: mach_ports_def port_env_def)

lemma clock_ok_port_env [simp]: "clock_ok (port_env now)"
  by (simp add: clock_ok_def port_env_def)

section \<open>Properties\<close>

lemma mach_portsD:
  assumes "mach_ports h"
  shows "h (Mach_send t) s =
      (if kmsgs s t = 0 then Some ((OK, 0, 0), s\<lparr>kmsgs := (kmsgs s)(t := 1)\<rparr>)
       else Some ((EMACH_SEND_TIMED_OUT, 0, 0), s))"
    and "h (Mach_recv t) s =
      (if kmsgs s t = 0 then None
       else Some ((OK, 0, 0), s\<lparr>kmsgs := (kmsgs s)(t := kmsgs s t - 1)\<rparr>))"
    and "h (Mach_recv_timeout t ms) s =
      (if kmsgs s t \<noteq> 0 then Some ((OK, 0, 0), s\<lparr>kmsgs := (kmsgs s)(t := kmsgs s t - 1)\<rparr>)
       else if kexpired s t then Some ((EMACH_RCV_TIMED_OUT, 0, 0), s)
       else None)"
  using assms by (auto simp: mach_ports_def)

lemma run_wakeup:
  assumes "mach_ports h"
  shows "run (pthread_wakeup t) h s =
     (if kmsgs s t = 0 then Done () (s\<lparr>kmsgs := (kmsgs s)(t := 1)\<rparr>) else Failed Assert_failed s)"
  by (simp add: pthread_wakeup_def run_simps mach_portsD [OF assms])

lemma run_block:
  assumes "mach_ports h"
  shows "run (pthread_block t) h s =
     (if kmsgs s t = 0 then Waiting (pthread_block t) s
      else Done () (s\<lparr>kmsgs := (kmsgs s)(t := kmsgs s t - 1)\<rparr>))"
  by (simp add: pthread_block_def run_simps mach_portsD [OF assms])

text \<open>Waking all the threads of a detached queue, as the broadcasting operations do.\<close>

definition woken :: "thr list \<Rightarrow> pt_state \<Rightarrow> pt_state" where
  "woken ts s =
     s\<lparr>prevp := (\<lambda>t. if t \<in> set ts then None else prevp s t),
       kmsgs := (\<lambda>t. if t \<in> set ts then 1 else kmsgs s t)\<rparr>"

definition sent :: "thr \<Rightarrow> pt_state \<Rightarrow> pt_state" where
  "sent t s = s\<lparr>kmsgs := (kmsgs s)(t := 1)\<rparr>"

lemma fold_woken: "fold (\<lambda>t s. sent t (clear_prevp t s)) ts s = woken ts s"
proof (induction ts arbitrary: s)
  case Nil
  then show ?case by (auto simp: woken_def intro!: pt_state.equality)
next
  case (Cons t ts)
  then show ?case by (auto simp: woken_def sent_def clear_prevp_def intro!: pt_state.equality)
qed

lemma run_wake_all:
  assumes "mach_ports h" and "path (cell s) st ts" and "length ts \<le> n" and "distinct ts"
    and "\<And>t. t \<in> set ts \<Longrightarrow> kmsgs s t = 0"
  shows "run (pthread_dequeuing_iterate n st pthread_wakeup) h s = Done () (woken ts s)"
  unfolding fold_woken [symmetric]
  by (rule run_dequeuing_iterate [OF assms(2-4), where ok = "\<lambda>t s. kmsgs s t = 0"])
    (use assms(5) in \<open>auto simp: run_wakeup [OF assms(1)] sent_def clear_prevp_def\<close>)

text \<open>The nanoseconds left until the deadline.\<close>

definition remaining_ns :: "timespec \<Rightarrow> timespec \<Rightarrow> int" where
  "remaining_ns now abstime =
     (tv_sec abstime - tv_sec now) * 1000000000 + tv_nsec abstime - tv_nsec now"












text \<open>
  A thread that waits with a deadline can give up before the deadline: one nanosecond after
  a full second, with the deadline at the next full second, the timeout is 999 milliseconds where
  999.999999 milliseconds are left.
\<close>

theorem timedblock_may_wake_early:
  "uint (timedblock_timeout \<lparr>tv_sec = 0, tv_nsec = 1\<rparr> \<lparr>tv_sec = 1, tv_nsec = 0\<rparr>) * 1000000 <
   remaining_ns \<lparr>tv_sec = 0, tv_nsec = 1\<rparr> \<lparr>tv_sec = 1, tv_nsec = 0\<rparr>"
  by (simp add: timedblock_timeout_def remaining_ns_def)

end
