(* ===== verification/Gate.thy ===== *)
theory Gate
  imports Block
begin

text \<open>
  The protocol that all blocking objects follow, as an abstract machine for any number of threads.  An
  operation starts with a critical section under the object's spin lock.  The section either lets
  the thread pass, perhaps with threads taken off a queue that are then woken one by one, or puts
  the thread on a queue; a queued thread receives on its port, with or without a deadline, enters a
  second critical section to see whether it is still queued, drains its port if it was woken after
  its deadline, and ends.

  What the sections do to the object, and what a successful operation is worth to its caller, are
  parameters, a \<open>gate\<close>; the locale \<open>gate_laws\<close> states what the protocol needs of them.  Mutexes,
  read-write locks and semaphores are three gates, in \<open>Mutex_Gate\<close>, \<open>Rwlock_Machine\<close> and \<open>Semaphore_Machine\<close>.
\<close>

section \<open>Gates\<close>

text \<open>
  The outcome of the first section: the thread joins the queue of its operation, or passes with a
  result code.  In the second case the queues change and the listed threads are to be woken, with
  the spin lock still held if the flag is set.
\<close>

datatype 'r verdict = Join 'r | Pass 'r queue_view bool "thr list" rc

text \<open>
  How the callers behave.  \<open>'h\<close> is what a thread has between its calls, \<open>'o\<close> an operation with its
  arguments.  Threads below \<open>bound\<close> make calls, of the operations that are allowed to them; \<open>gain\<close> is
  what a thread has after a successful operation.
\<close>

record ('h, 'o) rules =
  bound :: nat
  allowed :: "'h \<Rightarrow> 'o \<Rightarrow> bool"
  gain :: "'o \<Rightarrow> 'h \<Rightarrow> 'h"

definition worth :: "('h, 'o, 'z) rules_scheme \<Rightarrow> 'h \<Rightarrow> 'o \<Rightarrow> rc \<Rightarrow> 'h" where
  "worth G h o1 e = (if e = OK then gain G o1 h else h)"

text \<open>
  How the object behaves: the deadline of an operation and the queue it may join, its first
  section, what the object has to look like when a waiter ends its operation successfully, and what
  the end does to it.
\<close>

record ('h, 'o, 'r) gate = "('h, 'o) rules" +
  deadline :: "'o \<Rightarrow> timespec option"
  line :: "'o \<Rightarrow> loc option"
  entry :: "'o \<Rightarrow> thr \<Rightarrow> 'r \<Rightarrow> queue_view \<Rightarrow> 'r verdict"
  settled :: "'o \<Rightarrow> thr \<Rightarrow> 'r \<Rightarrow> bool"
  complete :: "'o \<Rightarrow> thr \<Rightarrow> 'r \<Rightarrow> 'r"

datatype ('h, 'o) stage =
    Resting 'h
  | Entering 'h 'o
  | Blocking 'h 'o | Timed 'h 'o "32 word"
  | Woken 'h 'o rc | Draining 'h 'o | Ending 'h 'o
  | Waking 'h 'o bool "thr list" rc
  | Returned 'h 'o rc

record ('h, 'o, 'r) room =
  stages :: "thr \<Rightarrow> ('h, 'o) stage"
  que :: queue_view
  res :: 'r
  inbox :: "thr \<Rightarrow> nat"
  locked :: "thr option"

abbreviation goto :: "thr \<Rightarrow> ('h, 'o) stage \<Rightarrow> ('h, 'o, 'r) room \<Rightarrow> ('h, 'o, 'r) room" where
  "goto t st a \<equiv> a\<lparr>stages := (stages a)(t := st)\<rparr>"

definition wake_stage :: "'h \<Rightarrow> 'o \<Rightarrow> bool \<Rightarrow> thr list \<Rightarrow> rc \<Rightarrow> ('h, 'o) stage" where
  "wake_stage h o1 k ws e = (if ws = [] \<and> \<not> k then Returned h o1 e else Waking h o1 k ws e)"

definition in_line :: "queue_view \<Rightarrow> thr \<Rightarrow> bool" where
  "in_line Q t \<longleftrightarrow> (\<exists>l. t \<in> set (Q l))"

inductive gstep :: "('h, 'o, 'r) gate \<Rightarrow> ('h, 'o, 'r) room \<Rightarrow> ('h, 'o, 'r) room \<Rightarrow> bool" for G where
  call: "stages a t = Resting h \<Longrightarrow> t < bound G \<Longrightarrow> allowed G h o1 \<Longrightarrow>
    gstep G a (goto t (Entering h o1) a)"
| pass: "stages a t = Entering h o1 \<Longrightarrow> locked a = None \<Longrightarrow>
    entry G o1 t (res a) (que a) = Pass r Q k ws e \<Longrightarrow>
    gstep G a (goto t (wake_stage h o1 k ws e) a
      \<lparr>res := r, que := Q, locked := if k then Some t else None\<rparr>)"
| join: "stages a t = Entering h o1 \<Longrightarrow> locked a = None \<Longrightarrow>
    entry G o1 t (res a) (que a) = Join r \<Longrightarrow> line G o1 = Some l \<Longrightarrow>
    gstep G a (goto t (Blocking h o1) a\<lparr>res := r, que := (que a)(l := t # que a l)\<rparr>)"
| receive: "stages a t = Blocking h o1 \<and> deadline G o1 = None \<or> stages a t = Timed h o1 ms \<Longrightarrow>
    inbox a t > 0 \<Longrightarrow>
    gstep G a (goto t (Woken h o1 OK) a\<lparr>inbox := (inbox a)(t := inbox a t - 1)\<rparr>)"
| late: "stages a t = Blocking h o1 \<Longrightarrow> deadline G o1 \<noteq> None \<Longrightarrow>
    gstep G a (goto t (Woken h o1 ETIMEDOUT) a)"
| clock: "stages a t = Blocking h o1 \<Longrightarrow> deadline G o1 \<noteq> None \<Longrightarrow>
    gstep G a (goto t (Timed h o1 ms) a)"
| timeout: "stages a t = Timed h o1 ms \<Longrightarrow> inbox a t = 0 \<Longrightarrow>
    gstep G a (goto t (Woken h o1 ETIMEDOUT) a)"
| gone: "stages a t = Woken h o1 e \<Longrightarrow> locked a = None \<Longrightarrow> \<not> in_line (que a) t \<Longrightarrow>
    gstep G a (goto t (if e = OK then Ending h o1 else Draining h o1) a)"
| leave: "stages a t = Woken h o1 e \<Longrightarrow> locked a = None \<Longrightarrow> in_line (que a) t \<Longrightarrow>
    gstep G a (goto t (if e = OK then Ending h o1 else Returned h o1 e) a
      \<lparr>que := (\<lambda>l. removeAll t (que a l))\<rparr>)"
| drain: "stages a t = Draining h o1 \<Longrightarrow> inbox a t > 0 \<Longrightarrow>
    gstep G a (goto t (Returned h o1 ETIMEDOUT) a\<lparr>inbox := (inbox a)(t := inbox a t - 1)\<rparr>)"
| finish: "stages a t = Ending h o1 \<Longrightarrow> settled G o1 t (res a) \<Longrightarrow>
    gstep G a (goto t (Returned h o1 OK) a\<lparr>res := complete G o1 t (res a)\<rparr>)"
| wake: "stages a t = Waking h o1 k (w # ws) e \<Longrightarrow> inbox a w = 0 \<Longrightarrow>
    gstep G a (goto t (wake_stage h o1 k ws e) a\<lparr>inbox := (inbox a)(w := 1)\<rparr>)"
| release: "stages a t = Waking h o1 True [] e \<Longrightarrow>
    gstep G a (goto t (Returned h o1 e) a\<lparr>locked := None\<rparr>)"
| return: "stages a t = Returned h o1 e \<Longrightarrow>
    gstep G a (goto t (Resting (worth G h o1 e)) a)"

definition room_init :: "'h \<Rightarrow> 'r \<Rightarrow> ('h, 'o, 'r) room" where
  "room_init h r = \<lparr>stages = (\<lambda>_. Resting h), que = (\<lambda>_. []), res = r, inbox = (\<lambda>_. 0), locked = None\<rparr>"

inductive greach ::
    "('h, 'o, 'r) gate \<Rightarrow> ('h, 'o, 'r) room \<Rightarrow> ('h, 'o, 'r) room \<Rightarrow> bool" for G a where
  init: "greach G a a"
| step: "greach G a b \<Longrightarrow> gstep G b c \<Longrightarrow> greach G a c"

section \<open>Wakeup messages\<close>

text \<open>
  \<open>wk u\<close> are the threads that \<open>u\<close> has still to wake and \<open>m t\<close> is the number of messages on the port of
  \<open>t\<close>.  A thread is \<open>signalled\<close> if one message for it is queued, or exactly one thread is about to send it.
\<close>

definition signalled :: "(thr \<Rightarrow> thr list) \<Rightarrow> (thr \<Rightarrow> nat) \<Rightarrow> thr \<Rightarrow> bool" where
  "signalled wk m t \<longleftrightarrow>
     (m t = 1 \<and> (\<forall>u. t \<notin> set (wk u))) \<or> (m t = 0 \<and> (\<exists>!u. t \<in> set (wk u)))"

definition quiet :: "(thr \<Rightarrow> thr list) \<Rightarrow> (thr \<Rightarrow> nat) \<Rightarrow> thr \<Rightarrow> bool" where
  "quiet wk m t \<longleftrightarrow> m t = 0 \<and> (\<forall>u. t \<notin> set (wk u))"

lemma quiet_not_signalled: "quiet wk m t \<Longrightarrow> \<not> signalled wk m t"
  by (auto simp: quiet_def signalled_def)

text \<open>A thread undertakes to wake the quiet threads \<open>ws\<close>.\<close>

lemma plan_signals:
  assumes "wk u = []" and "\<And>w. w \<in> set ws \<Longrightarrow> quiet wk m w"
  shows "signalled (wk(u := ws)) m t \<longleftrightarrow> t \<in> set ws \<or> signalled wk m t"
    and "quiet (wk(u := ws)) m t \<longleftrightarrow> t \<notin> set ws \<and> quiet wk m t"
proof -
  have eq: "t \<in> set ((wk(u := ws)) v) \<longleftrightarrow> t \<in> set (wk v) \<or> v = u \<and> t \<in> set ws" for v
    using assms(1) by auto
  show "quiet (wk(u := ws)) m t \<longleftrightarrow> t \<notin> set ws \<and> quiet wk m t"
    unfolding quiet_def eq by blast
  show "signalled (wk(u := ws)) m t \<longleftrightarrow> t \<in> set ws \<or> signalled wk m t"
  proof (cases "t \<in> set ws")
    case True
    with assms(2) [of t] have "m t = 0" "t \<notin> set (wk v)" for v by (simp_all add: quiet_def)
    with True show ?thesis unfolding signalled_def eq by simp
  next
    case False
    then show ?thesis unfolding signalled_def eq by simp
  qed
qed

text \<open>Sending a planned message changes nobody's condition.\<close>

lemma send_signals:
  assumes "wk u = w # ws" and "distinct (wk u)" and "m w = 0" and "signalled wk m w"
  shows "signalled (wk(u := ws)) (m(w := 1)) t \<longleftrightarrow> signalled wk m t"
    and "quiet (wk(u := ws)) (m(w := 1)) t \<longleftrightarrow> quiet wk m t"
proof -
  have ex1: "\<exists>!v. w \<in> set (wk v)" using assms(3,4) by (simp add: signalled_def)
  have only: "w \<notin> set ((wk(u := ws)) v)" for v
  proof (cases "v = u")
    case True
    with assms(1,2) show ?thesis by simp
  next
    case False
    have "w \<in> set (wk u)" using assms(1) by simp
    with ex1 False show ?thesis by auto
  qed
  have eq: "t \<in> set ((wk(u := ws)) v) \<longleftrightarrow> t \<in> set (wk v)" if "t \<noteq> w" for v
    using that assms(1) by auto
  show "signalled (wk(u := ws)) (m(w := 1)) t \<longleftrightarrow> signalled wk m t"
    using only assms(4) eq by (cases "t = w") (simp_all add: signalled_def)
  have "\<not> quiet wk m w" using assms(4) quiet_not_signalled by blast
  then show "quiet (wk(u := ws)) (m(w := 1)) t \<longleftrightarrow> quiet wk m t"
    using eq by (cases "t = w") (simp_all add: quiet_def)
qed

text \<open>Receiving the message.\<close>

lemma receive_signals:
  assumes "signalled wk m u" and "m u > 0"
  shows "quiet wk (m(u := m u - 1)) u"
    and "t \<noteq> u \<Longrightarrow> signalled wk (m(u := m u - 1)) t \<longleftrightarrow> signalled wk m t"
    and "t \<noteq> u \<Longrightarrow> quiet wk (m(u := m u - 1)) t \<longleftrightarrow> quiet wk m t"
  using assms by (auto simp: signalled_def quiet_def)

section \<open>The invariant of the protocol\<close>

fun to_wake :: "('h, 'o) stage \<Rightarrow> thr list" where
  "to_wake (Waking h o1 k ws e) = ws"
| "to_wake _ = []"

fun keeps_lock :: "('h, 'o) stage \<Rightarrow> bool" where
  "keeps_lock (Waking h o1 k ws e) = k"
| "keeps_lock _ = False"

text \<open>The operation that a thread is in the middle of waiting for.\<close>

fun request :: "('h, 'o) stage \<Rightarrow> ('h \<times> 'o) option" where
  "request (Blocking h o1) = Some (h, o1)"
| "request (Timed h o1 ms) = Some (h, o1)"
| "request (Woken h o1 e) = Some (h, o1)"
| "request _ = None"

definition waitable :: "('h, 'o, 'r) gate \<Rightarrow> 'h \<Rightarrow> 'o \<Rightarrow> bool" where
  "waitable G h o1 \<longleftrightarrow> allowed G h o1 \<and> line G o1 \<noteq> None"

fun stage_ok :: "('h, 'o, 'r) gate \<Rightarrow> ('h, 'o) stage \<Rightarrow> bool \<Rightarrow> bool \<Rightarrow> bool \<Rightarrow> bool" where
  "stage_ok G (Resting h) q sg qu = (\<not> q \<and> qu)"
| "stage_ok G (Entering h o1) q sg qu = (allowed G h o1 \<and> \<not> q \<and> qu)"
| "stage_ok G (Blocking h o1) q sg qu = (waitable G h o1 \<and> (if q then qu else sg))"
| "stage_ok G (Timed h o1 ms) q sg qu =
     (waitable G h o1 \<and> deadline G o1 \<noteq> None \<and> (if q then qu else sg))"
| "stage_ok G (Woken h o1 e) q sg qu =
     (waitable G h o1 \<and>
      (if e = OK then \<not> q \<and> qu
       else e = ETIMEDOUT \<and> deadline G o1 \<noteq> None \<and> (if q then qu else sg)))"
| "stage_ok G (Draining h o1) q sg qu = (waitable G h o1 \<and> deadline G o1 \<noteq> None \<and> \<not> q \<and> sg)"
| "stage_ok G (Ending h o1) q sg qu = (waitable G h o1 \<and> \<not> q \<and> qu)"
| "stage_ok G (Waking h o1 k ws e) q sg qu =
     (allowed G h o1 \<and> \<not> q \<and> qu \<and> distinct ws \<and> (ws \<noteq> [] \<or> k))"
| "stage_ok G (Returned h o1 e) q sg qu = (allowed G h o1 \<and> \<not> q \<and> qu)"

definition stage_of :: "('h, 'o, 'r) gate \<Rightarrow> ('h, 'o, 'r) room \<Rightarrow> thr \<Rightarrow> bool" where
  "stage_of G a t \<longleftrightarrow>
     stage_ok G (stages a t) (in_line (que a) t)
       (signalled (\<lambda>u. to_wake (stages a u)) (inbox a) t) (quiet (\<lambda>u. to_wake (stages a u)) (inbox a) t)"

definition lines_ok :: "('h, 'o, 'r) gate \<Rightarrow> (thr \<Rightarrow> ('h, 'o) stage) \<Rightarrow> queue_view \<Rightarrow> bool" where
  "lines_ok G sts Q \<longleftrightarrow>
     (\<forall>l. distinct (Q l)) \<and>
     (\<forall>l t. t \<in> set (Q l) \<longrightarrow> (\<exists>h o1. request (sts t) = Some (h, o1) \<and> line G o1 = Some l))"

definition gate_inv :: "('h, 'o, 'r) gate \<Rightarrow> ('h, 'o, 'r) room \<Rightarrow> bool" where
  "gate_inv G a \<longleftrightarrow>
     (\<forall>t. stage_of G a t) \<and> lines_ok G (stages a) (que a) \<and>
     (\<forall>t. locked a = Some t \<longleftrightarrow> keeps_lock (stages a t)) \<and>
     (\<forall>t. \<not> t < bound G \<longrightarrow> (\<exists>h. stages a t = Resting h))"

abbreviation wakes :: "('h, 'o, 'r) room \<Rightarrow> thr \<Rightarrow> thr list" where
  "wakes a \<equiv> \<lambda>u. to_wake (stages a u)"

lemma wakes_upd:
  "stages b = (stages a)(t := st) \<Longrightarrow> wakes b = (wakes a)(t := to_wake st)"
  by auto

lemma wakes_same:
  "stages b = (stages a)(t := st) \<Longrightarrow> to_wake st = to_wake (stages a t) \<Longrightarrow> wakes b = wakes a"
  by auto

lemma gate_invD:
  assumes "gate_inv G a"
  shows "stage_ok G (stages a t) (in_line (que a) t)
      (signalled (wakes a) (inbox a) t) (quiet (wakes a) (inbox a) t)"
    and "lines_ok G (stages a) (que a)"
    and "locked a = Some t \<longleftrightarrow> keeps_lock (stages a t)"
    and "\<not> t < bound G \<Longrightarrow> \<exists>h. stages a t = Resting h"
  using assms unfolding gate_inv_def stage_of_def by blast+

lemma lines_okD:
  assumes "lines_ok G sts Q"
  shows "distinct (Q l)"
    and "t \<in> set (Q l) \<Longrightarrow> \<exists>h o1. request (sts t) = Some (h, o1) \<and> line G o1 = Some l"
    and "u \<in> set (Q l) \<Longrightarrow> u \<in> set (Q l') \<Longrightarrow> l = l'"
proof -
  show *: "t \<in> set (Q l) \<Longrightarrow> \<exists>h o1. request (sts t) = Some (h, o1) \<and> line G o1 = Some l" for t l
    using assms by (simp add: lines_ok_def)
  show "u \<in> set (Q l) \<Longrightarrow> u \<in> set (Q l') \<Longrightarrow> l = l'" using * [of u l] * [of u l'] by auto
qed (use assms in \<open>simp add: lines_ok_def\<close>)

lemma in_line_upd [simp]:
  "in_line (Q(l := t # Q l)) u \<longleftrightarrow> u = t \<or> in_line Q u"
  by (auto simp: in_line_def)

lemma in_line_remove [simp]:
  "in_line (\<lambda>l. removeAll t (Q l)) u \<longleftrightarrow> u \<noteq> t \<and> in_line Q u"
  by (auto simp: in_line_def)

lemma take_first_line:
  assumes "Q l = w # ws" and "w \<notin> set ws" and "\<And>l'. l' \<noteq> l \<Longrightarrow> w \<notin> set (Q l')"
  shows "in_line Q u \<longleftrightarrow> in_line (Q(l := ws)) u \<or> u = w" and "\<not> in_line (Q(l := ws)) w"
proof -
  have "set (Q l') = (if l' = l then insert w (set ws) else set (Q l'))" for l' using assms(1) by auto
  then show "in_line Q u \<longleftrightarrow> in_line (Q(l := ws)) u \<or> u = w"
    unfolding in_line_def by (metis fun_upd_apply insert_iff)
  show "\<not> in_line (Q(l := ws)) w" using assms(2,3) by (simp add: in_line_def)
qed

lemma gate_inv_res: "gate_inv G (a\<lparr>res := r\<rparr>) \<longleftrightarrow> gate_inv G a"
  by (simp add: gate_inv_def stage_of_def)

text \<open>A port never holds a second message, and none while its thread is on a queue.\<close>

lemma inbox_bound:
  assumes "gate_inv G a"
  shows "inbox a t \<le> 1" and "in_line (que a) t \<Longrightarrow> inbox a t = 0"
  using gate_invD(1) [OF assms, of t]
  by (cases "stages a t"; auto simp: signalled_def quiet_def split: if_splits)+

text \<open>A section that takes nobody or the first of one queue off.\<close>

lemma pass_lines_one:
  assumes "\<And>l. distinct (Q l)" and "\<And>l l' u. u \<in> set (Q l) \<Longrightarrow> u \<in> set (Q l') \<Longrightarrow> l = l'"
  shows "Q' = Q \<and> ws = [] \<or> (\<exists>w vs. Q l = w # vs \<and> Q' = Q(l := vs) \<and> ws = [w]) \<Longrightarrow>
    distinct ws \<and> (\<forall>l. distinct (Q' l) \<and> set (Q' l) \<subseteq> set (Q l)) \<and>
    (\<forall>u. in_line Q u \<longleftrightarrow> in_line Q' u \<or> u \<in> set ws) \<and> (\<forall>u. u \<in> set ws \<longrightarrow> \<not> in_line Q' u)"
proof (elim disjE exE conjE)
  fix w vs assume q: "Q l = w # vs" "Q' = Q(l := vs)" "ws = [w]"
  have "w \<notin> set vs" "distinct vs" using assms(1) [of l] q by auto
  moreover have "w \<notin> set (Q l')" if "l' \<noteq> l" for l' using assms(2) [of w l' l] q that by auto
  ultimately show ?thesis using assms(1) take_first_line [of Q l w vs] q by auto
qed (use assms in simp)

lemma no_lines [simp]: "\<not> in_line (\<lambda>_. []) t"
  by (simp add: in_line_def)

text \<open>
  The invariant of a state \<open>b\<close> in which \<open>t\<close> has moved: what is left to show about \<open>t\<close> and about the
  others.
\<close>

lemma gate_inv_move:
  assumes inv: "gate_inv G a" and st: "stages b = (stages a)(t := st)"
    and others: "\<And>u. u \<noteq> t \<Longrightarrow> stage_of G b u" and self: "stage_of G b t"
    and lines: "lines_ok G (stages b) (que b)"
    and lock: "\<And>u. locked b = Some u \<longleftrightarrow> keeps_lock (stages b u)"
    and low: "t < bound G"
  shows "gate_inv G b"
proof -
  have "stage_of G b u" for u using others self by (cases "u = t") auto
  moreover have "\<exists>h. stages b u = Resting h" if "\<not> u < bound G" for u
    using gate_invD(4) [OF inv that] that low st by auto
  ultimately show ?thesis using lines lock unfolding gate_inv_def by blast
qed

lemma active_low: "gate_inv G a \<Longrightarrow> (\<And>h. stages a t \<noteq> Resting h) \<Longrightarrow> t < bound G"
  using gate_invD(4) by blast

text \<open>Most steps leave queues, messages and wakers alone; then only the moving thread matters.\<close>

lemma gate_inv_local:
  assumes inv: "gate_inv G a" and low: "t < bound G"
    and wk: "to_wake st = []" "to_wake (stages a t) = []"
    and kp: "\<not> keeps_lock st" "\<not> keeps_lock (stages a t)"
    and ok: "stage_ok G st (in_line (que a) t)
      (signalled (wakes a) (inbox a) t) (quiet (wakes a) (inbox a) t)"
    and rq: "in_line (que a) t \<Longrightarrow> request st = request (stages a t)"
  shows "gate_inv G (goto t st a)"
proof (rule gate_inv_move [OF inv _ _ _ _ _ low])
  let ?b = "goto t st a"
  have w: "wakes ?b = wakes a" using wk by (intro wakes_same [of _ _ t st]) auto
  show "stage_of G ?b u" if "u \<noteq> t" for u
    using gate_invD(1) [OF inv, of u] that unfolding stage_of_def w by simp
  show "stage_of G ?b t" using ok unfolding stage_of_def w by simp
  have "request (((stages a)(t := st)) u) = request (stages a u)" if "u \<in> set (que a l)" for u l
    using rq that by (auto simp: in_line_def)
  then show "lines_ok G (stages ?b) (que ?b)"
    using gate_invD(2) [OF inv] by (simp add: lines_ok_def)
  show "locked ?b = Some u \<longleftrightarrow> keeps_lock (stages ?b u)" for u
    using gate_invD(3) [OF inv, of u] kp by simp
qed simp

lemma gate_inv_receive:
  assumes inv: "gate_inv G a" and low: "t < bound G" and msg: "inbox a t > 0"
    and sg: "signalled (wakes a) (inbox a) t" and nq: "\<not> in_line (que a) t"
    and wk: "to_wake st = []" "to_wake (stages a t) = []"
    and kp: "\<not> keeps_lock st" "\<not> keeps_lock (stages a t)"
    and ok: "\<And>sg. stage_ok G st False sg True"
  shows "gate_inv G (goto t st a\<lparr>inbox := (inbox a)(t := inbox a t - 1)\<rparr>)"
    (is "gate_inv G ?b")
proof (rule gate_inv_move [OF inv _ _ _ _ _ low])
  have w: "wakes ?b = wakes a" using wk by (intro wakes_same [of _ _ t st]) auto
  note rs = receive_signals [OF sg msg]
  show "stage_of G ?b u" if "u \<noteq> t" for u
    using gate_invD(1) [OF inv, of u] that rs(2,3) [OF that] unfolding stage_of_def w by simp
  show "stage_of G ?b t" using ok rs(1) nq unfolding stage_of_def w by simp
  have "request (((stages a)(t := st)) u) = request (stages a u)" if "u \<in> set (que a l)" for u l
    using nq that by (auto simp: in_line_def)
  then show "lines_ok G (stages ?b) (que ?b)"
    using gate_invD(2) [OF inv] by (simp add: lines_ok_def)
  show "locked ?b = Some u \<longleftrightarrow> keeps_lock (stages ?b u)" for u
    using gate_invD(3) [OF inv, of u] kp by simp
qed simp

lemma gate_inv_join:
  assumes inv: "gate_inv G a" and st: "stages a t = Entering h o1" and free: "locked a = None"
    and l: "line G o1 = Some l"
  shows "gate_inv G (goto t (Blocking h o1) a\<lparr>res := r, que := (que a)(l := t # que a l)\<rparr>)" (is "gate_inv G ?b")
proof (rule gate_inv_move [OF inv _ _ _ _ _ active_low [OF inv]])
  have w: "wakes ?b = wakes a" using st by (intro wakes_same [of _ _ t "Blocking h o1"]) auto
  have t: "waitable G h o1" "\<not> in_line (que a) t" "quiet (wakes a) (inbox a) t"
    using gate_invD(1) [OF inv, of t] st l by (auto simp: waitable_def)
  show "stage_of G ?b u" if "u \<noteq> t" for u
    using gate_invD(1) [OF inv, of u] that unfolding stage_of_def w by simp
  show "stage_of G ?b t" using t unfolding stage_of_def w by simp
  show "lines_ok G (stages ?b) (que ?b)"
    using gate_invD(2) [OF inv] t(2) l by (auto simp: lines_ok_def in_line_def)
  show "locked ?b = Some u \<longleftrightarrow> keeps_lock (stages ?b u)" for u
    using gate_invD(3) [OF inv, of u] free by simp
qed (use st in simp_all)

lemma gate_inv_leave:
  assumes inv: "gate_inv G a" and st: "stages a t = Woken h o1 e" and q: "in_line (que a) t"
  shows "gate_inv G (goto t (if e = OK then Ending h o1 else Returned h o1 e) a
      \<lparr>que := (\<lambda>l. removeAll t (que a l))\<rparr>)" (is "gate_inv G ?b")
proof (rule gate_inv_move [OF inv _ _ _ _ _ active_low [OF inv]])
  have t: "e = ETIMEDOUT" "waitable G h o1" "quiet (wakes a) (inbox a) t"
    using gate_invD(1) [OF inv, of t] st q by (auto split: if_splits)
  have w: "wakes ?b = wakes a" using st by (intro wakes_same [of _ _ t "Returned h o1 e"]) (auto simp: t)
  show "stage_of G ?b u" if "u \<noteq> t" for u
    using gate_invD(1) [OF inv, of u] that unfolding stage_of_def w by simp
  show "stage_of G ?b t" using t unfolding stage_of_def w by (simp add: waitable_def)
  show "lines_ok G (stages ?b) (que ?b)"
    using gate_invD(2) [OF inv] by (auto simp: lines_ok_def distinct_removeAll)
  show "locked ?b = Some u \<longleftrightarrow> keeps_lock (stages ?b u)" for u
    using gate_invD(3) [OF inv, of u] st by simp
qed (use st in simp_all)

text \<open>No waker ever meets a full port.\<close>

lemma stage_ok_signalled:
  "stage_ok G st q sg False \<Longrightarrow> sg \<and> \<not> q \<and> stage_ok G st False True qu \<and> to_wake st = []"
  by (cases st) (auto split: if_splits)

lemma gate_inv_woken:
  assumes inv: "gate_inv G a" and w: "w \<in> set (wakes a t)"
  shows "inbox a w = 0" "signalled (wakes a) (inbox a) w" "\<not> in_line (que a) w" "w \<noteq> t"
proof -
  have nq: "\<not> quiet (wakes a) (inbox a) w" using w by (auto simp: quiet_def)
  with gate_invD(1) [OF inv, of w] stage_ok_signalled
  have s: "signalled (wakes a) (inbox a) w" "\<not> in_line (que a) w" "wakes a w = []" by fastforce+
  then show "signalled (wakes a) (inbox a) w" "\<not> in_line (que a) w" by simp_all
  from s(3) w show "w \<noteq> t" by auto
  from s(1) w show "inbox a w = 0" by (auto simp: signalled_def)
qed

lemma wake_stage_simps [simp]:
  "to_wake (wake_stage h o1 k ws e) = ws"
  "keeps_lock (wake_stage h o1 k ws e) = k"
  "stage_ok G (wake_stage h o1 k ws e) q sg qu \<longleftrightarrow> allowed G h o1 \<and> \<not> q \<and> qu \<and> distinct ws"
  "request (wake_stage h o1 k ws e) = None"
  by (auto simp: wake_stage_def)

lemma gate_inv_wake:
  assumes inv: "gate_inv G a" and st: "stages a t = Waking h o1 k (w # ws) e"
  shows "gate_inv G (goto t (wake_stage h o1 k ws e) a\<lparr>inbox := (inbox a)(w := 1)\<rparr>)" (is "gate_inv G ?b")
proof (rule gate_inv_move [OF inv _ _ _ _ _ active_low [OF inv]])
  have wa: "wakes a t = w # ws" using st by simp
  have t: "allowed G h o1" "\<not> in_line (que a) t" "quiet (wakes a) (inbox a) t" "distinct (w # ws)"
    using gate_invD(1) [OF inv, of t] st by auto
  have wk: "wakes ?b = (wakes a)(t := ws)" by (subst wakes_upd [of _ a t]) auto
  note w = gate_inv_woken [OF inv, of w t]
  have sg: "signalled (wakes ?b) (inbox ?b) u = signalled (wakes a) (inbox a) u"
      "quiet (wakes ?b) (inbox ?b) u = quiet (wakes a) (inbox a) u" for u
    unfolding wk using send_signals [of "wakes a" t w ws "inbox a" u] wa t(4) w(1,2) by simp_all
  show "stage_of G ?b u" if "u \<noteq> t" for u
    using gate_invD(1) [OF inv, of u] that unfolding stage_of_def sg by simp
  show "stage_of G ?b t" using t unfolding stage_of_def sg by simp
  have "\<not> in_line (que a) t" using t by simp
  then show "lines_ok G (stages ?b) (que ?b)"
    using gate_invD(2) [OF inv] by (auto simp: lines_ok_def in_line_def)
  show "locked ?b = Some u \<longleftrightarrow> keeps_lock (stages ?b u)" for u
    using gate_invD(3) [OF inv, of u] st by auto
qed (use st in simp_all)

lemma gate_inv_release:
  assumes inv: "gate_inv G a" and st: "stages a t = Waking h o1 True [] e"
  shows "gate_inv G (goto t (Returned h o1 e) a\<lparr>locked := None\<rparr>)" (is "gate_inv G ?b")
proof (rule gate_inv_move [OF inv _ _ _ _ _ active_low [OF inv]])
  have w: "wakes ?b = wakes a" using st by (intro wakes_same [of _ _ t "Returned h o1 e"]) auto
  have t: "allowed G h o1" "\<not> in_line (que a) t" "quiet (wakes a) (inbox a) t"
    using gate_invD(1) [OF inv, of t] st by auto
  show "stage_of G ?b u" if "u \<noteq> t" for u
    using gate_invD(1) [OF inv, of u] that unfolding stage_of_def w by simp
  show "stage_of G ?b t" using t unfolding stage_of_def w by simp
  show "lines_ok G (stages ?b) (que ?b)"
    using gate_invD(2) [OF inv] t(2) by (auto simp: lines_ok_def in_line_def)
  have "locked a = Some t" using gate_invD(3) [OF inv, of t] st by simp
  then show "locked ?b = Some u \<longleftrightarrow> keeps_lock (stages ?b u)" for u
    using gate_invD(3) [OF inv, of u] by auto
qed (use st in simp_all)

lemma room_init_inv: "gate_inv G (room_init h r)"
  by (simp add: gate_inv_def room_init_def stage_of_def quiet_def lines_ok_def)

section \<open>What the protocol needs of the sections\<close>

text \<open>
  A section that lets its thread pass takes exactly the threads off the queues that are then woken,
  each once.
\<close>

locale gate_laws =
  fixes G :: "('h, 'o, 'r) gate"
  assumes pass_lines: "entry G o1 t r Q = Pass r' Q' k ws e \<Longrightarrow> (\<And>l. distinct (Q l)) \<Longrightarrow>
      (\<And>l l' u. u \<in> set (Q l) \<Longrightarrow> u \<in> set (Q l') \<Longrightarrow> l = l') \<Longrightarrow>
      distinct ws \<and> (\<forall>l. distinct (Q' l) \<and> set (Q' l) \<subseteq> set (Q l)) \<and>
      (\<forall>u. in_line Q u \<longleftrightarrow> in_line Q' u \<or> u \<in> set ws) \<and> (\<forall>u. u \<in> set ws \<longrightarrow> \<not> in_line Q' u)"
begin

lemma gate_inv_pass:
  assumes inv: "gate_inv G a" and st: "stages a t = Entering h o1" and free: "locked a = None"
    and en: "entry G o1 t (res a) (que a) = Pass r Q k ws e"
  shows "gate_inv G (goto t (wake_stage h o1 k ws e) a
      \<lparr>res := r, que := Q, locked := if k then Some t else None\<rparr>)" (is "gate_inv G ?b")
proof (rule gate_inv_move [OF inv _ _ _ _ _ active_low [OF inv]])
  note lines = gate_invD(2) [OF inv]
  from pass_lines [OF en lines_okD(1,3) [OF lines]]
  have p: "distinct ws" "\<And>l. distinct (Q l) \<and> set (Q l) \<subseteq> set (que a l)"
    "\<And>u. in_line (que a) u \<longleftrightarrow> in_line Q u \<or> u \<in> set ws" "\<And>u. u \<in> set ws \<Longrightarrow> \<not> in_line Q u" by auto
  have t: "allowed G h o1" "\<not> in_line (que a) t" "quiet (wakes a) (inbox a) t"
    using gate_invD(1) [OF inv, of t] st by auto
  have q: "quiet (wakes a) (inbox a) u" if "in_line (que a) u" for u
    using gate_invD(1) [OF inv, of u] that by (cases "stages a u") (auto split: if_splits)
  have wk: "wakes ?b = (wakes a)(t := ws)" by (subst wakes_upd [of _ a t]) auto
  have sg: "signalled (wakes ?b) (inbox ?b) u \<longleftrightarrow> u \<in> set ws \<or> signalled (wakes a) (inbox a) u"
      "quiet (wakes ?b) (inbox ?b) u \<longleftrightarrow> u \<notin> set ws \<and> quiet (wakes a) (inbox a) u" for u
    unfolding wk using plan_signals [of "wakes a" t ws "inbox a" u] st q p(3) by simp_all
  show "stage_of G ?b u" if "u \<noteq> t" for u
  proof (cases "u \<in> set ws")
    case True
    then have "in_line (que a) u" using p(3) by simp
    with gate_invD(1) [OF inv, of u] p(4) [OF True] that True show ?thesis
      unfolding stage_of_def sg by (cases "stages a u") (auto split: if_splits)
  next
    case False
    with gate_invD(1) [OF inv, of u] p(3) [of u] that show ?thesis
      unfolding stage_of_def sg by simp
  qed
  have "t \<notin> set ws" using t(2) p(3) by auto
  then show "stage_of G ?b t" using t p unfolding stage_of_def sg by simp
  show "lines_ok G (stages ?b) (que ?b)"
    using lines p(2) t(2) unfolding lines_ok_def in_line_def by (auto split: if_splits) blast
  show "locked ?b = Some u \<longleftrightarrow> keeps_lock (stages ?b u)" for u
    using gate_invD(3) [OF inv, of u] free by auto
qed (use st in simp_all)

lemma gstep_inv: "gstep G a b \<Longrightarrow> gate_inv G a \<Longrightarrow> gate_inv G b"
proof (induction rule: gstep.induct)
  case (call a t h o1)
  with gate_invD(1) [OF call.prems, of t] show ?case by (intro gate_inv_local) auto
next
  case (receive a t h o1 ms)
  then have "\<not> in_line (que a) t \<and> signalled (wakes a) (inbox a) t \<and> waitable G h o1"
    using gate_invD(1) [OF receive.prems, of t] by (auto simp: quiet_def split: if_splits)
  with receive show ?case by (intro gate_inv_receive active_low) auto
next
  case (drain a t h o1)
  with gate_invD(1) [OF drain.prems, of t] show ?case
    by (intro gate_inv_receive active_low) (auto simp: waitable_def)
next
  case (late a t h o1)
  with gate_invD(1) [OF late.prems, of t] show ?case
    by (intro gate_inv_local active_low) (auto split: if_splits)
next
  case (clock a t h o1 ms)
  with gate_invD(1) [OF clock.prems, of t] show ?case
    by (intro gate_inv_local active_low) (auto split: if_splits)
next
  case (timeout a t h o1 ms)
  with gate_invD(1) [OF timeout.prems, of t] show ?case
    by (intro gate_inv_local active_low) (auto split: if_splits)
next
  case (gone a t h o1 e)
  with gate_invD(1) [OF gone.prems, of t] show ?case
    by (intro gate_inv_local active_low) (auto split: if_splits)
next
  case (finish a t h o1)
  with gate_invD(1) [OF finish.prems, of t] show ?case
    unfolding gate_inv_res by (intro gate_inv_local active_low) (auto simp: waitable_def)
next
  case (return a t h o1 e)
  with gate_invD(1) [OF return.prems, of t] show ?case by (intro gate_inv_local active_low) auto
next
  case (pass a t h o1 r Q k ws e)
  then show ?case by (intro gate_inv_pass)
next
  case (leave a t h o1 e)
  then show ?case by (intro gate_inv_leave)
next
  case (wake a t h o1 k w ws e)
  then show ?case by (intro gate_inv_wake)
qed (auto intro: gate_inv_join gate_inv_release)

lemma greach_inv: "greach G a b \<Longrightarrow> gate_inv G a \<Longrightarrow> gate_inv G b"
  by (induction rule: greach.induct) (auto intro: gstep_inv)

end

section \<open>What the threads have\<close>

text \<open>
  What a thread has got so far, whether or not it knows already: a waiting thread has got what it
  waits for as soon as it is off the queue.
\<close>

fun has :: "('h, 'o, 'r) gate \<Rightarrow> ('h, 'o) stage \<Rightarrow> bool \<Rightarrow> 'h" where
  "has G (Resting h) q = h"
| "has G (Entering h o1) q = h"
| "has G (Blocking h o1) q = (if q then h else gain G o1 h)"
| "has G (Timed h o1 ms) q = (if q then h else gain G o1 h)"
| "has G (Woken h o1 e) q = (if q then h else gain G o1 h)"
| "has G (Draining h o1) q = gain G o1 h"
| "has G (Ending h o1) q = gain G o1 h"
| "has G (Waking h o1 k ws e) q = worth G h o1 e"
| "has G (Returned h o1 e) q = worth G h o1 e"

definition holds :: "('h, 'o, 'r) gate \<Rightarrow> ('h, 'o, 'r) room \<Rightarrow> thr \<Rightarrow> 'h" where
  "holds G a t = has G (stages a t) (in_line (que a) t)"

lemma has_wake_stage [simp]: "has G (wake_stage h o1 k ws e) q = worth G h o1 e"
  by (simp add: wake_stage_def)

lemma worth_simps [simp]:
  "worth G h o1 OK = gain G o1 h" "e \<noteq> OK \<Longrightarrow> worth G h o1 e = h"
  by (simp_all add: worth_def)

lemma has_request: "request st = Some (h, o1) \<Longrightarrow> has G st q = (if q then h else gain G o1 h)"
  by (cases st) auto

lemma holds_queued:
  assumes "lines_ok G (stages a) (que a)" and "u \<in> set (que a l)"
  shows "\<exists>o1. request (stages a u) = Some (holds G a u, o1) \<and> line G o1 = Some l"
proof -
  obtain h o1 where r: "request (stages a u) = Some (h, o1)" "line G o1 = Some l"
    using lines_okD(2) [OF assms] by blast
  moreover have "in_line (que a) u" using assms(2) by (auto simp: in_line_def)
  ultimately show ?thesis by (simp add: holds_def has_request)
qed

text \<open>A thread whose operation has succeeded or failed while it waited, and that has not ended it yet.\<close>

fun due :: "('h, 'o) stage \<Rightarrow> bool \<Rightarrow> bool" where
  "due (Blocking h o1) q = (\<not> q)"
| "due (Timed h o1 ms) q = (\<not> q)"
| "due (Woken h o1 e) q = (\<not> q)"
| "due (Draining h o1) q = True"
| "due (Ending h o1) q = True"
| "due _ q = False"

definition dues :: "('h, 'o, 'r) room \<Rightarrow> thr \<Rightarrow> bool" where
  "dues a t = due (stages a t) (in_line (que a) t)"

lemma due_wake_stage [simp]: "\<not> due (wake_stage h o1 k ws e) q"
  by (simp add: wake_stage_def)

lemma due_request: "request st = Some (h, o1) \<Longrightarrow> due st q = (\<not> q)"
  by (cases st) auto

text \<open>
  The effect of a step on the object and on what the threads have.  The only loss is that of a
  thread that has been taken off the queue after its deadline.
\<close>

fun timed_out :: "('h, 'o, 'r) gate \<Rightarrow> ('h, 'o) stage \<Rightarrow> bool" where
  "timed_out G (Woken h o1 e) = (deadline G o1 \<noteq> None)"
| "timed_out G _ = False"

inductive effect :: "('h, 'o, 'r) gate \<Rightarrow> ('h, 'o, 'r) room \<Rightarrow> ('h, 'o, 'r) room \<Rightarrow> bool"
  for G a b where
  silent: "holds G b = holds G a \<Longrightarrow> res b = res a \<Longrightarrow>
    que b = que a \<or> timed_out G (stages a t) \<and> que b = (\<lambda>l. removeAll t (que a l)) \<Longrightarrow>
    dues b = dues a \<Longrightarrow> effect G a b"
| completed: "stages a t = Ending h o1 \<Longrightarrow> holds G b = holds G a \<Longrightarrow> que b = que a \<Longrightarrow>
    settled G o1 t (res a) \<Longrightarrow> res b = complete G o1 t (res a) \<Longrightarrow>
    dues a t \<Longrightarrow> dues b = (dues a)(t := False) \<Longrightarrow> effect G a b"
| lost: "stages a t = Draining h o1 \<Longrightarrow> t < bound G \<Longrightarrow> deadline G o1 \<noteq> None \<Longrightarrow> waitable G h o1 \<Longrightarrow>
    holds G a t = gain G o1 h \<Longrightarrow> holds G b = (holds G a)(t := h) \<Longrightarrow> res b = res a \<Longrightarrow> que b = que a \<Longrightarrow>
    dues a t \<Longrightarrow> dues b = (dues a)(t := False) \<Longrightarrow> effect G a b"
| joined: "allowed G (holds G a t) o1 \<Longrightarrow> t < bound G \<Longrightarrow> entry G o1 t (res a) (que a) = Join r \<Longrightarrow>
    line G o1 = Some l \<Longrightarrow>
    holds G b = holds G a \<Longrightarrow> res b = r \<Longrightarrow> que b = (que a)(l := t # que a l) \<Longrightarrow>
    \<not> dues a t \<Longrightarrow> dues b = dues a \<Longrightarrow> effect G a b"
| passed: "allowed G (holds G a t) o1 \<Longrightarrow> t < bound G \<Longrightarrow> t \<notin> set ws \<Longrightarrow> distinct ws \<Longrightarrow>
    entry G o1 t (res a) (que a) = Pass r Q k ws e \<Longrightarrow>
    (\<And>u. u \<in> set ws \<Longrightarrow> \<exists>o2 l. request (stages a u) = Some (holds G a u, o2) \<and> allowed G (holds G a u) o2 \<and>
       line G o2 = Some l \<and> u \<in> set (que a l) \<and> u < bound G \<and> holds G b u = gain G o2 (holds G a u)) \<Longrightarrow>
    (\<And>u. u \<notin> set ws \<Longrightarrow> holds G b u = (if u = t then worth G (holds G a t) o1 e else holds G a u)) \<Longrightarrow>
    res b = r \<Longrightarrow> que b = Q \<Longrightarrow> \<not> dues a t \<Longrightarrow> (\<And>u. dues b u \<longleftrightarrow> u \<in> set ws \<or> dues a u) \<Longrightarrow>
    \<not> in_line (que a) t \<Longrightarrow> effect G a b"

lemma holds_local:
  assumes "stages b = (stages a)(t := st)" and "que b = que a"
    and "has G st (in_line (que a) t) = holds G a t"
  shows "holds G b = holds G a"
  using assms by (intro ext) (simp add: holds_def)

lemma request_allowed:
  "gate_inv G a \<Longrightarrow> request (stages a u) = Some (h, o1) \<Longrightarrow> allowed G h o1 \<and> u < bound G"
  using gate_invD(1) [of G a u] active_low [of G a u] by (cases "stages a u") (auto simp: waitable_def)

lemma effect_silent:
  assumes "stages b = (stages a)(t := st)" and "que b = que a" and "res b = res a"
    and "has G st (in_line (que a) t) = holds G a t" and "due st (in_line (que a) t) \<longleftrightarrow> dues a t"
  shows "effect G a b"
proof (rule effect.silent)
  show "dues b = dues a" using assms(1,2,5) by (intro ext) (simp add: dues_def)
qed (use assms holds_local [OF assms(1,2,4)] in auto)

context gate_laws
begin

lemma effect_pass:
  assumes inv: "gate_inv G a" and st: "stages a t = Entering h o1"
    and en: "entry G o1 t (res a) (que a) = Pass r Q k ws e"
    and b: "stages b = (stages a)(t := wake_stage h o1 k ws e)" "res b = r" "que b = Q"
  shows "effect G a b"
proof -
  note lines = gate_invD(2) [OF inv]
  have t: "allowed G h o1" "\<not> in_line (que a) t" using gate_invD(1) [OF inv, of t] st by auto
  have ht: "holds G a t = h" using st by (simp add: holds_def)
  from pass_lines [OF en lines_okD(1,3) [OF lines]]
  have p: "\<And>u. in_line (que a) u \<longleftrightarrow> in_line Q u \<or> u \<in> set ws" "\<And>u. u \<in> set ws \<Longrightarrow> \<not> in_line Q u"
    "distinct ws" by auto
  have tw: "t \<notin> set ws" using p(1) t(2) by blast
  show ?thesis
  proof (rule effect.passed)
    show "allowed G (holds G a t) o1" "t < bound G"
      using t ht active_low [OF inv, of t] st by simp_all
    show "\<exists>o2 l. request (stages a u) = Some (holds G a u, o2) \<and> allowed G (holds G a u) o2 \<and>
        line G o2 = Some l \<and> u \<in> set (que a l) \<and> u < bound G \<and> holds G b u = gain G o2 (holds G a u)"
      if u: "u \<in> set ws" for u
    proof -
      from p(1) u obtain l where l: "u \<in> set (que a l)" by (auto simp: in_line_def)
      with holds_queued [OF lines] obtain o2 where
        o2: "request (stages a u) = Some (holds G a u, o2)" "line G o2 = Some l" by blast
      moreover have "holds G b u = gain G o2 (holds G a u)"
        using b p(2) [OF u] u tw has_request [OF o2(1), of G False] by (auto simp: holds_def)
      ultimately show ?thesis using l request_allowed [OF inv o2(1)] by blast
    qed
    show "holds G b u = (if u = t then worth G (holds G a t) o1 e else holds G a u)" if "u \<notin> set ws" for u
      using that p(1) [of u] b ht by (auto simp: holds_def)
    show "dues b u \<longleftrightarrow> u \<in> set ws \<or> dues a u" for u
    proof (cases "u \<in> set ws")
      case True
      with p(1) obtain l where "u \<in> set (que a l)" by (auto simp: in_line_def)
      with holds_queued [OF lines] obtain o2 where "request (stages a u) = Some (holds G a u, o2)" by blast
      with True tw p(2) [OF True] b show ?thesis by (auto simp: dues_def due_request)
    next
      case False
      with p(1) [of u] b st show ?thesis by (auto simp: dues_def)
    qed
    show "\<not> dues a t" using st by (simp add: dues_def)
  qed (use en tw p(3) b t(2) in simp_all)
qed

lemma gstep_effect: "gstep G a b \<Longrightarrow> gate_inv G a \<Longrightarrow> effect G a b"
proof (induction rule: gstep.induct)
  case (pass a t h o1 r Q k ws e)
  then show ?case by (intro effect_pass [of a t h o1]) auto
next
  case (join a t h o1 r l)
  from gate_invD(1) [OF join.prems, of t] join.hyps(1) have t: "allowed G h o1" "\<not> in_line (que a) t" by auto
  have "holds G a t = h" using join.hyps(1) by (simp add: holds_def)
  with t join.hyps active_low [OF join.prems, of t] show ?case
    by (intro effect.joined [of G a t o1 r l]) (auto simp: holds_def dues_def fun_eq_iff)
next
  case (drain a t h o1)
  with gate_invD(1) [OF drain.prems, of t] active_low [OF drain.prems, of t] show ?case
    by (intro effect.lost [of a t h o1]) (auto simp: holds_def dues_def fun_eq_iff)
next
  case (leave a t h o1 e)
  then have "e = ETIMEDOUT" "deadline G o1 \<noteq> None"
    using gate_invD(1) [OF leave.prems, of t] by (auto split: if_splits)
  with leave.hyps show ?case by (intro effect.silent [where t = t]) (auto simp: holds_def dues_def fun_eq_iff)
next
  case (receive a t h o1 ms)
  then have "\<not> in_line (que a) t"
    using gate_invD(1) [OF receive.prems, of t] by (auto simp: quiet_def split: if_splits)
  with receive.hyps show ?case
    by (intro effect_silent [where t = t and st = "Woken h o1 OK"]) (auto simp: holds_def dues_def fun_eq_iff)
next
  case (gone a t h o1 e)
  then show ?case
    by (intro effect_silent [where t = t and st = "if e = OK then Ending h o1 else Draining h o1"])
      (auto simp: holds_def dues_def fun_eq_iff)
next
  case (wake a t h o1 k w ws e)
  then show ?case
    by (intro effect_silent [where t = t and st = "wake_stage h o1 k ws e"]) (auto simp: holds_def dues_def fun_eq_iff)
next
  case (call a t h o1)
  then show ?case by (intro effect_silent [where t = t and st = "Entering h o1"]) (auto simp: holds_def dues_def fun_eq_iff)
next
  case (late a t h o1)
  then show ?case
    by (intro effect_silent [where t = t and st = "Woken h o1 ETIMEDOUT"]) (auto simp: holds_def dues_def fun_eq_iff)
next
  case (clock a t h o1 ms)
  then show ?case by (intro effect_silent [where t = t and st = "Timed h o1 ms"]) (auto simp: holds_def dues_def fun_eq_iff)
next
  case (timeout a t h o1 ms)
  then show ?case
    by (intro effect_silent [where t = t and st = "Woken h o1 ETIMEDOUT"]) (auto simp: holds_def dues_def fun_eq_iff)
next
  case (finish a t h o1)
  then show ?case
    by (intro effect.completed [of a t h o1]) (auto simp: holds_def dues_def fun_eq_iff)
next
  case (release a t h o1 e)
  then show ?case by (intro effect_silent [where t = t and st = "Returned h o1 e"]) (auto simp: holds_def dues_def fun_eq_iff)
next
  case (return a t h o1 e)
  then show ?case
    by (intro effect_silent [where t = t and st = "Resting (worth G h o1 e)"]) (auto simp: holds_def dues_def fun_eq_iff)
qed

end

text \<open>An object that never wakes threads with its spin lock held.\<close>

lemma gstep_unlocked:
  assumes "gstep G a b" and "\<And>o1 t r Q r' Q' k ws e. entry G o1 t r Q = Pass r' Q' k ws e \<Longrightarrow> \<not> k"
    and "\<And>t. \<not> keeps_lock (stages a t)"
  shows "\<not> keeps_lock (stages b t)"
  using assms
proof (induction rule: gstep.induct)
  case (pass a t h o1 r Q k ws e)
  from pass.prems(1) [OF pass.hyps(3)] pass.prems(2) show ?case by simp
next
  case (wake a t h o1 k w ws e)
  have "\<not> k" using wake.prems(2) [of t] wake.hyps(1) by simp
  with wake.prems(2) show ?case by simp
qed auto

lemma greach_unlocked:
  assumes "greach G (room_init h0 r0) b"
    and "\<And>o1 t r Q r' Q' k ws e. entry G o1 t r Q = Pass r' Q' k ws e \<Longrightarrow> \<not> k"
  shows "\<not> keeps_lock (stages b t)"
  using assms(1)
proof (induction arbitrary: t)
  case init
  then show ?case by (simp add: room_init_def)
next
  case (step b c)
  then show ?case using gstep_unlocked [OF step.hyps(2)] assms(2) by metis
qed

end
