(* ===== verification/Mutex.thy ===== *)
theory Mutex
  imports Block
begin

text \<open>
  Mutexes (\<^verbatim>\<open>sysdeps/generic/pt-mutex-*.c\<close>).  A locking thread that finds the mutex held queues
  itself and blocks; the unlocking thread takes the first waiter off the queue, leaves \<^verbatim>\<open>__held\<close> set
  and so hands the mutex over.  The build this models has assertions enabled and
  \<^verbatim>\<open>ALWAYS_TRACK_MUTEX_OWNER\<close> undefined, as the Makefile leaves them.
\<close>

section \<open>Attributes and initialisation\<close>

definition pthread_default_mutexattr :: pthread_mutexattr where
  "pthread_default_mutexattr =
     \<lparr>ma_prioceiling = 0, ma_protocol = PTHREAD_PRIO_NONE,
      ma_pshared = PTHREAD_PROCESS_PRIVATE, ma_mutex_type = PTHREAD_MUTEX_NORMAL\<rparr>"

definition pthread_errorcheck_mutexattr :: pthread_mutexattr where
  "pthread_errorcheck_mutexattr =
     \<lparr>ma_prioceiling = 0, ma_protocol = PTHREAD_PRIO_NONE,
      ma_pshared = PTHREAD_PROCESS_PRIVATE, ma_mutex_type = PTHREAD_MUTEX_ERRORCHECK\<rparr>"

definition pthread_recursive_mutexattr :: pthread_mutexattr where
  "pthread_recursive_mutexattr =
     \<lparr>ma_prioceiling = 0, ma_protocol = PTHREAD_PRIO_NONE,
      ma_pshared = PTHREAD_PROCESS_PRIVATE, ma_mutex_type = PTHREAD_MUTEX_RECURSIVE\<rparr>"

text \<open>\<^verbatim>\<open>__PTHREAD_MUTEX_INITIALIZER\<close>, written to the mutex at \<open>m\<close>.\<close>

definition mutex_initializer :: "maddr \<Rightarrow> pt_state \<Rightarrow> pt_state" where
  "mutex_initializer m s =
     s\<lparr>spin := (spin s)(M_held m := 0, M_lock m := 0),
       cell := (cell s)(Mutex_queue m := None),
       mutexes := (mutexes s)(m := \<lparr>m_attr = Attr_null, m_owner = None, m_locks = 0\<rparr>)\<rparr>"

text \<open>
  \<^verbatim>\<open>_pthread_mutex_init\<close>.  The test for default attributes reads
  \<^verbatim>\<open>memcmp (attr, &__pthread_default_mutexattr, sizeof (*attr) == 0)\<close>: the length is the value of the
  comparison, 0, so \<^verbatim>\<open>memcmp\<close> compares nothing and returns 0, and the branch is taken for a null
  \<^verbatim>\<open>attr\<close> only.
\<close>

definition pthread_mutex_init :: "maddr \<Rightarrow> pthread_mutexattr option \<Rightarrow> rc pt" where
  "pthread_mutex_init m attr =
     andthen (modify (mutex_initializer m)) (\<lambda>_.
       case attr of
         None \<Rightarrow> Return OK
       | Some a \<Rightarrow>
           andthen (syscall Malloc) (\<lambda>(_, p, _).
             if p = 0 then Return ENOMEM
             else
               andthen (modify (upd_mutex m (\<lambda>x. x\<lparr>m_attr := Attr_heap (nat p) a\<rparr>)))
                 (\<lambda>_. Return OK)))"

definition pthread_mutex_destroy :: "maddr \<Rightarrow> rc pt" where
  "pthread_mutex_destroy m =
     andthen (gets (\<lambda>s. m_attr (mutexes s m))) (\<lambda>attr.
       case attr of
         Attr_errorcheck \<Rightarrow> Return OK
       | Attr_recursive \<Rightarrow> Return OK
       | Attr_null \<Rightarrow> andthen (syscall (Free 0)) (\<lambda>_. Return OK)
       | Attr_heap p a \<Rightarrow> andthen (syscall (Free p)) (\<lambda>_. Return OK))"

section \<open>Locking\<close>

text \<open>The attributes an \<^verbatim>\<open>attr\<close> pointer stands for; \<open>None\<close> means the default ones.\<close>

definition resolve_attr :: "mutexattr_ptr \<Rightarrow> pthread_mutexattr option" where
  "resolve_attr p =
     (case p of
        Attr_null \<Rightarrow> None
      | Attr_errorcheck \<Rightarrow> Some pthread_errorcheck_mutexattr
      | Attr_recursive \<Rightarrow> Some pthread_recursive_mutexattr
      | Attr_heap _ a \<Rightarrow> Some a)"

definition is_normal :: "pthread_mutexattr option \<Rightarrow> bool" where
  "is_normal attr \<longleftrightarrow>
     (case attr of None \<Rightarrow> True | Some a \<Rightarrow> ma_mutex_type a = PTHREAD_MUTEX_NORMAL)"

text \<open>The \<^verbatim>\<open>switch (attr->mutex_type)\<close> of a successful acquisition.\<close>

definition record_owner ::
    "pthread_mutexattr option \<Rightarrow> maddr \<Rightarrow> thr \<Rightarrow> pt_state \<Rightarrow> (fault + unit) \<times> pt_state" where
  "record_owner attr m self s =
     (case attr of
        None \<Rightarrow> (Inr (), s)
      | Some a \<Rightarrow>
          if ma_mutex_type a = PTHREAD_MUTEX_NORMAL then (Inr (), s)
          else if ma_mutex_type a = PTHREAD_MUTEX_RECURSIVE then
            (Inr (), upd_mutex m (\<lambda>x. x\<lparr>m_locks := 1, m_owner := Some self\<rparr>) s)
          else if ma_mutex_type a = PTHREAD_MUTEX_ERRORCHECK then
            (Inr (), upd_mutex m (\<lambda>x. x\<lparr>m_owner := Some self\<rparr>) s)
          else (Inl Null_store, s))"

text \<open>
  The end of the first critical section of a lock operation, when the mutex is busy and not a
  re-acquisition: \<open>Some\<close> code is the function's return, \<open>None\<close> means that the caller blocks.  The
  early return of \<^verbatim>\<open>EINVAL\<close> does not release \<^verbatim>\<open>__lock\<close>.
\<close>

definition timedlock_enqueue ::
    "pthread_mutexattr option \<Rightarrow> maddr \<Rightarrow> thr \<Rightarrow> timespec option \<Rightarrow> pt_state \<Rightarrow>
     (fault + rc option) \<times> pt_state" where
  "timedlock_enqueue attr m self abstime s =
     (if \<not> is_normal attr \<and> m_owner (mutexes s m) = None then (Inl Assert_failed, s)
      else if bad_nsec abstime then (Inr (Some EINVAL), s)
      else
        (case pthread_enqueue (Mutex_queue m) self s of
           None \<Rightarrow> (Inl Assert_failed, s)
         | Some s1 \<Rightarrow> (Inr None, pthread_spin_unlock (M_lock m) s1)))"

definition timedlock_enter ::
    "pthread_mutexattr option \<Rightarrow> maddr \<Rightarrow> thr \<Rightarrow> timespec option \<Rightarrow> pt_state \<Rightarrow>
     (fault + rc option) \<times> pt_state" where
  "timedlock_enter attr m self abstime s =
     (case pthread_spin_trylock (M_held m) s of
        (r, s1) \<Rightarrow>
          if r = OK then
            (case record_owner attr m self s1 of
               (Inl e, s2) \<Rightarrow> (Inl e, s2)
             | (Inr _, s2) \<Rightarrow> (Inr (Some OK), pthread_spin_unlock (M_lock m) s2))
          else
            (case attr of
               None \<Rightarrow> timedlock_enqueue attr m self abstime s1
             | Some a \<Rightarrow>
                 if ma_mutex_type a = PTHREAD_MUTEX_NORMAL then
                   timedlock_enqueue attr m self abstime s1
                 else if ma_mutex_type a = PTHREAD_MUTEX_ERRORCHECK then
                   (if m_owner (mutexes s1 m) = Some self
                    then (Inr (Some EDEADLK), pthread_spin_unlock (M_lock m) s1)
                    else timedlock_enqueue attr m self abstime s1)
                 else if ma_mutex_type a = PTHREAD_MUTEX_RECURSIVE then
                   (if m_owner (mutexes s1 m) = Some self
                    then (Inr (Some OK),
                          pthread_spin_unlock (M_lock m)
                            (upd_mutex m (\<lambda>x. x\<lparr>m_locks := m_locks x + 1\<rparr>) s1))
                    else timedlock_enqueue attr m self abstime s1)
                 else (Inl Null_store, s1)))"

text \<open>
  The critical section after blocking, which all timed operations share: a thread that somebody
  else has taken off the queue has been sent a message, and if it timed out that message is still to
  be received (\<^verbatim>\<open>drain\<close>); otherwise it takes itself off the queue.
\<close>

definition leave_queue :: "spinaddr \<Rightarrow> thr \<Rightarrow> rc \<Rightarrow> pt_state \<Rightarrow> (fault + bool) \<times> pt_state" where
  "leave_queue l self err s =
     (if prevp s self = None then (Inr (err \<noteq> OK), pthread_spin_unlock l s)
      else
        (case pthread_dequeue self s of
           None \<Rightarrow> (Inl Assert_failed, s)
         | Some s1 \<Rightarrow> (Inr False, pthread_spin_unlock l s1)))"

text \<open>The end of a lock operation that has been handed the mutex.\<close>

definition timedlock_finish ::
    "pthread_mutexattr option \<Rightarrow> maddr \<Rightarrow> thr \<Rightarrow> pt_state \<Rightarrow> (fault + rc) \<times> pt_state" where
  "timedlock_finish attr m self s =
     (if \<not> is_normal attr \<and> m_owner (mutexes s m) \<noteq> Some self then (Inl Assert_failed, s)
      else
        (case attr of
           None \<Rightarrow> (Inr OK, s)
         | Some a \<Rightarrow>
             if ma_mutex_type a = PTHREAD_MUTEX_NORMAL then (Inr OK, s)
             else if ma_mutex_type a = PTHREAD_MUTEX_RECURSIVE then
               (if m_locks (mutexes s m) \<noteq> 0 then (Inl Assert_failed, s)
                else (Inr OK, upd_mutex m (\<lambda>x. x\<lparr>m_locks := 1, m_owner := Some self\<rparr>) s))
             else if ma_mutex_type a = PTHREAD_MUTEX_ERRORCHECK then
               (Inr OK, upd_mutex m (\<lambda>x. x\<lparr>m_owner := Some self\<rparr>) s)
             else (Inl Null_store, s)))"

definition timedlock_end :: "pthread_mutexattr option \<Rightarrow> maddr \<Rightarrow> thr \<Rightarrow> rc \<Rightarrow> rc pt" where
  "timedlock_end attr m self err =
     (if err \<noteq> OK then andthen (assert_p (err = ETIMEDOUT)) (\<lambda>_. Return err)
      else section_of (\<lambda>_. True) (timedlock_finish attr m self))"

definition timedlock_woken :: "pthread_mutexattr option \<Rightarrow> maddr \<Rightarrow> thr \<Rightarrow> rc \<Rightarrow> rc pt" where
  "timedlock_woken attr m self err =
     andthen (spin_section (M_lock m) (leave_queue (M_lock m) self err)) (\<lambda>drain.
       if drain then andthen (pthread_block self) (\<lambda>_. timedlock_end attr m self err)
       else timedlock_end attr m self err)"

definition pthread_mutex_timedlock_internal :: "maddr \<Rightarrow> thr \<Rightarrow> timespec option \<Rightarrow> rc pt" where
  "pthread_mutex_timedlock_internal m self abstime =
     andthen (gets (\<lambda>s. resolve_attr (m_attr (mutexes s m)))) (\<lambda>attr.
     andthen (spin_section (M_lock m) (timedlock_enter attr m self abstime)) (\<lambda>r.
       case r of
         Some err \<Rightarrow> Return err
       | None \<Rightarrow>
           andthen (block_until self abstime CLOCK_REALTIME) (timedlock_woken attr m self)))"

definition pthread_mutex_timedlock :: "maddr \<Rightarrow> thr \<Rightarrow> timespec option \<Rightarrow> rc pt" where
  "pthread_mutex_timedlock m self abstime = pthread_mutex_timedlock_internal m self abstime"

definition pthread_mutex_lock :: "maddr \<Rightarrow> thr \<Rightarrow> rc pt" where
  "pthread_mutex_lock m self = pthread_mutex_timedlock_internal m self None"

definition trylock_section ::
    "pthread_mutexattr option \<Rightarrow> maddr \<Rightarrow> thr \<Rightarrow> pt_state \<Rightarrow> (fault + rc) \<times> pt_state" where
  "trylock_section attr m self s =
     (case pthread_spin_trylock (M_held m) s of
        (r, s1) \<Rightarrow>
          if r = OK then
            (case record_owner attr m self s1 of
               (Inl e, s2) \<Rightarrow> (Inl e, s2)
             | (Inr _, s2) \<Rightarrow> (Inr OK, pthread_spin_unlock (M_lock m) s2))
          else
            (case attr of
               None \<Rightarrow> (Inr EBUSY, pthread_spin_unlock (M_lock m) s1)
             | Some a \<Rightarrow>
                 if ma_mutex_type a = PTHREAD_MUTEX_NORMAL then
                   (Inr EBUSY, pthread_spin_unlock (M_lock m) s1)
                 else if ma_mutex_type a = PTHREAD_MUTEX_ERRORCHECK then
                   (Inr EBUSY, pthread_spin_unlock (M_lock m) s1)
                 else if ma_mutex_type a = PTHREAD_MUTEX_RECURSIVE then
                   (if m_owner (mutexes s1 m) = Some self
                    then (Inr OK,
                          pthread_spin_unlock (M_lock m)
                            (upd_mutex m (\<lambda>x. x\<lparr>m_locks := m_locks x + 1\<rparr>) s1))
                    else (Inr EBUSY, pthread_spin_unlock (M_lock m) s1))
                 else (Inl Null_store, s1)))"

definition pthread_mutex_trylock :: "maddr \<Rightarrow> thr \<Rightarrow> rc pt" where
  "pthread_mutex_trylock m self =
     andthen (gets (\<lambda>s. resolve_attr (m_attr (mutexes s m)))) (\<lambda>attr.
       spin_section (M_lock m) (trylock_section attr m self))"

section \<open>Unlocking\<close>

text \<open>
  The part of the critical section that gives the mutex away: to nobody, or to the first waiter,
  who is returned.
\<close>

definition hand_over ::
    "pthread_mutexattr option \<Rightarrow> maddr \<Rightarrow> pt_state \<Rightarrow> (fault + rc \<times> thr option) \<times> pt_state" where
  "hand_over attr m s =
     (case cell s (Mutex_queue m) of
        None \<Rightarrow>
          (Inr (OK, None), pthread_spin_unlock (M_lock m) (pthread_spin_unlock (M_held m) s))
      | Some wakeup \<Rightarrow>
          (case pthread_dequeue wakeup s of
             None \<Rightarrow> (Inl Assert_failed, s)
           | Some s1 \<Rightarrow>
               (Inr (OK, Some wakeup),
                pthread_spin_unlock (M_lock m)
                  (if \<not> is_normal attr then upd_mutex m (\<lambda>x. x\<lparr>m_owner := Some wakeup\<rparr>) s1
                   else s1))))"

definition unlock_section ::
    "pthread_mutexattr option \<Rightarrow> maddr \<Rightarrow> thr \<Rightarrow> pt_state \<Rightarrow>
     (fault + rc \<times> thr option) \<times> pt_state" where
  "unlock_section attr m self s =
     (case attr of
        None \<Rightarrow> hand_over attr m s
      | Some a \<Rightarrow>
          if ma_mutex_type a = PTHREAD_MUTEX_NORMAL then hand_over attr m s
          else if ma_mutex_type a = PTHREAD_MUTEX_ERRORCHECK \<or>
                  ma_mutex_type a = PTHREAD_MUTEX_RECURSIVE then
            (if m_owner (mutexes s m) \<noteq> Some self then
               (Inr (EPERM, None), pthread_spin_unlock (M_lock m) s)
             else
               (let s1 = (if ma_mutex_type a = PTHREAD_MUTEX_RECURSIVE
                          then upd_mutex m (\<lambda>x. x\<lparr>m_locks := m_locks x - 1\<rparr>) s else s)
                in if ma_mutex_type a = PTHREAD_MUTEX_RECURSIVE \<and> m_locks (mutexes s1 m) > 0
                   then (Inr (OK, None), pthread_spin_unlock (M_lock m) s1)
                   else hand_over attr m (upd_mutex m (\<lambda>x. x\<lparr>m_owner := None\<rparr>) s1)))
          else (Inl Null_store, s))"

definition pthread_mutex_unlock :: "maddr \<Rightarrow> thr \<Rightarrow> rc pt" where
  "pthread_mutex_unlock m self =
     andthen (gets (\<lambda>s. resolve_attr (m_attr (mutexes s m)))) (\<lambda>attr.
     andthen (spin_section (M_lock m) (unlock_section attr m self)) (\<lambda>(err, wakeup).
       case wakeup of
         None \<Rightarrow> Return err
       | Some w \<Rightarrow> andthen (pthread_wakeup w) (\<lambda>_. Return err)))"

section \<open>Uncontended operation\<close>

text \<open>The mutex types the library knows; any other value of \<^verbatim>\<open>mutex_type\<close> makes it crash.\<close>

definition mutex_type_of :: "pt_state \<Rightarrow> maddr \<Rightarrow> int" where
  "mutex_type_of s m =
     (case resolve_attr (m_attr (mutexes s m)) of
        None \<Rightarrow> PTHREAD_MUTEX_NORMAL | Some a \<Rightarrow> ma_mutex_type a)"

definition known_type :: "pt_state \<Rightarrow> maddr \<Rightarrow> bool" where
  "known_type s m \<longleftrightarrow>
     mutex_type_of s m \<in> {PTHREAD_MUTEX_NORMAL, PTHREAD_MUTEX_ERRORCHECK, PTHREAD_MUTEX_RECURSIVE}"

definition unlocked :: "pt_state \<Rightarrow> maddr \<Rightarrow> bool" where
  "unlocked s m \<longleftrightarrow> spin s (M_lock m) = 0 \<and> spin s (M_held m) = 0"

text \<open>The state after an acquisition, by mutex type.\<close>

definition acquired :: "maddr \<Rightarrow> thr \<Rightarrow> pt_state \<Rightarrow> pt_state" where
  "acquired m self s =
     (let s1 = upd_spin (M_held m) 1 s in
      if mutex_type_of s m = PTHREAD_MUTEX_RECURSIVE then
        upd_mutex m (\<lambda>x. x\<lparr>m_locks := 1, m_owner := Some self\<rparr>) s1
      else if mutex_type_of s m = PTHREAD_MUTEX_ERRORCHECK then
        upd_mutex m (\<lambda>x. x\<lparr>m_owner := Some self\<rparr>) s1
      else s1)"

lemma spin_restore [simp]:
  "spin s l = 0 \<Longrightarrow> k \<noteq> l \<Longrightarrow> (spin s)(l := 1, k := v, l := 0) = (spin s)(k := v)"
  "spin s l = 0 \<Longrightarrow> (spin s)(l := 1, l := 0) = spin s"
  by (auto simp: fun_eq_iff)

lemma spin_restore_held [simp]:
  "spin s l = 0 \<Longrightarrow> k \<noteq> l \<Longrightarrow> (spin s)(k := v, l := 0) = (spin s)(k := v)"
  by (auto simp: fun_eq_iff)

lemma mutex_type_of_eq:
  "mutex_type_of s m = PTHREAD_MUTEX_NORMAL \<longleftrightarrow> is_normal (resolve_attr (m_attr (mutexes s m)))"
  by (simp add: mutex_type_of_def is_normal_def split: option.splits)

lemmas mutex_sections =
  timedlock_enter_def timedlock_enqueue_def record_owner_def trylock_section_def
  unlock_section_def hand_over_def leave_queue_def timedlock_finish_def
  pthread_spin_trylock_def pthread_spin_unlock_def

lemma run_timedlock_free:
  assumes "unlocked s m" and "known_type s m"
  shows "run (pthread_mutex_timedlock_internal m self abstime) h s = Done OK (acquired m self s)"
  using assms
  by (cases "resolve_attr (m_attr (mutexes s m))")
    (auto simp: pthread_mutex_timedlock_internal_def run_simps unlocked_def known_type_def
      mutex_type_of_def acquired_def mutex_sections pthread_consts)

lemma run_trylock_free:
  assumes "unlocked s m" and "known_type s m"
  shows "run (pthread_mutex_trylock m self) h s = Done OK (acquired m self s)"
  using assms
  by (cases "resolve_attr (m_attr (mutexes s m))")
    (auto simp: pthread_mutex_trylock_def run_simps unlocked_def known_type_def
      mutex_type_of_def acquired_def mutex_sections pthread_consts)

end
