(* ===== verification/Gate_Impl.thy ===== *)
theory Gate_Impl
  imports Gate Mutex
begin

text \<open>
  The systems of threads that call the operations of one object, as steps of the programs of the model,
  and the refinement of the machine of \<open>Gate\<close> by such a system: the locale \<open>gate_impl\<close> states what has to be
  shown of the programs of an object, section by section, and gives that every reachable state of
  the system is represented by a reachable state of the machine.
\<close>

section \<open>Systems of callers\<close>

datatype ('h, 'o, 'a) caller = Away 'h | Calling 'h 'o "'a pt"

type_synonym ('h, 'o, 'a) callers = "(thr \<Rightarrow> ('h, 'o, 'a) caller) \<times> pt_state"

text \<open>\<open>code\<close> reads a returned value as a result code; \<open>expire\<close> is the passing of time.\<close>

inductive cstep ::
    "pt_state env \<Rightarrow> ('h, 'o, 'z) rules_scheme \<Rightarrow> (thr \<Rightarrow> 'o \<Rightarrow> 'a pt) \<Rightarrow> ('a \<Rightarrow> rc) \<Rightarrow>
     ('h, 'o, 'a) callers \<Rightarrow> ('h, 'o, 'a) callers \<Rightarrow> bool" for E G prog code where
  call: "cs t = Away h \<Longrightarrow> t < bound G \<Longrightarrow> allowed G h o1 \<Longrightarrow>
    cstep E G prog code (cs, s) (cs(t := Calling h o1 (prog t o1)), s)"
| run: "cs t = Calling h o1 p \<Longrightarrow> pstep E p s p' s' \<Longrightarrow>
    cstep E G prog code (cs, s) (cs(t := Calling h o1 p'), s')"
| return: "cs t = Calling h o1 (Return v) \<Longrightarrow>
    cstep E G prog code (cs, s) (cs(t := Away (worth G h o1 (code v))), s)"
| expire: "cstep E G prog code (cs, s) (cs, s\<lparr>kexpired := x\<rparr>)"

inductive creach ::
    "pt_state env \<Rightarrow> ('h, 'o, 'z) rules_scheme \<Rightarrow> (thr \<Rightarrow> 'o \<Rightarrow> 'a pt) \<Rightarrow> ('a \<Rightarrow> rc) \<Rightarrow>
     ('h, 'o, 'a) callers \<Rightarrow> ('h, 'o, 'a) callers \<Rightarrow> bool" for E G prog code c where
  init: "creach E G prog code c c"
| step: "creach E G prog code c d \<Longrightarrow> cstep E G prog code d e \<Longrightarrow> creach E G prog code c e"

text \<open>The executions in which every step starts from a state with the property \<open>P\<close>.\<close>

inductive creach_in ::
    "(pt_state \<Rightarrow> bool) \<Rightarrow> pt_state env \<Rightarrow> ('h, 'o, 'z) rules_scheme \<Rightarrow> (thr \<Rightarrow> 'o \<Rightarrow> 'a pt) \<Rightarrow> ('a \<Rightarrow> rc) \<Rightarrow>
     ('h, 'o, 'a) callers \<Rightarrow> ('h, 'o, 'a) callers \<Rightarrow> bool" for P E G prog code c where
  init: "creach_in P E G prog code c c"
| step: "creach_in P E G prog code c d \<Longrightarrow> P (snd d) \<Longrightarrow> cstep E G prog code d e \<Longrightarrow> creach_in P E G prog code c e"

lemma creach_everywhere:
  assumes "creach E G prog code c d" and "\<And>s. P s"
  shows "creach_in P E G prog code c d"
  using assms(1) by induction (auto intro: creach_in.intros assms(2))

text \<open>A call that is executed without interruption.\<close>

lemma creach_run:
  assumes "psteps E p s p' s'" and "creach E R prog code c (cs(t := Calling h o1 p), s)"
  shows "creach E R prog code c (cs(t := Calling h o1 p'), s')"
  using assms
proof induction
  case (step p s q u r v)
  have "cstep E R prog code (cs(t := Calling h o1 p), s) (cs(t := Calling h o1 q), u)"
    using cstep.run [where cs = "cs(t := Calling h o1 p)" and t = t] step.hyps(1) by fastforce
  with step.prems show ?case by (intro step.IH) (rule creach.step)
qed

lemma creach_call:
  assumes "creach E R prog code c (cs, s)" and "cs t = Away h" and "t < bound R" and "allowed R h o1"
    and "run (prog t o1) E s = Done v s'"
  shows "creach E R prog code c (cs(t := Away (worth R h o1 (code v))), s')"
proof -
  have "creach E R prog code c (cs(t := Calling h o1 (Return v)), s')"
    using creach_run [OF run_Done_psteps [OF assms(5)] creach.step [OF assms(1) cstep.call [where cs = cs and t = t, OF assms(2-4)]]] .
  from creach.step [OF this cstep.return [where t = t and h = h and ?o1.0 = o1 and v = v]] show ?thesis by simp
qed

section \<open>Steps of the waiting part\<close>

text \<open>The rest of \<^verbatim>\<open>__pthread_timedblock\<close> behind the reading of the clock.\<close>

definition timed_rest :: "thr \<Rightarrow> 32 word \<Rightarrow> rc pt" where
  "timed_rest t ms =
     andthen (syscall (Mach_recv_timeout t ms)) (\<lambda>(err, _, _).
       if err = EMACH_RCV_TIMED_OUT then Return ETIMEDOUT
       else andthen (assert_p (err = OK)) (\<lambda>_. Return OK))"

definition consumed :: "thr \<Rightarrow> pt_state \<Rightarrow> pt_state" where
  "consumed t s = s\<lparr>kmsgs := (kmsgs s)(t := kmsgs s t - 1)\<rparr>"

lemma consumed_simps [simp]:
  "kmsgs (consumed t s) = (kmsgs s)(t := kmsgs s t - 1)" "spin (consumed t s) = spin s"
  "cell (consumed t s) = cell s" "prevp (consumed t s) = prevp s"
  by (simp_all add: consumed_def)

lemma pstep_block:
  assumes "mach_ports E" and "pstep E (andthen (pthread_block t) k) s p s'"
  shows "kmsgs s t > 0 \<and> p = k () \<and> s' = consumed t s"
  using assms(2) mach_portsD(2) [OF assms(1), of t s]
  by (auto simp: pthread_block_def andthen_syscall pstep_iffs assert_p_def consumed_def split: if_splits)

lemma pstep_timedblock:
  assumes "clock_ok E" and "pstep E (andthen (pthread_timedblock t ts c) k) s p s'"
  shows "s' = s \<and> (p = k ETIMEDOUT \<or> (\<exists>ms. p = andthen (timed_rest t ms) k))"
proof -
  from assms(1) obtain sec nsec where c: "E (Clock_gettime c) s = Some ((OK, sec, nsec), s)"
    unfolding clock_ok_def by blast
  let ?now = "\<lparr>tv_sec = sec, tv_nsec = nsec\<rparr>"
  have "s' = s \<and> p = (if past ?now ts then k ETIMEDOUT
      else andthen (timed_rest t (timedblock_timeout ?now ts)) k)"
    using assms(2) c
    by (auto simp: pthread_timedblock_def andthen_syscall pstep_iffs assert_p_def Let_def
        timed_rest_def split_def)
  then show ?thesis by (auto split: if_splits)
qed

lemma pstep_timed_rest:
  assumes "mach_ports E" and "pstep E (andthen (timed_rest t ms) k) s p s'"
  shows "kmsgs s t = 0 \<and> p = k ETIMEDOUT \<and> s' = s \<or>
         kmsgs s t > 0 \<and> p = k OK \<and> s' = consumed t s"
  using assms(2) mach_portsD(3) [OF assms(1), of t ms s]
  by (auto simp: timed_rest_def andthen_syscall pstep_iffs assert_p_def consumed_def split: if_splits)

lemma pstep_wakeup:
  assumes "mach_ports E" and "kmsgs s w = 0" and "pstep E (andthen (pthread_wakeup w) k) s p s'"
  shows "p = k () \<and> s' = s\<lparr>kmsgs := (kmsgs s)(w := 1)\<rparr>"
  using assms(3) mach_portsD(1) [OF assms(1), of w s] assms(2)
  by (auto simp: pthread_wakeup_def andthen_syscall pstep_iffs assert_p_def)

lemma same_mutexes: "\<exists>x. s = s\<lparr>mutexes := x\<rparr>"
  by (rule exI [where x = "mutexes s"]) (simp add: pt_state.equality)

text \<open>The second section of a waiter.\<close>

definition woken_part :: "spinaddr \<Rightarrow> thr \<Rightarrow> (rc \<Rightarrow> 'a pt) \<Rightarrow> rc \<Rightarrow> 'a pt" where
  "woken_part l t fin err =
     andthen (spin_section l (leave_queue l t err)) (\<lambda>drain.
       if drain then andthen (pthread_block t) (\<lambda>_. fin err) else fin err)"

lemma pstep_woken_gone:
  assumes "pstep E (woken_part l t fin err) s p s'" and "\<not> queued s t"
  shows "spin s l = 0 \<and> s' = s \<and> p = (if err = OK then fin OK else andthen (pthread_block t) (\<lambda>_. fin err))"
  using assms by (auto simp: woken_part_def pstep_spin_section leave_queue_def pthread_spin_unlock_def)

lemma removeAll_view:
  assumes "queues s Q" and "\<And>l. \<not> is_head l \<Longrightarrow> Q l = []" and "is_head l" and "t \<in> set (Q l)"
  shows "Q(l := removeAll t (Q l)) = (\<lambda>l. removeAll t (Q l))"
proof
  fix l'
  have "t \<notin> set (Q l')" if "l' \<noteq> l"
    using wq.view_disjoint [OF assms(1) _ assms(3) _ assms(4), of l'] assms(2) [of l'] that
    by (cases "is_head l'") auto
  then show "(Q(l := removeAll t (Q l))) l' = removeAll t (Q l')" by simp
qed

lemma pstep_woken_queued:
  assumes "pstep E (woken_part l t fin err) s p s'" and "queues s Q"
    and "\<And>l. \<not> is_head l \<Longrightarrow> Q l = []" and "in_line Q t"
  shows "spin s l = 0 \<and> p = fin err \<and>
    (\<exists>c v. s' = s\<lparr>cell := c, prevp := v\<rparr> \<and> linked c v (\<lambda>l. removeAll t (Q l)))"
proof -
  let ?s = "upd_spin l 1 s"
  from assms(3,4) obtain q where q: "is_head q" "t \<in> set (Q q)" unfolding in_line_def by force
  have v: "queues ?s Q" using assms(2) by simp
  from wq.deq_ok [OF v q] obtain s1 where
    s1: "pthread_dequeue t ?s = Some s1" "queues s1 (\<lambda>l. removeAll t (Q l))"
    by (auto simp: removeAll_view [OF assms(2,3) q])
  from pthread_dequeue_frame [OF s1(1)] obtain c v where
    s1': "s1 = ?s\<lparr>cell := c, prevp := v\<rparr>" by auto
  have sp: "spin s l = 0" using assms(1) by (auto simp: woken_part_def pstep_spin_section)
  have "queued ?s t" using wq.waits_view [OF v] q by blast
  then have "leave_queue l t err ?s = (Inr False, pthread_spin_unlock l s1)"
    using s1(1) by (auto simp: leave_queue_def)
  with assms(1) have "p = fin err" "s' = pthread_spin_unlock l s1"
    by (auto simp: woken_part_def pstep_spin_section)
  moreover have "pthread_spin_unlock l s1 = s\<lparr>cell := c, prevp := v\<rparr>"
    using sp s1' by (auto simp: pthread_spin_unlock_def intro!: pt_state.equality)
  ultimately show ?thesis using sp s1(2) s1' by auto
qed

section \<open>The programs of an object\<close>

text \<open>
  The parts of the programs between which the steps of the machine lie: the programs that stand before
  the first section (\<open>front_part\<close>), which is correct only for objects whose numbers are \<open>in_range\<close>, the end of a waiter's operation (\<open>last_part\<close>), the programs that have only
  to deliver a result (\<open>tail_part\<close>), and the programs that wake threads with the spin lock held, while the
  state lags behind that of the machine (\<open>lag\<close>).  \<open>object\<close> relates the object to its state.
\<close>

record ('o, 'r, 'a) impl =
  guard_of :: spinaddr
  prog_of :: "thr \<Rightarrow> 'o \<Rightarrow> 'a pt"
  code_of :: "'a \<Rightarrow> rc"
  front_part :: "thr \<Rightarrow> 'o \<Rightarrow> 'a pt \<Rightarrow> bool"
  last_part :: "thr \<Rightarrow> 'o \<Rightarrow> rc \<Rightarrow> 'a pt"
  tail_part :: "thr \<Rightarrow> 'o \<Rightarrow> rc \<Rightarrow> 'a pt \<Rightarrow> bool"
  lag :: "thr \<Rightarrow> 'o \<Rightarrow> rc \<Rightarrow> thr list \<Rightarrow> 'r \<Rightarrow> queue_view \<Rightarrow> 'a pt \<Rightarrow> pt_state \<Rightarrow> bool"
  object :: "'r \<Rightarrow> pt_state \<Rightarrow> bool"
  in_range :: "pt_state \<Rightarrow> bool"

abbreviation woken_prog :: "('o, 'r, 'a) impl \<Rightarrow> thr \<Rightarrow> 'o \<Rightarrow> rc \<Rightarrow> 'a pt" where
  "woken_prog I t o1 \<equiv> woken_part (guard_of I) t (last_part I t o1)"

abbreviation blocked_prog :: "('h, 'o, 'r) gate \<Rightarrow> ('o, 'r, 'a) impl \<Rightarrow> thr \<Rightarrow> 'o \<Rightarrow> 'a pt" where
  "blocked_prog G I t o1 \<equiv> andthen (block_until t (deadline G o1) CLOCK_REALTIME) (woken_prog I t o1)"

definition wakes_one :: "('o, 'r, 'a) impl \<Rightarrow> thr list \<Rightarrow> rc \<Rightarrow> 'a pt \<Rightarrow> bool" where
  "wakes_one I ws e p \<longleftrightarrow>
     (\<exists>w v. ws = [w] \<and> p = andthen (pthread_wakeup w) (\<lambda>_. Return v) \<and> code_of I v = e)"

fun caller_rel ::
    "('h, 'o, 'r) gate \<Rightarrow> ('o, 'r, 'a) impl \<Rightarrow> thr \<Rightarrow> ('h, 'o) stage \<Rightarrow> 'r \<Rightarrow> queue_view \<Rightarrow> pt_state \<Rightarrow>
     ('h, 'o, 'a) caller \<Rightarrow> bool" where
  "caller_rel G I t (Resting h) r Q s c = (c = Away h)"
| "caller_rel G I t (Entering h o1) r Q s c = (\<exists>p. c = Calling h o1 p \<and> front_part I t o1 p)"
| "caller_rel G I t (Blocking h o1) r Q s c = (c = Calling h o1 (blocked_prog G I t o1))"
| "caller_rel G I t (Timed h o1 ms) r Q s c =
     (c = Calling h o1 (andthen (timed_rest t ms) (woken_prog I t o1)))"
| "caller_rel G I t (Woken h o1 e) r Q s c = (c = Calling h o1 (woken_prog I t o1 e))"
| "caller_rel G I t (Draining h o1) r Q s c =
     (c = Calling h o1 (andthen (pthread_block t) (\<lambda>_. last_part I t o1 ETIMEDOUT)))"
| "caller_rel G I t (Ending h o1) r Q s c = (c = Calling h o1 (last_part I t o1 OK))"
| "caller_rel G I t (Waking h o1 k ws e) r Q s c =
     (\<exists>p. c = Calling h o1 p \<and> (if k then lag I t o1 e ws r Q p s else wakes_one I ws e p))"
| "caller_rel G I t (Returned h o1 e) r Q s c = (\<exists>p. c = Calling h o1 p \<and> tail_part I t o1 e p)"

definition free_state :: "('o, 'r, 'a) impl \<Rightarrow> 'r \<Rightarrow> queue_view \<Rightarrow> pt_state \<Rightarrow> bool" where
  "free_state I r Q s \<longleftrightarrow> spin s (guard_of I) = 0 \<and> queues s Q \<and> object I r s"

definition room_rel :: "('o, 'r, 'a) impl \<Rightarrow> ('h, 'o, 'r) room \<Rightarrow> pt_state \<Rightarrow> bool" where
  "room_rel I a s \<longleftrightarrow>
     kmsgs s = inbox a \<and>
     (if locked a = None then free_state I (res a) (que a) s else spin s (guard_of I) \<noteq> 0)"

definition callers_rel ::
    "('h, 'o, 'r) gate \<Rightarrow> ('o, 'r, 'a) impl \<Rightarrow> ('h, 'o, 'r) room \<Rightarrow> ('h, 'o, 'a) callers \<Rightarrow> bool" where
  "callers_rel G I a c \<longleftrightarrow>
     (\<forall>t. caller_rel G I t (stages a t) (res a) (que a) (snd c) (fst c t)) \<and> room_rel I a (snd c)"

text \<open>What one step out of the front part may lead to.\<close>

definition entered ::
    "('h, 'o, 'r) gate \<Rightarrow> ('o, 'r, 'a) impl \<Rightarrow> thr \<Rightarrow> 'o \<Rightarrow> 'r \<Rightarrow> queue_view \<Rightarrow> 'a pt \<Rightarrow> pt_state \<Rightarrow> bool" where
  "entered G I t o1 r Q p s \<longleftrightarrow>
     (case entry G o1 t r Q of
        Join r' \<Rightarrow>
          (\<exists>l. line G o1 = Some l \<and> p = blocked_prog G I t o1 \<and> free_state I r' (Q(l := t # Q l)) s)
      | Pass r' Q' k ws e \<Rightarrow>
          if k then spin s (guard_of I) \<noteq> 0 \<and> lag I t o1 e ws r' Q' p s
          else free_state I r' Q' s \<and> (if ws = [] then tail_part I t o1 e p else wakes_one I ws e p))"

text \<open>What one step of waking with the lock held may lead to.\<close>

definition lagged ::
    "('o, 'r, 'a) impl \<Rightarrow> thr \<Rightarrow> 'o \<Rightarrow> rc \<Rightarrow> thr list \<Rightarrow> 'r \<Rightarrow> queue_view \<Rightarrow> pt_state \<Rightarrow> 'a pt \<Rightarrow> pt_state \<Rightarrow> bool" where
  "lagged I t o1 e ws r Q s p s' \<longleftrightarrow>
     (kmsgs s' = kmsgs s \<and> spin s' (guard_of I) \<noteq> 0 \<and> lag I t o1 e ws r Q p s') \<or>
     (\<exists>w ws'. ws = w # ws' \<and> kmsgs s' = (kmsgs s)(w := 1) \<and> spin s' (guard_of I) \<noteq> 0 \<and>
        lag I t o1 e ws' r Q p s') \<or>
     (ws = [] \<and> kmsgs s' = kmsgs s \<and> free_state I r Q s' \<and> tail_part I t o1 e p)"

text \<open>
  One step of the caller \<open>t\<close> is matched by the machine.  A thread that holds the spin lock meanwhile sees
  nothing of it but messages.
\<close>

definition simulated ::
    "('h, 'o, 'r) gate \<Rightarrow> ('o, 'r, 'a) impl \<Rightarrow> ('h, 'o, 'r) room \<Rightarrow> thr \<Rightarrow> pt_state \<Rightarrow> ('h, 'o, 'a) caller \<Rightarrow> pt_state \<Rightarrow> bool" where
  "simulated G I a t s c s' \<longleftrightarrow>
     (\<exists>b st. (b = a \<or> gstep G a b) \<and> stages b = (stages a)(t := st) \<and>
        caller_rel G I t st (res b) (que b) s' c \<and> room_rel I b s' \<and>
        (\<forall>u. locked a = Some u \<longrightarrow> u \<noteq> t \<longrightarrow>
           res b = res a \<and> que b = que a \<and> (\<exists>m y. s' = s\<lparr>kmsgs := m, errno := y\<rparr>)))"

locale gate_impl = gate_laws G
  for G :: "('h, 'o, 'r) gate" +
  fixes R :: "('h, 'o) rules" and I :: "('o, 'r, 'a) impl" and E :: "pt_state env" and a0 :: "('h, 'o, 'r) room"
  assumes rules: "bound R = bound G" "allowed R = allowed G" "gain R = gain G"
    and ports: "mach_ports E" and clk: "clock_ok E"
    and line_head: "line G o1 = Some l \<Longrightarrow> is_head l"
    and prog_front: "front_part I t o1 (prog_of I t o1)"
    and object_frame [simp]:
      "object I r (s\<lparr>kmsgs := m\<rparr>) \<longleftrightarrow> object I r s" "object I r (s\<lparr>kexpired := x\<rparr>) \<longleftrightarrow> object I r s"
      "object I r (s\<lparr>errno := y\<rparr>) \<longleftrightarrow> object I r s"
      "object I r (s\<lparr>cell := c, prevp := v\<rparr>) \<longleftrightarrow> object I r s"
    and lag_frame [simp]:
      "lag I t o1 e ws r Q p (s\<lparr>kmsgs := m\<rparr>) \<longleftrightarrow> lag I t o1 e ws r Q p s"
      "lag I t o1 e ws r Q p (s\<lparr>kexpired := x\<rparr>) \<longleftrightarrow> lag I t o1 e ws r Q p s"
      "lag I t o1 e ws r Q p (s\<lparr>errno := y\<rparr>) \<longleftrightarrow> lag I t o1 e ws r Q p s"
    and front_locked: "greach G a0 a \<Longrightarrow> locked a \<noteq> None \<Longrightarrow> spin s (guard_of I) \<noteq> 0 \<Longrightarrow>
      front_part I t o1 p \<Longrightarrow> pstep E p s p' s' \<Longrightarrow> front_part I t o1 p' \<and> s' = s"
    and front_step: "greach G a0 a \<Longrightarrow> stages a t = Entering h o1 \<Longrightarrow> allowed G h o1 \<Longrightarrow> locked a = None \<Longrightarrow>
      front_part I t o1 p \<Longrightarrow> free_state I (res a) (que a) s \<Longrightarrow> \<not> queued s t \<Longrightarrow> in_range I s \<Longrightarrow>
      pstep E p s p' s' \<Longrightarrow> front_part I t o1 p' \<and> s' = s \<or> entered G I t o1 (res a) (que a) p' s' \<and> kmsgs s' = kmsgs s"
    and front_return: "\<not> front_part I t o1 (Return val)"
    and tail_return: "tail_part I t o1 e (Return val) \<longleftrightarrow> code_of I val = e"
    and tail_step: "tail_part I t o1 e p \<Longrightarrow> pstep E p s p' s' \<Longrightarrow>
      tail_part I t o1 e p' \<and> (\<exists>y. s' = s\<lparr>errno := y\<rparr>)"
    and last_late: "tail_part I t o1 ETIMEDOUT (last_part I t o1 ETIMEDOUT)"
    and last_step: "object I r s \<Longrightarrow> settled G o1 t r \<Longrightarrow> pstep E (last_part I t o1 OK) s p' s' \<Longrightarrow>
      tail_part I t o1 OK p' \<and> object I (complete G o1 t r) s' \<and> (\<exists>x. s' = s\<lparr>mutexes := x\<rparr>)"
    and last_return: "last_part I t o1 OK = Return val \<Longrightarrow> code_of I val = OK \<and> complete G o1 t r = r"
    and ending: "greach G a0 a \<Longrightarrow> stages a t = Ending h o1 \<Longrightarrow> settled G o1 t (res a) \<and> locked a = None"
    and lag_return: "\<not> lag I t o1 e ws r Q (Return val) s"
    and lag_step: "lag I t o1 e ws r Q p s \<Longrightarrow> (\<And>w. w \<in> set ws \<Longrightarrow> kmsgs s w = 0) \<Longrightarrow> distinct ws \<Longrightarrow>
      pstep E p s p' s' \<Longrightarrow> lagged I t o1 e ws r Q s p' s'"
    and no_crash: "\<not> front_part I t o1 (Crash f)" "\<not> tail_part I t o1 e (Crash f)"
      "\<not> lag I t o1 e ws r Q (Crash f) s" "last_part I t o1 OK \<noteq> Crash f"
    and start_inv: "gate_inv G a0"
begin

lemma reach_inv: "greach G a0 a \<Longrightarrow> gate_inv G a"
  using greach_inv start_inv by blast

lemma simulatedI:
  assumes "b = a \<or> gstep G a b" and "stages b = (stages a)(t := st)"
    and "caller_rel G I t st (res b) (que b) s' c" and "room_rel I b s'"
    and "\<And>u. locked a = Some u \<Longrightarrow> u \<noteq> t \<Longrightarrow>
      res b = res a \<and> que b = que a \<and> (\<exists>m y. s' = s\<lparr>kmsgs := m, errno := y\<rparr>)"
  shows "simulated G I a t s c s'"
  using assms unfolding simulated_def by blast

text \<open>Steps that change nothing but messages.\<close>

lemma room_rel_kmsgs:
  "room_rel I a s \<Longrightarrow> room_rel I (a\<lparr>stages := st, inbox := m\<rparr>) (s\<lparr>kmsgs := m\<rparr>)"
  by (simp add: room_rel_def free_state_def split: if_splits)

lemma room_rel_stages: "room_rel I a s \<Longrightarrow> room_rel I (a\<lparr>stages := st\<rparr>) s"
  by (simp add: room_rel_def free_state_def split: if_splits)

lemma only_messages: "\<exists>m y. s = s\<lparr>kmsgs := m, errno := y\<rparr>" "\<exists>m y. s\<lparr>kmsgs := k\<rparr> = s\<lparr>kmsgs := m, errno := y\<rparr>"
proof -
  have "s = s\<lparr>kmsgs := kmsgs s, errno := errno s\<rparr>" by (rule pt_state.equality) simp_all
  then show "\<exists>m y. s = s\<lparr>kmsgs := m, errno := y\<rparr>" by blast
  have "s\<lparr>kmsgs := k\<rparr> = s\<lparr>kmsgs := k, errno := errno s\<rparr>" by (rule pt_state.equality) simp_all
  then show "\<exists>m y. s\<lparr>kmsgs := k\<rparr> = s\<lparr>kmsgs := m, errno := y\<rparr>" by blast
qed

lemma sim_local:
  assumes "room_rel I a s" and "gstep G a (goto t st a)"
    and "caller_rel G I t st (res a) (que a) s c"
  shows "simulated G I a t s c s"
  by (rule simulatedI [where b = "goto t st a" and st = st])
    (use assms room_rel_stages only_messages in auto)

lemma sim_message:
  assumes "room_rel I a s" and "gstep G a (goto t st a\<lparr>inbox := m\<rparr>)" and "\<not> keeps_lock st"
    and "caller_rel G I t st (res a) (que a) s c"
  shows "simulated G I a t s c (s\<lparr>kmsgs := m\<rparr>)"
proof (rule simulatedI [where b = "goto t st a\<lparr>inbox := m\<rparr>" and st = st])
  show "caller_rel G I t st (res (goto t st a\<lparr>inbox := m\<rparr>)) (que (goto t st a\<lparr>inbox := m\<rparr>)) (s\<lparr>kmsgs := m\<rparr>) c"
    using assms(3,4) by (cases st) auto
qed (use assms room_rel_kmsgs [OF assms(1)] only_messages in auto)

text \<open>The waiting stages.\<close>

lemma sim_receive:
  assumes rel: "room_rel I a s" and msg: "kmsgs s t > 0"
    and st: "stages a t = Blocking h o1 \<and> deadline G o1 = None \<or> stages a t = Timed h o1 ms"
  shows "simulated G I a t s (Calling h o1 (woken_prog I t o1 OK)) (consumed t s)"
proof -
  have k: "kmsgs s = inbox a" using rel by (simp add: room_rel_def)
  have "gstep G a (goto t (Woken h o1 OK) a\<lparr>inbox := (inbox a)(t := inbox a t - 1)\<rparr>)"
    using gstep.receive [OF st] msg k by simp
  from sim_message [OF rel this] show ?thesis by (simp add: consumed_def k)
qed

lemma sim_Blocking:
  assumes rel: "room_rel I a s" and st: "stages a t = Blocking h o1"
    and ps: "pstep E (blocked_prog G I t o1) s p s'"
  shows "simulated G I a t s (Calling h o1 p) s'"
proof (cases "deadline G o1")
  case None
  with ps have "pstep E (andthen (pthread_block t) (\<lambda>_. woken_prog I t o1 OK)) s p s'"
    by (simp add: block_until_def)
  from pstep_block [OF ports this]
  have "kmsgs s t > 0" "p = woken_prog I t o1 OK" "s' = consumed t s" by simp_all
  with sim_receive [OF rel _ disjI1] st None show ?thesis by simp
next
  case (Some ts)
  with ps have "pstep E (andthen (pthread_timedblock t ts CLOCK_REALTIME) (woken_prog I t o1)) s p s'"
    by (simp add: block_until_def)
  from pstep_timedblock [OF clk this]
  have "s' = s" "p = woken_prog I t o1 ETIMEDOUT \<or> (\<exists>ms. p = andthen (timed_rest t ms) (woken_prog I t o1))"
    by auto
  with sim_local [OF rel gstep.late [OF st]] sim_local [OF rel gstep.clock [OF st]] Some show ?thesis by auto
qed

lemma sim_Timed:
  assumes rel: "room_rel I a s" and st: "stages a t = Timed h o1 ms"
    and ps: "pstep E (andthen (timed_rest t ms) (woken_prog I t o1)) s p s'"
  shows "simulated G I a t s (Calling h o1 p) s'"
  using pstep_timed_rest [OF ports ps]
proof (elim disjE conjE)
  assume "kmsgs s t = 0" "p = woken_prog I t o1 ETIMEDOUT" "s' = s"
  with sim_local [OF rel gstep.timeout [OF st]] rel show ?thesis by (simp add: room_rel_def)
next
  assume "kmsgs s t > 0" "p = woken_prog I t o1 OK" "s' = consumed t s"
  with sim_receive [OF rel _ disjI2] st show ?thesis by simp
qed

lemma sim_Draining:
  assumes rel: "room_rel I a s" and st: "stages a t = Draining h o1"
    and ps: "pstep E (andthen (pthread_block t) (\<lambda>_. last_part I t o1 ETIMEDOUT)) s p s'"
  shows "simulated G I a t s (Calling h o1 p) s'"
proof -
  have k: "kmsgs s = inbox a" using rel by (simp add: room_rel_def)
  from pstep_block [OF ports ps]
  have p: "kmsgs s t > 0" "p = last_part I t o1 ETIMEDOUT" "s' = consumed t s" by simp_all
  then have "gstep G a (goto t (Returned h o1 ETIMEDOUT) a\<lparr>inbox := (inbox a)(t := inbox a t - 1)\<rparr>)"
    using gstep.drain [OF st] k by simp
  from sim_message [OF rel this] last_late p show ?thesis by (simp add: consumed_def k)
qed

lemma lines_heads:
  assumes "gate_inv G a" and "\<not> is_head l"
  shows "que a l = []"
proof (rule ccontr)
  assume "que a l \<noteq> []"
  then have "hd (que a l) \<in> set (que a l)" by simp
  with lines_okD(2) [OF gate_invD(2) [OF assms(1)]] line_head assms(2) show False by blast
qed

lemma queued_in_line:
  assumes "gate_inv G a" and "queues s (que a)"
  shows "queued s t \<longleftrightarrow> in_line (que a) t"
  using wq.waits_view [OF assms(2)] lines_heads [OF assms(1)] unfolding in_line_def by fastforce

lemma sim_Woken:
  assumes rel: "room_rel I a s" and inv: "gate_inv G a" and st: "stages a t = Woken h o1 e"
    and ps: "pstep E (woken_prog I t o1 e) s p s'"
  shows "simulated G I a t s (Calling h o1 p) s'"
proof -
  have e: "e = OK \<or> e = ETIMEDOUT" using gate_invD(1) [OF inv, of t] st by (auto split: if_splits)
  have sp: "spin s (guard_of I) = 0" using ps by (auto simp: woken_part_def pstep_spin_section)
  with rel have free: "locked a = None" "free_state I (res a) (que a) s"
    by (auto simp: room_rel_def split: if_splits)
  then have q: "queues s (que a)" by (simp add: free_state_def)
  show ?thesis
  proof (cases "in_line (que a) t")
    case False
    then have "\<not> queued s t" using queued_in_line [OF inv q] by simp
    with pstep_woken_gone [OF ps] have "s' = s" "p = (if e = OK then last_part I t o1 OK
        else andthen (pthread_block t) (\<lambda>_. last_part I t o1 e))" by simp_all
    with sim_local [OF rel gstep.gone [OF st free(1) False]] e show ?thesis by (auto split: if_splits)
  next
    case True
    from pstep_woken_queued [OF ps q lines_heads [OF inv] True] obtain c v where
      p: "p = last_part I t o1 e" "s' = s\<lparr>cell := c, prevp := v\<rparr>" "linked c v (\<lambda>l. removeAll t (que a l))"
      by blast
    show ?thesis
      by (rule simulatedI [OF disjI2 [OF gstep.leave [OF st free(1) True]]])
        (use p free rel e last_late in \<open>auto simp: room_rel_def free_state_def\<close>)
  qed
qed

lemma sim_Ending:
  assumes rel: "room_rel I a s" and re: "greach G a0 a" and st: "stages a t = Ending h o1"
    and ps: "pstep E (last_part I t o1 OK) s p s'"
  shows "simulated G I a t s (Calling h o1 p) s'"
proof -
  from ending [OF re st] have l: "settled G o1 t (res a)" "locked a = None" by simp_all
  then have o: "object I (res a) s" using rel by (simp add: room_rel_def free_state_def)
  from last_step [OF o l(1) ps] obtain x where
    x: "tail_part I t o1 OK p" "object I (complete G o1 t (res a)) s'" "s' = s\<lparr>mutexes := x\<rparr>" by blast
  show ?thesis
    by (rule simulatedI [OF disjI2 [OF gstep.finish [OF st l(1)]]])
      (use x l rel in \<open>auto simp: room_rel_def free_state_def\<close>)
qed

lemma sim_Returned:
  assumes rel: "room_rel I a s" and st: "stages a t = Returned h o1 e"
    and "tail_part I t o1 e p" and ps: "pstep E p s p' s'"
  shows "simulated G I a t s (Calling h o1 p') s'"
proof -
  from tail_step [OF assms(3) ps] obtain y where
    p: "tail_part I t o1 e p'" "s' = s\<lparr>errno := y\<rparr>" by blast
  have "s\<lparr>errno := y\<rparr> = s\<lparr>kmsgs := kmsgs s, errno := y\<rparr>" by (rule pt_state.equality) simp_all
  then have e: "\<exists>m y'. s\<lparr>errno := y\<rparr> = s\<lparr>kmsgs := m, errno := y'\<rparr>" by blast
  show ?thesis
    by (rule simulatedI [where b = a and st = "Returned h o1 e"])
      (use p st rel e in \<open>auto simp: room_rel_def free_state_def split: if_splits\<close>)
qed

lemma sim_Waking_one:
  assumes rel: "room_rel I a s" and inv: "gate_inv G a" and st: "stages a t = Waking h o1 False ws e"
    and p: "wakes_one I ws e p" and ps: "pstep E p s p' s'"
  shows "simulated G I a t s (Calling h o1 p') s'"
proof -
  from p obtain w val where w: "ws = [w]" "p = andthen (pthread_wakeup w) (\<lambda>_. Return val)" "code_of I val = e"
    unfolding wakes_one_def by blast
  have k: "kmsgs s = inbox a" using rel by (simp add: room_rel_def)
  have m: "inbox a w = 0" using gate_inv_woken(1) [OF inv, of w t] st w by simp
  have "p' = Return val" "s' = s\<lparr>kmsgs := (kmsgs s)(w := 1)\<rparr>"
    using pstep_wakeup [OF ports _ ps [unfolded w]] m k by simp_all
  moreover have "gstep G a (goto t (Returned h o1 e) a\<lparr>inbox := (inbox a)(w := 1)\<rparr>)"
    using gstep.wake [of a t h o1 False w "[]" e] st w m by (simp add: wake_stage_def)
  ultimately show ?thesis
    using sim_message [OF rel, where t = t and st = "Returned h o1 e" and m = "(inbox a)(w := 1)"] w k by (simp add: tail_return)
qed

lemma locked_self:
  assumes "gate_inv G a" and "keeps_lock (stages a t)"
  shows "locked a = Some t"
  using gate_invD(3) [OF assms(1), of t] assms(2) by simp

lemma sim_Waking_locked:
  assumes rel: "room_rel I a s" and inv: "gate_inv G a" and st: "stages a t = Waking h o1 True ws e"
    and p: "lag I t o1 e ws (res a) (que a) p s" and ps: "pstep E p s p' s'"
  shows "simulated G I a t s (Calling h o1 p') s'"
proof -
  have k: "kmsgs s = inbox a" using rel by (simp add: room_rel_def)
  have lk: "locked a = Some t" using locked_self [OF inv, of t] st by simp
  have "inbox a w = 0" if "w \<in> set ws" for w using gate_inv_woken(1) [OF inv, of w t] st that by simp
  then have z: "kmsgs s w = 0" if "w \<in> set ws" for w using that k by simp
  have d: "distinct ws" using gate_invD(1) [OF inv, of t] st by simp
  have "lagged I t o1 e ws (res a) (que a) s p' s'" using lag_step [OF p _ d ps] z by blast
  then show ?thesis unfolding lagged_def
  proof (elim disjE exE conjE)
    assume "kmsgs s' = kmsgs s" "spin s' (guard_of I) \<noteq> 0" "lag I t o1 e ws (res a) (que a) p' s'"
    with lk k st show ?thesis
      by (intro simulatedI [where b = a and st = "Waking h o1 True ws e"]) (auto simp: room_rel_def)
  next
    fix w ws'
    assume w: "ws = w # ws'" "kmsgs s' = (kmsgs s)(w := 1)" "spin s' (guard_of I) \<noteq> 0"
      "lag I t o1 e ws' (res a) (que a) p' s'"
    have g: "gstep G a (goto t (Waking h o1 True ws' e) a\<lparr>inbox := (inbox a)(w := 1)\<rparr>)"
      using gstep.wake [of a t h o1 True w ws' e] st w z [of w] k by (simp add: wake_stage_def)
    show ?thesis
      by (rule simulatedI [OF disjI2 [OF g], where st = "Waking h o1 True ws' e"])
        (use w lk k in \<open>auto simp: room_rel_def\<close>)
  next
    assume w: "ws = []" "kmsgs s' = kmsgs s" "free_state I (res a) (que a) s'" "tail_part I t o1 e p'"
    have g: "gstep G a (goto t (Returned h o1 e) a\<lparr>locked := None\<rparr>)"
      using gstep.release [of a t h o1 e] st w by simp
    show ?thesis
      by (rule simulatedI [OF disjI2 [OF g], where st = "Returned h o1 e"])
        (use w lk k in \<open>auto simp: room_rel_def free_state_def\<close>)
  qed
qed

lemma sim_Entering:
  assumes rel: "room_rel I a s" and re: "greach G a0 a" and st: "stages a t = Entering h o1"
    and p: "front_part I t o1 p" and rg: "in_range I s" and ps: "pstep E p s p' s'"
  shows "simulated G I a t s (Calling h o1 p') s'"
proof (cases "locked a")
  case (Some u)
  with rel have "spin s (guard_of I) \<noteq> 0" by (simp add: room_rel_def)
  with front_locked [OF re _ _ p ps] Some rel st only_messages show ?thesis
    by (intro simulatedI [where b = a and st = "Entering h o1"]) auto
next
  case None
  note inv = reach_inv [OF re]
  have free: "free_state I (res a) (que a) s" and k: "kmsgs s = inbox a"
    using rel None by (simp_all add: room_rel_def)
  have t: "allowed G h o1" "\<not> in_line (que a) t" using gate_invD(1) [OF inv, of t] st by auto
  then have "\<not> queued s t" using queued_in_line [OF inv] free by (simp add: free_state_def)
  from front_step [OF re st t(1) None p free this rg ps] show ?thesis
  proof (elim disjE conjE)
    assume "front_part I t o1 p'" "s' = s"
    with rel st None show ?thesis
      by (intro simulatedI [where b = a and st = "Entering h o1"]) auto
  next
    assume en: "entered G I t o1 (res a) (que a) p' s'" and k': "kmsgs s' = kmsgs s"
    show ?thesis
    proof (cases "entry G o1 t (res a) (que a)")
      case (Join r)
      with en obtain l where l: "line G o1 = Some l" "p' = blocked_prog G I t o1"
        "free_state I r ((que a)(l := t # que a l)) s'" by (auto simp: entered_def)
      with Join k k' None show ?thesis
        by (intro simulatedI [OF disjI2 [OF gstep.join [OF st None Join l(1)]]]) (auto simp: room_rel_def)
    next
      case (Pass r Q b ws e)
      with en k k' None show ?thesis
        by (intro simulatedI [OF disjI2 [OF gstep.pass [OF st None Pass]]])
          (auto simp: room_rel_def entered_def wake_stage_def free_state_def split: if_splits)
    qed
  qed
qed

lemma sim_program:
  assumes rel: "callers_rel G I a (cs, s)" and re: "greach G a0 a" and c: "cs t = Calling h o1 p"
    and rg: "in_range I s" and ps: "pstep E p s p' s'"
  shows "simulated G I a t s (Calling h o1 p') s'"
proof -
  have r: "room_rel I a s" and cr: "caller_rel G I t (stages a t) (res a) (que a) s (Calling h o1 p)"
    using rel c by (auto simp: callers_rel_def dest: spec [of _ t])
  note inv = reach_inv [OF re]
  show ?thesis
  proof (cases "stages a t")
    case (Entering h o1)
    with cr sim_Entering [OF r re Entering _ rg] ps show ?thesis by auto
  next
    case (Blocking h o1)
    with cr sim_Blocking [OF r Blocking] ps show ?thesis by auto
  next
    case (Timed h o1 ms)
    with cr sim_Timed [OF r Timed] ps show ?thesis by auto
  next
    case (Woken h o1 e)
    with cr sim_Woken [OF r inv Woken] ps show ?thesis by auto
  next
    case (Draining h o1)
    with cr sim_Draining [OF r Draining] ps show ?thesis by auto
  next
    case (Ending h o1)
    with cr sim_Ending [OF r re Ending] ps show ?thesis by auto
  next
    case (Waking h o1 k ws e)
    with cr sim_Waking_one [OF r inv, of t h o1 ws e] sim_Waking_locked [OF r inv, of t h o1 ws e] ps
    show ?thesis by (cases k) auto
  next
    case (Returned h o1 e)
    with cr sim_Returned [OF r Returned] ps show ?thesis by auto
  qed (use cr in simp)
qed

text \<open>The other callers do not notice a step.\<close>

lemma caller_rel_free:
  "\<not> keeps_lock st \<Longrightarrow> caller_rel G I u st r Q s c \<longleftrightarrow> caller_rel G I u st r' Q' s' c"
  by (cases st) auto

lemma caller_rel_frame:
  "caller_rel G I u st r Q s c \<Longrightarrow> caller_rel G I u st r Q (s\<lparr>kmsgs := m, errno := y\<rparr>) c"
  by (cases st) (auto split: if_splits)

lemma callers_rel_upd:
  assumes rel: "callers_rel G I a (cs, s)" and inv: "gate_inv G a" and "simulated G I a t s c s'"
  shows "\<exists>b. (b = a \<or> gstep G a b) \<and> callers_rel G I b (cs(t := c), s')"
proof -
  from assms(3) obtain b st where b: "b = a \<or> gstep G a b" "stages b = (stages a)(t := st)"
    "caller_rel G I t st (res b) (que b) s' c" "room_rel I b s'"
    and lk: "\<And>u. locked a = Some u \<Longrightarrow> u \<noteq> t \<Longrightarrow>
      res b = res a \<and> que b = que a \<and> (\<exists>m y. s' = s\<lparr>kmsgs := m, errno := y\<rparr>)"
    unfolding simulated_def by blast
  have "caller_rel G I u (stages a u) (res b) (que b) s' (cs u)" if "u \<noteq> t" for u
  proof (cases "keeps_lock (stages a u)")
    case True
    from lk [OF locked_self [OF inv True] that] obtain m y
      where "res b = res a" "que b = que a" "s' = s\<lparr>kmsgs := m, errno := y\<rparr>" by blast
    with rel caller_rel_frame show ?thesis by (simp add: callers_rel_def)
  next
    case False
    from rel have "caller_rel G I u (stages a u) (res a) (que a) s (cs u)" by (simp add: callers_rel_def)
    with caller_rel_free [OF False] show ?thesis by blast
  qed
  with b have "callers_rel G I b (cs(t := c), s')" by (simp add: callers_rel_def)
  with b(1) show ?thesis by blast
qed

lemma worth_R: "worth R h o1 e = worth G h o1 e"
  by (simp add: worth_def rules)

lemma caller_at:
  assumes "callers_rel G I a (cs, s)"
  shows "caller_rel G I t (stages a t) (res a) (que a) s (cs t)"
  using assms by (simp add: callers_rel_def)

lemma caller_away:
  assumes "callers_rel G I a (cs, s)" and "cs t = Away h"
  shows "stages a t = Resting h"
  using caller_at [OF assms(1), of t] assms(2) by (cases "stages a t") auto

text \<open>A program that is over is a delivered result, or the end of a wait.\<close>

lemma caller_return:
  assumes "callers_rel G I a (cs, s)" and "cs t = Calling h o1 (Return val)"
  shows "stages a t = Returned h o1 (code_of I val) \<or> stages a t = Ending h o1 \<and> code_of I val = OK"
proof (cases "stages a t")
  case (Blocking h o2)
  with caller_at [OF assms(1), of t] assms(2) show ?thesis
    by (cases "deadline G o2")
      (auto simp: block_until_def pthread_block_def pthread_timedblock_def andthen_syscall syscall_def)
next
  case (Waking h o2 k ws e)
  with caller_at [OF assms(1), of t] assms(2) show ?thesis
    by (cases k) (auto simp: lag_return wakes_one_def pthread_wakeup_def syscall_def)
next
  case (Ending h o2)
  with caller_at [OF assms(1), of t] assms(2) last_return show ?thesis by (metis caller.inject(2) caller_rel.simps(7))
qed (use caller_at [OF assms(1), of t] assms(2) in
    \<open>auto simp: front_return tail_return timed_rest_def woken_part_def pthread_block_def spin_section_def
      section_of_def syscall_def\<close>)

lemma callers_local:
  assumes rel: "callers_rel G I a (cs, s)" and inv: "gate_inv G a" and g: "gstep G a (goto t st a)"
    and c: "caller_rel G I t st (res a) (que a) s c"
  shows "\<exists>b. (b = a \<or> gstep G a b) \<and> callers_rel G I b (cs(t := c), s)"
  using callers_rel_upd [OF rel inv sim_local [OF _ g c]] rel by (simp add: callers_rel_def)

lemma callers_return:
  assumes rel: "callers_rel G I a (cs, s)" and re: "greach G a0 a" and c: "cs t = Calling h o1 (Return val)"
  shows "\<exists>b. greach G a0 b \<and> callers_rel G I b (cs(t := Away (worth G h o1 (code_of I val))), s)"
proof -
  have r: "\<exists>b. greach G a0 b \<and> callers_rel G I b (cs(t := Away (worth G h o1 e)), s)"
    if rel: "callers_rel G I a (cs, s)" and re: "greach G a0 a" and st: "stages a t = Returned h o1 e" for a e
    using callers_local [OF rel reach_inv [OF re] gstep.return [OF st]] greach.step [OF re] re by auto
  from caller_return [OF rel c] show ?thesis
  proof
    assume "stages a t = Returned h o1 (code_of I val)"
    with r [OF rel re] show ?thesis by simp
  next
    assume e: "stages a t = Ending h o1 \<and> code_of I val = OK"
    let ?b = "goto t (Returned h o1 OK) a\<lparr>res := complete G o1 t (res a)\<rparr>"
    from e ending [OF re] have g: "gstep G a ?b" by (intro gstep.finish) auto
    have same: "complete G o1 t (res a) = res a"
      using caller_at [OF rel, of t] e c last_return [of t o1 val "res a"] by simp
    have cr: "caller_rel G I u (stages ?b u) (res ?b) (que ?b) s (cs u)" for u
      using caller_at [OF rel, of u] e c by (auto simp: tail_return same)
    moreover have "room_rel I ?b s" using rel by (simp add: callers_rel_def room_rel_def same)
    ultimately have "callers_rel G I ?b (cs, s)" by (simp only: callers_rel_def fst_conv snd_conv simp_thms)
    from r [OF this greach.step [OF re g]] e show ?thesis by simp
  qed
qed

text \<open>Every step of the system is matched by the machine.\<close>

lemma cstep_simulation:
  assumes "cstep E R (prog_of I) (code_of I) c d" and rel: "callers_rel G I a c" and re: "greach G a0 a"
    and rg: "in_range I (snd c)"
  shows "\<exists>b. greach G a0 b \<and> callers_rel G I b d"
  using assms(1)
proof cases
  case (call cs t h o1 s)
  have "gstep G a (goto t (Entering h o1) a)"
    using call caller_away [of a cs s t h] rel by (intro gstep.call) (auto simp: rules)
  from callers_local [OF _ reach_inv [OF re] this, of cs s "Calling h o1 (prog_of I t o1)"] call rel re
  show ?thesis by (auto simp: prog_front intro: greach.step)
next
  case (run cs t h o1 p s p' s')
  have "simulated G I a t s (Calling h o1 p') s'"
    using sim_program [of a cs s t h o1 p p' s'] run rel re rg by simp
  from callers_rel_upd [OF _ reach_inv [OF re] this, of cs] run rel re
  show ?thesis by (auto intro: greach.step)
next
  case (return cs t h o1 v s)
  from callers_return [OF _ re, of cs s t h o1 v] return rel show ?thesis by (simp add: worth_R)
next
  case (expire cs s x)
  have "caller_rel G I u (stages a u) (res a) (que a) (s\<lparr>kexpired := x\<rparr>) (cs u)" for u
    using caller_at [of a cs s u] rel expire by (cases "stages a u") (auto split: if_splits)
  with expire rel have "callers_rel G I a d"
    by (auto simp: callers_rel_def room_rel_def free_state_def split: if_splits)
  with re show ?thesis by blast
qed

lemma creach_rel:
  assumes "creach_in (in_range I) E R (prog_of I) (code_of I) c d" and "callers_rel G I a0 c"
  shows "\<exists>a. greach G a0 a \<and> callers_rel G I a d"
  using assms
proof induction
  case init
  then show ?case using greach.init by blast
next
  case (step d e)
  then show ?case using cstep_simulation by blast
qed

lemma creach_rel_always:
  assumes "creach E R (prog_of I) (code_of I) c d" and "callers_rel G I a0 c" and "\<And>s. in_range I s"
  shows "\<exists>a. greach G a0 a \<and> callers_rel G I a d"
  using creach_rel [OF creach_everywhere [OF assms(1), of "in_range I"]] assms(2,3) by blast

text \<open>No caller ever crashes.\<close>

lemma caller_no_crash:
  assumes "callers_rel G I a (cs, s)"
  shows "cs t \<noteq> Calling h o1 (Crash f)"
proof (cases "stages a t")
  case (Blocking h o2)
  with caller_at [OF assms, of t] show ?thesis
    by (cases "deadline G o2")
      (auto simp: block_until_def pthread_block_def pthread_timedblock_def andthen_syscall syscall_def)
next
  case (Waking h o2 k ws e)
  with caller_at [OF assms, of t] show ?thesis
    by (cases k) (auto simp: no_crash wakes_one_def pthread_wakeup_def syscall_def)
qed (use caller_at [OF assms, of t] in
    \<open>auto simp: no_crash timed_rest_def woken_part_def pthread_block_def spin_section_def
      section_of_def syscall_def\<close>)

end

section \<open>Callers that cannot go on\<close>

definition can_go :: "pt_state env \<Rightarrow> ('h, 'o, 'a) caller \<Rightarrow> pt_state \<Rightarrow> bool" where
  "can_go E c s \<longleftrightarrow>
     (case c of
        Away h \<Rightarrow> False
      | Calling h o1 p \<Rightarrow> (\<exists>v. p = Return v) \<or> (\<exists>p' s'. pstep E p s p' s'))"

lemma can_go_simps [simp]:
  "\<not> can_go E (Away h) s"
  "can_go E (Calling h o1 p) s \<longleftrightarrow> (\<exists>v. p = Return v) \<or> (\<exists>p' s'. pstep E p s p' s')"
  by (simp_all add: can_go_def)

text \<open>
  A standstill: no caller can go on.  With programs that always go on unless the spin lock is held or the
  port is empty, and without deadlines, the only callers left inside a call are then on a queue.
\<close>

locale gate_live = gate_impl +
  assumes front_goes: "front_part I t o1 p \<Longrightarrow> spin s (guard_of I) = 0 \<Longrightarrow> \<exists>p' s'. pstep E p s p' s'"
    and tail_goes: "tail_part I t o1 e p \<Longrightarrow> (\<exists>v. p = Return v) \<or> (\<exists>p' s'. pstep E p s p' s')"
    and last_goes: "(\<exists>v. last_part I t o1 OK = Return v) \<or> (\<exists>p' s'. pstep E (last_part I t o1 OK) s p' s')"
    and lag_goes: "lag I t o1 e ws r Q p s \<Longrightarrow> \<exists>p' s'. pstep E p s p' s'"
begin

lemma wakeup_goes: "\<exists>p' s'. pstep E (andthen (pthread_wakeup w) k) s p' s'"
  using mach_portsD(1) [OF ports, of w s]
  by (auto simp: pthread_wakeup_def andthen_syscall pstep_iffs)

lemma woken_goes: "spin s l = 0 \<Longrightarrow> \<exists>p' s'. pstep E (woken_part l t fin e) s p' s'"
  by (auto simp: woken_part_def pstep_spin_section)

lemma block_goes: "kmsgs s t > 0 \<Longrightarrow> \<exists>p' s'. pstep E (andthen (pthread_block t) k) s p' s'"
  using mach_portsD(2) [OF ports, of t s]
  by (auto simp: pthread_block_def andthen_syscall pstep_iffs)

lemma waking_goes:
  assumes "callers_rel G I a (cs, s)" and "stages a t = Waking h o1 k ws e"
  shows "can_go E (cs t) s"
proof -
  from caller_at [OF assms(1), of t] assms(2) obtain p where
    p: "cs t = Calling h o1 p" "if k then lag I t o1 e ws (res a) (que a) p s else wakes_one I ws e p" by auto
  have "\<exists>p' s'. pstep E p s p' s'"
  proof (cases k)
    case True
    with p(2) lag_goes show ?thesis by auto
  next
    case False
    with p(2) obtain w val where "p = andthen (pthread_wakeup w) (\<lambda>_. Return val)" by (auto simp: wakes_one_def)
    with wakeup_goes show ?thesis by simp
  qed
  with p(1) show ?thesis by simp
qed

lemma standstill_unlocked:
  assumes rel: "callers_rel G I a (cs, s)" and inv: "gate_inv G a" and still: "\<And>t. \<not> can_go E (cs t) s"
  shows "locked a = None"
proof (rule ccontr)
  assume "locked a \<noteq> None"
  then obtain t where "keeps_lock (stages a t)" using gate_invD(3) [OF inv] by blast
  then obtain h o1 ws e where "stages a t = Waking h o1 True ws e" by (cases "stages a t") auto
  with waking_goes [OF rel] still show False by blast
qed

lemma standstill:
  assumes rel: "callers_rel G I a (cs, s)" and inv: "gate_inv G a"
    and still: "\<And>t. \<not> can_go E (cs t) s" and untimed: "\<And>h o1. allowed G h o1 \<Longrightarrow> deadline G o1 = None"
  shows "(\<exists>h. stages a t = Resting h) \<or> (\<exists>h o1. stages a t = Blocking h o1 \<and> in_line (que a) t)"
proof -
  have sp: "spin s (guard_of I) = 0" and k: "kmsgs s = inbox a"
    using standstill_unlocked [OF rel inv still] rel by (simp_all add: callers_rel_def room_rel_def free_state_def)
  note c = caller_at [OF rel, of t] and g = still [of t] and ok = gate_invD(1) [OF inv, of t]
  show ?thesis
  proof (cases "stages a t")
    case (Entering h o1)
    with c g front_goes [OF _ sp] show ?thesis by fastforce
  next
    case (Blocking h o1)
    with ok have d: "deadline G o1 = None" by (auto simp: waitable_def dest: untimed)
    show ?thesis
    proof (cases "in_line (que a) t")
      case False
      with ok Blocking have "signalled (wakes a) (inbox a) t" by simp
      then consider "inbox a t > 0" | u where "t \<in> set (wakes a u)" unfolding signalled_def by fastforce
      then show ?thesis
      proof cases
        case 1
        with Blocking c g d k block_goes [of s t] show ?thesis by (fastforce simp: block_until_def)
      next
        case 2
        then obtain h o1 k ws e where "stages a u = Waking h o1 k ws e" by (cases "stages a u") auto
        with waking_goes [OF rel] still show ?thesis by blast
      qed
    qed (use Blocking in simp)
  next
    case (Woken h o1 e)
    with c g woken_goes [OF sp] show ?thesis by fastforce
  next
    case (Ending h o1)
    with c g last_goes show ?thesis by fastforce
  next
    case (Waking h o1 k ws e)
    with waking_goes [OF rel] g show ?thesis by blast
  next
    case (Returned h o1 e)
    with c g tail_goes show ?thesis by fastforce
  qed (use ok in \<open>auto simp: waitable_def dest: untimed\<close>)
qed

end

end
