(* ===== verification/Mutex_Gate.thy ===== *)
theory Mutex_Gate
  imports Gate_Impl
begin

text \<open>
  Mutexes of the three types as gates: the callers, who lock with or without deadlines, try to lock and
  unlock one mutex, the gate, and the invariant of its reachable states.  The object of the gate is whether the
  mutex is held, by whom and how often; what a thread has is the number of its acquisitions.  That the
  programs of \<open>Mutex\<close> follow this is shown in \<open>Mutex_Machine\<close>.
\<close>

section \<open>The callers\<close>

datatype mutex_op = Mutex_lock "timespec option" | Mutex_trylock | Mutex_unlock

fun mutex_prog :: "maddr \<Rightarrow> thr \<Rightarrow> mutex_op \<Rightarrow> rc pt" where
  "mutex_prog m t (Mutex_lock ts) = pthread_mutex_timedlock_internal m t ts"
| "mutex_prog m t Mutex_trylock = pthread_mutex_trylock m t"
| "mutex_prog m t Mutex_unlock = pthread_mutex_unlock m t"

datatype mutex_kind = Normal | Errorcheck | Recursive

definition known_attr :: "pthread_mutexattr option \<Rightarrow> bool" where
  "known_attr A \<longleftrightarrow>
     (case A of
        None \<Rightarrow> True
      | Some x \<Rightarrow> ma_mutex_type x \<in> {PTHREAD_MUTEX_NORMAL, PTHREAD_MUTEX_ERRORCHECK, PTHREAD_MUTEX_RECURSIVE})"

definition kind_of :: "pthread_mutexattr option \<Rightarrow> mutex_kind" where
  "kind_of A =
     (case A of
        None \<Rightarrow> Normal
      | Some x \<Rightarrow>
          if ma_mutex_type x = PTHREAD_MUTEX_ERRORCHECK then Errorcheck
          else if ma_mutex_type x = PTHREAD_MUTEX_RECURSIVE then Recursive else Normal)"

text \<open>
  The rules that the callers keep to.  Threads lock with a deadline whose \<^verbatim>\<open>tv_nsec\<close> is in range (with any other the
  return of \<^verbatim>\<open>EINVAL\<close> leaves the spin lock held, see \<open>timedlock_einval_leaks_lock\<close> in \<open>Mutex_Props\<close>), do not lock a normal mutex that they own, and do not nest more
  acquisitions than the counter can hold.  They unlock what they own; a mutex of the other types they may also unlock
  without owning it, to be told so, unless there are deadlines: then a thread can be recorded
  as the owner without knowing it.
\<close>

fun mutex_allowed :: "mutex_kind \<Rightarrow> timespec option set \<Rightarrow> nat \<Rightarrow> mutex_op \<Rightarrow> bool" where
  "mutex_allowed k D h (Mutex_lock ts) =
     (ts \<in> D \<and> \<not> bad_nsec ts \<and> (k = Normal \<longrightarrow> h = 0) \<and> Suc h < 2 ^ 32)"
| "mutex_allowed k D h Mutex_trylock = (Suc h < 2 ^ 32)"
| "mutex_allowed k D h Mutex_unlock = (0 < h \<or> k \<noteq> Normal \<and> D \<subseteq> {None})"

fun mutex_gain :: "mutex_op \<Rightarrow> nat \<Rightarrow> nat" where
  "mutex_gain Mutex_unlock h = h - 1"
| "mutex_gain _ h = Suc h"

definition mutex_rules :: "mutex_kind \<Rightarrow> nat \<Rightarrow> timespec option set \<Rightarrow> (nat, mutex_op) rules" where
  "mutex_rules k n D = \<lparr>bound = n, allowed = mutex_allowed k D, gain = mutex_gain\<rparr>"

text \<open>The start: nobody owns the mutex, which is as its initialisation leaves it, and no queue is in use.\<close>

definition mutex_start :: "maddr \<Rightarrow> pthread_mutexattr option \<Rightarrow> (nat, mutex_op, rc) callers \<Rightarrow> bool" where
  "mutex_start m A c \<longleftrightarrow>
     fst c = (\<lambda>_. Away 0) \<and> unlocked (snd c) m \<and> known_attr A \<and>
     resolve_attr (m_attr (mutexes (snd c) m)) = A \<and>
     m_owner (mutexes (snd c) m) = None \<and> m_locks (mutexes (snd c) m) = 0 \<and>
     cell (snd c) = (\<lambda>_. None) \<and> prevp (snd c) = (\<lambda>_. None) \<and> kmsgs (snd c) = (\<lambda>_. 0)"

section \<open>The gate\<close>

text \<open>
  The owner and the number of acquisitions are those of the code for the types that have them.  A thread
  that is handed the mutex records its acquisition only when it has woken up.
\<close>

record mutex_view =
  mv_held :: bool
  mv_owner :: "thr option"
  mv_locks :: nat

definition vacant :: mutex_view where
  "vacant = \<lparr>mv_held = False, mv_owner = None, mv_locks = 0\<rparr>"

fun mutex_entry ::
    "maddr \<Rightarrow> mutex_kind \<Rightarrow> mutex_op \<Rightarrow> thr \<Rightarrow> mutex_view \<Rightarrow> queue_view \<Rightarrow> mutex_view verdict" where
  "mutex_entry m k (Mutex_lock ts) t v Q =
     (if \<not> mv_held v then Pass \<lparr>mv_held = True, mv_owner = Some t, mv_locks = 1\<rparr> Q False [] OK
      else if mv_owner v = Some t \<and> k = Errorcheck then Pass v Q False [] EDEADLK
      else if mv_owner v = Some t \<and> k = Recursive
      then Pass (v\<lparr>mv_locks := Suc (mv_locks v)\<rparr>) Q False [] OK
      else Join v)"
| "mutex_entry m k Mutex_trylock t v Q =
     (if \<not> mv_held v then Pass \<lparr>mv_held = True, mv_owner = Some t, mv_locks = 1\<rparr> Q False [] OK
      else if mv_owner v = Some t \<and> k = Recursive
      then Pass (v\<lparr>mv_locks := Suc (mv_locks v)\<rparr>) Q False [] OK
      else Pass v Q False [] EBUSY)"
| "mutex_entry m k Mutex_unlock t v Q =
     (if k \<noteq> Normal \<and> mv_owner v \<noteq> Some t then Pass v Q False [] EPERM
      else if k = Recursive \<and> mv_locks v > 1
      then Pass (v\<lparr>mv_locks := mv_locks v - 1\<rparr>) Q False [] OK
      else
        (case Q (Mutex_queue m) of
           [] \<Rightarrow> Pass vacant Q False [] OK
         | w # ws \<Rightarrow>
             Pass \<lparr>mv_held = mv_held v, mv_owner = Some w, mv_locks = 0\<rparr> (Q(Mutex_queue m := ws)) False [w] OK))"

fun mutex_deadline :: "mutex_op \<Rightarrow> timespec option" where
  "mutex_deadline (Mutex_lock ts) = ts"
| "mutex_deadline _ = None"

fun mutex_line :: "maddr \<Rightarrow> mutex_op \<Rightarrow> loc option" where
  "mutex_line m (Mutex_lock ts) = Some (Mutex_queue m)"
| "mutex_line m _ = None"

definition mutex_settled :: "thr \<Rightarrow> mutex_view \<Rightarrow> bool" where
  "mutex_settled t v \<longleftrightarrow> mv_owner v = Some t \<and> mv_locks v = 0"

definition mutex_gate :: "maddr \<Rightarrow> mutex_kind \<Rightarrow> nat \<Rightarrow> timespec option set \<Rightarrow> (nat, mutex_op, mutex_view) gate" where
  "mutex_gate m k n D =
     \<lparr>bound = n, allowed = mutex_allowed k D, gain = mutex_gain, deadline = mutex_deadline,
      line = mutex_line m, entry = mutex_entry m k, settled = (\<lambda>_. mutex_settled),
      complete = (\<lambda>_ _ v. v\<lparr>mv_locks := 1\<rparr>)\<rparr>"

lemma mutex_gate_simps [simp]:
  "bound (mutex_gate m k n D) = n" "allowed (mutex_gate m k n D) = mutex_allowed k D"
  "gain (mutex_gate m k n D) = mutex_gain" "deadline (mutex_gate m k n D) = mutex_deadline"
  "line (mutex_gate m k n D) = mutex_line m" "entry (mutex_gate m k n D) = mutex_entry m k"
  "settled (mutex_gate m k n D) o1 t v = mutex_settled t v"
  "complete (mutex_gate m k n D) o1 t v = v\<lparr>mv_locks := 1\<rparr>"
  "bound (mutex_rules k n D) = n" "allowed (mutex_rules k n D) = mutex_allowed k D"
  "gain (mutex_rules k n D) = mutex_gain"
  by (simp_all add: mutex_gate_def mutex_rules_def)

lemma vacant_simps [simp]: "\<not> mv_held vacant" "mv_owner vacant = None" "mv_locks vacant = 0"
  by (simp_all add: vacant_def)

text \<open>Only an unlock touches a queue: it takes the first waiter off.\<close>

lemma mutex_entry_pass:
  assumes "mutex_entry m k o1 t v Q = Pass r Q' b ws e"
  shows "\<not> b \<and> (Q' = Q \<and> ws = [] \<or>
    (\<exists>w vs. Q (Mutex_queue m) = w # vs \<and> Q' = Q(Mutex_queue m := vs) \<and> ws = [w]))"
  using assms by (cases o1; simp split: if_splits list.splits)

text \<open>The ways to pass: acquiring, nesting or being refused, and releasing, handing over, unnesting or being refused.\<close>

lemma mutex_entry_join:
  assumes "mutex_entry m k o1 t v Q = Join r"
  shows "r = v \<and> mv_held v \<and> (\<exists>ts. o1 = Mutex_lock ts) \<and> (k = Normal \<or> mv_owner v \<noteq> Some t)"
  using assms mutex_kind.exhaust [of k] by (cases o1; auto split: if_splits list.splits)

lemma mutex_entry_lock:
  assumes "mutex_entry m k o1 t v Q = Pass r Q' b ws e" and "o1 \<noteq> Mutex_unlock"
  shows "Q' = Q \<and> ws = [] \<and>
    (\<not> mv_held v \<and> e = OK \<and> r = \<lparr>mv_held = True, mv_owner = Some t, mv_locks = 1\<rparr> \<or>
     k = Recursive \<and> mv_held v \<and> mv_owner v = Some t \<and> e = OK \<and> r = v\<lparr>mv_locks := Suc (mv_locks v)\<rparr> \<or>
     e \<noteq> OK \<and> r = v)"
  using assms by (cases o1; simp split: if_splits; fail)

lemma mutex_entry_unlock:
  assumes "mutex_entry m k Mutex_unlock t v Q = Pass r Q' b ws e"
  shows "k \<noteq> Normal \<and> mv_owner v \<noteq> Some t \<and> e \<noteq> OK \<and> r = v \<and> Q' = Q \<and> ws = [] \<or>
    \<not> (k \<noteq> Normal \<and> mv_owner v \<noteq> Some t) \<and> e = OK \<and>
    (k = Recursive \<and> mv_locks v > 1 \<and> r = v\<lparr>mv_locks := mv_locks v - 1\<rparr> \<and> Q' = Q \<and> ws = [] \<or>
     \<not> (k = Recursive \<and> mv_locks v > 1) \<and>
       (Q (Mutex_queue m) = [] \<and> r = vacant \<and> Q' = Q \<and> ws = [] \<or>
        (\<exists>w vs. Q (Mutex_queue m) = w # vs \<and> r = \<lparr>mv_held = mv_held v, mv_owner = Some w, mv_locks = 0\<rparr> \<and>
           Q' = Q(Mutex_queue m := vs) \<and> ws = [w])))"
  using assms by (simp split: if_splits list.splits; fail)

interpretation mutex_laws: gate_laws "mutex_gate m k n D" for m k n D
proof
  fix o1 t r Q r' Q' b ws e
  assume en: "entry (mutex_gate m k n D) o1 t r Q = Pass r' Q' b ws e"
    and d: "\<And>l. distinct (Q l)" and j: "\<And>l l' u. u \<in> set (Q l) \<Longrightarrow> u \<in> set (Q l') \<Longrightarrow> l = l'"
  show "distinct ws \<and> (\<forall>l. distinct (Q' l) \<and> set (Q' l) \<subseteq> set (Q l)) \<and>
      (\<forall>u. in_line Q u = (in_line Q' u \<or> u \<in> set ws)) \<and> (\<forall>u. u \<in> set ws \<longrightarrow> \<not> in_line Q' u)"
    by (rule pass_lines_one [where l = "Mutex_queue m"])
      (use d j mutex_entry_pass [OF en [simplified]] in blast)+
qed

section \<open>The invariant\<close>

text \<open>
  Nobody but the recorded owner has the mutex, and the owner has it as often as is recorded, unless it has
  been handed the mutex and has yet to record that.  With deadlines the owner may not know.
\<close>

definition owned_by ::
    "mutex_kind \<Rightarrow> bool \<Rightarrow> (thr \<Rightarrow> nat) \<Rightarrow> (thr \<Rightarrow> bool) \<Rightarrow> thr \<Rightarrow> mutex_view \<Rightarrow> bool" where
  "owned_by k untimed hs ds w v \<longleftrightarrow>
     mv_held v \<and> mv_owner v = Some w \<and> (\<forall>t. t \<noteq> w \<longrightarrow> hs t = 0 \<and> \<not> ds t) \<and>
     (if ds w then hs w = 1 \<and> mv_locks v = 0 else hs w = mv_locks v) \<and>
     (k \<noteq> Recursive \<longrightarrow> mv_locks v \<le> 1) \<and> (untimed \<longrightarrow> hs w > 0)"

definition mutex_room ::
    "maddr \<Rightarrow> mutex_kind \<Rightarrow> nat \<Rightarrow> timespec option set \<Rightarrow> (nat, mutex_op, mutex_view) room \<Rightarrow> bool" where
  "mutex_room m k n D a \<longleftrightarrow>
     (let hs = holds (mutex_gate m k n D) a; q = que a (Mutex_queue m) in
      (res a = vacant \<and> q = [] \<and> (\<forall>t. hs t = 0 \<and> \<not> dues a t) \<or>
       (\<exists>w. owned_by k (D \<subseteq> {None}) hs (dues a) w (res a))) \<and>
      (\<forall>t\<in>set q. hs t = 0) \<and> (\<forall>t. hs t < 2 ^ 32))"

lemma mutex_room_cases:
  assumes "mutex_room m k n D a"
  obtains (free) "res a = vacant" "que a (Mutex_queue m) = []"
      "\<And>t. holds (mutex_gate m k n D) a t = 0" "\<And>t. \<not> dues a t"
    | (owned) w where "owned_by k (D \<subseteq> {None}) (holds (mutex_gate m k n D) a) (dues a) w (res a)"
  using assms unfolding mutex_room_def Let_def by blast

lemma mutex_room_queue:
  "mutex_room m k n D a \<Longrightarrow> t \<in> set (que a (Mutex_queue m)) \<Longrightarrow> holds (mutex_gate m k n D) a t = 0"
  "mutex_room m k n D a \<Longrightarrow> holds (mutex_gate m k n D) a t < 2 ^ 32"
  by (simp_all add: mutex_room_def Let_def)

lemma mutex_roomI:
  assumes "owned_by k (D \<subseteq> {None}) (holds (mutex_gate m k n D) b) (dues b) w (res b)"
    and "\<And>t. t \<in> set (que b (Mutex_queue m)) \<Longrightarrow> holds (mutex_gate m k n D) b t = 0"
    and "\<And>t. holds (mutex_gate m k n D) b t < 2 ^ 32"
  shows "mutex_room m k n D b"
  using assms unfolding mutex_room_def Let_def by blast

text \<open>The sections: acquisition, nested acquisition, nested release, release, and handing over.\<close>

lemma owned_take:
  assumes "\<And>u. hs u = 0 \<and> \<not> ds u" and "hs' = hs(t := 1)" and "ds' = ds"
  shows "owned_by k un hs' ds' t \<lparr>mv_held = True, mv_owner = Some t, mv_locks = 1\<rparr>"
  using assms by (simp add: owned_by_def)

lemma owned_nest:
  assumes "owned_by k un hs ds t v" and "\<not> ds t" and "k = Recursive" and "hs' = hs(t := Suc (hs t))" and "ds' = ds"
  shows "owned_by k un hs' ds' t (v\<lparr>mv_locks := Suc (mv_locks v)\<rparr>)"
  using assms by (simp add: owned_by_def)

lemma owned_unnest:
  assumes "owned_by k un hs ds t v" and "\<not> ds t" and "k = Recursive" and "mv_locks v > 1"
    and "hs' = hs(t := hs t - 1)" and "ds' = ds"
  shows "owned_by k un hs' ds' t (v\<lparr>mv_locks := mv_locks v - 1\<rparr>)"
  using assms by (simp add: owned_by_def)

lemma owned_release:
  assumes "owned_by k un hs ds t v" and "\<not> ds t" and "\<not> (k = Recursive \<and> mv_locks v > 1)"
    and "hs' = hs(t := hs t - 1)" and "ds' = ds"
  shows "hs' u = 0 \<and> \<not> ds' u"
  using assms by (cases "u = t") (auto simp: owned_by_def split: if_splits)

lemma owned_hand:
  assumes "owned_by k un hs ds t v" and "\<not> ds t" and "\<not> (k = Recursive \<and> mv_locks v > 1)" and "w \<noteq> t"
    and "hs' = hs(t := hs t - 1, w := 1)" and "\<And>u. ds' u \<longleftrightarrow> u = w \<or> ds u"
  shows "owned_by k un hs' ds' w \<lparr>mv_held = mv_held v, mv_owner = Some w, mv_locks = 0\<rparr>"
  using assms by (auto simp: owned_by_def)

text \<open>Who unlocks is the owner.\<close>

lemma unlocker_owns:
  assumes "owned_by k (D \<subseteq> {None}) hs ds w v" and "\<not> ds t" and "mutex_allowed k D (hs t) Mutex_unlock"
    and "\<not> (k \<noteq> Normal \<and> mv_owner v \<noteq> Some t)"
  shows "w = t \<and> 0 < hs t \<and> hs t = mv_locks v"
  using assms by (auto simp: owned_by_def split: if_splits)

lemma mutex_room_lock:
  assumes room: "mutex_room m k n D a" and t: "\<not> dues a t" "t \<notin> set (que a (Mutex_queue m))"
    and al: "mutex_allowed k D (holds (mutex_gate m k n D) a t) o1" and o1: "o1 \<noteq> Mutex_unlock"
    and en: "mutex_entry m k o1 t (res a) (que a) = Pass (res b) (que b) b0 ws e"
    and hb: "holds (mutex_gate m k n D) b =
      (holds (mutex_gate m k n D) a)(t := worth (mutex_gate m k n D) (holds (mutex_gate m k n D) a t) o1 e)"
    and db: "dues b = dues a"
  shows "mutex_room m k n D b"
proof -
  let ?hs = "holds (mutex_gate m k n D) a" and ?hb = "holds (mutex_gate m k n D) b" and ?v = "res a"
  let ?q = "que a (Mutex_queue m)"
  have bnd: "?hs u < 2 ^ 32" and zero: "u \<in> set ?q \<Longrightarrow> ?hs u = 0" for u
    using mutex_room_queue [OF room] by simp_all
  have ok: "Suc (?hs t) < 2 ^ 32" using al o1 by (cases o1) auto
  have g: "mutex_gain o1 (?hs t) = Suc (?hs t)" using o1 by (cases o1) auto
  have que: "que b = que a" using mutex_entry_lock [OF en o1] by blast
  from mutex_entry_lock [OF en o1]
  consider (take) "\<not> mv_held ?v" "e = OK" "res b = \<lparr>mv_held = True, mv_owner = Some t, mv_locks = 1\<rparr>"
    | (nest) "k = Recursive" "mv_held ?v" "mv_owner ?v = Some t" "e = OK" "res b = ?v\<lparr>mv_locks := Suc (mv_locks ?v)\<rparr>"
    | (refuse) "e \<noteq> OK" "res b = ?v" by blast
  then show ?thesis
  proof cases
    case take
    have h: "?hs u = 0 \<and> \<not> dues a u" for u
      using room take(1) by (cases rule: mutex_room_cases) (simp_all add: owned_by_def)
    have q: "?q = []" using room take(1) by (cases rule: mutex_room_cases) (simp_all add: owned_by_def)
    have hb: "?hb = ?hs(t := 1)" using hb take h g by simp
    show ?thesis
      by (rule mutex_roomI, unfold take(3), rule owned_take [OF h hb db]) (use hb h q que in simp_all)
  next
    case nest
    have hb: "?hb = ?hs(t := Suc (?hs t))" using hb nest g by simp
    have o: "owned_by k (D \<subseteq> {None}) ?hs (dues a) t ?v"
      using room nest(2,3) by (cases rule: mutex_room_cases) (simp_all add: owned_by_def)
    show ?thesis
      by (rule mutex_roomI, unfold nest(5), rule owned_nest [OF o t(1) nest(1) hb db])
        (use hb ok bnd zero que t(2) in \<open>auto split: if_splits\<close>)
  next
    case refuse
    then have "?hb = ?hs" using hb by (simp add: fun_upd_idem)
    with refuse db que room show ?thesis by (simp add: mutex_room_def)
  qed
qed

lemma mutex_room_unlock:
  assumes room: "mutex_room m k n D a" and t: "\<not> dues a t" "t \<notin> set ws"
    and al: "mutex_allowed k D (holds (mutex_gate m k n D) a t) Mutex_unlock"
    and en: "mutex_entry m k Mutex_unlock t (res a) (que a) = Pass (res b) (que b) b0 ws e"
    and hw: "\<And>u. u \<in> set ws \<Longrightarrow> holds (mutex_gate m k n D) b u = Suc (holds (mutex_gate m k n D) a u)"
    and ho: "\<And>u. u \<notin> set ws \<Longrightarrow> holds (mutex_gate m k n D) b u =
      (if u = t then worth (mutex_gate m k n D) (holds (mutex_gate m k n D) a t) Mutex_unlock e
       else holds (mutex_gate m k n D) a u)"
    and db: "\<And>u. dues b u \<longleftrightarrow> u \<in> set ws \<or> dues a u" and dist: "distinct (que a (Mutex_queue m))"
  shows "mutex_room m k n D b"
proof -
  let ?hs = "holds (mutex_gate m k n D) a" and ?hb = "holds (mutex_gate m k n D) b" and ?v = "res a"
  let ?q = "que a (Mutex_queue m)"
  have bnd: "?hs u < 2 ^ 32" and zero: "u \<in> set ?q \<Longrightarrow> ?hs u = 0" for u
    using mutex_room_queue [OF room] by simp_all
  have nil: "?hb = ?hs(t := worth (mutex_gate m k n D) (?hs t) Mutex_unlock e) \<and> dues b = dues a" if "ws = []"
    using ho db that by (simp add: fun_eq_iff)
  have own: "owned_by k (D \<subseteq> {None}) ?hs (dues a) t ?v" if "\<not> (k \<noteq> Normal \<and> mv_owner ?v \<noteq> Some t)"
    using room
  proof (cases rule: mutex_room_cases)
    case free
    with al that show ?thesis by auto
  next
    case (owned w)
    with unlocker_owns [OF owned t(1) al that] show ?thesis by simp
  qed
  from mutex_entry_unlock [OF en] consider
      (refuse) "e \<noteq> OK" "res b = ?v" "que b = que a" "ws = []"
    | (unnest) "\<not> (k \<noteq> Normal \<and> mv_owner ?v \<noteq> Some t)" "e = OK" "k = Recursive" "mv_locks ?v > 1"
        "res b = ?v\<lparr>mv_locks := mv_locks ?v - 1\<rparr>" "que b = que a" "ws = []"
    | (release) "\<not> (k \<noteq> Normal \<and> mv_owner ?v \<noteq> Some t)" "e = OK" "\<not> (k = Recursive \<and> mv_locks ?v > 1)"
        "?q = []" "res b = vacant" "que b = que a" "ws = []"
    | (hand) w vs where "\<not> (k \<noteq> Normal \<and> mv_owner ?v \<noteq> Some t)" "e = OK" "\<not> (k = Recursive \<and> mv_locks ?v > 1)"
        "?q = w # vs" "res b = \<lparr>mv_held = mv_held ?v, mv_owner = Some w, mv_locks = 0\<rparr>"
        "que b = (que a)(Mutex_queue m := vs)" "ws = [w]" by blast
  then show ?thesis
  proof cases
    case refuse
    with nil have "?hb = ?hs" "dues b = dues a" by (simp_all add: fun_upd_idem)
    with refuse room show ?thesis by (simp add: mutex_room_def)
  next
    case unnest
    from nil unnest have hb: "?hb = ?hs(t := ?hs t - 1)" and db: "dues b = dues a" by simp_all
    have o: "owned_by k (D \<subseteq> {None}) ?hb (dues b) t (res b)"
      unfolding unnest(5) by (rule owned_unnest [OF own [OF unnest(1)] t(1) unnest(3,4) hb db])
    show ?thesis by (rule mutex_roomI [OF o]) (use hb bnd zero unnest(6) in \<open>auto simp: less_imp_diff_less split: if_splits\<close>)
  next
    case release
    from nil release have hb: "?hb = ?hs(t := ?hs t - 1)" and db: "dues b = dues a" by simp_all
    have "?hb u = 0 \<and> \<not> dues b u" for u
      by (rule owned_release [OF own [OF release(1)] t(1) release(3) hb db])
    with release show ?thesis by (simp add: mutex_room_def)
  next
    case (hand w vs)
    have wt: "w \<noteq> t" using hand t(2) by auto
    have hb: "?hb = ?hs(t := ?hs t - 1, w := 1)"
      using ho hw [of w] hand zero [of w] wt by (auto simp: fun_eq_iff)
    have o: "owned_by k (D \<subseteq> {None}) ?hb (dues b) w (res b)"
      unfolding hand(5) by (rule owned_hand [OF own [OF hand(1)] t(1) hand(3) wt hb]) (use db hand in auto)
    show ?thesis
      by (rule mutex_roomI [OF o]) (use hb bnd zero hand dist in \<open>auto simp: less_imp_diff_less split: if_splits\<close>)
  qed
qed

lemma mutex_room_step:
  assumes eff: "effect (mutex_gate m k n D) a b" and inv: "gate_inv (mutex_gate m k n D) a"
    and room: "mutex_room m k n D a"
  shows "mutex_room m k n D b"
  using eff
proof cases
  case (silent t)
  then have "set (que b (Mutex_queue m)) \<subseteq> set (que a (Mutex_queue m))"
    "que a (Mutex_queue m) = [] \<longrightarrow> que b (Mutex_queue m) = []" by auto
  with silent room show ?thesis unfolding mutex_room_def Let_def by auto
next
  case (completed t h o1)
  from room show ?thesis
  proof (cases rule: mutex_room_cases)
    case (owned w)
    with completed(6) have "w = t" by (auto simp: owned_by_def)
    with owned completed have "owned_by k (D \<subseteq> {None}) (holds (mutex_gate m k n D) b) (dues b) t (res b)"
      by (simp add: owned_by_def)
    then show ?thesis by (rule mutex_roomI) (use mutex_room_queue [OF room] completed in auto)
  qed (use completed in simp)
next
  case (lost t h o1)
  then have h: "holds (mutex_gate m k n D) a t = Suc h" "\<not> D \<subseteq> {None}" by (cases o1; auto simp: waitable_def)+
  from room show ?thesis
  proof (cases rule: mutex_room_cases)
    case (owned w)
    with lost(9) have w: "w = t" by (auto simp: owned_by_def)
    with owned lost h have "owned_by k (D \<subseteq> {None}) (holds (mutex_gate m k n D) b) (dues b) t (res b)"
      by (simp add: owned_by_def)
    then show ?thesis
      by (rule mutex_roomI) (use mutex_room_queue [OF room] lost owned w h in \<open>auto simp: owned_by_def split: if_splits\<close>)
  qed (use lost in simp)
next
  case (joined t o1 r l)
  from mutex_entry_join [OF joined(3) [unfolded mutex_gate_simps]] obtain ts where
    v: "r = res a" "mv_held (res a)" "o1 = Mutex_lock ts" "k = Normal \<or> mv_owner (res a) \<noteq> Some t" by blast
  have "holds (mutex_gate m k n D) a t = 0"
    using room
  proof (cases rule: mutex_room_cases)
    case (owned w)
    with v joined(1) show ?thesis by (auto simp: owned_by_def)
  qed simp
  with joined v room show ?thesis unfolding mutex_room_def Let_def by auto
next
  case (passed t o1 ws r Q b0 e)
  have en: "mutex_entry m k o1 t (res a) (que a) = Pass (res b) (que b) b0 ws e" using passed(5,8,9) by simp
  have hw: "holds (mutex_gate m k n D) b u = Suc (holds (mutex_gate m k n D) a u)" if "u \<in> set ws" for u
  proof -
    from passed(6) [OF that] obtain o2 l where "mutex_line m o2 = Some l"
      "holds (mutex_gate m k n D) b u = mutex_gain o2 (holds (mutex_gate m k n D) a u)" by auto
    then show ?thesis by (cases o2) auto
  qed
  have dist: "distinct (que a (Mutex_queue m))" using lines_okD(1) [OF gate_invD(2) [OF inv]] .
  show ?thesis
  proof (cases "o1 = Mutex_unlock")
    case True
    show ?thesis
      by (rule mutex_room_unlock [OF room passed(10,3) _ _ hw _ passed(11) dist])
        (use passed(1,7) en True in auto)
  next
    case False
    have ws: "ws = []" using mutex_entry_lock [OF en False] by blast
    have q: "t \<notin> set (que a (Mutex_queue m))" using passed(12) by (auto simp: in_line_def)
    show ?thesis
      by (rule mutex_room_lock [OF room passed(10) q _ False en])
        (use passed(1,7,11) ws in \<open>auto simp: fun_eq_iff\<close>)
  qed
qed

lemma mutex_reach_room:
  assumes "greach (mutex_gate m k n D) (room_init 0 vacant) a"
  shows "gate_inv (mutex_gate m k n D) a \<and> mutex_room m k n D a"
  using assms
proof induction
  case init
  then show ?case
    using room_init_inv [of "mutex_gate m k n D"] by (simp add: mutex_room_def room_init_def holds_def dues_def)
next
  case (step b c)
  then show ?case using mutex_laws.gstep_inv mutex_laws.gstep_effect mutex_room_step by blast
qed

lemma mutex_unlocked:
  assumes "greach (mutex_gate m k n D) (room_init 0 vacant) a"
  shows "locked a = None"
proof -
  have "\<not> keeps_lock (stages a t)" for t
    using greach_unlocked [OF assms] mutex_entry_pass by (metis mutex_gate_simps(6))
  then show ?thesis using gate_invD(3) mutex_reach_room [OF assms] by (metis not_Some_eq)
qed

text \<open>A thread that has been woken finds itself recorded as the owner.\<close>

lemma mutex_ending:
  assumes "greach (mutex_gate m k n D) (room_init 0 vacant) a" and "stages a t = Ending h o1"
  shows "mutex_settled t (res a) \<and> locked a = None"
proof -
  have d: "dues a t" using assms(2) by (simp add: dues_def)
  have room: "mutex_room m k n D a" using mutex_reach_room [OF assms(1)] by blast
  then have "mutex_settled t (res a)"
  proof (cases rule: mutex_room_cases)
    case (owned w)
    with d have "w = t" by (auto simp: owned_by_def)
    with owned d show ?thesis by (simp add: owned_by_def mutex_settled_def)
  qed (use d in simp)
  with mutex_unlocked [OF assms(1)] show ?thesis by blast
qed

end
