(* ===== verification/Mutex_Machine.thy ===== *)
theory Mutex_Machine
  imports Mutex_Gate
begin

text \<open>
  All interleavings of any number of threads that lock, with or without deadlines, try to lock and
  unlock one mutex of any of the three types, as steps of the programs of \<open>Mutex\<close>: the programs implement the
  gate of \<open>Mutex_Gate\<close>, which gives their safety and progress.
\<close>

section \<open>The programs follow the protocol\<close>

text \<open>The programs after they have read the attributes.\<close>

fun mutex_front :: "pthread_mutexattr option \<Rightarrow> maddr \<Rightarrow> thr \<Rightarrow> mutex_op \<Rightarrow> rc pt" where
  "mutex_front A m t (Mutex_lock ts) =
     andthen (spin_section (M_lock m) (timedlock_enter A m t ts)) (\<lambda>r.
       case r of
         Some err \<Rightarrow> Return err
       | None \<Rightarrow> andthen (block_until t ts CLOCK_REALTIME) (timedlock_woken A m t))"
| "mutex_front A m t Mutex_trylock = spin_section (M_lock m) (trylock_section A m t)"
| "mutex_front A m t Mutex_unlock =
     andthen (spin_section (M_lock m) (unlock_section A m t)) (\<lambda>(err, wakeup).
       case wakeup of
         None \<Rightarrow> Return err
       | Some w \<Rightarrow> andthen (pthread_wakeup w) (\<lambda>_. Return err))"

definition mutex_object :: "pthread_mutexattr option \<Rightarrow> maddr \<Rightarrow> mutex_view \<Rightarrow> pt_state \<Rightarrow> bool" where
  "mutex_object A m v s \<longleftrightarrow>
     spin s (M_held m) = (if mv_held v then 1 else 0) \<and> resolve_attr (m_attr (mutexes s m)) = A \<and>
     (kind_of A \<noteq> Normal \<longrightarrow> m_owner (mutexes s m) = mv_owner v) \<and>
     (kind_of A = Recursive \<longrightarrow> m_locks (mutexes s m) = of_nat (mv_locks v))"

definition mutex_impl :: "pthread_mutexattr option \<Rightarrow> maddr \<Rightarrow> (mutex_op, mutex_view, rc) impl" where
  "mutex_impl A m =
     \<lparr>guard_of = M_lock m, prog_of = mutex_prog m, code_of = (\<lambda>v. v),
      front_part = (\<lambda>t o1 p. p = mutex_prog m t o1 \<or> p = mutex_front A m t o1),
      last_part = (\<lambda>t o1. timedlock_end A m t), tail_part = (\<lambda>t o1 e p. p = Return e),
      lag = (\<lambda>_ _ _ _ _ _ _ _. False), object = mutex_object A m,
      in_range = (\<lambda>_. True)\<rparr>"

lemma mutex_impl_simps [simp]:
  "guard_of (mutex_impl A m) = M_lock m" "prog_of (mutex_impl A m) = mutex_prog m"
  "code_of (mutex_impl A m) = (\<lambda>v. v)"
  "front_part (mutex_impl A m) t o1 p \<longleftrightarrow> p = mutex_prog m t o1 \<or> p = mutex_front A m t o1"
  "last_part (mutex_impl A m) t o1 = timedlock_end A m t"
  "tail_part (mutex_impl A m) t o1 e p \<longleftrightarrow> p = Return e" "\<not> lag (mutex_impl A m) t o1 e ws r Q p s"
  "object (mutex_impl A m) = mutex_object A m" "in_range (mutex_impl A m) s"
  by (simp_all add: mutex_impl_def)

lemma known_attr_cases:
  assumes "known_attr A"
  obtains (default) "A = None" "kind_of A = Normal"
    | (normal) x where "A = Some x" "ma_mutex_type x = PTHREAD_MUTEX_NORMAL" "kind_of A = Normal"
    | (errorcheck) x where "A = Some x" "ma_mutex_type x = PTHREAD_MUTEX_ERRORCHECK" "kind_of A = Errorcheck"
    | (recursive) x where "A = Some x" "ma_mutex_type x = PTHREAD_MUTEX_RECURSIVE" "kind_of A = Recursive"
  using assms by (cases A) (auto simp: known_attr_def kind_of_def pthread_consts)

lemma is_normal_kind: "known_attr A \<Longrightarrow> is_normal A \<longleftrightarrow> kind_of A = Normal"
  by (elim known_attr_cases) (simp_all add: is_normal_def pthread_consts)

lemma timedlock_woken_part: "timedlock_woken A m t = woken_part (M_lock m) t (timedlock_end A m t)"
  by (rule ext) (simp add: timedlock_woken_def woken_part_def)

lemmas mutex_prog_defs =
  pthread_mutex_timedlock_internal_def pthread_mutex_trylock_def pthread_mutex_unlock_def

lemma mutex_prog_step:
  assumes "resolve_attr (m_attr (mutexes s m)) = A" and "pstep E (mutex_prog m t o1) s p s'"
  shows "p = mutex_front A m t o1 \<and> s' = s"
  using assms by (cases o1) (auto simp: mutex_prog_defs gets_def pstep_iffs)

text \<open>The sections, with the spin lock \<open>__lock\<close> taken, by the state of the mutex.\<close>

lemma record_owner_object:
  assumes "known_attr A" and "mutex_object A m v s" and "\<not> mv_held v"
  shows "\<exists>x s1. record_owner A m t (upd_spin (M_held m) 1 s) = (Inr (), s1) \<and>
    s1 = upd_spin (M_held m) 1 s\<lparr>mutexes := x\<rparr> \<and>
    mutex_object A m \<lparr>mv_held = True, mv_owner = Some t, mv_locks = 1\<rparr> s1"
  using assms(1)
proof (cases rule: known_attr_cases)
  case default
  with assms(2) same_mutexes [of "upd_spin (M_held m) 1 s"] show ?thesis
    by (auto simp: record_owner_def mutex_object_def)
next
  case (normal x)
  with assms(2) same_mutexes [of "upd_spin (M_held m) 1 s"] show ?thesis
    by (auto simp: record_owner_def mutex_object_def)
next
  case (errorcheck x)
  with assms(2) show ?thesis by (auto simp: record_owner_def mutex_object_def pthread_consts)
next
  case (recursive x)
  with assms(2) show ?thesis by (auto simp: record_owner_def mutex_object_def pthread_consts)
qed

text \<open>A section may change \<^verbatim>\<open>__held\<close> and the record of the mutex.\<close>

definition section_end ::
    "pthread_mutexattr option \<Rightarrow> maddr \<Rightarrow> mutex_view \<Rightarrow> pt_state \<Rightarrow> pt_state \<Rightarrow> bool" where
  "section_end A m v s s' \<longleftrightarrow>
     mutex_object A m v s' \<and> (\<exists>x y. s' = s\<lparr>spin := (spin s)(M_held m := y), mutexes := x\<rparr>)"

lemma section_endI:
  assumes "mutex_object A m v (s\<lparr>spin := (spin s)(M_held m := y), mutexes := x\<rparr>)"
  shows "section_end A m v s (s\<lparr>spin := (spin s)(M_held m := y), mutexes := x\<rparr>)"
  using assms by (auto simp: section_end_def)

lemma section_end_same:
  assumes "mutex_object A m v s"
  shows "section_end A m v s s"
proof -
  have "s = s\<lparr>spin := (spin s)(M_held m := spin s (M_held m)), mutexes := mutexes s\<rparr>" by simp
  with assms show ?thesis unfolding section_end_def by metis
qed

lemma section_end_mutexes:
  assumes "mutex_object A m v (s\<lparr>mutexes := x\<rparr>)"
  shows "section_end A m v s (s\<lparr>mutexes := x\<rparr>)"
proof -
  have "s\<lparr>mutexes := x\<rparr> = s\<lparr>spin := (spin s)(M_held m := spin s (M_held m)), mutexes := x\<rparr>" by simp
  with assms show ?thesis unfolding section_end_def by metis
qed

lemma held_trylock:
  "mutex_object A m v s \<Longrightarrow>
     pthread_spin_trylock (M_held m) s = (if mv_held v then (EBUSY, s) else (OK, upd_spin (M_held m) 1 s))"
  by (auto simp: mutex_object_def pthread_spin_trylock_def)

lemma timedlock_enter_pass:
  assumes known: "known_attr A" and obj: "mutex_object A m v s"
    and en: "mutex_entry m (kind_of A) (Mutex_lock ts) t v Q = Pass r Q' b ws e"
  shows "\<exists>s1. timedlock_enter A m t ts s = (Inr (Some e), pthread_spin_unlock (M_lock m) s1) \<and> section_end A m r s s1"
proof (cases "mv_held v")
  case False
  from record_owner_object [OF known obj False, of t] obtain x s1 where
    s1: "record_owner A m t (upd_spin (M_held m) 1 s) = (Inr (), s1)" "s1 = upd_spin (M_held m) 1 s\<lparr>mutexes := x\<rparr>"
      "mutex_object A m \<lparr>mv_held = True, mv_owner = Some t, mv_locks = 1\<rparr> s1" by blast
  have "section_end A m r s s1" using s1(2,3) en False by (auto simp: section_end_def)
  moreover have "timedlock_enter A m t ts s = (Inr (Some e), pthread_spin_unlock (M_lock m) s1)"
    using s1(1) en False held_trylock [OF obj] by (simp add: timedlock_enter_def)
  ultimately show ?thesis by blast
next
  case True
  note tr = held_trylock [OF obj]
  from known show ?thesis
  proof (cases rule: known_attr_cases)
    case (errorcheck x)
    with en True obj have o: "m_owner (mutexes s m) = Some t" "e = EDEADLK" "r = v"
      by (auto simp: mutex_object_def split: if_splits)
    have "timedlock_enter A m t ts s = (Inr (Some e), pthread_spin_unlock (M_lock m) s)"
      using o errorcheck True tr by (simp add: timedlock_enter_def pthread_consts)
    with section_end_same [OF obj] o show ?thesis by blast
  next
    case (recursive x)
    let ?s1 = "upd_mutex m (\<lambda>x. x\<lparr>m_locks := m_locks x + 1\<rparr>) s"
    from recursive en True obj have o: "m_owner (mutexes s m) = Some t" "e = OK" "r = v\<lparr>mv_locks := Suc (mv_locks v)\<rparr>"
      by (auto simp: mutex_object_def split: if_splits)
    have "timedlock_enter A m t ts s = (Inr (Some e), pthread_spin_unlock (M_lock m) ?s1)"
      using o recursive True tr by (simp add: timedlock_enter_def pthread_consts)
    moreover have "section_end A m r s ?s1"
      using o obj recursive True by (intro section_end_mutexes) (auto simp: mutex_object_def)
    ultimately show ?thesis by blast
  qed (use en True in \<open>simp_all split: if_splits\<close>)
qed

lemma trylock_section_pass:
  assumes known: "known_attr A" and obj: "mutex_object A m v s"
    and en: "mutex_entry m (kind_of A) Mutex_trylock t v Q = Pass r Q' b ws e"
  shows "\<exists>s1. trylock_section A m t s = (Inr e, pthread_spin_unlock (M_lock m) s1) \<and> section_end A m r s s1"
proof (cases "mv_held v")
  case False
  from record_owner_object [OF known obj False, of t] obtain x s1 where
    s1: "record_owner A m t (upd_spin (M_held m) 1 s) = (Inr (), s1)" "s1 = upd_spin (M_held m) 1 s\<lparr>mutexes := x\<rparr>"
      "mutex_object A m \<lparr>mv_held = True, mv_owner = Some t, mv_locks = 1\<rparr> s1" by blast
  have "section_end A m r s s1" using s1(2,3) en False by (auto simp: section_end_def)
  moreover have "trylock_section A m t s = (Inr e, pthread_spin_unlock (M_lock m) s1)"
    using s1(1) en False held_trylock [OF obj] by (simp add: trylock_section_def)
  ultimately show ?thesis by blast
next
  case True
  note tr = held_trylock [OF obj]
  show ?thesis
  proof (cases "mv_owner v = Some t \<and> kind_of A = Recursive")
    case rec: True
    let ?s1 = "upd_mutex m (\<lambda>x. x\<lparr>m_locks := m_locks x + 1\<rparr>) s"
    from rec en True obj have o: "m_owner (mutexes s m) = Some t" "e = OK" "r = v\<lparr>mv_locks := Suc (mv_locks v)\<rparr>"
      by (auto simp: mutex_object_def split: if_splits)
    have "trylock_section A m t s = (Inr e, pthread_spin_unlock (M_lock m) ?s1)"
      using o rec True tr known by (elim known_attr_cases) (simp_all add: trylock_section_def pthread_consts)
    moreover have "section_end A m r s ?s1"
      using o obj rec True by (intro section_end_mutexes) (auto simp: mutex_object_def)
    ultimately show ?thesis by blast
  next
    case False
    with en True have o: "e = EBUSY" "r = v" by (auto split: if_splits)
    have "trylock_section A m t s = (Inr e, pthread_spin_unlock (M_lock m) s)"
      using o False True tr known obj
      by (elim known_attr_cases) (simp_all add: trylock_section_def pthread_consts mutex_object_def)
    with section_end_same [OF obj] o show ?thesis by blast
  qed
qed

lemma timedlock_enter_join:
  assumes known: "known_attr A" and obj: "mutex_object A m v s" and own: "mv_owner v \<noteq> None"
    and en: "mutex_entry m (kind_of A) (Mutex_lock ts) t v Q = Join r" and ts: "\<not> bad_nsec ts"
    and s1: "pthread_enqueue (Mutex_queue m) t s = Some s1"
  shows "timedlock_enter A m t ts s = (Inr None, pthread_spin_unlock (M_lock m) s1)"
proof -
  have h: "mv_held v" "kind_of A = Normal \<or> mv_owner v \<noteq> Some t" using mutex_entry_join [OF en] by blast+
  have "timedlock_enqueue A m t ts s = (Inr None, pthread_spin_unlock (M_lock m) s1)"
    using own ts s1 obj is_normal_kind [OF known] by (auto simp: timedlock_enqueue_def mutex_object_def)
  then show ?thesis
    using h held_trylock [OF obj] obj known
    by (elim known_attr_cases) (auto simp: timedlock_enter_def pthread_consts mutex_object_def)
qed

text \<open>Unlocking: the refusals and nested releases, and the way to handing over.\<close>

lemma counter_above_one: "0 < l \<Longrightarrow> l < 2 ^ 32 \<Longrightarrow> (of_nat l - 1 > (0 :: 32 word)) \<longleftrightarrow> l > 1"
  by (cases l) (simp_all add: word_less_nat_alt unat_of_nat)

lemma unlock_section_stays:
  assumes known: "known_attr A" and obj: "mutex_object A m v s"
    and bnd: "kind_of A = Recursive \<Longrightarrow> mv_owner v = Some t \<Longrightarrow> 0 < mv_locks v \<and> mv_locks v < 2 ^ 32"
    and k: "kind_of A \<noteq> Normal \<and> mv_owner v \<noteq> Some t \<and> e = EPERM \<and> r = v \<or>
      kind_of A = Recursive \<and> mv_owner v = Some t \<and> mv_locks v > 1 \<and> e = OK \<and> r = v\<lparr>mv_locks := mv_locks v - 1\<rparr>"
  shows "\<exists>s1. unlock_section A m t s = (Inr (e, None), pthread_spin_unlock (M_lock m) s1) \<and> section_end A m r s s1"
  using k
proof (elim disjE conjE)
  assume k: "kind_of A \<noteq> Normal" "mv_owner v \<noteq> Some t" "e = EPERM" "r = v"
  then have "unlock_section A m t s = (Inr (e, None), pthread_spin_unlock (M_lock m) s)"
    using obj known
    by (elim known_attr_cases) (auto simp: unlock_section_def mutex_object_def pthread_consts)
  with section_end_same [OF obj] k show ?thesis by blast
next
  assume k: "kind_of A = Recursive" "mv_owner v = Some t" "mv_locks v > 1" "e = OK" "r = v\<lparr>mv_locks := mv_locks v - 1\<rparr>"
  let ?s1 = "upd_mutex m (\<lambda>x. x\<lparr>m_locks := m_locks x - 1\<rparr>) s"
  have "unlock_section A m t s = (Inr (e, None), pthread_spin_unlock (M_lock m) ?s1)"
    using k obj known counter_above_one [of "mv_locks v"] bnd
    by (elim known_attr_cases) (auto simp: unlock_section_def mutex_object_def pthread_consts Let_def)
  moreover have "section_end A m r s ?s1"
    using k obj by (intro section_end_mutexes) (auto simp: mutex_object_def)
  ultimately show ?thesis by blast
qed

lemma unlock_section_gives:
  assumes known: "known_attr A" and obj: "mutex_object A m v s"
    and bnd: "kind_of A = Recursive \<Longrightarrow> mv_owner v = Some t \<Longrightarrow> 0 < mv_locks v \<and> mv_locks v < 2 ^ 32"
    and k: "\<not> (kind_of A \<noteq> Normal \<and> mv_owner v \<noteq> Some t)" "\<not> (kind_of A = Recursive \<and> mv_locks v > 1)"
  shows "\<exists>x. unlock_section A m t s = hand_over A m (s\<lparr>mutexes := x\<rparr>) \<and>
    mutex_object A m (v\<lparr>mv_owner := None, mv_locks := 0\<rparr>) (s\<lparr>mutexes := x\<rparr>)"
proof -
  consider (normal) "kind_of A = Normal" | (errorcheck) "kind_of A = Errorcheck" "mv_owner v = Some t"
    | (recursive) "kind_of A = Recursive" "mv_owner v = Some t" "mv_locks v = 1"
    using k bnd by (cases "kind_of A") force+
  then show ?thesis
  proof cases
    case normal
    then have "unlock_section A m t s = hand_over A m (s\<lparr>mutexes := mutexes s\<rparr>)"
      using known by (elim known_attr_cases) (auto simp: unlock_section_def)
    with normal obj show ?thesis by (intro exI [where x = "mutexes s"]) (auto simp: mutex_object_def)
  next
    case errorcheck
    let ?x = "(mutexes s)(m := (mutexes s m)\<lparr>m_owner := None\<rparr>)"
    have "unlock_section A m t s = hand_over A m (s\<lparr>mutexes := ?x\<rparr>)"
      using errorcheck obj known
      by (elim known_attr_cases) (auto simp: unlock_section_def mutex_object_def pthread_consts Let_def)
    with errorcheck obj show ?thesis by (intro exI [where x = ?x]) (auto simp: mutex_object_def)
  next
    case recursive
    let ?x = "(mutexes s)(m := (mutexes s m)\<lparr>m_locks := 0, m_owner := None\<rparr>)"
    have "unlock_section A m t s = hand_over A m (s\<lparr>mutexes := ?x\<rparr>)"
      using recursive obj known
      by (elim known_attr_cases) (auto simp: unlock_section_def mutex_object_def pthread_consts Let_def)
    with recursive obj show ?thesis by (intro exI [where x = ?x]) (auto simp: mutex_object_def)
  qed
qed

lemma hand_over_nobody:
  assumes "queues s Q" and "Q (Mutex_queue m) = []" and "mutex_object A m (v\<lparr>mv_owner := None, mv_locks := 0\<rparr>) s"
  shows "hand_over A m s = (Inr (OK, None), pthread_spin_unlock (M_lock m) (upd_spin (M_held m) 0 s)) \<and>
    mutex_object A m vacant (upd_spin (M_held m) 0 s)"
  using wq.first_view [OF assms(1), of "Mutex_queue m"] assms(2,3)
  by (auto simp: hand_over_def pthread_spin_unlock_def mutex_object_def)

lemma hand_over_first:
  assumes known: "known_attr A" and q: "queues s Q" "Q (Mutex_queue m) = w # vs"
    and obj: "mutex_object A m (v\<lparr>mv_owner := None, mv_locks := 0\<rparr>) s"
  shows "\<exists>c u x. let s1 = s\<lparr>cell := c, prevp := u, mutexes := x\<rparr> in
    hand_over A m s = (Inr (OK, Some w), pthread_spin_unlock (M_lock m) s1) \<and>
    queues s1 (Q(Mutex_queue m := vs)) \<and> mutex_object A m (v\<lparr>mv_owner := Some w, mv_locks := 0\<rparr>) s1"
proof -
  from wq.deq_first(2) [OF q(1), of "Mutex_queue m" w vs] q(2) obtain s1 where
    s1: "pthread_dequeue w s = Some s1" "queues s1 (Q(Mutex_queue m := vs))" by auto
  from pthread_dequeue_frame [OF s1(1)] obtain c u where s1': "s1 = s\<lparr>cell := c, prevp := u\<rparr>" by auto
  let ?x = "if kind_of A = Normal then mutexes s else (mutexes s)(m := (mutexes s m)\<lparr>m_owner := Some w\<rparr>)"
  let ?s = "s\<lparr>cell := c, prevp := u, mutexes := ?x\<rparr>"
  have "hand_over A m s = (Inr (OK, Some w), pthread_spin_unlock (M_lock m) ?s)"
    using wq.first_view [OF q(1), of "Mutex_queue m"] q(2) s1(1) s1' is_normal_kind [OF known]
    by (auto simp: hand_over_def)
  moreover have "queues ?s (Q(Mutex_queue m := vs))" using s1(2) s1' by simp
  moreover have "mutex_object A m (v\<lparr>mv_owner := Some w, mv_locks := 0\<rparr>) ?s"
    using obj by (auto simp: mutex_object_def)
  ultimately show ?thesis unfolding Let_def by blast
qed

text \<open>The first steps of the programs enter the gate.\<close>

lemma mutex_object_frame [simp]:
  "mutex_object A m v (s\<lparr>kmsgs := x1\<rparr>) \<longleftrightarrow> mutex_object A m v s"
  "mutex_object A m v (s\<lparr>kexpired := x2\<rparr>) \<longleftrightarrow> mutex_object A m v s"
  "mutex_object A m v (s\<lparr>errno := x3\<rparr>) \<longleftrightarrow> mutex_object A m v s"
  "mutex_object A m v (s\<lparr>cell := c, prevp := u\<rparr>) \<longleftrightarrow> mutex_object A m v s"
  "mutex_object A m v (upd_spin (M_lock m) y s) \<longleftrightarrow> mutex_object A m v s"
  "mutex_object A m v (pthread_spin_unlock (M_lock m) s) \<longleftrightarrow> mutex_object A m v s"
  by (simp_all add: mutex_object_def pthread_spin_unlock_def)

lemma section_end_free:
  assumes "free_state (mutex_impl A m) v Q s" and "section_end A m r (upd_spin (M_lock m) 1 s) s1"
  shows "free_state (mutex_impl A m) r Q (pthread_spin_unlock (M_lock m) s1) \<and>
    kmsgs (pthread_spin_unlock (M_lock m) s1) = kmsgs s"
proof -
  from assms(2) obtain x y where s1: "s1 = s\<lparr>spin := (spin s)(M_lock m := 1, M_held m := y), mutexes := x\<rparr>"
    by (auto simp: section_end_def)
  moreover have "mutex_object A m r s1" using assms(2) by (simp add: section_end_def)
  ultimately show ?thesis using assms(1) by (simp add: free_state_def) (simp add: pthread_spin_unlock_def)
qed

lemma free_stateD:
  assumes "free_state (mutex_impl A m) v Q s"
  shows "mutex_object A m v (upd_spin (M_lock m) 1 s)" "queues (upd_spin (M_lock m) 1 s) Q" "spin s (M_lock m) = 0"
  using assms by (simp_all add: free_state_def)

lemma mutex_front_lock:
  assumes known: "known_attr A" and fr: "free_state (mutex_impl A m) v Q s" and nq: "\<not> queued s t"
    and own: "mv_held v \<Longrightarrow> mv_owner v \<noteq> None" and ts: "\<not> bad_nsec ts"
    and ps: "pstep E (mutex_front A m t (Mutex_lock ts)) s p s'"
  shows "entered (mutex_gate m (kind_of A) n D) (mutex_impl A m) t (Mutex_lock ts) v Q p s' \<and> kmsgs s' = kmsgs s"
proof (cases "mutex_entry m (kind_of A) (Mutex_lock ts) t v Q")
  case (Pass r Q' b ws e)
  from timedlock_enter_pass [OF known free_stateD(1) [OF fr] Pass] obtain s1 where
    s1: "timedlock_enter A m t ts (upd_spin (M_lock m) 1 s) = (Inr (Some e), pthread_spin_unlock (M_lock m) s1)"
    "section_end A m r (upd_spin (M_lock m) 1 s) s1" by blast
  have "p = Return e" "s' = pthread_spin_unlock (M_lock m) s1"
    using ps s1(1) by (auto simp: pstep_spin_section)
  moreover have "ws = []" "Q' = Q" "\<not> b" using mutex_entry_lock [OF Pass] mutex_entry_pass [OF Pass] by blast+
  ultimately show ?thesis using section_end_free [OF fr s1(2)] Pass by (simp add: entered_def)
next
  case (Join r)
  let ?s = "upd_spin (M_lock m) 1 s"
  note v = free_stateD [OF fr]
  have r: "r = v" "mv_owner v \<noteq> None" using mutex_entry_join [OF Join] own by blast+
  have nq: "\<not> queued ?s t" using nq by simp
  from wq.enq_ok [OF v(2) _ nq, of "Mutex_queue m"] obtain s1 where
    s1: "pthread_enqueue (Mutex_queue m) t ?s = Some s1" "queues s1 (Q(Mutex_queue m := t # Q (Mutex_queue m)))" by auto
  from pthread_enqueue_frame [OF s1(1)] obtain c u where s1': "s1 = ?s\<lparr>cell := c, prevp := u\<rparr>" by auto
  have "p = andthen (block_until t ts CLOCK_REALTIME) (timedlock_woken A m t)" "s' = pthread_spin_unlock (M_lock m) s1"
    using ps timedlock_enter_join [OF known v(1) r(2) Join ts s1(1)] by (auto simp: pstep_spin_section)
  moreover have "mutex_object A m v s1" unfolding s1' mutex_object_frame(4) using v(1) .
  ultimately show ?thesis
    using Join r(1) s1' s1(2) by (simp add: entered_def free_state_def timedlock_woken_part) (simp add: pthread_spin_unlock_def)
qed

lemma mutex_front_trylock:
  assumes known: "known_attr A" and fr: "free_state (mutex_impl A m) v Q s"
    and ps: "pstep E (mutex_front A m t Mutex_trylock) s p s'"
  shows "entered (mutex_gate m (kind_of A) n D) (mutex_impl A m) t Mutex_trylock v Q p s' \<and> kmsgs s' = kmsgs s"
proof (cases "mutex_entry m (kind_of A) Mutex_trylock t v Q")
  case (Pass r Q' b ws e)
  from trylock_section_pass [OF known free_stateD(1) [OF fr] Pass] obtain s1 where
    s1: "trylock_section A m t (upd_spin (M_lock m) 1 s) = (Inr e, pthread_spin_unlock (M_lock m) s1)"
    "section_end A m r (upd_spin (M_lock m) 1 s) s1" by blast
  have "p = Return e" "s' = pthread_spin_unlock (M_lock m) s1"
    using ps s1(1) by (auto simp: pstep_spin_section_last)
  moreover have "ws = []" "Q' = Q" "\<not> b" using mutex_entry_lock [OF Pass] mutex_entry_pass [OF Pass] by blast+
  ultimately show ?thesis using section_end_free [OF fr s1(2)] Pass by (simp add: entered_def)
next
  case (Join r)
  then show ?thesis using mutex_entry_join by blast
qed

lemma mutex_front_unlock:
  assumes known: "known_attr A" and fr: "free_state (mutex_impl A m) v Q s"
    and bnd: "kind_of A = Recursive \<Longrightarrow> mv_owner v = Some t \<Longrightarrow> 0 < mv_locks v \<and> mv_locks v < 2 ^ 32"
    and ps: "pstep E (mutex_front A m t Mutex_unlock) s p s'"
  shows "entered (mutex_gate m (kind_of A) n D) (mutex_impl A m) t Mutex_unlock v Q p s' \<and> kmsgs s' = kmsgs s"
proof -
  let ?s = "upd_spin (M_lock m) 1 s" and ?k = "kind_of A"
  note v = free_stateD [OF fr]
  have stays: ?thesis if k: "?k \<noteq> Normal \<and> mv_owner v \<noteq> Some t \<and> e = EPERM \<and> r = v \<or>
      ?k = Recursive \<and> mv_owner v = Some t \<and> mv_locks v > 1 \<and> e = OK \<and> r = v\<lparr>mv_locks := mv_locks v - 1\<rparr>" for e r
  proof -
    from unlock_section_stays [OF known v(1) bnd k] obtain s1 where
      s1: "unlock_section A m t ?s = (Inr (e, None), pthread_spin_unlock (M_lock m) s1)" "section_end A m r ?s s1" by blast
    have "p = Return e" "s' = pthread_spin_unlock (M_lock m) s1" using ps s1(1) by (auto simp: pstep_spin_section)
    moreover have "mutex_entry m ?k Mutex_unlock t v Q = Pass r Q False [] e" using k by auto
    ultimately show ?thesis using section_end_free [OF fr s1(2)] by (simp add: entered_def)
  qed
  consider (refuse) "?k \<noteq> Normal" "mv_owner v \<noteq> Some t"
    | (unnest) "?k = Recursive" "mv_owner v = Some t" "mv_locks v > 1"
    | (give) "\<not> (?k \<noteq> Normal \<and> mv_owner v \<noteq> Some t)" "\<not> (?k = Recursive \<and> mv_locks v > 1)"
    by (cases ?k) auto
  then show ?thesis
  proof cases
    case refuse
    then show ?thesis by (intro stays) simp
  next
    case unnest
    then show ?thesis by (intro stays) simp
  next
    case give
    from unlock_section_gives [OF known v(1) bnd give] obtain x where
      x: "unlock_section A m t ?s = hand_over A m (?s\<lparr>mutexes := x\<rparr>)"
      "mutex_object A m (v\<lparr>mv_owner := None, mv_locks := 0\<rparr>) (?s\<lparr>mutexes := x\<rparr>)" by blast
    have q: "queues (?s\<lparr>mutexes := x\<rparr>) Q" using v(2) by simp
    show ?thesis
    proof (cases "Q (Mutex_queue m)")
      case Nil
      let ?s1 = "upd_spin (M_held m) 0 (?s\<lparr>mutexes := x\<rparr>)"
      note h = hand_over_nobody [OF q Nil x(2)]
      have "p = Return OK" "s' = pthread_spin_unlock (M_lock m) ?s1"
        using ps x(1) h by (auto simp: pstep_spin_section)
      moreover have "section_end A m vacant ?s ?s1"
        unfolding section_end_def using h by (intro conjI exI [where x = x] exI [where x = 0]) simp_all
      moreover have "mutex_entry m ?k Mutex_unlock t v Q = Pass vacant Q False [] OK" using give Nil by auto
      ultimately show ?thesis using section_end_free [OF fr, of vacant ?s1] by (simp add: entered_def)
    next
      case (Cons w vs)
      from hand_over_first [OF known q Cons x(2), unfolded Let_def] obtain c u y where
        h: "hand_over A m (?s\<lparr>mutexes := x\<rparr>) =
          (Inr (OK, Some w), pthread_spin_unlock (M_lock m) (?s\<lparr>cell := c, prevp := u, mutexes := y\<rparr>))"
        "queues (?s\<lparr>cell := c, prevp := u, mutexes := y\<rparr>) (Q(Mutex_queue m := vs))"
        "mutex_object A m (v\<lparr>mv_owner := Some w, mv_locks := 0\<rparr>) (?s\<lparr>cell := c, prevp := u, mutexes := y\<rparr>)" by auto
      have "p = andthen (pthread_wakeup w) (\<lambda>_. Return OK)"
        "s' = pthread_spin_unlock (M_lock m) (?s\<lparr>cell := c, prevp := u, mutexes := y\<rparr>)"
        using ps x(1) h(1) by (auto simp: pstep_spin_section)
      moreover have "mutex_entry m ?k Mutex_unlock t v Q =
          Pass (v\<lparr>mv_owner := Some w, mv_locks := 0\<rparr>) (Q(Mutex_queue m := vs)) False [w] OK" using give Cons by auto
      ultimately show ?thesis
        using h(2,3) by (simp add: entered_def free_state_def wakes_one_def) (simp add: pthread_spin_unlock_def)
    qed
  qed
qed

lemma mutex_front_step:
  assumes known: "known_attr A" and re: "greach (mutex_gate m (kind_of A) n D) (room_init 0 vacant) a"
    and st: "stages a t = Entering h o1" and al: "mutex_allowed (kind_of A) D h o1"
    and fr: "free_state (mutex_impl A m) (res a) (que a) s" and nq: "\<not> queued s t"
    and ps: "pstep E (mutex_front A m t o1) s p s'"
  shows "entered (mutex_gate m (kind_of A) n D) (mutex_impl A m) t o1 (res a) (que a) p s' \<and> kmsgs s' = kmsgs s"
proof -
  let ?k = "kind_of A" and ?hs = "holds (mutex_gate m (kind_of A) n D) a"
  have room: "mutex_room m ?k n D a" using mutex_reach_room [OF re] by blast
  have t: "?hs t = h" "\<not> dues a t" using st by (simp_all add: holds_def dues_def)
  have own: "mv_held (res a) \<Longrightarrow> mv_owner (res a) \<noteq> None"
    using room by (cases rule: mutex_room_cases) (simp_all add: owned_by_def)
  show ?thesis
  proof (cases o1)
    case (Mutex_lock ts)
    show ?thesis unfolding Mutex_lock
      by (rule mutex_front_lock [OF known fr nq own]) (use al ps Mutex_lock in simp_all)
  next
    case Mutex_trylock
    show ?thesis unfolding Mutex_trylock
      by (rule mutex_front_trylock [OF known fr]) (use ps Mutex_trylock in simp)
  next
    case Mutex_unlock
    have "0 < mv_locks (res a) \<and> mv_locks (res a) < 2 ^ 32" if k: "?k = Recursive" "mv_owner (res a) = Some t"
      using room
    proof (cases rule: mutex_room_cases)
      case (owned w)
      with unlocker_owns [OF owned t(2)] al t(1) k Mutex_unlock have "h = mv_locks (res a)" "0 < h" by auto
      with mutex_room_queue(2) [OF room, of t] t(1) show ?thesis by simp
    qed (use k in simp)
    then show ?thesis unfolding Mutex_unlock
      by (rule mutex_front_unlock [OF known fr]) (use ps Mutex_unlock in simp_all)
  qed
qed

lemma mutex_front_not [simp]:
  "Return v \<noteq> mutex_prog m t o1" "Crash f \<noteq> mutex_prog m t o1"
  "Return v \<noteq> mutex_front A m t o1" "Crash f \<noteq> mutex_front A m t o1"
  by (cases o1; simp add: mutex_prog_defs gets_def spin_section_def section_of_def)+

lemma timedlock_end_late [simp]: "timedlock_end A m t ETIMEDOUT = Return ETIMEDOUT"
  by (simp add: timedlock_end_def assert_p_def)

lemma timedlock_end_not: "timedlock_end A m t OK \<noteq> Return v" "timedlock_end A m t OK \<noteq> Crash f"
  by (simp_all add: timedlock_end_def section_of_def)

lemma timedlock_end_goes: "\<exists>p' s'. pstep E (timedlock_end A m t OK) s p' s'"
  by (auto simp: timedlock_end_def section_of_def pstep_iffs)

lemma timedlock_end_step:
  assumes known: "known_attr A" and obj: "mutex_object A m v s" and set: "mutex_settled t v"
    and ps: "pstep E (timedlock_end A m t OK) s p s'"
  shows "p = Return OK \<and> mutex_object A m (v\<lparr>mv_locks := 1\<rparr>) s' \<and> (\<exists>x. s' = s\<lparr>mutexes := x\<rparr>)"
proof -
  have "\<exists>x. timedlock_finish A m t s = (Inr OK, s\<lparr>mutexes := x\<rparr>) \<and> mutex_object A m (v\<lparr>mv_locks := 1\<rparr>) (s\<lparr>mutexes := x\<rparr>)"
    using known
  proof (cases rule: known_attr_cases)
    case default
    with obj show ?thesis
      by (intro exI [where x = "mutexes s"]) (simp add: timedlock_finish_def is_normal_def mutex_object_def)
  next
    case (normal x)
    with obj show ?thesis
      by (intro exI [where x = "mutexes s"]) (simp add: timedlock_finish_def is_normal_def mutex_object_def)
  next
    case (errorcheck x)
    with obj set show ?thesis
      by (intro exI [where x = "(mutexes s)(m := (mutexes s m)\<lparr>m_owner := Some t\<rparr>)"])
        (simp add: timedlock_finish_def is_normal_def mutex_object_def mutex_settled_def pthread_consts)
  next
    case (recursive x)
    with obj set show ?thesis
      by (intro exI [where x = "(mutexes s)(m := (mutexes s m)\<lparr>m_locks := 1, m_owner := Some t\<rparr>)"])
        (simp add: timedlock_finish_def is_normal_def mutex_object_def mutex_settled_def pthread_consts)
  qed
  with ps show ?thesis by (auto simp: timedlock_end_def section_of_def pstep_iffs)
qed

lemma mutex_line_head: "mutex_line m o1 = Some l \<Longrightarrow> is_head l"
  by (cases o1) auto

lemma mutex_gate_impl:
  assumes "mach_ports E" and "clock_ok E" and known: "known_attr A"
  shows "gate_impl (mutex_gate m (kind_of A) n D) (mutex_rules (kind_of A) n D) (mutex_impl A m) E (room_init 0 vacant)"
proof unfold_locales
  fix a t h o1 p s p' s'
  assume "greach (mutex_gate m (kind_of A) n D) (room_init 0 vacant) a" and "stages a t = Entering h o1"
    and "allowed (mutex_gate m (kind_of A) n D) h o1" and "front_part (mutex_impl A m) t o1 p"
    and "free_state (mutex_impl A m) (res a) (que a) s" and "\<not> queued s t" and "pstep E p s p' s'"
  then show "front_part (mutex_impl A m) t o1 p' \<and> s' = s \<or>
      entered (mutex_gate m (kind_of A) n D) (mutex_impl A m) t o1 (res a) (que a) p' s' \<and> kmsgs s' = kmsgs s"
    using mutex_front_step [OF known, of m n D a t h o1 s E p' s'] mutex_prog_step [of s m A E t o1 p' s']
    by (auto simp: free_state_def mutex_object_def)
next
  fix r s o1 t p' s'
  assume "object (mutex_impl A m) r s" and "settled (mutex_gate m (kind_of A) n D) o1 t r"
    and "pstep E (last_part (mutex_impl A m) t o1 OK) s p' s'"
  then show "tail_part (mutex_impl A m) t o1 OK p' \<and> object (mutex_impl A m) (complete (mutex_gate m (kind_of A) n D) o1 t r) s' \<and>
      (\<exists>x. s' = s\<lparr>mutexes := x\<rparr>)" using timedlock_end_step [OF known] by simp
qed (use assms room_init_inv mutex_unlocked mutex_line_head mutex_ending timedlock_end_not in \<open>auto simp: pstep_iffs\<close>)

lemma mutex_front_goes:
  assumes "spin s (M_lock m) = 0"
  shows "\<exists>p' s'. pstep E (mutex_front A m t o1) s p' s'" "\<exists>p' s'. pstep E (mutex_prog m t o1) s p' s'"
  using assms
  by (cases o1; auto simp: mutex_prog_defs gets_def pstep_iffs pstep_spin_section pstep_spin_section_last)+

lemma mutex_gate_live:
  assumes "mach_ports E" and "clock_ok E" and "known_attr A"
  shows "gate_live (mutex_gate m (kind_of A) n D) (mutex_rules (kind_of A) n D) (mutex_impl A m) E (room_init 0 vacant)"
  by (intro gate_live.intro mutex_gate_impl assms gate_live_axioms.intro)
    (use mutex_front_goes timedlock_end_goes in auto)

text \<open>The attributes of the static initialisers, one for each type.\<close>

fun std_attr :: "mutex_kind \<Rightarrow> pthread_mutexattr option" where
  "std_attr Normal = None"
| "std_attr Errorcheck = Some pthread_errorcheck_mutexattr"
| "std_attr Recursive = Some pthread_recursive_mutexattr"

lemma std_attr [simp]: "known_attr (std_attr k)" "kind_of (std_attr k) = k"
  by (cases k; simp add: known_attr_def kind_of_def pthread_errorcheck_mutexattr_def pthread_recursive_mutexattr_def
      pthread_consts)+

interpretation mutex_live: gate_live "mutex_gate m k n D" "mutex_rules k n D" "mutex_impl (std_attr k) m"
    "port_env now" "room_init 0 vacant" for m k n D now
  using mutex_gate_live [of "port_env now" "std_attr k"] by simp

section \<open>Safety\<close>

lemma mutex_start_rel:
  "mutex_start m A c \<Longrightarrow> callers_rel (mutex_gate m (kind_of A) n D) (mutex_impl A m) (room_init 0 vacant) c"
  by (cases c)
    (simp add: mutex_start_def callers_rel_def room_init_def room_rel_def free_state_def unlocked_def mutex_object_def)

lemma mutex_creach:
  assumes "mach_ports E" and "clock_ok E" and "mutex_start m A c"
    and "creach E (mutex_rules (kind_of A) n D) (mutex_prog m) (\<lambda>v. v) c (cs, s)"
  obtains a where "gate_inv (mutex_gate m (kind_of A) n D) a" "mutex_room m (kind_of A) n D a" "locked a = None"
    "callers_rel (mutex_gate m (kind_of A) n D) (mutex_impl A m) a (cs, s)"
proof -
  have "known_attr A" using assms(3) by (simp add: mutex_start_def)
  from gate_impl.creach_rel_always [OF mutex_gate_impl [OF assms(1,2) this, of m n D] _ mutex_start_rel [OF assms(3)]] assms(4)
  obtain a where a: "greach (mutex_gate m (kind_of A) n D) (room_init 0 vacant) a"
    "callers_rel (mutex_gate m (kind_of A) n D) (mutex_impl A m) a (cs, s)" by auto
  with mutex_reach_room [OF a(1)] mutex_unlocked [OF a(1)] that show ?thesis by blast
qed

lemma mutex_away:
  assumes "callers_rel (mutex_gate m k n D) (mutex_impl A m) a (cs, s)" and "cs t = Away h"
  shows "holds (mutex_gate m k n D) a t = h \<and> \<not> dues a t"
proof -
  have "caller_rel (mutex_gate m k n D) (mutex_impl A m) t (stages a t) (res a) (que a) s (cs t)"
    using assms(1) by (simp add: callers_rel_def)
  with assms(2) show ?thesis by (cases "stages a t") (auto simp: holds_def dues_def)
qed

text \<open>Who has the mutex is its recorded owner, as often as is recorded.\<close>

lemma mutex_away_owned:
  assumes room: "mutex_room m k n D a" and rel: "callers_rel (mutex_gate m k n D) (mutex_impl A m) a (cs, s)"
    and t: "cs t = Away (Suc j)"
  shows "mv_held (res a) \<and> mv_owner (res a) = Some t \<and> mv_locks (res a) = Suc j"
  using room
proof (cases rule: mutex_room_cases)
  case (owned w)
  with mutex_away [OF rel t] show ?thesis by (cases "w = t") (simp_all add: owned_by_def)
qed (use mutex_away [OF rel t] in simp)

text \<open>
  C1: Mutual exclusion.  In every interleaving of lock, timed lock, trylock and unlock calls by any
  number of threads on a mutex of any type, a thread that has the mutex is the only one.  Threads may
  lock error-checking and recursive mutexes again and, where no deadlines are used, unlock them without
  owning them.  The callers keep to the rules of \<open>mutex_allowed\<close>: deadlines have a \<^verbatim>\<open>tv_nsec\<close> in range, nobody
  locks a normal mutex again that it has or unlocks one that it has not.
\<close>

theorem mutex_mutual_exclusion:
  assumes "mach_ports E" and "clock_ok E" and "mutex_start m A c"
    and "creach E (mutex_rules (kind_of A) n D) (mutex_prog m) (\<lambda>v. v) c (cs, s)" and "cs t = Away (Suc j)"
  shows "{u. \<exists>i. cs u = Away (Suc i)} = {t}"
proof -
  obtain a where "mutex_room m (kind_of A) n D a"
    and "callers_rel (mutex_gate m (kind_of A) n D) (mutex_impl A m) a (cs, s)"
    using mutex_creach [OF assms(1-4)] by blast
  note own = mutex_away_owned [OF this]
  have "u = t" if "cs u = Away (Suc i)" for u i using own [OF that] own [OF assms(5)] by simp
  with assms(5) show ?thesis by blast
qed

text \<open>The start of a system of three threads, and a state one call later, for the witnesses.\<close>

definition mutex_start0 :: "(nat, mutex_op, rc) callers" where
  "mutex_start0 = ((\<lambda>_. Away 0), zero_state)"

lemma mutex_start0: "mutex_start m None mutex_start0"
  by (simp add: mutex_start_def mutex_start0_def unlocked_def known_attr_def resolve_attr_def)

lemma zero_unlocked [simp]: "unlocked zero_state m" "known_type zero_state m"
  by (simp_all add: unlocked_def known_type_def mutex_type_of_def resolve_attr_def)

lemma zero_acquired [simp]: "acquired m t zero_state = upd_spin (M_held m) 1 zero_state"
  by (simp add: acquired_def mutex_type_of_def resolve_attr_def pthread_consts)

lemma kind_of_None [simp]: "kind_of None = Normal"
  by (simp add: kind_of_def)

lemma mutex_taken:
  assumes "None \<in> D"
  shows "creach E (mutex_rules (kind_of None) 3 D) (mutex_prog m) (\<lambda>v. v) mutex_start0
     ((\<lambda>_. Away 0)(1 := Away 1), upd_spin (M_held m) 1 zero_state)"
proof -
  have "run (mutex_prog m 1 (Mutex_lock None)) E zero_state = Done OK (upd_spin (M_held m) 1 zero_state)"
    using run_timedlock_free [of zero_state m 1 None E] by simp
  from creach_call [where cs = "\<lambda>_. Away 0" and t = 1 and prog = "mutex_prog m" and ?o1.0 = "Mutex_lock None"
      and R = "mutex_rules Normal 3 D" and code = "\<lambda>v. v" and h = 0, OF creach.init _ _ _ this] assms
  show ?thesis by (simp add: mutex_start0_def)
qed

theorem mutex_mutual_exclusion_witness:
  "{u. \<exists>i. ((\<lambda>_::nat. Away 0 :: (nat, mutex_op, rc) caller)(1 := Away 1)) u = Away (Suc i)} = {1}"
  by (rule mutex_mutual_exclusion [OF mach_ports_port_env clock_ok_port_env mutex_start0
        mutex_taken [of "{None}" "port_env _" "User_mutex 0"], where j = 0]) simp_all

text \<open>
  C2: No operation of the library fails an assertion, dereferences a null pointer or otherwise
  crashes, in any interleaving of calls on a mutex of any type: in particular no thread is queued twice,
  taken off a queue twice or sent a second wakeup message, and a thread that is handed the mutex finds itself
  recorded as its owner.  The callers keep to the rules of \<open>mutex_allowed\<close>, as in the first property.
\<close>

theorem mutex_no_crash:
  assumes "mach_ports E" and "clock_ok E" and "mutex_start m A c"
    and "creach E (mutex_rules (kind_of A) n D) (mutex_prog m) (\<lambda>v. v) c (cs, s)"
  shows "cs t \<noteq> Calling h o1 (Crash f)"
proof -
  obtain a where "callers_rel (mutex_gate m (kind_of A) n D) (mutex_impl A m) a (cs, s)"
    using mutex_creach [OF assms] by blast
  moreover have "known_attr A" using assms(3) by (simp add: mutex_start_def)
  ultimately show ?thesis using gate_impl.caller_no_crash [OF mutex_gate_impl [OF assms(1,2)]] by blast
qed

theorem mutex_no_crash_witness:
  "((\<lambda>_::nat. Away 0 :: (nat, mutex_op, rc) caller)(1 := Away 1)) 1 \<noteq> Calling 0 Mutex_trylock (Crash Null_store)"
  by (rule mutex_no_crash [OF mach_ports_port_env clock_ok_port_env mutex_start0
        mutex_taken [of "{None}" "port_env _" "User_mutex 0"]]) simp

text \<open>
  C10: The data of a mutex stay well formed in every interleaving of callers that keep to the rules of
  \<open>mutex_allowed\<close>; in particular every deadline has a \<^verbatim>\<open>tv_nsec\<close> in range, since on any other the timed lock
  returns \<^verbatim>\<open>EINVAL\<close> with the spin lock held.  Between any two steps the
  spin lock is free, \<^verbatim>\<open>__held\<close> is 0 or 1, the links form one queue of distinct threads,
  which is empty unless the mutex is held, every queued thread is inside a lock operation and has no message
  pending, and no wakeup port holds more than one message.  If a thread that is not inside a call has the mutex, then an
  error-checking or recursive mutex names it as its owner, and a recursive one counts its acquisitions.
\<close>

theorem mutex_well_formed:
  assumes "mach_ports E" and "clock_ok E" and "mutex_start m A c"
    and "creach E (mutex_rules (kind_of A) n D) (mutex_prog m) (\<lambda>v. v) c (cs, s)"
  shows "spin s (M_lock m) = 0 \<and> spin s (M_held m) \<in> {0, 1} \<and> (\<forall>t. kmsgs s t \<le> 1) \<and>
    (\<exists>ws. queues s (\<lambda>l. if l = Mutex_queue m then ws else []) \<and> distinct ws \<and>
       (ws \<noteq> [] \<longrightarrow> spin s (M_held m) = 1) \<and>
       (\<forall>t\<in>set ws. kmsgs s t = 0 \<and> (\<exists>h ts p. cs t = Calling h (Mutex_lock ts) p))) \<and>
    (\<forall>t j. cs t = Away (Suc j) \<longrightarrow> spin s (M_held m) = 1 \<and>
       (kind_of A \<noteq> Normal \<longrightarrow> m_owner (mutexes s m) = Some t) \<and>
       (kind_of A = Recursive \<longrightarrow> m_locks (mutexes s m) = of_nat (Suc j)))"
proof -
  let ?G = "mutex_gate m (kind_of A) n D"
  obtain a where inv: "gate_inv ?G a" and room: "mutex_room m (kind_of A) n D a" and lk: "locked a = None"
    and rel: "callers_rel ?G (mutex_impl A m) a (cs, s)" using mutex_creach [OF assms] by blast
  have c: "caller_rel ?G (mutex_impl A m) t (stages a t) (res a) (que a) s (cs t)" for t
    using rel by (simp add: callers_rel_def)
  have s: "spin s (M_lock m) = 0" "mutex_object A m (res a) s" "queues s (que a)" "kmsgs s = inbox a"
    using rel lk by (auto simp: callers_rel_def room_rel_def free_state_def)
  have line: "l = Mutex_queue m \<and> (\<exists>h ts p. cs t = Calling h (Mutex_lock ts) p)" if "t \<in> set (que a l)" for t l
  proof -
    from lines_okD(2) [OF gate_invD(2) [OF inv] that] obtain h o1 where
      r: "request (stages a t) = Some (h, o1)" "mutex_line m o1 = Some l" by auto
    then obtain ts where "o1 = Mutex_lock ts" "l = Mutex_queue m" by (cases o1) auto
    with r(1) c [of t] show ?thesis by (cases "stages a t") auto
  qed
  have v: "que a = (\<lambda>l. if l = Mutex_queue m then que a (Mutex_queue m) else [])"
    using line by (auto simp: fun_eq_iff) (metis list.set_intros(1) neq_Nil_conv)
  let ?ws = "que a (Mutex_queue m)"
  have "kmsgs s t = 0" if "t \<in> set ?ws" for t
    using inbox_bound(2) [OF inv, of t] that s(4) by (auto simp: in_line_def)
  moreover have "distinct ?ws" using lines_okD(1) [OF gate_invD(2) [OF inv]] .
  moreover have "queues s (\<lambda>l. if l = Mutex_queue m then ?ws else [])" using s(3) v by simp
  moreover have "?ws \<noteq> [] \<longrightarrow> spin s (M_held m) = 1"
    using room s(2) by (cases rule: mutex_room_cases) (simp_all add: mutex_object_def owned_by_def)
  ultimately have "\<exists>ws. queues s (\<lambda>l. if l = Mutex_queue m then ws else []) \<and> distinct ws \<and>
       (ws \<noteq> [] \<longrightarrow> spin s (M_held m) = 1) \<and>
       (\<forall>t\<in>set ws. kmsgs s t = 0 \<and> (\<exists>h ts p. cs t = Calling h (Mutex_lock ts) p))"
    using line by blast
  moreover have "spin s (M_held m) = 1 \<and> (kind_of A \<noteq> Normal \<longrightarrow> m_owner (mutexes s m) = Some t) \<and>
      (kind_of A = Recursive \<longrightarrow> m_locks (mutexes s m) = of_nat (Suc j))" if "cs t = Away (Suc j)" for t j
    using mutex_away_owned [OF room rel that] s(2) by (simp add: mutex_object_def)
  moreover have "spin s (M_held m) \<in> {0, 1}" using s(2) by (simp add: mutex_object_def)
  ultimately show ?thesis using s inbox_bound(1) [OF inv] by auto
qed

text \<open>A recursive mutex that a thread has locked.\<close>

definition rec_state :: pt_state where
  "rec_state = zero_state\<lparr>mutexes := (\<lambda>_. \<lparr>m_attr = Attr_recursive, m_owner = None, m_locks = 0\<rparr>)\<rparr>"

lemma rec_start: "mutex_start m (std_attr Recursive) ((\<lambda>_. Away 0), rec_state)"
  using std_attr(1) [of Recursive] by (simp add: mutex_start_def rec_state_def unlocked_def resolve_attr_def)

lemma rec_taken:
  "creach E (mutex_rules (kind_of (std_attr Recursive)) 3 {None}) (mutex_prog m) (\<lambda>v. v) ((\<lambda>_. Away 0), rec_state)
     ((\<lambda>_. Away 0)(1 := Away (Suc 0)), acquired m 1 rec_state)"
proof -
  have "unlocked rec_state m" "known_type rec_state m"
    by (simp_all add: rec_state_def unlocked_def known_type_def mutex_type_of_def resolve_attr_def
        pthread_recursive_mutexattr_def)
  from run_timedlock_free [OF this, of 1 None E]
  have "run (mutex_prog m 1 (Mutex_lock None)) E rec_state = Done OK (acquired m 1 rec_state)" by simp
  from creach_call [where cs = "\<lambda>_. Away 0" and t = 1 and prog = "mutex_prog m" and ?o1.0 = "Mutex_lock None"
      and R = "mutex_rules (kind_of (std_attr Recursive)) 3 {None}" and code = "\<lambda>v. v" and h = 0,
      OF creach.init _ _ _ this]
  show ?thesis by simp
qed

theorem mutex_well_formed_witness:
  "spin (acquired (User_mutex 0) 1 rec_state) (M_lock (User_mutex 0)) = 0 \<and>
   m_owner (mutexes (acquired (User_mutex 0) 1 rec_state) (User_mutex 0)) = Some 1 \<and>
   m_locks (mutexes (acquired (User_mutex 0) 1 rec_state) (User_mutex 0)) = of_nat (Suc 0)"
proof -
  note w = mutex_well_formed [OF mach_ports_port_env clock_ok_port_env rec_start rec_taken, of "User_mutex 0"]
  have "((\<lambda>_. Away 0 :: (nat, mutex_op, rc) caller)(1 := Away (Suc 0))) (1::nat) = Away (Suc 0)" by simp
  with w std_attr(2) [of Recursive] show ?thesis by (metis mutex_kind.distinct(4))
qed

section \<open>Progress\<close>

text \<open>
  C3: Deadlock freedom.  As long as the threads lock without deadlines, a system in which some
  thread is inside a call on a mutex has a thread that can go on, or a thread that has the mutex and is not
  inside a call: a waiter is never stranded with nobody left to hand it the mutex.  The callers keep to the
  rules of \<open>mutex_allowed\<close>; in particular nobody locks a normal mutex again that it has.
\<close>

theorem mutex_progress:
  assumes "mach_ports E" and "clock_ok E" and "mutex_start m A c"
    and "creach E (mutex_rules (kind_of A) n {None}) (mutex_prog m) (\<lambda>v. v) c (cs, s)" and "cs t = Calling h o1 p"
  shows "\<exists>u. can_go E (cs u) s \<or> (\<exists>j. cs u = Away (Suc j))"
proof (rule ccontr)
  assume no: "\<not> (\<exists>u. can_go E (cs u) s \<or> (\<exists>j. cs u = Away (Suc j)))"
  let ?G = "mutex_gate m (kind_of A) n {None}"
  obtain a where inv: "gate_inv ?G a" and room: "mutex_room m (kind_of A) n {None} a"
    and rel: "callers_rel ?G (mutex_impl A m) a (cs, s)" using mutex_creach [OF assms(1-4)] by blast
  have known: "known_attr A" using assms(3) by (simp add: mutex_start_def)
  have un: "mutex_deadline o1 = None" if "mutex_allowed (kind_of A) {None} h o1" for h o1
    using that by (cases o1) auto
  have st: "(\<exists>h. stages a u = Resting h) \<or> (\<exists>h o1. stages a u = Blocking h o1 \<and> in_line (que a) u)" for u
    by (rule gate_live.standstill [OF mutex_gate_live [OF assms(1,2) known] rel inv]) (use no un in auto)
  have c: "caller_rel ?G (mutex_impl A m) u (stages a u) (res a) (que a) s (cs u)" for u
    using rel by (simp add: callers_rel_def)
  have line: "l = Mutex_queue m" if "u \<in> set (que a l)" for u l
  proof -
    from lines_okD(2) [OF gate_invD(2) [OF inv] that] obtain o1 where "mutex_line m o1 = Some l" by auto
    then show ?thesis by (cases o1) auto
  qed
  have z: "holds ?G a u = 0" for u
    using st [of u]
  proof (elim disjE exE conjE)
    fix h assume "stages a u = Resting h"
    with c [of u] no show ?thesis by (cases h) (auto simp: holds_def)
  next
    assume "in_line (que a) u"
    with line mutex_room_queue(1) [OF room, of u] show ?thesis by (fastforce simp: in_line_def)
  qed
  have q: "que a (Mutex_queue m) = []"
    using room by (cases rule: mutex_room_cases) (use z in \<open>simp_all add: owned_by_def\<close>)
  from st [of t] c [of t] assms(5) obtain l where l: "t \<in> set (que a l)" by (auto simp: in_line_def)
  with line [OF l] q show False by simp
qed

lemma mutex_called:
  "creach E (mutex_rules (kind_of None) 3 {None}) (mutex_prog m) (\<lambda>v. v) mutex_start0
     ((\<lambda>_. Away 0)(1 := Away 1, 2 := Calling 0 (Mutex_lock None) (mutex_prog m 2 (Mutex_lock None))),
      upd_spin (M_held m) 1 zero_state)"
  by (rule creach.step [OF mutex_taken cstep.call]) simp_all

theorem mutex_progress_witness:
  "\<exists>u::nat. can_go port0 (((\<lambda>_::nat. Away (0::nat))(1 := Away 1, 2 := Calling 0 (Mutex_lock None)
       (mutex_prog (User_mutex 0) 2 (Mutex_lock None)))) u) (upd_spin (M_held (User_mutex 0)) 1 zero_state) \<or>
     (\<exists>j. ((\<lambda>_::nat. Away 0)(1 := Away 1, 2 := Calling 0 (Mutex_lock None)
       (mutex_prog (User_mutex 0) 2 (Mutex_lock None)))) u = Away (Suc j))"
  by (rule mutex_progress [OF mach_ports_port_env clock_ok_port_env mutex_start0 mutex_called, where t = 2]) simp

section \<open>A deadline can lose the mutex\<close>

text \<open>A timed lock operation on a held mutex, up to the point where the deadline has passed.\<close>

lemma timedlock_expires:
  assumes "spin s (M_lock m) = 0" and "spin s (M_held m) = 1"
    and "m_attr (mutexes s m) = Attr_null" and "\<not> bad_nsec (Some ts)" and "past now ts"
    and "pthread_enqueue (Mutex_queue m) t (upd_spin (M_lock m) 1 s) = Some s1"
  shows "psteps (port_env now) (mutex_prog m t (Mutex_lock (Some ts))) s
           (timedlock_woken None m t ETIMEDOUT) (pthread_spin_unlock (M_lock m) s1)"
proof -
  let ?E = "port_env now" and ?s1 = "pthread_spin_unlock (M_lock m) s1" and ?o1 = "Mutex_lock (Some ts)"
  have held: "spin (upd_spin (M_lock m) 1 s) (M_held m) = 1" using assms(2) by simp
  have 1: "pstep ?E (mutex_prog m t ?o1) s (mutex_front None m t ?o1) s"
    using assms(3) by (auto simp: pthread_mutex_timedlock_internal_def gets_def pstep_iffs resolve_attr_def)
  have "timedlock_enter None m t (Some ts) (upd_spin (M_lock m) 1 s) = (Inr None, ?s1)"
    using assms(4,6) held upd_spin_same [OF held]
    by (simp add: timedlock_enter_def timedlock_enqueue_def pthread_spin_trylock_def is_normal_def)
  then have 2: "pstep ?E (mutex_front None m t ?o1) s
      (andthen (block_until t (Some ts) CLOCK_REALTIME) (timedlock_woken None m t)) ?s1"
    using assms(1) by (simp add: pstep_spin_section)
  have 3: "pstep ?E (andthen (block_until t (Some ts) CLOCK_REALTIME) (timedlock_woken None m t)) ?s1
      (timedlock_woken None m t ETIMEDOUT) ?s1"
    using assms(5) unfolding past_def
    by (simp add: past_def block_until_def pthread_timedblock_def andthen_syscall pstep_iffs port_env_def
        assert_p_def Let_def)
  show ?thesis by (rule psteps.step [OF 1 psteps.step [OF 2 psteps.step [OF 3 psteps.refl]]])
qed

text \<open>The example: thread 1 holds the mutex, thread 2 has queued itself and its deadline is over.\<close>

definition lost_m :: maddr where "lost_m = User_mutex 0"

definition lost_queued :: pt_state where
  "lost_queued = zero_state\<lparr>spin := (\<lambda>_. 0)(M_held lost_m := 1),
     cell := (\<lambda>_. None)(Mutex_queue lost_m := Some 2),
     prevp := (\<lambda>_. None)(2 := Some (Mutex_queue lost_m))\<rparr>"

definition lost_handed :: pt_state where
  "lost_handed = zero_state\<lparr>spin := (\<lambda>_. 0)(M_held lost_m := 1), kmsgs := (\<lambda>_. 0)(2 := 1)\<rparr>"

lemma lost_enqueue:
  "pthread_enqueue (Mutex_queue lost_m) 2
     (upd_spin (M_lock lost_m) 1 (upd_spin (M_held lost_m) 1 zero_state)) =
   Some (upd_spin (M_lock lost_m) 1 lost_queued)"
  by (auto simp: pthread_enqueue_def lost_queued_def lost_m_def Let_def fun_eq_iff)

lemma lost_queued_unlock:
  "pthread_spin_unlock (M_lock lost_m) (upd_spin (M_lock lost_m) 1 lost_queued) = lost_queued"
  by (simp add: pthread_spin_unlock_def lost_queued_def fun_upd_idem)

lemma lost_unlock:
  "run (mutex_prog lost_m 1 Mutex_unlock) port0 lost_queued = Done OK lost_handed"
  by (simp add: pthread_mutex_unlock_def resolve_attr_def is_normal_def run_simps lost_queued_def lost_handed_def lost_m_def
      mutex_sections pthread_dequeue_def Let_def run_wakeup fun_upd_idem fun_upd_twist)

lemma lost_timeout:
  "run (timedlock_woken None lost_m 2 ETIMEDOUT) port0 lost_handed =
   Done ETIMEDOUT (lost_handed\<lparr>kmsgs := (\<lambda>_. 0)\<rparr>)"
  by (simp add: timedlock_woken_def timedlock_end_def run_simps lost_handed_def lost_m_def
      mutex_sections run_block fun_upd_idem)

text \<open>
  C29: With deadlines the mutex can be lost.  Thread 1 locks the mutex, thread 2 waits for it with a
  deadline that passes, thread 1 unlocks and hands the mutex to thread 2 before thread 2 has taken
  itself off the queue; thread 2 then receives the wakeup message and yet returns \<^verbatim>\<open>ETIMEDOUT\<close>.  In
  the end no thread is inside a call or owns the mutex, and the mutex is held forever.
\<close>

theorem timedlock_loses_mutex:
  "\<exists>s. creach port0 (mutex_rules Normal 3 {None, Some \<lparr>tv_sec = 0, tv_nsec = 0\<rparr>}) (mutex_prog (User_mutex 0)) (\<lambda>v. v)
         mutex_start0 ((\<lambda>_. Away 0), s) \<and>
       spin s (M_held (User_mutex 0)) = 1"
proof -
  let ?D = "{None, Some \<lparr>tv_sec = 0, tv_nsec = 0\<rparr>}" and ?ts = "Some \<lparr>tv_sec = 0, tv_nsec = 0\<rparr>"
  let ?c = "(\<lambda>_::nat. Away (0::nat))(1 := Away 1)" and ?p = "timedlock_woken None lost_m 2 ETIMEDOUT"
  let ?R = "creach port0 (mutex_rules Normal 3 ?D) (mutex_prog lost_m) (\<lambda>v. v) mutex_start0"
  have ok: "\<not> bad_nsec ?ts" by simp
  have "?R (?c, upd_spin (M_held lost_m) 1 zero_state)"
    unfolding kind_of_None [symmetric] by (rule mutex_taken) simp
  then have "?R (?c(2 := Calling 0 (Mutex_lock ?ts) (mutex_prog lost_m 2 (Mutex_lock ?ts))),
      upd_spin (M_held lost_m) 1 zero_state)"
    by (rule creach.step [OF _ cstep.call]) (use ok in simp_all)
  from creach_run [OF timedlock_expires [OF _ _ _ ok _ lost_enqueue] this]
  have 2: "?R (?c(2 := Calling 0 (Mutex_lock ?ts) ?p), lost_queued)"
    by (simp add: past_def lost_m_def lost_queued_unlock [unfolded lost_m_def])
  from creach_call [OF 2 _ _ _ lost_unlock, of 1]
  have "?R ((\<lambda>_. Away 0)(2 := Calling 0 (Mutex_lock ?ts) ?p), lost_handed)"
    by (simp add: worth_def fun_upd_twist fun_upd_idem)
  from creach.step [OF creach_run [OF run_Done_psteps [OF lost_timeout] this] cstep.return [where t = 2]]
  have "?R ((\<lambda>_. Away 0), lost_handed\<lparr>kmsgs := (\<lambda>_. 0)\<rparr>)"
    by (simp add: worth_def fun_upd_idem)
  then show ?thesis by (intro exI conjI) (auto simp: lost_m_def lost_handed_def)
qed

end
