(* ===== verification/Semaphore.thy ===== *)
theory Semaphore
  imports Mutex
begin

text \<open>
  Semaphores (\<^verbatim>\<open>sysdeps/generic/sem-*.c\<close>).  The functions return 0, or -1 with the error code in
  \<^verbatim>\<open>errno\<close>, which every thread has for itself.  A post with waiters passes the unit on to the first
  one directly, without touching the value.
\<close>

section \<open>Operations\<close>

abbreviation set_errno :: "thr \<Rightarrow> rc \<Rightarrow> pt_state \<Rightarrow> pt_state" where
  "set_errno self e s \<equiv> s\<lparr>errno := (errno s)(self := e)\<rparr>"

definition fail_errno :: "thr \<Rightarrow> rc \<Rightarrow> int pt" where
  "fail_errno self e = andthen (modify (set_errno self e)) (\<lambda>_. Return (-1))"

text \<open>\<^verbatim>\<open>__SEMAPHORE_INITIALIZER (pshared, value)\<close>; the unsigned value is stored in an \<^verbatim>\<open>int\<close>.\<close>

definition semaphore_initializer :: "saddr \<Rightarrow> int \<Rightarrow> 32 word \<Rightarrow> pt_state \<Rightarrow> pt_state" where
  "semaphore_initializer x pshared v s =
     s\<lparr>spin := (spin s)(S_lock x := 0), cell := (cell s)(Sem_queue x := None),
       sems := (sems s)(x := \<lparr>sem_pshared = pshared, sem_value = sint v\<rparr>)\<rparr>"

text \<open>\<^verbatim>\<open>SEM_VALUE_MAX\<close> is a macro of \<^verbatim>\<open>limits.h\<close>, which may be undefined.\<close>

definition sem_init :: "32 word option \<Rightarrow> saddr \<Rightarrow> thr \<Rightarrow> int \<Rightarrow> 32 word \<Rightarrow> int pt" where
  "sem_init value_max x self pshared v =
     (if pshared \<noteq> 0 then fail_errno self EOPNOTSUPP
      else if (case value_max of Some mx \<Rightarrow> v > mx | None \<Rightarrow> False) then fail_errno self EINVAL
      else andthen (modify (semaphore_initializer x pshared v)) (\<lambda>_. Return 0))"

definition sem_destroy :: "saddr \<Rightarrow> thr \<Rightarrow> int pt" where
  "sem_destroy x self =
     andthen (gets (\<lambda>s. cell s (Sem_queue x))) (\<lambda>q.
       if q \<noteq> None then fail_errno self EBUSY else Return 0)"

text \<open>Named semaphores are not supported; \<^verbatim>\<open>SEM_FAILED\<close> is the null pointer.\<close>

definition sem_open :: "thr \<Rightarrow> ptr pt" where
  "sem_open self = andthen (modify (set_errno self EOPNOTSUPP)) (\<lambda>_. Return 0)"

definition sem_close :: "thr \<Rightarrow> int pt" where
  "sem_close self = fail_errno self EOPNOTSUPP"

definition sem_unlink :: "thr \<Rightarrow> int pt" where
  "sem_unlink self = fail_errno self EOPNOTSUPP"

definition sem_getvalue :: "saddr \<Rightarrow> (int \<times> int) pt" where
  "sem_getvalue x =
     spin_section (S_lock x) (\<lambda>s.
       (Inr (0, sem_value (sems s x)), pthread_spin_unlock (S_lock x) s))"

definition trywait_section :: "saddr \<Rightarrow> pt_state \<Rightarrow> (fault + bool) \<times> pt_state" where
  "trywait_section x s =
     (if sem_value (sems s x) > 0 then
        (Inr True,
         pthread_spin_unlock (S_lock x) (upd_sem x (\<lambda>v. v\<lparr>sem_value := sem_value v - 1\<rparr>) s))
      else (Inr False, pthread_spin_unlock (S_lock x) s))"

definition sem_trywait :: "saddr \<Rightarrow> thr \<Rightarrow> int pt" where
  "sem_trywait x self =
     andthen (spin_section (S_lock x) (trywait_section x)) (\<lambda>ok.
       if ok then Return 0 else fail_errno self EAGAIN)"

text \<open>
  The first critical section of a wait: \<open>Some\<close> value is the function's return, \<open>None\<close> means that
  the caller blocks.  The return of \<^verbatim>\<open>EINVAL\<close> leaves the spin lock held.
\<close>

definition timedwait_enter ::
    "saddr \<Rightarrow> thr \<Rightarrow> timespec option \<Rightarrow> pt_state \<Rightarrow> (fault + int option) \<times> pt_state" where
  "timedwait_enter x self timeout s =
     (if sem_value (sems s x) > 0 then
        (Inr (Some 0),
         pthread_spin_unlock (S_lock x) (upd_sem x (\<lambda>v. v\<lparr>sem_value := sem_value v - 1\<rparr>) s))
      else if bad_nsec timeout then (Inr (Some (-1)), set_errno self EINVAL s)
      else
        (case pthread_enqueue (Sem_queue x) self s of
           None \<Rightarrow> (Inl Assert_failed, s)
         | Some s1 \<Rightarrow> (Inr None, pthread_spin_unlock (S_lock x) s1)))"

definition timedwait_end :: "thr \<Rightarrow> rc \<Rightarrow> int pt" where
  "timedwait_end self err =
     (if err \<noteq> OK then andthen (assert_p (err = ETIMEDOUT)) (\<lambda>_. fail_errno self err)
      else Return 0)"

definition timedwait_woken :: "saddr \<Rightarrow> thr \<Rightarrow> rc \<Rightarrow> int pt" where
  "timedwait_woken x self err =
     andthen (spin_section (S_lock x) (leave_queue (S_lock x) self err)) (\<lambda>drain.
       if drain then andthen (pthread_block self) (\<lambda>_. timedwait_end self err)
       else timedwait_end self err)"

definition sem_timedwait_internal :: "saddr \<Rightarrow> thr \<Rightarrow> timespec option \<Rightarrow> int pt" where
  "sem_timedwait_internal x self timeout =
     andthen (spin_section (S_lock x) (timedwait_enter x self timeout)) (\<lambda>r.
       case r of
         Some v \<Rightarrow> Return v
       | None \<Rightarrow> andthen (block_until self timeout CLOCK_REALTIME) (timedwait_woken x self))"

definition sem_timedwait :: "saddr \<Rightarrow> thr \<Rightarrow> timespec option \<Rightarrow> int pt" where
  "sem_timedwait x self timeout = sem_timedwait_internal x self timeout"

definition sem_wait :: "saddr \<Rightarrow> thr \<Rightarrow> int pt" where
  "sem_wait x self = sem_timedwait_internal x self None"

text \<open>
  The value is an \<^verbatim>\<open>int\<close> and is incremented without a check: at \<^verbatim>\<open>INT_MAX\<close> the increment overflows, which
  is undefined.
\<close>

definition post_section :: "saddr \<Rightarrow> pt_state \<Rightarrow> (fault + thr option) \<times> pt_state" where
  "post_section x s =
     (if sem_value (sems s x) > 0 then
        (if cell s (Sem_queue x) \<noteq> None then (Inl Assert_failed, s)
         else if sem_value (sems s x) \<ge> INT_MAX then (Inl Signed_overflow, s)
         else (Inr None,
               pthread_spin_unlock (S_lock x)
                 (upd_sem x (\<lambda>v. v\<lparr>sem_value := sem_value v + 1\<rparr>) s)))
      else
        (case cell s (Sem_queue x) of
           None \<Rightarrow>
             (Inr None, pthread_spin_unlock (S_lock x) (upd_sem x (\<lambda>v. v\<lparr>sem_value := 1\<rparr>) s))
         | Some wakeup \<Rightarrow>
             (case pthread_dequeue wakeup s of
                None \<Rightarrow> (Inl Assert_failed, s)
              | Some s1 \<Rightarrow> (Inr (Some wakeup), pthread_spin_unlock (S_lock x) s1))))"

definition sem_post :: "saddr \<Rightarrow> int pt" where
  "sem_post x =
     andthen (spin_section (S_lock x) (post_section x)) (\<lambda>wakeup.
       case wakeup of
         None \<Rightarrow> Return 0
       | Some w \<Rightarrow> andthen (pthread_wakeup w) (\<lambda>_. Return 0))"

section \<open>Properties\<close>

text \<open>The invariant of a semaphore between operations: waiters only while the value is 0.\<close>

definition sem_inv :: "pt_state \<Rightarrow> queue_view \<Rightarrow> saddr \<Rightarrow> bool" where
  "sem_inv s Q x \<longleftrightarrow>
     queues s Q \<and> spin s (S_lock x) = 0 \<and> sem_value (sems s x) \<ge> 0 \<and>
     (sem_value (sems s x) > 0 \<longrightarrow> Q (Sem_queue x) = [])"

lemma sem_inv_first:
  "sem_inv s Q x \<Longrightarrow> cell s (Sem_queue x) = (case Q (Sem_queue x) of [] \<Rightarrow> None | t # _ \<Rightarrow> Some t)"
  by (simp add: sem_inv_def wq.first_view)

text \<open>The number of units a semaphore has given out or has left, waiters counting negative.\<close>

definition sem_balance :: "pt_state \<Rightarrow> queue_view \<Rightarrow> saddr \<Rightarrow> int" where
  "sem_balance s Q x = sem_value (sems s x) - int (length (Q (Sem_queue x)))"

lemmas sem_sections =
  post_section_def timedwait_enter_def trywait_section_def pthread_spin_unlock_def

text \<open>
  A post on a semaphore whose value is less than \<^verbatim>\<open>INT_MAX\<close> never fails and raises the balance of the semaphore (its value less the number of its
  waiters) by exactly one: without waiters the value grows by one; with waiters the value stays 0
  and the first waiter is taken off the queue and sent one wakeup message.
\<close>

theorem sem_post_adds_one:
  assumes "sem_inv s Q x" and "mach_ports h" and "\<And>t. t \<in> set (Q (Sem_queue x)) \<Longrightarrow> kmsgs s t = 0"
    and "sem_value (sems s x) < INT_MAX"
  shows "\<exists>s1 Q1. run (sem_post x) h s = Done 0 s1 \<and> sem_inv s1 Q1 x \<and>
           Q1 = Q(Sem_queue x := tl (Q (Sem_queue x))) \<and>
           sem_balance s1 Q1 x = sem_balance s Q x + 1 \<and>
           kmsgs s1 = (case Q (Sem_queue x) of [] \<Rightarrow> kmsgs s | w # _ \<Rightarrow> (kmsgs s)(w := 1))"
proof (cases "Q (Sem_queue x)")
  case Nil
  have sp: "spin s (S_lock x) = 0" and v: "sem_value (sems s x) \<ge> 0"
    and c: "cell s (Sem_queue x) = None"
    using assms(1) sem_inv_first [OF assms(1)] Nil by (simp_all add: sem_inv_def)
  let ?s1 = "upd_sem x (\<lambda>v. v\<lparr>sem_value := sem_value v + 1\<rparr>) s"
  have "run (sem_post x) h s = Done 0 ?s1"
    using sp v c assms(4) by (auto simp: sem_post_def run_simps sem_sections intro!: pt_state.equality)
  moreover have "Q(Sem_queue x := tl (Q (Sem_queue x))) = Q" using Nil by (simp add: fun_upd_idem)
  ultimately show ?thesis
    using assms(1) Nil by (intro exI [of _ ?s1] exI [of _ Q]) (auto simp: sem_inv_def sem_balance_def)
next
  case (Cons w ws)
  let ?s = "upd_spin (S_lock x) 1 s"
  have sp: "spin s (S_lock x) = 0" and v: "sem_value (sems s x) = 0" and q: "queues ?s Q"
    using assms(1) Cons by (auto simp: sem_inv_def)
  have c: "cell s (Sem_queue x) = Some w" using sem_inv_first [OF assms(1)] Cons by simp
  from wq.deq_first(2) [OF q, of "Sem_queue x" w ws] Cons
  obtain s0 where s0: "pthread_dequeue w ?s = Some s0" "queues s0 (Q(Sem_queue x := ws))" by auto
  from pthread_dequeue_frame [OF s0(1)] obtain c' v' where s0': "s0 = ?s\<lparr>cell := c', prevp := v'\<rparr>"
    by auto
  let ?s1 = "s\<lparr>cell := c', prevp := v', kmsgs := (kmsgs s)(w := 1)\<rparr>"
  have "run (sem_post x) h s = Done 0 ?s1"
    using sp v c s0(1) s0' assms(3) [of w] Cons run_wakeup [OF assms(2)]
    by (auto simp: sem_post_def run_simps post_section_def pthread_spin_unlock_def
        intro!: pt_state.equality)
  then show ?thesis
    using s0(2) s0' sp v Cons
    by (intro exI [of _ ?s1] exI [of _ "Q(Sem_queue x := ws)"])
      (auto simp: sem_inv_def sem_balance_def)
qed

lemma sem_inv_three: "sem_inv three_state ((\<lambda>_. [])(Sem_queue 0 := [3, 2, 1])) 0"
  using three_queues by (simp add: sem_inv_def three_state_def)

theorem sem_post_adds_one_witness:
  "\<exists>s1 Q1. run (sem_post 0) port0 three_state = Done 0 s1 \<and> sem_inv s1 Q1 0 \<and>
     Q1 = ((\<lambda>_. [])(Sem_queue 0 := [3, 2, 1]))
       (Sem_queue 0 := tl (((\<lambda>_. [])(Sem_queue 0 := [3, 2, 1])) (Sem_queue 0))) \<and>
     sem_balance s1 Q1 0 = sem_balance three_state ((\<lambda>_. [])(Sem_queue 0 := [3, 2, 1])) 0 + 1 \<and>
     kmsgs s1 = (case ((\<lambda>_. [])(Sem_queue 0 := [3, 2, 1])) (Sem_queue 0) of
                   [] \<Rightarrow> kmsgs three_state | w # _ \<Rightarrow> (kmsgs three_state)(w := 1))"
  by (rule sem_post_adds_one [OF sem_inv_three]) (simp_all add: three_state_def INT_MAX_def)

text \<open>
  A post on a semaphore that has the greatest value overflows it; \<^verbatim>\<open>sem_post\<close> is specified to fail
  with \<^verbatim>\<open>EOVERFLOW\<close> instead.
\<close>

lemma sem_post_overflows:
  assumes "sem_inv s Q x" and "sem_value (sems s x) = INT_MAX"
  shows "\<exists>s1. run (sem_post x) h s = Failed Signed_overflow s1"
proof -
  have "cell s (Sem_queue x) = None"
    using assms sem_inv_first [OF assms(1)] by (simp add: sem_inv_def INT_MAX_def)
  moreover have "spin s (S_lock x) = 0" using assms(1) by (simp add: sem_inv_def)
  ultimately show ?thesis
    using assms(2) by (simp add: sem_post_def run_simps post_section_def INT_MAX_def)
qed

lemma wait_enter_queue:
  assumes "sem_inv s Q x" and "sem_value (sems s x) = 0" and "\<not> queued s t"
  shows "\<exists>c v. timedwait_enter x t None (upd_spin (S_lock x) 1 s) = (Inr None, s\<lparr>cell := c, prevp := v\<rparr>) \<and>
           linked c v (Q(Sem_queue x := t # Q (Sem_queue x)))"
proof -
  let ?s = "upd_spin (S_lock x) 1 s"
  have sp: "spin s (S_lock x) = 0" and q: "queues ?s Q" "\<not> queued ?s t"
    using assms by (simp_all add: sem_inv_def)
  from wq.enq_ok [OF q(1) _ q(2), of "Sem_queue x"] obtain s0
    where s0: "pthread_enqueue (Sem_queue x) t ?s = Some s0"
      "queues s0 (Q(Sem_queue x := t # Q (Sem_queue x)))" by auto
  from pthread_enqueue_frame [OF s0(1)] obtain c v where s0': "s0 = ?s\<lparr>cell := c, prevp := v\<rparr>" by auto
  have "pthread_spin_unlock (S_lock x) s0 = s\<lparr>cell := c, prevp := v\<rparr>"
    using sp s0' by (auto simp: pthread_spin_unlock_def intro!: pt_state.equality)
  with s0 s0' assms(2) show ?thesis by (auto simp: timedwait_enter_def)
qed

text \<open>
  A wait lowers the balance of the semaphore by exactly one: with a positive value it returns
  0 at once and the value drops by one; otherwise the thread blocks as the first of the waiters.
\<close>

theorem sem_wait_takes_one:
  assumes "sem_inv s Q x" and "mach_ports h" and "\<not> queued s t" and "kmsgs s t = 0"
  shows "\<exists>s1 Q1. (if sem_value (sems s x) > 0 then run (sem_wait x t) h s = Done 0 s1 \<and> Q1 = Q
                  else (\<exists>p. run (sem_wait x t) h s = Waiting p s1) \<and>
                       Q1 = Q(Sem_queue x := t # Q (Sem_queue x))) \<and>
           sem_inv s1 Q1 x \<and> sem_balance s1 Q1 x = sem_balance s Q x - 1 \<and> kmsgs s1 = kmsgs s"
proof (cases "sem_value (sems s x) > 0")
  case True
  let ?s1 = "upd_sem x (\<lambda>v. v\<lparr>sem_value := sem_value v - 1\<rparr>) s"
  have "run (sem_wait x t) h s = Done 0 ?s1"
    using assms(1) True
    by (auto simp: sem_wait_def sem_timedwait_internal_def run_simps sem_sections sem_inv_def
        intro!: pt_state.equality)
  with True assms(1) show ?thesis
    by (intro exI [of _ ?s1] exI [of _ Q]) (auto simp: sem_inv_def sem_balance_def)
next
  case False
  with assms(1) have v: "sem_value (sems s x) = 0" by (simp add: sem_inv_def)
  from wait_enter_queue [OF assms(1) v assms(3)] obtain c v'
    where e: "timedwait_enter x t None (upd_spin (S_lock x) 1 s) = (Inr None, s\<lparr>cell := c, prevp := v'\<rparr>)"
      "linked c v' (Q(Sem_queue x := t # Q (Sem_queue x)))" by blast
  let ?s1 = "s\<lparr>cell := c, prevp := v'\<rparr>"
  have "\<exists>p. run (sem_wait x t) h s = Waiting p ?s1"
    using assms(1,4) e(1)
    by (simp add: sem_wait_def sem_timedwait_internal_def run_simps sem_inv_def block_until_def
        run_block [OF assms(2)])
  with False v e(2) assms(1) show ?thesis
    by (intro exI [of _ ?s1] exI [of _ "Q(Sem_queue x := t # Q (Sem_queue x))"])
      (auto simp: sem_inv_def sem_balance_def)
qed

theorem sem_wait_takes_one_witness:
  "\<exists>s1 Q1. (if sem_value (sems zero_state 0) > 0 then run (sem_wait 0 7) port0 zero_state = Done 0 s1 \<and>
              Q1 = (\<lambda>_. [])
            else (\<exists>p. run (sem_wait 0 7) port0 zero_state = Waiting p s1) \<and>
                 Q1 = (\<lambda>_. [])(Sem_queue 0 := 7 # (\<lambda>_. []) (Sem_queue 0))) \<and>
     sem_inv s1 Q1 0 \<and> sem_balance s1 Q1 0 = sem_balance zero_state (\<lambda>_. []) 0 - 1 \<and>
     kmsgs s1 = kmsgs zero_state"
  by (rule sem_wait_takes_one) (simp_all add: sem_inv_def)

text \<open>
  C33: A post can be lost.  If the deadline of the only waiter passes and, before it has taken
  itself off the queue, another thread posts, then the post wakes that waiter, whose wait
  nevertheless fails with \<^verbatim>\<open>ETIMEDOUT\<close>: one unit has been posted, nobody has received it, and the
  value is still 0.
\<close>

theorem sem_timeout_loses_post:
  assumes "sem_inv s Q x" and "Q (Sem_queue x) = [t]" and "mach_ports h" and "kmsgs s t = 0"
  shows "\<exists>s1 s2. run (sem_post x) h s = Done 0 s1 \<and>
           run (timedwait_woken x t ETIMEDOUT) h s1 = Done (-1) s2 \<and> errno s2 t = ETIMEDOUT \<and>
           cell s2 (Sem_queue x) = None \<and> sem_value (sems s2 x) = 0"
proof -
  let ?s = "upd_spin (S_lock x) 1 s"
  have sp: "spin s (S_lock x) = 0" and v: "sem_value (sems s x) = 0" and q: "queues ?s Q"
    using assms(1,2) by (auto simp: sem_inv_def)
  have c: "cell s (Sem_queue x) = Some t" using sem_inv_first [OF assms(1)] assms(2) by simp
  from wq.deq_first(2) [OF q, of "Sem_queue x" t "[]"] assms(2)
  obtain s0 where s0: "pthread_dequeue t ?s = Some s0" "queues s0 (Q(Sem_queue x := []))"
    "\<not> queued s0 t" by auto
  from pthread_dequeue_frame [OF s0(1)] obtain c' v' where s0': "s0 = ?s\<lparr>cell := c', prevp := v'\<rparr>"
    by auto
  let ?s1 = "s\<lparr>cell := c', prevp := v', kmsgs := (kmsgs s)(t := 1)\<rparr>"
  let ?s2 = "s\<lparr>cell := c', prevp := v', errno := (errno s)(t := ETIMEDOUT)\<rparr>"
  have "run (sem_post x) h s = Done 0 ?s1"
    using sp v c s0(1) s0' assms(4) run_wakeup [OF assms(3)]
    by (auto simp: sem_post_def run_simps post_section_def pthread_spin_unlock_def
        intro!: pt_state.equality)
  moreover have "run (timedwait_woken x t ETIMEDOUT) h ?s1 = Done (-1) ?s2"
    using sp s0(3) s0' assms(4) run_block [OF assms(3)]
    by (auto simp: timedwait_woken_def timedwait_end_def fail_errno_def run_simps leave_queue_def
        pthread_spin_unlock_def intro!: pt_state.equality)
  moreover have "c' (Sem_queue x) = None"
    using wq.first_view [OF s0(2), of "Sem_queue x"] s0' by simp
  ultimately show ?thesis using v by (intro exI [of _ ?s1] exI [of _ ?s2]) auto
qed

definition sem_one :: pt_state where
  "sem_one = zero_state\<lparr>cell := (\<lambda>_. None)(Sem_queue 0 := Some 2),
     prevp := (\<lambda>_. None)(2 := Some (Sem_queue 0))\<rparr>"

lemma sem_one_inv: "sem_inv sem_one ((\<lambda>_. [])(Sem_queue 0 := [2])) 0"
  by (auto simp: sem_inv_def sem_one_def linked_def intro!: exI [of _ "Sem_queue 0"])

theorem sem_timeout_loses_post_witness:
  "\<exists>s1 s2. run (sem_post 0) port0 sem_one = Done 0 s1 \<and>
     run (timedwait_woken 0 2 ETIMEDOUT) port0 s1 = Done (-1) s2 \<and> errno s2 2 = ETIMEDOUT \<and>
     cell s2 (Sem_queue 0) = None \<and> sem_value (sems s2 0) = 0"
  by (rule sem_timeout_loses_post [OF sem_one_inv]) (simp_all add: sem_one_def)

end
