(* ===== verification/Semaphore_Machine.thy ===== *)
theory Semaphore_Machine
  imports Semaphore Gate_Impl
begin

text \<open>
  All interleavings of any number of threads that wait, with or without deadlines, try to wait and
  post on one semaphore, as steps of the programs of \<open>Semaphore\<close>.  A semaphore is a gate whose object is its
  value; what a thread has are the numbers of its successful posts and waits.
\<close>

section \<open>The callers\<close>

datatype sem_op = Wait "timespec option" | Trywait | Post

fun sem_prog :: "saddr \<Rightarrow> thr \<Rightarrow> sem_op \<Rightarrow> int pt" where
  "sem_prog x t (Wait ts) = sem_timedwait_internal x t ts"
| "sem_prog x t Trywait = sem_trywait x t"
| "sem_prog x t Post = sem_post x"

text \<open>The functions return 0, or -1 with the reason in \<^verbatim>\<open>errno\<close>; here only success matters.\<close>

definition sem_code :: "int \<Rightarrow> rc" where
  "sem_code v = (if v = 0 then OK else ETIMEDOUT)"

fun sem_gain :: "sem_op \<Rightarrow> nat \<times> nat \<Rightarrow> nat \<times> nat" where
  "sem_gain Post (posts, takes) = (Suc posts, takes)"
| "sem_gain _ (posts, takes) = (posts, Suc takes)"

fun sem_allowed :: "timespec option set \<Rightarrow> sem_op \<Rightarrow> bool" where
  "sem_allowed D (Wait ts) = (ts \<in> D \<and> \<not> bad_nsec ts)"
| "sem_allowed D _ = True"

definition sem_rules :: "nat \<Rightarrow> timespec option set \<Rightarrow> (nat \<times> nat, sem_op) rules" where
  "sem_rules n D = \<lparr>bound = n, allowed = (\<lambda>h. sem_allowed D), gain = sem_gain\<rparr>"

definition sem_start :: "saddr \<Rightarrow> int \<Rightarrow> (nat \<times> nat, sem_op, int) callers \<Rightarrow> bool" where
  "sem_start x v c \<longleftrightarrow>
     fst c = (\<lambda>_. Away (0, 0)) \<and> sem_value (sems (snd c) x) = v \<and> v \<ge> 0 \<and> spin (snd c) (S_lock x) = 0 \<and>
     cell (snd c) = (\<lambda>_. None) \<and> prevp (snd c) = (\<lambda>_. None) \<and> kmsgs (snd c) = (\<lambda>_. 0)"

text \<open>
  The states in which the value of the semaphore is less than the greatest \<^verbatim>\<open>int\<close>.  A post in any other state
  overflows the value (\<open>sem_post_overflows\<close>).
\<close>

definition sem_in_range :: "saddr \<Rightarrow> pt_state \<Rightarrow> bool" where
  "sem_in_range x s \<longleftrightarrow> sem_value (sems s x) < INT_MAX"

section \<open>The gate\<close>

fun sem_entry :: "saddr \<Rightarrow> sem_op \<Rightarrow> thr \<Rightarrow> int \<Rightarrow> queue_view \<Rightarrow> int verdict" where
  "sem_entry x (Wait ts) t v Q = (if v > 0 then Pass (v - 1) Q False [] OK else Join v)"
| "sem_entry x Trywait t v Q =
     (if v > 0 then Pass (v - 1) Q False [] OK else Pass v Q False [] ETIMEDOUT)"
| "sem_entry x Post t v Q =
     (case Q (Sem_queue x) of
        [] \<Rightarrow> Pass (v + 1) Q False [] OK
      | w # ws \<Rightarrow> Pass v (Q(Sem_queue x := ws)) False [w] OK)"

fun sem_deadline :: "sem_op \<Rightarrow> timespec option" where
  "sem_deadline (Wait ts) = ts"
| "sem_deadline _ = None"

fun sem_line :: "saddr \<Rightarrow> sem_op \<Rightarrow> loc option" where
  "sem_line x (Wait ts) = Some (Sem_queue x)"
| "sem_line x _ = None"

definition sem_gate :: "saddr \<Rightarrow> nat \<Rightarrow> timespec option set \<Rightarrow> (nat \<times> nat, sem_op, int) gate" where
  "sem_gate x n D =
     \<lparr>bound = n, allowed = (\<lambda>h. sem_allowed D), gain = sem_gain, deadline = sem_deadline, line = sem_line x,
      entry = sem_entry x, settled = (\<lambda>_ _ _. True), complete = (\<lambda>_ _ v. v)\<rparr>"

lemma sem_gate_simps [simp]:
  "bound (sem_gate x n D) = n" "allowed (sem_gate x n D) h o1 = sem_allowed D o1"
  "gain (sem_gate x n D) = sem_gain" "deadline (sem_gate x n D) = sem_deadline"
  "line (sem_gate x n D) = sem_line x" "entry (sem_gate x n D) = sem_entry x"
  "settled (sem_gate x n D) o1 t r" "complete (sem_gate x n D) o1 t r = r"
  "bound (sem_rules n D) = n" "allowed (sem_rules n D) h o1 = sem_allowed D o1"
  "gain (sem_rules n D) = sem_gain"
  by (simp_all add: sem_gate_def sem_rules_def)

text \<open>Only a post touches a queue: it takes the first waiter off.\<close>

lemma sem_entry_pass:
  assumes "sem_entry x o1 t v Q = Pass r Q' k ws e"
  shows "\<not> k \<and> (Q' = Q \<and> ws = [] \<or>
    (\<exists>w vs. o1 = Post \<and> Q (Sem_queue x) = w # vs \<and> Q' = Q(Sem_queue x := vs) \<and> ws = [w] \<and> r = v \<and> e = OK))"
  using assms by (cases o1; simp split: if_splits list.splits)

interpretation sem_laws: gate_laws "sem_gate x n D" for x n D
proof
  fix o1 t r Q r' Q' k ws e
  assume en: "entry (sem_gate x n D) o1 t r Q = Pass r' Q' k ws e"
    and d: "\<And>l. distinct (Q l)" and j: "\<And>l l' u. u \<in> set (Q l) \<Longrightarrow> u \<in> set (Q l') \<Longrightarrow> l = l'"
  show "distinct ws \<and> (\<forall>l. distinct (Q' l) \<and> set (Q' l) \<subseteq> set (Q l)) \<and>
      (\<forall>u. in_line Q u = (in_line Q' u \<or> u \<in> set ws)) \<and> (\<forall>u. u \<in> set ws \<longrightarrow> \<not> in_line Q' u)"
    by (rule pass_lines_one [where l = "Sem_queue x"])
      (use d j sem_entry_pass [OF en [simplified]] in blast)+
qed

section \<open>The invariant\<close>

definition total :: "nat \<Rightarrow> ('h \<Rightarrow> nat) \<Rightarrow> (thr \<Rightarrow> 'h) \<Rightarrow> int" where
  "total n f hs = (\<Sum>t<n. int (f (hs t)))"

lemma total_upd:
  assumes "t < n"
  shows "total n f (hs(t := h)) = total n f hs - int (f (hs t)) + int (f h)"
proof -
  have r: "(\<Sum>u<n. g u) = g t + (\<Sum>u\<in>{..<n} - {t}. g u)" for g :: "nat \<Rightarrow> int"
    using sum.remove [of "{..<n}" t g] assms by simp
  have "(\<Sum>u\<in>{..<n} - {t}. int (f ((hs(t := h)) u))) = (\<Sum>u\<in>{..<n} - {t}. int (f (hs u)))"
    by (rule sum.cong) auto
  then show ?thesis unfolding total_def
    using r [of "\<lambda>u. int (f ((hs(t := h)) u))"] r [of "\<lambda>u. int (f (hs u))"] by simp
qed

text \<open>
  The value is not negative, and positive only while nobody waits; the units that have been taken and
  those that are left are not more than there were at the start and have been posted, and
  exactly as many if nobody uses a deadline.
\<close>

definition sem_room :: "saddr \<Rightarrow> nat \<Rightarrow> timespec option set \<Rightarrow> int \<Rightarrow> (nat \<times> nat, sem_op, int) room \<Rightarrow> bool" where
  "sem_room x n D v a \<longleftrightarrow>
     res a \<ge> 0 \<and> (res a > 0 \<longrightarrow> que a (Sem_queue x) = []) \<and>
     (let hs = holds (sem_gate x n D) a; lhs = res a + total n snd hs; rhs = v + total n fst hs
      in lhs \<le> rhs \<and> (D \<subseteq> {None} \<longrightarrow> lhs = rhs))"

lemma sem_room_lost:
  assumes "sem_room x n D v a" and "t < n" and "holds (sem_gate x n D) a t = (p, Suc k)"
    and "\<not> D \<subseteq> {None}" and "res b = res a" and "que b = que a"
    and "holds (sem_gate x n D) b = (holds (sem_gate x n D) a)(t := (p, k))"
  shows "sem_room x n D v b"
  using assms by (auto simp: sem_room_def Let_def total_upd)

text \<open>The sections.\<close>

lemma sem_room_take:
  assumes "sem_room x n D v a" and "t < n" and "holds (sem_gate x n D) a t = (p, k)" and "res a > 0"
    and "res b = res a - 1" and "que b = que a"
    and "holds (sem_gate x n D) b = (holds (sem_gate x n D) a)(t := (p, Suc k))"
  shows "sem_room x n D v b"
  using assms by (auto simp: sem_room_def Let_def total_upd)

lemma sem_room_post:
  assumes "sem_room x n D v a" and "t < n" and "holds (sem_gate x n D) a t = (p, k)"
    and "que a (Sem_queue x) = []" and "res b = res a + 1" and "que b = que a"
    and "holds (sem_gate x n D) b = (holds (sem_gate x n D) a)(t := (Suc p, k))"
  shows "sem_room x n D v b"
  using assms by (auto simp: sem_room_def Let_def total_upd)

lemma sem_room_pass_on:
  assumes "sem_room x n D v a" and "t < n" and "holds (sem_gate x n D) a t = (p, k)"
    and "u < n" and "u \<noteq> t" and "holds (sem_gate x n D) a u = (p', k')"
    and "que a (Sem_queue x) = u # ws" and "res b = res a" and "que b = (que a)(Sem_queue x := ws)"
    and "holds (sem_gate x n D) b = (holds (sem_gate x n D) a)(t := (Suc p, k), u := (p', Suc k'))"
  shows "sem_room x n D v b"
  using assms by (auto simp: sem_room_def Let_def total_upd)

lemma sem_room_step:
  assumes eff: "effect (sem_gate x n D) a b" and room: "sem_room x n D v a"
  shows "sem_room x n D v b"
  using eff
proof cases
  case (silent t)
  with room show ?thesis by (auto simp: sem_room_def Let_def)
next
  case (completed t h o1)
  with room show ?thesis by (auto simp: sem_room_def Let_def)
next
  case (lost t h o1)
  then obtain ts where o1: "o1 = Wait ts" and ts: "ts \<in> D" "ts \<noteq> None" by (cases o1) (auto simp: waitable_def)
  with lost show ?thesis by (cases h) (intro sem_room_lost [OF room, of t]; auto)
next
  case (joined t o1 r l)
  then have "r = res a \<and> res a \<le> 0" by (cases o1) (simp_all split: if_splits list.splits)
  with joined room show ?thesis by (auto simp: sem_room_def Let_def)
next
  case (passed t o1 ws r Q k e)
  obtain p j where h: "holds (sem_gate x n D) a t = (p, j)" by (cases "holds (sem_gate x n D) a t")
  show ?thesis
  proof (cases "ws = []")
    case True
    have hb: "holds (sem_gate x n D) b = (holds (sem_gate x n D) a)(t := worth (sem_gate x n D) (p, j) o1 e)"
      using passed(7) h True by (auto simp: fun_eq_iff)
    show ?thesis
    proof (cases o1)
      case (Wait ts)
      with passed True h hb show ?thesis
        by (intro sem_room_take [OF room, of t p j]) (auto split: if_splits)
    next
      case Trywait
      show ?thesis
      proof (cases "res a > 0")
        case True
        with passed Trywait h hb show ?thesis
          by (intro sem_room_take [OF room, of t p j]) (auto split: if_splits)
      next
        case False
        with passed Trywait h hb room show ?thesis
          by (auto simp: sem_room_def Let_def total_upd split: if_splits)
      qed
    next
      case Post
      with passed True h hb show ?thesis
        by (intro sem_room_post [OF room, of t p j]) (auto split: if_splits list.splits)
    qed
  next
    case False
    with sem_entry_pass [OF passed(5) [simplified]] obtain w vs where w: "o1 = Post" "e = OK"
      "que a (Sem_queue x) = w # vs" "Q = (que a)(Sem_queue x := vs)" "ws = [w]" "r = res a" by blast
    from passed(6) [of w] w obtain o2 l where o2: "sem_line x o2 = Some l" "w < n"
      "holds (sem_gate x n D) b w = sem_gain o2 (holds (sem_gate x n D) a w)" by auto
    obtain p' j' where h': "holds (sem_gate x n D) a w = (p', j')" by (cases "holds (sem_gate x n D) a w")
    have "holds (sem_gate x n D) b w = (p', Suc j')" using o2 h' by (cases o2) auto
    then have "holds (sem_gate x n D) b = (holds (sem_gate x n D) a)(t := (Suc p, j), w := (p', Suc j'))"
      using passed(7) h w by (auto simp: fun_eq_iff)
    with passed w o2 h h' show ?thesis
      by (intro sem_room_pass_on [OF room, of t p j w p' j' vs]) auto
  qed
qed

lemma sem_reach_room:
  assumes "greach (sem_gate x n D) (room_init (0, 0) v) a" and "v \<ge> 0"
  shows "gate_inv (sem_gate x n D) a \<and> sem_room x n D v a"
  using assms(1)
proof induction
  case init
  then show ?case
    using assms(2) room_init_inv by (simp add: sem_room_def room_init_def holds_def total_def)
next
  case (step b c)
  then show ?case using sem_laws.gstep_inv sem_laws.gstep_effect sem_room_step by blast
qed

section \<open>The programs follow the protocol\<close>

definition sem_impl :: "saddr \<Rightarrow> (sem_op, int, int) impl" where
  "sem_impl x =
     \<lparr>guard_of = S_lock x, prog_of = sem_prog x, code_of = sem_code,
      front_part = (\<lambda>t o1 p. p = sem_prog x t o1),
      last_part = (\<lambda>t o1. timedwait_end t),
      tail_part = (\<lambda>t o1 e p.
        (\<exists>v. p = Return v \<and> sem_code v = e) \<or> (\<exists>err. p = fail_errno t err \<and> e = ETIMEDOUT)),
      lag = (\<lambda>_ _ _ _ _ _ _ _. False),
      object = (\<lambda>r s. sem_value (sems s x) = r),
      in_range = sem_in_range x\<rparr>"

lemma sem_impl_simps [simp]:
  "guard_of (sem_impl x) = S_lock x" "prog_of (sem_impl x) = sem_prog x" "code_of (sem_impl x) = sem_code"
  "front_part (sem_impl x) t o1 p \<longleftrightarrow> p = sem_prog x t o1"
  "last_part (sem_impl x) t o1 = timedwait_end t"
  "tail_part (sem_impl x) t o1 e p \<longleftrightarrow>
     (\<exists>v. p = Return v \<and> sem_code v = e) \<or> (\<exists>err. p = fail_errno t err \<and> e = ETIMEDOUT)"
  "\<not> lag (sem_impl x) t o1 e ws r Q p s"
  "object (sem_impl x) r s \<longleftrightarrow> sem_value (sems s x) = r" "in_range (sem_impl x) = sem_in_range x"
  by (simp_all add: sem_impl_def)

lemma sem_code_0 [simp]: "sem_code 0 = OK"
  by (simp add: sem_code_def)

lemma timedwait_woken_part: "timedwait_woken x t = woken_part (S_lock x) t (timedwait_end t)"
  by (rule ext) (simp add: timedwait_woken_def woken_part_def)

text \<open>The first section of each operation.\<close>

lemma sem_front_pass:
  assumes "free_state (sem_impl x) r Q s" and "r > 0" and "o1 \<noteq> Post"
    and "pstep E (sem_prog x t o1) s p s'"
  shows "entered (sem_gate x n D) (sem_impl x) t o1 r Q p s' \<and> kmsgs s' = kmsgs s"
proof -
  have v: "sem_value (sems s x) > 0" "spin s (S_lock x) = 0" using assms(1,2) by (auto simp: free_state_def)
  let ?s = "upd_sem x (\<lambda>y. y\<lparr>sem_value := sem_value y - 1\<rparr>) s"
  have "p = Return 0 \<and> s' = pthread_spin_unlock (S_lock x) (upd_spin (S_lock x) 1 ?s)"
    using assms(3,4) v
    by (cases o1)
      (auto simp: sem_timedwait_internal_def sem_trywait_def pstep_spin_section timedwait_enter_def
        trywait_section_def pthread_spin_unlock_def intro!: pt_state.equality)
  with assms(1-3) show ?thesis
    by (cases o1) (auto simp: entered_def free_state_def pthread_spin_unlock_def)
qed

lemma sem_front_try:
  assumes "free_state (sem_impl x) r Q s" and "\<not> r > 0" and "pstep E (sem_trywait x t) s p s'"
  shows "entered (sem_gate x n D) (sem_impl x) t Trywait r Q p s' \<and> kmsgs s' = kmsgs s"
proof -
  have v: "\<not> sem_value (sems s x) > 0" "spin s (S_lock x) = 0" using assms(1,2) by (auto simp: free_state_def)
  have "p = fail_errno t EAGAIN \<and> s' = s"
    using assms(3) v
    by (auto simp: sem_trywait_def pstep_spin_section trywait_section_def pthread_spin_unlock_def)
  with assms(1,2) show ?thesis by (auto simp: entered_def)
qed

lemma sem_front_join:
  assumes "free_state (sem_impl x) r Q s" and "\<not> r > 0" and "\<not> bad_nsec ts" and "\<not> queued s t"
    and "pstep E (sem_timedwait_internal x t ts) s p s'"
  shows "entered (sem_gate x n D) (sem_impl x) t (Wait ts) r Q p s' \<and> kmsgs s' = kmsgs s"
proof -
  let ?s = "upd_spin (S_lock x) 1 s"
  have v: "sem_value (sems s x) = r" "spin s (S_lock x) = 0" "queues ?s Q" "\<not> queued ?s t"
    using assms(1,4) by (auto simp: free_state_def)
  from wq.enq_ok [OF v(3) _ v(4), of "Sem_queue x"] obtain s1 where
    s1: "pthread_enqueue (Sem_queue x) t ?s = Some s1" "queues s1 (Q(Sem_queue x := t # Q (Sem_queue x)))" by auto
  from pthread_enqueue_frame [OF s1(1)] obtain c w where s1': "s1 = ?s\<lparr>cell := c, prevp := w\<rparr>" by auto
  have "p = andthen (block_until t ts CLOCK_REALTIME) (timedwait_woken x t) \<and>
      s' = pthread_spin_unlock (S_lock x) s1"
    using assms(2,3,5) v(1) s1(1)
    by (auto simp: sem_timedwait_internal_def pstep_spin_section timedwait_enter_def)
  with assms(2) v s1' s1(2) show ?thesis
    by (auto simp: entered_def free_state_def pthread_spin_unlock_def timedwait_woken_part)
qed

lemma sem_front_post:
  assumes "free_state (sem_impl x) r Q s" and "r \<ge> 0" and "r > 0 \<longrightarrow> Q (Sem_queue x) = []"
    and "sem_in_range x s" and "pstep E (sem_post x) s p s'"
  shows "entered (sem_gate x n D) (sem_impl x) t Post r Q p s' \<and> kmsgs s' = kmsgs s"
proof (cases "Q (Sem_queue x)")
  case Nil
  have v: "sem_value (sems s x) = r" "spin s (S_lock x) = 0" "queues s Q"
    using assms(1) by (auto simp: free_state_def)
  have c: "cell s (Sem_queue x) = None" using wq.first_view [OF v(3), of "Sem_queue x"] Nil by simp
  let ?s = "upd_sem x (\<lambda>y. y\<lparr>sem_value := sem_value y + 1\<rparr>) s"
  have "p = Return 0 \<and> s' = pthread_spin_unlock (S_lock x) (upd_spin (S_lock x) 1 ?s)"
    using assms(2,4,5) v c
    by (auto simp: sem_post_def sem_in_range_def pstep_spin_section post_section_def pthread_spin_unlock_def
        intro!: pt_state.equality)
  with v Nil show ?thesis by (auto simp: entered_def free_state_def pthread_spin_unlock_def)
next
  case (Cons w ws)
  let ?s = "upd_spin (S_lock x) 1 s"
  have v: "sem_value (sems s x) = 0" "r = 0" "spin s (S_lock x) = 0" "queues ?s Q"
    using assms(1-3) Cons by (auto simp: free_state_def)
  have c: "cell s (Sem_queue x) = Some w" using wq.first_view [OF v(4), of "Sem_queue x"] Cons by simp
  from wq.deq_first(2) [OF v(4), of "Sem_queue x" w ws] Cons obtain s1 where
    s1: "pthread_dequeue w ?s = Some s1" "queues s1 (Q(Sem_queue x := ws))" by auto
  from pthread_dequeue_frame [OF s1(1)] obtain c' u where s1': "s1 = ?s\<lparr>cell := c', prevp := u\<rparr>" by auto
  have "p = andthen (pthread_wakeup w) (\<lambda>_. Return 0) \<and> s' = pthread_spin_unlock (S_lock x) s1"
    using assms(5) v c s1(1) by (auto simp: sem_post_def pstep_spin_section post_section_def)
  with v Cons s1' s1(2) show ?thesis
    by (auto simp: entered_def free_state_def pthread_spin_unlock_def wakes_one_def)
qed

lemma sem_front_step:
  assumes "greach (sem_gate x n D) (room_init (0, 0) v) a" and "v \<ge> 0" and "sem_allowed D o1"
    and "free_state (sem_impl x) (res a) (que a) s" and "\<not> queued s t" and "sem_in_range x s"
    and "pstep E (sem_prog x t o1) s p s'"
  shows "entered (sem_gate x n D) (sem_impl x) t o1 (res a) (que a) p s' \<and> kmsgs s' = kmsgs s"
proof -
  have room: "res a \<ge> 0" "res a > 0 \<longrightarrow> que a (Sem_queue x) = []"
    using sem_reach_room [OF assms(1,2)] by (simp_all add: sem_room_def)
  show ?thesis
  proof (cases o1)
    case (Wait ts)
    with assms sem_front_pass [OF assms(4), of o1 E t p s' n D]
      sem_front_join [OF assms(4) _ _ assms(5), of ts E p s' n D] show ?thesis
      by (cases "res a > 0") auto
  next
    case Trywait
    with assms sem_front_pass [OF assms(4), of o1 E t p s' n D]
      sem_front_try [OF assms(4), of E t p s' n D] show ?thesis
      by (cases "res a > 0") auto
  next
    case Post
    with assms sem_front_post [OF assms(4) room assms(6)] show ?thesis by auto
  qed
qed

lemmas sem_prog_defs =
  sem_timedwait_internal_def sem_trywait_def sem_post_def spin_section_def section_of_def

lemma sem_prog_not [simp]: "Return v \<noteq> sem_prog x t o1" "Crash f \<noteq> sem_prog x t o1"
  by (cases o1; simp add: sem_prog_defs)+

lemma sem_prog_locked: "pstep E (sem_prog x t o1) s p s' \<Longrightarrow> spin s (S_lock x) = 0"
  by (cases o1)
    (auto simp: sem_timedwait_internal_def sem_trywait_def sem_post_def pstep_spin_section)

lemma fail_errno_simps [simp]:
  "fail_errno t err \<noteq> Return v" "fail_errno t err \<noteq> Crash f" "Return v \<noteq> fail_errno t err" "Crash f \<noteq> fail_errno t err"
  by (simp_all add: fail_errno_def modify_def)

lemma fail_errno_step:
  "pstep E (fail_errno t err) s p s' \<Longrightarrow> p = Return (-1) \<and> s' = set_errno t err s"
  by (auto simp: fail_errno_def modify_def pstep_iffs)

lemma timedwait_end_simps [simp]:
  "timedwait_end t OK = Return 0" "timedwait_end t ETIMEDOUT = fail_errno t ETIMEDOUT"
  by (simp_all add: timedwait_end_def assert_p_def)

lemma sem_line_head: "sem_line x o1 = Some l \<Longrightarrow> is_head l"
  by (cases o1) auto

lemma sem_tail_step:
  assumes "tail_part (sem_impl x) t o1 e p" and "pstep E p s p' s'"
  shows "tail_part (sem_impl x) t o1 e p' \<and> (\<exists>y. s' = s\<lparr>errno := y\<rparr>)"
proof -
  from assms obtain err where "p = fail_errno t err" "e = ETIMEDOUT" by (auto simp: pstep_iffs)
  with fail_errno_step [of E t err s p' s'] assms(2) show ?thesis by (auto simp: sem_code_def)
qed

lemma sem_unlocked:
  assumes "greach (sem_gate x n D) (room_init (0, 0) v) a"
  shows "locked a = None"
proof -
  have "\<not> keeps_lock (stages a t)" for t
    using greach_unlocked [OF assms] sem_entry_pass by (metis sem_gate_simps(6))
  moreover have "gate_inv (sem_gate x n D) a"
    using sem_laws.greach_inv [OF assms] by (simp add: room_init_inv)
  ultimately show ?thesis using gate_invD(3) by (metis not_Some_eq)
qed

lemma sem_gate_impl:
  assumes "mach_ports E" and "clock_ok E" and "v \<ge> 0"
  shows "gate_impl (sem_gate x n D) (sem_rules n D) (sem_impl x) E (room_init (0, 0) v)"
proof unfold_locales
  fix t o1 p s p' s'
  assume "spin s (guard_of (sem_impl x)) \<noteq> 0" and "front_part (sem_impl x) t o1 p" and "pstep E p s p' s'"
  then show "front_part (sem_impl x) t o1 p' \<and> s' = s" using sem_prog_locked by auto
next
  fix a t h o1 p s p' s'
  assume "greach (sem_gate x n D) (room_init (0, 0) v) a" and "allowed (sem_gate x n D) h o1"
    and "front_part (sem_impl x) t o1 p" and "free_state (sem_impl x) (res a) (que a) s"
    and "\<not> queued s t" and "in_range (sem_impl x) s" and "pstep E p s p' s'"
  then show "front_part (sem_impl x) t o1 p' \<and> s' = s \<or>
      entered (sem_gate x n D) (sem_impl x) t o1 (res a) (que a) p' s' \<and> kmsgs s' = kmsgs s"
    using sem_front_step [OF _ assms(3)] by simp
next
  show "allowed (sem_rules n D) = allowed (sem_gate x n D)" by (intro ext) simp
next
  fix o1 l assume "line (sem_gate x n D) o1 = Some l"
  then show "is_head l" using sem_line_head by simp
qed (use assms room_init_inv sem_tail_step sem_unlocked in \<open>auto simp: pstep_iffs\<close>)

lemma sem_prog_goes: "spin s (S_lock x) = 0 \<Longrightarrow> \<exists>p' s'. pstep E (sem_prog x t o1) s p' s'"
  by (cases o1)
    (auto simp: sem_timedwait_internal_def sem_trywait_def sem_post_def pstep_spin_section)

lemma sem_gate_live:
  assumes "mach_ports E" and "clock_ok E" and "v \<ge> 0"
  shows "gate_live (sem_gate x n D) (sem_rules n D) (sem_impl x) E (room_init (0, 0) v)"
proof (intro gate_live.intro sem_gate_impl assms gate_live_axioms.intro)
qed (use sem_prog_goes in \<open>auto simp: fail_errno_def modify_def pstep_iffs\<close>)

interpretation sem_live: gate_live "sem_gate x n D" "sem_rules n D" "sem_impl x" "port_env now"
    "room_init (0, 0) (int v)" for x n D now v
  by (rule sem_gate_live) simp_all

section \<open>Units are neither invented nor lost\<close>

text \<open>The posts that a caller has begun, and the waits that it has completed.\<close>

fun posts_begun :: "(nat \<times> nat, sem_op, int) caller \<Rightarrow> nat" where
  "posts_begun (Away h) = fst h"
| "posts_begun (Calling h o1 p) = fst h + (if o1 = Post then 1 else 0)"

fun takes_done :: "(nat \<times> nat, sem_op, int) caller \<Rightarrow> nat" where
  "takes_done (Away h) = snd h"
| "takes_done (Calling h o1 p) = snd h"

lemma sem_gain_bounds:
  "snd h \<le> snd (sem_gain o1 h)" "fst (sem_gain o1 h) \<le> fst h + (if o1 = Post then 1 else 0)"
  by (cases h; cases o1; simp)+

lemma sem_gain_posts [simp]:
  "o1 \<noteq> Post \<Longrightarrow> fst (sem_gain o1 h) = fst h" "fst (sem_gain Post h) = Suc (fst h)"
  by (cases h; cases o1; simp)+

lemma sem_caller_bounds:
  assumes "caller_rel (sem_gate x n D) (sem_impl x) t st r Q s c"
  shows "takes_done c \<le> snd (has (sem_gate x n D) st q)" "fst (has (sem_gate x n D) st q) \<le> posts_begun c"
proof -
  have w: "snd h \<le> snd (worth (sem_gate x n D) h o1 e)"
    "fst (worth (sem_gate x n D) h o1 e) \<le> fst h + (if o1 = Post then 1 else 0)" for h o1 e
    using sem_gain_bounds [where h = h and ?o1.0 = o1] by (auto simp: worth_def)
  show "takes_done c \<le> snd (has (sem_gate x n D) st q)"
    using assms w(1) sem_gain_bounds(1) by (cases st) (auto split: if_splits)
  show "fst (has (sem_gate x n D) st q) \<le> posts_begun c"
    using assms w(2) sem_gain_bounds(2) by (cases st) (auto split: if_splits)
qed

lemma sem_start_rel:
  "sem_start x v c \<Longrightarrow> callers_rel (sem_gate x n D) (sem_impl x) (room_init (0, 0) v) c"
  by (cases c)
    (simp add: sem_start_def callers_rel_def room_init_def room_rel_def free_state_def)

lemma sem_creach:
  assumes "mach_ports E" and "clock_ok E" and "sem_start x v c"
    and "creach_in (sem_in_range x) E (sem_rules n D) (sem_prog x) sem_code c (cs, s)"
  obtains a where "gate_inv (sem_gate x n D) a" "sem_room x n D v a" "sem_value (sems s x) = res a"
    "callers_rel (sem_gate x n D) (sem_impl x) a (cs, s)"
proof -
  have v: "v \<ge> 0" using assms(3) by (simp add: sem_start_def)
  from gate_impl.creach_rel [OF sem_gate_impl [OF assms(1,2) v, of x n D] _ sem_start_rel [OF assms(3)]] assms(4)
  obtain a where a: "greach (sem_gate x n D) (room_init (0, 0) v) a"
    "callers_rel (sem_gate x n D) (sem_impl x) a (cs, s)" by auto
  with sem_unlocked [OF a(1)] have "sem_value (sems s x) = res a"
    by (simp add: callers_rel_def room_rel_def free_state_def)
  with sem_reach_room [OF a(1) v] a(2) that show ?thesis by blast
qed

text \<open>
  C7: Units of a semaphore are not invented.  In every interleaving of waits, timed waits, attempts and
  posts by any number of threads, as long as no step is taken from a state in which the value, an \<^verbatim>\<open>int\<close>, has
  reached \<^verbatim>\<open>INT_MAX\<close> (a post there would overflow it), and with deadlines whose \<^verbatim>\<open>tv_nsec\<close> is in range, the value is never negative, and the value and the waits that have
  succeeded together are never more than the initial value and the posts that have been begun.
\<close>

theorem sem_units_bounded:
  assumes "mach_ports E" and "clock_ok E" and "sem_start x v c"
    and "creach_in (sem_in_range x) E (sem_rules n D) (sem_prog x) sem_code c (cs, s)"
  shows "0 \<le> sem_value (sems s x) \<and>
    sem_value (sems s x) + (\<Sum>t<n. int (takes_done (cs t))) \<le> v + (\<Sum>t<n. int (posts_begun (cs t)))"
proof -
  obtain a where a: "sem_room x n D v a" "sem_value (sems s x) = res a"
    "callers_rel (sem_gate x n D) (sem_impl x) a (cs, s)" using sem_creach [OF assms] by blast
  have c: "caller_rel (sem_gate x n D) (sem_impl x) t (stages a t) (res a) (que a) s (cs t)" for t
    using a(3) by (simp add: callers_rel_def)
  have "(\<Sum>t<n. int (takes_done (cs t))) \<le> total n snd (holds (sem_gate x n D) a)"
    unfolding total_def holds_def using sem_caller_bounds(1) [OF c] by (intro sum_mono) simp
  moreover have "total n fst (holds (sem_gate x n D) a) \<le> (\<Sum>t<n. int (posts_begun (cs t)))"
    unfolding total_def holds_def using sem_caller_bounds(2) [OF c] by (intro sum_mono) simp
  ultimately show ?thesis using a(1,2) by (simp add: sem_room_def Let_def)
qed

text \<open>A system of one thread, which has posted once.\<close>

definition sem_start0 :: "(nat \<times> nat, sem_op, int) callers" where
  "sem_start0 = ((\<lambda>_. Away (0, 0)), zero_state)"

lemma sem_start0: "sem_start x 0 sem_start0"
  by (simp add: sem_start_def sem_start0_def)

lemma sem_posted:
  "creach_in (sem_in_range 0) port0 (sem_rules 1 {None}) (sem_prog 0) sem_code sem_start0
     ((\<lambda>_. Away (0, 0))(0 := Away (1, 0)), upd_sem 0 (\<lambda>v. v\<lparr>sem_value := 1\<rparr>) zero_state)"
proof -
  let ?R = "creach_in (sem_in_range 0) port0 (sem_rules 1 {None}) (sem_prog 0) sem_code sem_start0"
  let ?s = "upd_sem 0 (\<lambda>v. v\<lparr>sem_value := 1\<rparr>) zero_state"
  let ?c = "\<lambda>p. (\<lambda>_. Away (0, 0))(0 := Calling (0, 0) Post p)"
  have r: "sem_in_range 0 zero_state" "sem_in_range 0 ?s" by (simp_all add: sem_in_range_def INT_MAX_def)
  have "cstep port0 (sem_rules 1 {None}) (sem_prog 0) sem_code sem_start0 (?c (sem_post 0), zero_state)"
    using cstep.call [of "\<lambda>_. Away (0, 0)" 0 "(0, 0)" "sem_rules 1 {None}" Post port0 "sem_prog 0" sem_code zero_state]
    by (simp add: sem_start0_def)
  from creach_in.step [OF creach_in.init _ this] r have 1: "?R (?c (sem_post 0), zero_state)"
    by (simp add: sem_start0_def)
  have "pstep port0 (sem_post 0) zero_state (Return 0) ?s"
    by (simp add: sem_post_def pstep_spin_section post_section_def pthread_spin_unlock_def fun_upd_idem)
  from cstep.run [of "?c (sem_post 0)" 0 "(0, 0)" Post, OF _ this, of "sem_rules 1 {None}" "sem_prog 0" sem_code]
  have "cstep port0 (sem_rules 1 {None}) (sem_prog 0) sem_code (?c (sem_post 0), zero_state) (?c (Return 0), ?s)"
    by simp
  from creach_in.step [OF 1 _ this] r have 2: "?R (?c (Return 0), ?s)" by simp
  from cstep.return [of "?c (Return 0)" 0 "(0, 0)" Post 0 port0 "sem_rules 1 {None}" "sem_prog 0" sem_code ?s]
  have "cstep port0 (sem_rules 1 {None}) (sem_prog 0) sem_code (?c (Return 0), ?s)
      ((\<lambda>_. Away (0, 0))(0 := Away (1, 0)), ?s)" by (simp add: worth_def)
  from creach_in.step [OF 2 _ this] r show ?thesis by simp
qed

theorem sem_units_bounded_witness:
  "0 \<le> sem_value (sems (upd_sem 0 (\<lambda>v. v\<lparr>sem_value := 1\<rparr>) zero_state) 0) \<and>
   sem_value (sems (upd_sem 0 (\<lambda>v. v\<lparr>sem_value := 1\<rparr>) zero_state) 0) +
     (\<Sum>t<1. int (takes_done (((\<lambda>_::nat. Away (0, 0))(0 := Away (1, 0))) t))) \<le>
   0 + (\<Sum>t<1. int (posts_begun (((\<lambda>_::nat. Away (0, 0))(0 := Away (1, 0))) t)))"
  by (rule sem_units_bounded [OF _ _ sem_start0 sem_posted]) simp_all

text \<open>
  C6: Posts are not lost, as long as nobody waits with a deadline and no step is taken from a state in which
  the value, an \<^verbatim>\<open>int\<close>, has reached \<^verbatim>\<open>INT_MAX\<close>: if no thread can go on, the value is
  exactly the initial value plus all posts less all completed waits, and threads are blocked only if
  it is 0.  So a waiter is left blocked only if every unit has been given to a wait that has returned.
\<close>

theorem sem_posts_not_lost:
  assumes "mach_ports E" and "clock_ok E" and "sem_start x v c"
    and "creach_in (sem_in_range x) E (sem_rules n {None}) (sem_prog x) sem_code c (cs, s)" and "\<And>t. \<not> can_go E (cs t) s"
  shows "sem_value (sems s x) = v + (\<Sum>t<n. int (posts_begun (cs t))) - (\<Sum>t<n. int (takes_done (cs t))) \<and>
    (sem_value (sems s x) > 0 \<longrightarrow> (\<forall>t. \<exists>h. cs t = Away h))"
proof -
  obtain a where inv: "gate_inv (sem_gate x n {None}) a" and a: "sem_room x n {None} v a"
    "sem_value (sems s x) = res a" and rel: "callers_rel (sem_gate x n {None}) (sem_impl x) a (cs, s)"
    using sem_creach [OF assms(1-4)] by blast
  have v: "v \<ge> 0" using assms(3) by (simp add: sem_start_def)
  have un: "deadline (sem_gate x n {None}) o1 = None" if "allowed (sem_gate x n {None}) h o1" for h o1
    using that by (cases o1) auto
  have still: "(\<exists>h. stages a t = Resting h) \<or> (\<exists>h o1. stages a t = Blocking h o1 \<and> in_line (que a) t)" for t
    by (rule gate_live.standstill [OF sem_gate_live [OF assms(1,2) v] rel inv]) (use assms(5) un in auto)
  have c: "caller_rel (sem_gate x n {None}) (sem_impl x) t (stages a t) (res a) (que a) s (cs t)" for t
    using rel by (simp add: callers_rel_def)
  have "(\<exists>h. stages a t = Resting h) \<or>
      (\<exists>h ts. stages a t = Blocking h (Wait ts) \<and> t \<in> set (que a (Sem_queue x)))" for t
  proof -
    have "\<exists>ts. o1 = Wait ts \<and> t \<in> set (que a (Sem_queue x))"
      if "stages a t = Blocking h o1" "in_line (que a) t" for h o1
    proof -
      from that(2) obtain l where l: "t \<in> set (que a l)" by (auto simp: in_line_def)
      with lines_okD(2) [OF gate_invD(2) [OF inv] l] that(1) show ?thesis by (cases o1) auto
    qed
    with still [of t] show ?thesis by blast
  qed
  note st = this
  have h: "int (takes_done (cs t)) = int (snd (holds (sem_gate x n {None}) a t))"
    "int (posts_begun (cs t)) = int (fst (holds (sem_gate x n {None}) a t))" for t
    using st [of t] c [of t] by (auto simp: holds_def in_line_def)
  have "total n snd (holds (sem_gate x n {None}) a) = (\<Sum>t<n. int (takes_done (cs t)))"
    "total n fst (holds (sem_gate x n {None}) a) = (\<Sum>t<n. int (posts_begun (cs t)))"
    unfolding total_def h by simp_all
  moreover have "\<exists>h. cs t = Away h" if "res a > 0" for t
    using st [of t] c [of t] a(1) that by (auto simp: sem_room_def)
  ultimately show ?thesis using a by (simp add: sem_room_def Let_def)
qed

theorem sem_posts_not_lost_witness:
  "sem_value (sems (upd_sem 0 (\<lambda>v. v\<lparr>sem_value := 1\<rparr>) zero_state) 0) =
     0 + (\<Sum>t<1. int (posts_begun (((\<lambda>_::nat. Away (0, 0))(0 := Away (1, 0))) t))) -
     (\<Sum>t<1. int (takes_done (((\<lambda>_::nat. Away (0, 0))(0 := Away (1, 0))) t))) \<and>
   (\<forall>t. \<exists>h. ((\<lambda>_::nat. Away (0::nat, 0::nat) :: (nat \<times> nat, sem_op, int) caller)(0 := Away (1, 0))) t = Away h)"
  using sem_posts_not_lost [OF mach_ports_port_env clock_ok_port_env sem_start0 sem_posted] by simp

text \<open>
  C12: As long as no step is taken from a state in which the value has reached \<^verbatim>\<open>INT_MAX\<close>, no operation on a
  semaphore fails an assertion, overflows the value or otherwise crashes, in any interleaving: no thread
  is queued twice, taken off a queue twice or sent a second wakeup message, and a positive value
  never meets a waiter.
\<close>

theorem sem_no_crash:
  assumes "mach_ports E" and "clock_ok E" and "sem_start x v c"
    and "creach_in (sem_in_range x) E (sem_rules n D) (sem_prog x) sem_code c (cs, s)"
  shows "cs t \<noteq> Calling h o1 (Crash f)"
proof -
  obtain a where "callers_rel (sem_gate x n D) (sem_impl x) a (cs, s)" using sem_creach [OF assms] by blast
  moreover have "v \<ge> 0" using assms(3) by (simp add: sem_start_def)
  ultimately show ?thesis using gate_impl.caller_no_crash [OF sem_gate_impl [OF assms(1,2)]] by blast
qed

theorem sem_no_crash_witness:
  "((\<lambda>_::nat. Away (0::nat, 0::nat) :: (nat \<times> nat, sem_op, int) caller)(0 := Away (1, 0))) 0 \<noteq>
     Calling (0, 0) Post (Crash Assert_failed)"
  by (rule sem_no_crash [OF mach_ports_port_env clock_ok_port_env sem_start0 sem_posted])

end
