(* ===== verification/Rwlock.thy ===== *)
theory Rwlock
  imports Mutex
begin

text \<open>
  Read-write locks (\<^verbatim>\<open>sysdeps/generic/pt-rwlock-*.c\<close>).  \<^verbatim>\<open>__held\<close> set and \<^verbatim>\<open>readers\<close> positive: held by
  that many readers; \<^verbatim>\<open>__held\<close> set and \<^verbatim>\<open>readers\<close> 0: held by a writer.  An unlock that frees the lock
  passes it to the first waiting writer or else to all waiting readers; it wakes the readers one by one
  with the spin lock held.
\<close>

section \<open>Initialisation\<close>

definition rwlock_initializer :: "rwaddr \<Rightarrow> pt_state \<Rightarrow> pt_state" where
  "rwlock_initializer r s =
     s\<lparr>spin := (spin s)(R_held r := 0, R_lock r := 0),
       cell := (cell s)(Reader_queue r := None, Writer_queue r := None),
       rwlocks := (rwlocks s)(r := \<lparr>rw_readers = 0, rw_attr = None\<rparr>)\<rparr>"

text \<open>As for mutexes, the misplaced parenthesis in the \<^verbatim>\<open>memcmp\<close> leaves only the test for null.\<close>

definition pthread_rwlock_init :: "rwaddr \<Rightarrow> pthread_rwlockattr option \<Rightarrow> rc pt" where
  "pthread_rwlock_init r attr =
     andthen (modify (rwlock_initializer r)) (\<lambda>_.
       case attr of
         None \<Rightarrow> Return OK
       | Some a \<Rightarrow>
           andthen (syscall Malloc) (\<lambda>(_, p, _).
             if p = 0 then Return ENOMEM
             else andthen (modify (upd_rwlock r (\<lambda>x. x\<lparr>rw_attr := Some a\<rparr>))) (\<lambda>_. Return OK)))"

definition pthread_rwlock_destroy :: "rwaddr \<Rightarrow> rc pt" where
  "pthread_rwlock_destroy r = Return OK"

section \<open>Locking\<close>

text \<open>The assertions of a thread that finds \<^verbatim>\<open>__held\<close> clear.\<close>

definition rw_fresh :: "rwaddr \<Rightarrow> pt_state \<Rightarrow> bool" where
  "rw_fresh r s \<longleftrightarrow>
     cell s (Reader_queue r) = None \<and> cell s (Writer_queue r) = None \<and>
     rw_readers (rwlocks s r) = 0"

text \<open>
  The first critical section of a lock for reading: \<open>Some\<close> code is the function's return, \<open>None\<close>
  means that the caller blocks.  The return of \<^verbatim>\<open>EINVAL\<close> leaves the spin lock held.
\<close>

definition rdlock_enter ::
    "rwaddr \<Rightarrow> thr \<Rightarrow> timespec option \<Rightarrow> pt_state \<Rightarrow> (fault + rc option) \<times> pt_state" where
  "rdlock_enter r self abstime s =
     (case pthread_spin_trylock (R_held r) s of
        (e, s1) \<Rightarrow>
          if e = OK then
            (if \<not> rw_fresh r s1 then (Inl Assert_failed, s1)
             else (Inr (Some OK),
                   pthread_spin_unlock (R_lock r) (upd_rwlock r (\<lambda>x. x\<lparr>rw_readers := 1\<rparr>) s1)))
          else if rw_readers (rwlocks s1 r) > 0 then
            (if cell s1 (Reader_queue r) \<noteq> None then (Inl Assert_failed, s1)
             else (Inr (Some OK),
                   pthread_spin_unlock (R_lock r)
                     (upd_rwlock r (\<lambda>x. x\<lparr>rw_readers := rw_readers x + 1\<rparr>) s1)))
          else if rw_readers (rwlocks s1 r) \<noteq> 0 then (Inl Assert_failed, s1)
          else if bad_nsec abstime then (Inr (Some EINVAL), s1)
          else
            (case pthread_enqueue (Reader_queue r) self s1 of
               None \<Rightarrow> (Inl Assert_failed, s1)
             | Some s2 \<Rightarrow> (Inr None, pthread_spin_unlock (R_lock r) s2)))"

definition rdlock_end :: "rwaddr \<Rightarrow> rc \<Rightarrow> rc pt" where
  "rdlock_end r err =
     (if err \<noteq> OK then andthen (assert_p (err = ETIMEDOUT)) (\<lambda>_. Return err)
      else
        andthen (gets (\<lambda>s. rw_readers (rwlocks s r))) (\<lambda>n.
        andthen (assert_p (n > 0)) (\<lambda>_. Return OK)))"

definition rdlock_woken :: "rwaddr \<Rightarrow> thr \<Rightarrow> rc \<Rightarrow> rc pt" where
  "rdlock_woken r self err =
     andthen (spin_section (R_lock r) (leave_queue (R_lock r) self err)) (\<lambda>drain.
       if drain then andthen (pthread_block self) (\<lambda>_. rdlock_end r err)
       else rdlock_end r err)"

definition pthread_rwlock_timedrdlock_internal ::
    "rwaddr \<Rightarrow> thr \<Rightarrow> timespec option \<Rightarrow> rc pt" where
  "pthread_rwlock_timedrdlock_internal r self abstime =
     andthen (spin_section (R_lock r) (rdlock_enter r self abstime)) (\<lambda>x.
       case x of
         Some err \<Rightarrow> Return err
       | None \<Rightarrow> andthen (block_until self abstime CLOCK_REALTIME) (rdlock_woken r self))"

definition pthread_rwlock_timedrdlock :: "rwaddr \<Rightarrow> thr \<Rightarrow> timespec option \<Rightarrow> rc pt" where
  "pthread_rwlock_timedrdlock r self abstime = pthread_rwlock_timedrdlock_internal r self abstime"

definition pthread_rwlock_rdlock :: "rwaddr \<Rightarrow> thr \<Rightarrow> rc pt" where
  "pthread_rwlock_rdlock r self = pthread_rwlock_timedrdlock_internal r self None"

definition wrlock_enter ::
    "rwaddr \<Rightarrow> thr \<Rightarrow> timespec option \<Rightarrow> pt_state \<Rightarrow> (fault + rc option) \<times> pt_state" where
  "wrlock_enter r self abstime s =
     (case pthread_spin_trylock (R_held r) s of
        (e, s1) \<Rightarrow>
          if e = OK then
            (if \<not> rw_fresh r s1 then (Inl Assert_failed, s1)
             else (Inr (Some OK), pthread_spin_unlock (R_lock r) s1))
          else if bad_nsec abstime then (Inr (Some EINVAL), s1)
          else
            (case pthread_enqueue (Writer_queue r) self s1 of
               None \<Rightarrow> (Inl Assert_failed, s1)
             | Some s2 \<Rightarrow> (Inr None, pthread_spin_unlock (R_lock r) s2)))"

definition wrlock_end :: "rwaddr \<Rightarrow> rc \<Rightarrow> rc pt" where
  "wrlock_end r err =
     (if err \<noteq> OK then andthen (assert_p (err = ETIMEDOUT)) (\<lambda>_. Return err)
      else
        andthen (gets (\<lambda>s. rw_readers (rwlocks s r))) (\<lambda>n.
        andthen (assert_p (n = 0)) (\<lambda>_. Return OK)))"

definition wrlock_woken :: "rwaddr \<Rightarrow> thr \<Rightarrow> rc \<Rightarrow> rc pt" where
  "wrlock_woken r self err =
     andthen (spin_section (R_lock r) (leave_queue (R_lock r) self err)) (\<lambda>drain.
       if drain then andthen (pthread_block self) (\<lambda>_. wrlock_end r err)
       else wrlock_end r err)"

definition pthread_rwlock_timedwrlock_internal ::
    "rwaddr \<Rightarrow> thr \<Rightarrow> timespec option \<Rightarrow> rc pt" where
  "pthread_rwlock_timedwrlock_internal r self abstime =
     andthen (spin_section (R_lock r) (wrlock_enter r self abstime)) (\<lambda>x.
       case x of
         Some err \<Rightarrow> Return err
       | None \<Rightarrow> andthen (block_until self abstime CLOCK_REALTIME) (wrlock_woken r self))"

definition pthread_rwlock_timedwrlock :: "rwaddr \<Rightarrow> thr \<Rightarrow> timespec option \<Rightarrow> rc pt" where
  "pthread_rwlock_timedwrlock r self abstime = pthread_rwlock_timedwrlock_internal r self abstime"

definition pthread_rwlock_wrlock :: "rwaddr \<Rightarrow> thr \<Rightarrow> rc pt" where
  "pthread_rwlock_wrlock r self = pthread_rwlock_timedwrlock_internal r self None"

definition tryrdlock_section :: "rwaddr \<Rightarrow> pt_state \<Rightarrow> (fault + rc) \<times> pt_state" where
  "tryrdlock_section r s =
     (case pthread_spin_trylock (R_held r) s of
        (e, s1) \<Rightarrow>
          if e = OK then
            (if \<not> rw_fresh r s1 then (Inl Assert_failed, s1)
             else (Inr OK,
                   pthread_spin_unlock (R_lock r) (upd_rwlock r (\<lambda>x. x\<lparr>rw_readers := 1\<rparr>) s1)))
          else if rw_readers (rwlocks s1 r) > 0 then
            (if cell s1 (Reader_queue r) \<noteq> None then (Inl Assert_failed, s1)
             else (Inr OK,
                   pthread_spin_unlock (R_lock r)
                     (upd_rwlock r (\<lambda>x. x\<lparr>rw_readers := rw_readers x + 1\<rparr>) s1)))
          else (Inr EBUSY, pthread_spin_unlock (R_lock r) s1))"

definition pthread_rwlock_tryrdlock :: "rwaddr \<Rightarrow> rc pt" where
  "pthread_rwlock_tryrdlock r = spin_section (R_lock r) (tryrdlock_section r)"

definition trywrlock_section :: "rwaddr \<Rightarrow> pt_state \<Rightarrow> (fault + rc) \<times> pt_state" where
  "trywrlock_section r s =
     (case pthread_spin_trylock (R_held r) s of
        (e, s1) \<Rightarrow>
          if e = OK then
            (if \<not> rw_fresh r s1 then (Inl Assert_failed, s1)
             else (Inr OK, pthread_spin_unlock (R_lock r) s1))
          else (Inr EBUSY, pthread_spin_unlock (R_lock r) s1))"

definition pthread_rwlock_trywrlock :: "rwaddr \<Rightarrow> rc pt" where
  "pthread_rwlock_trywrlock r = spin_section (R_lock r) (trywrlock_section r)"

section \<open>Unlocking\<close>

text \<open>How the first part of an unlock ends: done, one writer to wake, or the readers to wake.\<close>

datatype rw_wakeup = Wake_none | Wake_writer thr | Wake_readers

definition rw_unlock_section :: "rwaddr \<Rightarrow> pt_state \<Rightarrow> (fault + rw_wakeup) \<times> pt_state" where
  "rw_unlock_section r s =
     (case pthread_spin_trylock (R_held r) s of
        (e, s1) \<Rightarrow>
          if e \<noteq> EBUSY then (Inl Assert_failed, s1)
          else if rw_readers (rwlocks s1 r) > 1 then
            (Inr Wake_none,
             pthread_spin_unlock (R_lock r)
               (upd_rwlock r (\<lambda>x. x\<lparr>rw_readers := rw_readers x - 1\<rparr>) s1))
          else
            (let s2 = (if rw_readers (rwlocks s1 r) = 1
                       then upd_rwlock r (\<lambda>x. x\<lparr>rw_readers := 0\<rparr>) s1 else s1)
             in case cell s2 (Writer_queue r) of
                  Some wakeup \<Rightarrow>
                    (case pthread_dequeue wakeup s2 of
                       None \<Rightarrow> (Inl Assert_failed, s2)
                     | Some s3 \<Rightarrow> (Inr (Wake_writer wakeup), pthread_spin_unlock (R_lock r) s3))
                | None \<Rightarrow>
                    if cell s2 (Reader_queue r) \<noteq> None then (Inr Wake_readers, s2)
                    else (Inr Wake_none,
                          pthread_spin_unlock (R_lock r) (pthread_spin_unlock (R_held r) s2))))"

text \<open>One round of the loop over the waiting readers.\<close>

definition wake_reader :: "rwaddr \<Rightarrow> thr \<Rightarrow> unit pt" where
  "wake_reader r t =
     andthen (modify (upd_rwlock r (\<lambda>x. x\<lparr>rw_readers := rw_readers x + 1\<rparr>)))
       (\<lambda>_. pthread_wakeup t)"

text \<open>The loop is bounded by \<open>n\<close> rounds; \<open>n\<close> has to be at least the number of waiting readers.\<close>

definition pthread_rwlock_unlock :: "nat \<Rightarrow> rwaddr \<Rightarrow> rc pt" where
  "pthread_rwlock_unlock n r =
     andthen (spin_section (R_lock r) (rw_unlock_section r)) (\<lambda>w.
       case w of
         Wake_none \<Rightarrow> Return OK
       | Wake_writer t \<Rightarrow> andthen (pthread_wakeup t) (\<lambda>_. Return OK)
       | Wake_readers \<Rightarrow>
           andthen (gets (\<lambda>s. cell s (Reader_queue r))) (\<lambda>q.
           andthen (pthread_dequeuing_iterate n q (wake_reader r)) (\<lambda>_.
           andthen (modify (\<lambda>s. pthread_spin_unlock (R_lock r)
                              (s\<lparr>cell := (cell s)(Reader_queue r := None)\<rparr>)))
             (\<lambda>_. Return OK))))"

section \<open>The abstract lock\<close>

datatype lock_mode = Unlocked | Reading nat | Writing

definition rw_mode :: "pt_state \<Rightarrow> rwaddr \<Rightarrow> lock_mode" where
  "rw_mode s r =
     (if spin s (R_held r) = 0 then Unlocked
      else if rw_readers (rwlocks s r) > 0 then Reading (nat (rw_readers (rwlocks s r)))
      else Writing)"

definition rw_inv :: "pt_state \<Rightarrow> queue_view \<Rightarrow> rwaddr \<Rightarrow> bool" where
  "rw_inv s Q r \<longleftrightarrow>
     queues s Q \<and> spin s (R_lock r) = 0 \<and> spin s (R_held r) \<in> {0, 1} \<and>
     rw_readers (rwlocks s r) \<ge> 0 \<and>
     (spin s (R_held r) = 0 \<longrightarrow>
        rw_readers (rwlocks s r) = 0 \<and> Q (Reader_queue r) = [] \<and> Q (Writer_queue r) = []) \<and>
     (rw_readers (rwlocks s r) > 0 \<longrightarrow> Q (Reader_queue r) = [])"

lemma rw_inv_first:
  "rw_inv s Q r \<Longrightarrow> cell s (Reader_queue r) = (case Q (Reader_queue r) of [] \<Rightarrow> None | t # _ \<Rightarrow> Some t)"
  "rw_inv s Q r \<Longrightarrow> cell s (Writer_queue r) = (case Q (Writer_queue r) of [] \<Rightarrow> None | t # _ \<Rightarrow> Some t)"
  by (simp_all add: rw_inv_def wq.first_view)

text \<open>What an unlock makes of the mode and the queues.\<close>

definition unlock_mode :: "lock_mode \<Rightarrow> thr list \<Rightarrow> thr list \<Rightarrow> lock_mode" where
  "unlock_mode md rs ws =
     (case md of
        Reading (Suc (Suc n)) \<Rightarrow> Reading (Suc n)
      | _ \<Rightarrow> if ws \<noteq> [] then Writing else if rs \<noteq> [] then Reading (length rs) else Unlocked)"

text \<open>The threads that an unlock wakes, in order.\<close>

definition unlock_wakes :: "lock_mode \<Rightarrow> thr list \<Rightarrow> thr list \<Rightarrow> thr list" where
  "unlock_wakes md rs ws =
     (case md of
        Reading (Suc (Suc n)) \<Rightarrow> []
      | _ \<Rightarrow> if ws \<noteq> [] then [hd ws] else rs)"

section \<open>Locking meets the abstract lock\<close>

lemmas rw_sections =
  rdlock_enter_def wrlock_enter_def tryrdlock_section_def trywrlock_section_def rw_fresh_def
  pthread_spin_trylock_def pthread_spin_unlock_def

text \<open>Joining a queue of the lock in the first critical section.\<close>

lemma rw_enqueue:
  assumes "rw_inv s Q r" and "spin s (R_held r) = 1" and "\<not> queued s t" and "is_head q"
  shows "\<exists>c v. pthread_enqueue q t (upd_spin (R_lock r) 1 s) =
             Some (upd_spin (R_lock r) 1 s\<lparr>cell := c, prevp := v\<rparr>) \<and>
           pthread_spin_unlock (R_lock r) (upd_spin (R_lock r) 1 s\<lparr>cell := c, prevp := v\<rparr>) =
             s\<lparr>cell := c, prevp := v\<rparr> \<and>
           linked c v (Q(q := t # Q q))"
proof -
  let ?s = "upd_spin (R_lock r) 1 s"
  have sp: "spin s (R_lock r) = 0" and q: "queues ?s Q" "\<not> queued ?s t"
    using assms by (simp_all add: rw_inv_def)
  from wq.enq_ok [OF q(1) assms(4) q(2)] obtain s0
    where s0: "pthread_enqueue q t ?s = Some s0" "queues s0 (Q(q := t # Q q))" by auto
  from pthread_enqueue_frame [OF s0(1)] obtain c v where s0': "s0 = ?s\<lparr>cell := c, prevp := v\<rparr>" by auto
  with s0 sp show ?thesis
    by (auto simp: pthread_spin_unlock_def intro!: exI [of _ c] exI [of _ v] pt_state.equality)
qed

lemma run_rdlock_free:
  assumes "rw_inv s Q r" and "spin s (R_held r) = 0"
  shows "run (pthread_rwlock_timedrdlock_internal r t ts) h s =
    Done OK (upd_rwlock r (\<lambda>x. x\<lparr>rw_readers := 1\<rparr>) (upd_spin (R_held r) 1 s))"
  using assms rw_inv_first [OF assms(1)]
  by (auto simp: pthread_rwlock_timedrdlock_internal_def run_simps rw_sections rw_inv_def
      intro!: pt_state.equality)

lemma run_rdlock_shared:
  assumes "rw_inv s Q r" and "spin s (R_held r) = 1" and "rw_readers (rwlocks s r) > 0"
  shows "run (pthread_rwlock_timedrdlock_internal r t ts) h s =
    Done OK (upd_rwlock r (\<lambda>x. x\<lparr>rw_readers := rw_readers x + 1\<rparr>) s)"
  using assms rw_inv_first [OF assms(1)]
  by (auto simp: pthread_rwlock_timedrdlock_internal_def run_simps rw_sections rw_inv_def
      intro!: pt_state.equality)

lemma run_rdlock_busy:
  assumes "rw_inv s Q r" and "spin s (R_held r) = 1" and "rw_readers (rwlocks s r) = 0"
    and "\<not> queued s t" and "mach_ports h" and "kmsgs s t = 0"
  shows "\<exists>c v p. run (pthread_rwlock_rdlock r t) h s = Waiting p (s\<lparr>cell := c, prevp := v\<rparr>) \<and>
           linked c v (Q(Reader_queue r := t # Q (Reader_queue r)))"
proof -
  let ?s = "upd_spin (R_lock r) 1 s"
  from rw_enqueue [OF assms(1,2,4), of "Reader_queue r"] obtain c v
    where cv: "pthread_enqueue (Reader_queue r) t ?s = Some (?s\<lparr>cell := c, prevp := v\<rparr>)"
      "pthread_spin_unlock (R_lock r) (?s\<lparr>cell := c, prevp := v\<rparr>) = s\<lparr>cell := c, prevp := v\<rparr>"
      "linked c v (Q(Reader_queue r := t # Q (Reader_queue r)))" by auto
  have held: "spin ?s (R_held r) = 1" using assms(2) by simp
  have "rdlock_enter r t None ?s = (Inr None, s\<lparr>cell := c, prevp := v\<rparr>)"
    using cv(1,2) held upd_spin_same [OF held] assms(3)
    by (simp add: rdlock_enter_def pthread_spin_trylock_def)
  then have "\<exists>p. run (pthread_rwlock_rdlock r t) h s = Waiting p (s\<lparr>cell := c, prevp := v\<rparr>)"
    using assms(1,6)
    by (simp add: pthread_rwlock_rdlock_def pthread_rwlock_timedrdlock_internal_def run_simps
        rw_inv_def block_until_def run_block [OF assms(5)])
  with cv(3) show ?thesis by blast
qed

text \<open>
  Locking for reading: a free lock goes to one reader, a lock held by readers to one reader
  more, both at once; while a writer holds it the caller blocks as the first of the waiting readers.
  The invariant of the lock is kept, and no assertion fails.
\<close>

theorem rdlock_spec:
  assumes "rw_inv s Q r" and "mach_ports h" and "\<not> queued s t" and "kmsgs s t = 0"
  shows "\<exists>s1 Q1. rw_inv s1 Q1 r \<and>
    (case rw_mode s r of
       Unlocked \<Rightarrow> run (pthread_rwlock_rdlock r t) h s = Done OK s1 \<and> rw_mode s1 r = Reading 1 \<and> Q1 = Q
     | Reading n \<Rightarrow>
         run (pthread_rwlock_rdlock r t) h s = Done OK s1 \<and> rw_mode s1 r = Reading (Suc n) \<and> Q1 = Q
     | Writing \<Rightarrow>
         (\<exists>p. run (pthread_rwlock_rdlock r t) h s = Waiting p s1) \<and> rw_mode s1 r = Writing \<and>
         Q1 = Q(Reader_queue r := t # Q (Reader_queue r)))"
proof -
  consider (free) "spin s (R_held r) = 0"
    | (shared) "spin s (R_held r) = 1" "rw_readers (rwlocks s r) > 0"
    | (busy) "spin s (R_held r) = 1" "rw_readers (rwlocks s r) = 0"
    using assms(1) unfolding rw_inv_def by fastforce
  then show ?thesis
  proof cases
    case free
    with run_rdlock_free [OF assms(1) free, of t None h] assms(1) show ?thesis
      by (intro exI [of _ "upd_rwlock r (\<lambda>x. x\<lparr>rw_readers := 1\<rparr>) (upd_spin (R_held r) 1 s)"]
          exI [of _ Q]) (auto simp: pthread_rwlock_rdlock_def rw_mode_def rw_inv_def)
  next
    case shared
    with run_rdlock_shared [OF assms(1) shared, of t None h] assms(1) show ?thesis
      by (intro exI [of _ "upd_rwlock r (\<lambda>x. x\<lparr>rw_readers := rw_readers x + 1\<rparr>) s"] exI [of _ Q])
        (auto simp: pthread_rwlock_rdlock_def rw_mode_def rw_inv_def)
  next
    case busy
    from run_rdlock_busy [OF assms(1) busy assms(3,2,4)] obtain c v p
      where "run (pthread_rwlock_rdlock r t) h s = Waiting p (s\<lparr>cell := c, prevp := v\<rparr>)"
        "linked c v (Q(Reader_queue r := t # Q (Reader_queue r)))" by blast
    with busy assms(1) show ?thesis
      by (intro exI [of _ "s\<lparr>cell := c, prevp := v\<rparr>"]
          exI [of _ "Q(Reader_queue r := t # Q (Reader_queue r))"])
        (auto simp: rw_mode_def rw_inv_def)
  qed
qed

lemma rw_inv_zero: "rw_inv zero_state (\<lambda>_. []) r"
  by (simp add: rw_inv_def)

theorem rdlock_spec_witness:
  "\<exists>s1 Q1. rw_inv s1 Q1 Threads_lock \<and>
    (case rw_mode zero_state Threads_lock of
       Unlocked \<Rightarrow> run (pthread_rwlock_rdlock Threads_lock 1) port0 zero_state = Done OK s1 \<and>
         rw_mode s1 Threads_lock = Reading 1 \<and> Q1 = (\<lambda>_. [])
     | Reading n \<Rightarrow> run (pthread_rwlock_rdlock Threads_lock 1) port0 zero_state = Done OK s1 \<and>
         rw_mode s1 Threads_lock = Reading (Suc n) \<and> Q1 = (\<lambda>_. [])
     | Writing \<Rightarrow> (\<exists>p. run (pthread_rwlock_rdlock Threads_lock 1) port0 zero_state = Waiting p s1) \<and>
         rw_mode s1 Threads_lock = Writing \<and>
         Q1 = (\<lambda>_. [])(Reader_queue Threads_lock := 1 # (\<lambda>_. []) (Reader_queue Threads_lock)))"
  by (rule rdlock_spec [OF rw_inv_zero]) simp_all

lemma run_wrlock_free:
  assumes "rw_inv s Q r" and "spin s (R_held r) = 0"
  shows "run (pthread_rwlock_timedwrlock_internal r t ts) h s = Done OK (upd_spin (R_held r) 1 s)"
  using assms rw_inv_first [OF assms(1)]
  by (auto simp: pthread_rwlock_timedwrlock_internal_def run_simps rw_sections rw_inv_def
      intro!: pt_state.equality)

lemma run_wrlock_busy:
  assumes "rw_inv s Q r" and "spin s (R_held r) = 1"
    and "\<not> queued s t" and "mach_ports h" and "kmsgs s t = 0"
  shows "\<exists>c v p. run (pthread_rwlock_wrlock r t) h s = Waiting p (s\<lparr>cell := c, prevp := v\<rparr>) \<and>
           linked c v (Q(Writer_queue r := t # Q (Writer_queue r)))"
proof -
  let ?s = "upd_spin (R_lock r) 1 s"
  from rw_enqueue [OF assms(1,2,3), of "Writer_queue r"] obtain c v
    where cv: "pthread_enqueue (Writer_queue r) t ?s = Some (?s\<lparr>cell := c, prevp := v\<rparr>)"
      "pthread_spin_unlock (R_lock r) (?s\<lparr>cell := c, prevp := v\<rparr>) = s\<lparr>cell := c, prevp := v\<rparr>"
      "linked c v (Q(Writer_queue r := t # Q (Writer_queue r)))" by auto
  have held: "spin ?s (R_held r) = 1" using assms(2) by simp
  have "wrlock_enter r t None ?s = (Inr None, s\<lparr>cell := c, prevp := v\<rparr>)"
    using cv(1,2) held upd_spin_same [OF held]
    by (simp add: wrlock_enter_def pthread_spin_trylock_def)
  then have "\<exists>p. run (pthread_rwlock_wrlock r t) h s = Waiting p (s\<lparr>cell := c, prevp := v\<rparr>)"
    using assms(1,5)
    by (simp add: pthread_rwlock_wrlock_def pthread_rwlock_timedwrlock_internal_def run_simps
        rw_inv_def block_until_def run_block [OF assms(4)])
  with cv(3) show ?thesis by blast
qed

text \<open>
  Locking for writing: a free lock goes to the writer at once; otherwise the caller blocks as the
  first of the waiting writers and neither the mode of the lock nor the waiting readers change.
\<close>

theorem wrlock_spec:
  assumes "rw_inv s Q r" and "mach_ports h" and "\<not> queued s t" and "kmsgs s t = 0"
  shows "\<exists>s1 Q1. rw_inv s1 Q1 r \<and>
    (if rw_mode s r = Unlocked
     then run (pthread_rwlock_wrlock r t) h s = Done OK s1 \<and> rw_mode s1 r = Writing \<and> Q1 = Q
     else (\<exists>p. run (pthread_rwlock_wrlock r t) h s = Waiting p s1) \<and> rw_mode s1 r = rw_mode s r \<and>
          Q1 = Q(Writer_queue r := t # Q (Writer_queue r)))"
proof (cases "spin s (R_held r) = 0")
  case True
  with run_wrlock_free [OF assms(1) True, of t None h] assms(1) show ?thesis
    by (intro exI [of _ "upd_spin (R_held r) 1 s"] exI [of _ Q])
      (auto simp: pthread_rwlock_wrlock_def rw_mode_def rw_inv_def)
next
  case False
  with assms(1) have held: "spin s (R_held r) = 1" by (simp add: rw_inv_def)
  from run_wrlock_busy [OF assms(1) held assms(3,2,4)] obtain c v p
    where "run (pthread_rwlock_wrlock r t) h s = Waiting p (s\<lparr>cell := c, prevp := v\<rparr>)"
      "linked c v (Q(Writer_queue r := t # Q (Writer_queue r)))" by blast
  with held assms(1) show ?thesis
    by (intro exI [of _ "s\<lparr>cell := c, prevp := v\<rparr>"]
        exI [of _ "Q(Writer_queue r := t # Q (Writer_queue r))"])
      (auto simp: rw_mode_def rw_inv_def)
qed

theorem wrlock_spec_witness:
  "\<exists>s1 Q1. rw_inv s1 Q1 Threads_lock \<and>
    (if rw_mode zero_state Threads_lock = Unlocked
     then run (pthread_rwlock_wrlock Threads_lock 1) port0 zero_state = Done OK s1 \<and>
          rw_mode s1 Threads_lock = Writing \<and> Q1 = (\<lambda>_. [])
     else (\<exists>p. run (pthread_rwlock_wrlock Threads_lock 1) port0 zero_state = Waiting p s1) \<and>
          rw_mode s1 Threads_lock = rw_mode zero_state Threads_lock \<and>
          Q1 = (\<lambda>_. [])(Writer_queue Threads_lock := 1 # (\<lambda>_. []) (Writer_queue Threads_lock)))"
  by (rule wrlock_spec [OF rw_inv_zero]) simp_all

section \<open>Unlocking meets the abstract lock\<close>

text \<open>The state after waking the readers \<open>ts\<close>.\<close>

definition readers_woken :: "rwaddr \<Rightarrow> thr list \<Rightarrow> pt_state \<Rightarrow> pt_state" where
  "readers_woken r ts s =
     s\<lparr>prevp := (\<lambda>t. if t \<in> set ts then None else prevp s t),
       rwlocks := (rwlocks s)(r := (rwlocks s r)\<lparr>rw_readers := rw_readers (rwlocks s r) + int (length ts)\<rparr>),
       kmsgs := (\<lambda>t. if t \<in> set ts then 1 else kmsgs s t)\<rparr>"

definition reader_woken :: "rwaddr \<Rightarrow> thr \<Rightarrow> pt_state \<Rightarrow> pt_state" where
  "reader_woken r t s =
     s\<lparr>rwlocks := (rwlocks s)(r := (rwlocks s r)\<lparr>rw_readers := rw_readers (rwlocks s r) + 1\<rparr>),
       kmsgs := (kmsgs s)(t := 1)\<rparr>"

lemma run_wake_reader:
  "mach_ports h \<Longrightarrow> kmsgs s t = 0 \<Longrightarrow> run (wake_reader r t) h s = Done () (reader_woken r t s)"
  by (simp add: wake_reader_def run_simps run_wakeup reader_woken_def)

lemma fold_reader_woken:
  "fold (\<lambda>t s. reader_woken r t (clear_prevp t s)) ts s = readers_woken r ts s"
proof (induction ts arbitrary: s)
  case Nil
  then show ?case by (auto simp: readers_woken_def intro!: pt_state.equality)
next
  case (Cons t ts)
  then show ?case
    by (auto simp: readers_woken_def reader_woken_def clear_prevp_def intro!: pt_state.equality)
qed

lemma run_wake_readers:
  assumes "mach_ports h" and "queues s Q" and "length (Q (Reader_queue r)) \<le> n"
    and "\<And>t. t \<in> set (Q (Reader_queue r)) \<Longrightarrow> kmsgs s t = 0"
  shows "run (pthread_dequeuing_iterate n (cell s (Reader_queue r)) (wake_reader r)) h s =
    Done () (readers_woken r (Q (Reader_queue r)) s)"
  unfolding fold_reader_woken [symmetric]
proof (rule run_dequeuing_iterate)
  show "path (cell s) (cell s (Reader_queue r)) (Q (Reader_queue r))"
    using chain_path linkedD(1) [OF assms(2), of "Reader_queue r"] by auto
  show "distinct (Q (Reader_queue r))" using wq.view_distinct [OF assms(2), of "Reader_queue r"] by simp
  show "run (wake_reader r t) h (clear_prevp t s') = Done () (reader_woken r t (clear_prevp t s'))"
    if "kmsgs (clear_prevp t s') t = 0" for t s' using run_wake_reader [OF assms(1) that] .
qed (use assms in \<open>auto simp: reader_woken_def clear_prevp_def\<close>)

lemma run_rw_unlock_more:
  assumes "rw_inv s Q r" and "spin s (R_held r) = 1" and "rw_readers (rwlocks s r) > 1"
  shows "run (pthread_rwlock_unlock n r) h s =
    Done OK (upd_rwlock r (\<lambda>x. x\<lparr>rw_readers := rw_readers x - 1\<rparr>) s)"
  using assms
  by (auto simp: pthread_rwlock_unlock_def run_simps rw_unlock_section_def pthread_spin_trylock_def
      pthread_spin_unlock_def rw_inv_def intro!: pt_state.equality)

text \<open>The last holder leaves: the readers are 0 from now on.\<close>

definition no_readers :: "rwaddr \<Rightarrow> pt_state \<Rightarrow> pt_state" where
  "no_readers r s = upd_rwlock r (\<lambda>x. x\<lparr>rw_readers := 0\<rparr>) s"

lemma no_readers_simps [simp]:
  "cell (no_readers r s) = cell s" "prevp (no_readers r s) = prevp s" "spin (no_readers r s) = spin s"
  "kmsgs (no_readers r s) = kmsgs s" "rw_readers (rwlocks (no_readers r s) r) = 0"
  by (simp_all add: no_readers_def)

lemma rw_unlock_last:
  assumes "spin s (R_held r) = 1" and "rw_readers (rwlocks s r) \<in> {0, 1}"
  shows "rw_unlock_section r (upd_spin (R_lock r) 1 s) =
    (let s2 = no_readers r (upd_spin (R_lock r) 1 s) in
     case cell s (Writer_queue r) of
       Some wakeup \<Rightarrow>
         (case pthread_dequeue wakeup s2 of
            None \<Rightarrow> (Inl Assert_failed, s2)
          | Some s3 \<Rightarrow> (Inr (Wake_writer wakeup), pthread_spin_unlock (R_lock r) s3))
     | None \<Rightarrow>
         if cell s (Reader_queue r) \<noteq> None then (Inr Wake_readers, s2)
         else (Inr Wake_none, pthread_spin_unlock (R_lock r) (pthread_spin_unlock (R_held r) s2)))"
proof -
  let ?s = "upd_spin (R_lock r) 1 s"
  have held: "spin ?s (R_held r) = 1" using assms(1) by simp
  have t: "pthread_spin_trylock (R_held r) ?s = (EBUSY, ?s)"
    using upd_spin_same [OF held] held by (simp add: pthread_spin_trylock_def)
  have c: "cell (no_readers r ?s) = cell s" by simp
  have nr: "(if rw_readers (rwlocks ?s r) = 1 then upd_rwlock r (\<lambda>x. x\<lparr>rw_readers := 0\<rparr>) ?s else ?s) =
      no_readers r ?s"
    using assms(2) by (auto simp: no_readers_def intro!: pt_state.equality)
  show ?thesis
    unfolding rw_unlock_section_def t prod.case Let_def nr c using assms(2) by auto
qed

lemma run_rw_unlock_writer:
  assumes "rw_inv s Q r" and "spin s (R_held r) = 1" and "rw_readers (rwlocks s r) \<in> {0, 1}"
    and "Q (Writer_queue r) = w # ws" and "mach_ports h" and "kmsgs s w = 0"
  shows "\<exists>c v. run (pthread_rwlock_unlock n r) h s =
      Done OK (no_readers r s\<lparr>cell := c, prevp := v, kmsgs := (kmsgs s)(w := 1)\<rparr>) \<and>
    linked c v (Q(Writer_queue r := ws))"
proof -
  let ?s = "no_readers r (upd_spin (R_lock r) 1 s)"
  have q: "queues ?s Q" and sp: "spin s (R_lock r) = 0" using assms(1) by (simp_all add: rw_inv_def)
  have c: "cell s (Writer_queue r) = Some w" using rw_inv_first(2) [OF assms(1)] assms(4) by simp
  from wq.deq_first(2) [OF q, of "Writer_queue r" w ws] assms(4)
  obtain s0 where s0: "pthread_dequeue w ?s = Some s0" "queues s0 (Q(Writer_queue r := ws))" by auto
  from pthread_dequeue_frame [OF s0(1)] obtain c' v where s0': "s0 = ?s\<lparr>cell := c', prevp := v\<rparr>" by auto
  have "run (pthread_rwlock_unlock n r) h s =
      Done OK (no_readers r s\<lparr>cell := c', prevp := v, kmsgs := (kmsgs s)(w := 1)\<rparr>)"
    using sp c s0(1) s0' assms(6) run_wakeup [OF assms(5)] rw_unlock_last [OF assms(2,3)]
    by (auto simp: pthread_rwlock_unlock_def run_simps Let_def pthread_spin_unlock_def
        no_readers_def intro!: pt_state.equality)
  with s0(2) s0' show ?thesis by auto
qed

lemma run_rw_unlock_readers:
  assumes "rw_inv s Q r" and "spin s (R_held r) = 1" and "rw_readers (rwlocks s r) \<in> {0, 1}"
    and "Q (Writer_queue r) = []" and "Q (Reader_queue r) = t # ts" and "mach_ports h"
    and "length (Q (Reader_queue r)) \<le> n"
    and "\<And>t. t \<in> set (Q (Reader_queue r)) \<Longrightarrow> kmsgs s t = 0"
  shows "run (pthread_rwlock_unlock n r) h s =
    Done OK (readers_woken r (Q (Reader_queue r)) (no_readers r s)
               \<lparr>cell := (cell s)(Reader_queue r := None)\<rparr>)"
proof -
  let ?s = "no_readers r (upd_spin (R_lock r) 1 s)"
  have q: "queues ?s Q" and sp: "spin s (R_lock r) = 0" using assms(1) by (simp_all add: rw_inv_def)
  have c: "cell s (Writer_queue r) = None" "cell s (Reader_queue r) = Some t"
    using rw_inv_first [OF assms(1)] assms(4,5) by simp_all
  have "run (pthread_dequeuing_iterate n (cell ?s (Reader_queue r)) (wake_reader r)) h ?s =
      Done () (readers_woken r (Q (Reader_queue r)) ?s)"
    by (rule run_wake_readers [OF assms(6) q assms(7)]) (use assms(8) in simp)
  with sp c rw_unlock_last [OF assms(2,3)] show ?thesis
    by (auto simp: pthread_rwlock_unlock_def run_simps Let_def pthread_spin_unlock_def
        readers_woken_def no_readers_def intro!: pt_state.equality)
qed

lemma run_rw_unlock_free:
  assumes "rw_inv s Q r" and "spin s (R_held r) = 1" and "rw_readers (rwlocks s r) \<in> {0, 1}"
    and "Q (Writer_queue r) = []" and "Q (Reader_queue r) = []"
  shows "run (pthread_rwlock_unlock n r) h s = Done OK (upd_spin (R_held r) 0 (no_readers r s))"
  using assms rw_inv_first [OF assms(1)] rw_unlock_last [OF assms(2,3)]
  by (auto simp: pthread_rwlock_unlock_def run_simps Let_def pthread_spin_unlock_def rw_inv_def
      no_readers_def intro!: pt_state.equality)

text \<open>What an unlock of a lock in state \<open>s\<close> with queues \<open>Q\<close> may end in.\<close>

abbreviation unlocked_to :: "rwaddr \<Rightarrow> pt_state \<Rightarrow> (loc \<Rightarrow> thr list) \<Rightarrow> pt_state \<Rightarrow> (loc \<Rightarrow> thr list) \<Rightarrow> bool" where
  "unlocked_to r s Q s1 Q1 \<equiv> rw_inv s1 Q1 r \<and>
     rw_mode s1 r = unlock_mode (rw_mode s r) (Q (Reader_queue r)) (Q (Writer_queue r)) \<and>
     (\<forall>t. kmsgs s1 t = (if t \<in> set (unlock_wakes (rw_mode s r) (Q (Reader_queue r)) (Q (Writer_queue r)))
                        then 1 else kmsgs s t))"

lemma rw_unlock_more_spec:
  assumes "rw_inv s Q r" and held: "spin s (R_held r) = 1" and more: "rw_readers (rwlocks s r) > 1"
  shows "\<exists>s1 Q1. run (pthread_rwlock_unlock n r) h s = Done OK s1 \<and> unlocked_to r s Q s1 Q1"
proof -
  define k where "k = nat (rw_readers (rwlocks s r) - 2)"
  then have k: "nat (rw_readers (rwlocks s r)) = Suc (Suc k)"
    "nat (rw_readers (rwlocks s r) - 1) = Suc k" using more by linarith+
  have md: "rw_mode s r = Reading (Suc (Suc k))" using more held k(1) by (simp add: rw_mode_def)
  let ?s1 = "upd_rwlock r (\<lambda>x. x\<lparr>rw_readers := rw_readers x - 1\<rparr>) s"
  have "rw_inv ?s1 Q r" using assms(1) more held by (simp add: rw_inv_def)
  moreover have "rw_mode ?s1 r = Reading (Suc k)" using more held k(2) by (simp add: rw_mode_def)
  ultimately show ?thesis
    using run_rw_unlock_more [OF assms(1) held more]
    by (intro exI [of _ ?s1] exI [of _ Q]) (simp add: md unlock_mode_def unlock_wakes_def)
qed

lemma rw_unlock_last_spec:
  assumes "rw_inv s Q r" and held: "spin s (R_held r) = 1" and "mach_ports h"
    and "\<And>t. t \<in> set (Q (Reader_queue r)) \<union> set (Q (Writer_queue r)) \<Longrightarrow> kmsgs s t = 0"
    and "length (Q (Reader_queue r)) \<le> n" and last: "rw_readers (rwlocks s r) \<in> {0, 1}"
  shows "\<exists>s1 Q1. run (pthread_rwlock_unlock n r) h s = Done OK s1 \<and> unlocked_to r s Q s1 Q1"
proof -
  have q: "queues s Q" and sp: "spin s (R_lock r) = 0" using assms(1) by (auto simp: rw_inv_def)
  have md: "unlock_mode (rw_mode s r) rs ws =
      (if ws \<noteq> [] then Writing else if rs \<noteq> [] then Reading (length rs) else Unlocked)"
    "unlock_wakes (rw_mode s r) rs ws = (if ws \<noteq> [] then [hd ws] else rs)" for rs ws
    using last held by (auto simp: rw_mode_def unlock_mode_def unlock_wakes_def)
  show ?thesis
  proof (cases "Q (Writer_queue r)")
    case (Cons w ws)
    from run_rw_unlock_writer [OF assms(1) held last Cons assms(3), of n] assms(4) Cons
    obtain c v where cv: "run (pthread_rwlock_unlock n r) h s =
        Done OK (no_readers r s\<lparr>cell := c, prevp := v, kmsgs := (kmsgs s)(w := 1)\<rparr>)"
      "linked c v (Q(Writer_queue r := ws))" by auto
    with held sp Cons show ?thesis
      unfolding md
      by (intro exI [of _ "no_readers r s\<lparr>cell := c, prevp := v, kmsgs := (kmsgs s)(w := 1)\<rparr>"]
          exI [of _ "Q(Writer_queue r := ws)"])
        (auto simp: rw_mode_def rw_inv_def no_readers_def)
  next
    case Nil
    show ?thesis
    proof (cases "Q (Reader_queue r)")
      case rNil: Nil
      with Nil held sp q run_rw_unlock_free [OF assms(1) held last Nil rNil] show ?thesis
        unfolding md
        by (intro exI [of _ "upd_spin (R_held r) 0 (no_readers r s)"] exI [of _ Q])
          (auto simp: rw_mode_def rw_inv_def no_readers_def)
    next
      case (Cons t ts)
      let ?s1 = "readers_woken r (Q (Reader_queue r)) (no_readers r s)
             \<lparr>cell := (cell s)(Reader_queue r := None)\<rparr>"
      have "run (pthread_rwlock_unlock n r) h s = Done OK ?s1"
        using run_rw_unlock_readers [OF assms(1) held last Nil Cons assms(3,5)] assms(4) by blast
      moreover have "queues ?s1 (Q(Reader_queue r := []))"
        using linked_clear [OF q, of "Reader_queue r"]
        by (simp add: readers_woken_def no_readers_def cong: if_cong)
      ultimately show ?thesis
        using held sp Nil Cons
        unfolding md
        by (intro exI [of _ ?s1] exI [of _ "Q(Reader_queue r := [])"])
          (auto simp: rw_mode_def rw_inv_def no_readers_def readers_woken_def)
    qed
  qed
qed

text \<open>
  Unlocking a held lock: one of several readers leaves and nothing else changes; the last
  holder passes the lock to the first waiting writer, or without waiting writers to all waiting
  readers, or else frees it.  Exactly the threads that get the lock are sent one wakeup message
  each, and no assertion fails.  The loop over the waiting readers ends after as many rounds as
  there are waiting readers.
\<close>

theorem rwlock_unlock_spec:
  assumes "rw_inv s Q r" and "rw_mode s r \<noteq> Unlocked" and "mach_ports h"
    and "\<And>t. t \<in> set (Q (Reader_queue r)) \<union> set (Q (Writer_queue r)) \<Longrightarrow> kmsgs s t = 0"
    and "length (Q (Reader_queue r)) \<le> n"
  shows "\<exists>s1 Q1. run (pthread_rwlock_unlock n r) h s = Done OK s1 \<and> rw_inv s1 Q1 r \<and>
     rw_mode s1 r = unlock_mode (rw_mode s r) (Q (Reader_queue r)) (Q (Writer_queue r)) \<and>
     (\<forall>t. kmsgs s1 t = (if t \<in> set (unlock_wakes (rw_mode s r) (Q (Reader_queue r)) (Q (Writer_queue r)))
                        then 1 else kmsgs s t))"
proof -
  have held: "spin s (R_held r) = 1" and nn: "rw_readers (rwlocks s r) \<ge> 0"
    using assms(1,2) by (auto simp: rw_inv_def rw_mode_def)
  show ?thesis
  proof (cases "rw_readers (rwlocks s r) > 1")
    case True
    show ?thesis by (rule rw_unlock_more_spec [OF assms(1) held True])
  next
    case False
    then have "rw_readers (rwlocks s r) \<in> {0, 1}" using nn by force
    then show ?thesis
      using assms(4) by (intro rw_unlock_last_spec [OF assms(1) held assms(3) _ assms(5)]) blast+
  qed
qed

text \<open>A lock held by a writer, with two readers waiting.\<close>

definition rw_busy :: pt_state where
  "rw_busy = zero_state\<lparr>spin := (\<lambda>_. 0)(R_held Threads_lock := 1),
     cell := (\<lambda>_. None)(Reader_queue Threads_lock := Some 3, Next 3 := Some 2),
     prevp := (\<lambda>_. None)(3 := Some (Reader_queue Threads_lock), 2 := Some (Next 3))\<rparr>"

lemma rw_busy_inv: "rw_inv rw_busy ((\<lambda>_. [])(Reader_queue Threads_lock := [3, 2])) Threads_lock"
  by (auto simp: rw_inv_def rw_busy_def linked_def intro!: exI [of _ "Reader_queue Threads_lock"]
      elim!: is_head.elims)

theorem rwlock_unlock_spec_witness:
  "\<exists>s1 Q1. run (pthread_rwlock_unlock 2 Threads_lock) port0 rw_busy = Done OK s1 \<and>
     rw_inv s1 Q1 Threads_lock \<and>
     rw_mode s1 Threads_lock = unlock_mode (rw_mode rw_busy Threads_lock)
       (((\<lambda>_. [])(Reader_queue Threads_lock := [3, 2])) (Reader_queue Threads_lock))
       (((\<lambda>_. [])(Reader_queue Threads_lock := [3, 2])) (Writer_queue Threads_lock)) \<and>
     (\<forall>t. kmsgs s1 t = (if t \<in> set (unlock_wakes (rw_mode rw_busy Threads_lock)
         (((\<lambda>_. [])(Reader_queue Threads_lock := [3, 2])) (Reader_queue Threads_lock))
         (((\<lambda>_. [])(Reader_queue Threads_lock := [3, 2])) (Writer_queue Threads_lock)))
        then 1 else kmsgs rw_busy t))"
  by (rule rwlock_unlock_spec [OF rw_busy_inv])
    (simp_all add: rw_busy_def rw_mode_def)

end
