(* ===== verification/Rwlock_Machine.thy ===== *)
theory Rwlock_Machine
  imports Rwlock Gate_Impl
begin

text \<open>
  All interleavings of any number of threads that lock one read-write lock for reading or writing,
  with or without deadlines or by an attempt, and unlock it, as steps of the programs of \<open>Rwlock\<close>.  A
  read-write lock is a gate whose object is its mode.  Its unlock wakes the waiting readers with the
  spin lock held; meanwhile the state lags behind the gate, which passes the lock to all of them at once.
\<close>

section \<open>The callers\<close>

datatype rw_hold = No_lock | Reader | Writer

datatype rw_op = Rdlock "timespec option" | Tryrdlock | Wrlock "timespec option" | Trywrlock | Unlock

text \<open>The bound of the loop over the waiting readers is the number of callers.\<close>

fun rw_prog :: "rwaddr \<Rightarrow> nat \<Rightarrow> thr \<Rightarrow> rw_op \<Rightarrow> rc pt" where
  "rw_prog r n t (Rdlock ts) = pthread_rwlock_timedrdlock_internal r t ts"
| "rw_prog r n t Tryrdlock = pthread_rwlock_tryrdlock r"
| "rw_prog r n t (Wrlock ts) = pthread_rwlock_timedwrlock_internal r t ts"
| "rw_prog r n t Trywrlock = pthread_rwlock_trywrlock r"
| "rw_prog r n t Unlock = pthread_rwlock_unlock n r"

text \<open>
  The rules that the callers keep to: a thread locks what it does not hold, with a deadline whose \<^verbatim>\<open>tv_nsec\<close> is in
  range, and unlocks what it holds.  Threads that nest read locks, which the code accepts, are outside these theorems.
\<close>

fun rw_allowed :: "timespec option set \<Rightarrow> rw_hold \<Rightarrow> rw_op \<Rightarrow> bool" where
  "rw_allowed D h (Rdlock ts) = (h = No_lock \<and> ts \<in> D \<and> \<not> bad_nsec ts)"
| "rw_allowed D h (Wrlock ts) = (h = No_lock \<and> ts \<in> D \<and> \<not> bad_nsec ts)"
| "rw_allowed D h Unlock = (h \<noteq> No_lock)"
| "rw_allowed D h _ = (h = No_lock)"

fun rw_gain :: "rw_op \<Rightarrow> rw_hold" where
  "rw_gain (Rdlock ts) = Reader"
| "rw_gain Tryrdlock = Reader"
| "rw_gain (Wrlock ts) = Writer"
| "rw_gain Trywrlock = Writer"
| "rw_gain Unlock = No_lock"

definition rw_rules :: "nat \<Rightarrow> timespec option set \<Rightarrow> (rw_hold, rw_op) rules" where
  "rw_rules n D = \<lparr>bound = n, allowed = rw_allowed D, gain = (\<lambda>o1 _. rw_gain o1)\<rparr>"

definition rw_start :: "rwaddr \<Rightarrow> (rw_hold, rw_op, rc) callers \<Rightarrow> bool" where
  "rw_start r c \<longleftrightarrow>
     fst c = (\<lambda>_. Away No_lock) \<and> spin (snd c) (R_lock r) = 0 \<and> spin (snd c) (R_held r) = 0 \<and>
     rw_readers (rwlocks (snd c) r) = 0 \<and>
     cell (snd c) = (\<lambda>_. None) \<and> prevp (snd c) = (\<lambda>_. None) \<and> kmsgs (snd c) = (\<lambda>_. 0)"

section \<open>The gate\<close>

definition rw_pass_on :: "rwaddr \<Rightarrow> queue_view \<Rightarrow> lock_mode verdict" where
  "rw_pass_on r Q =
     (case Q (Writer_queue r) of
        w # ws \<Rightarrow> Pass Writing (Q(Writer_queue r := ws)) False [w] OK
      | [] \<Rightarrow>
          (if Q (Reader_queue r) = [] then Pass Unlocked Q False [] OK
           else Pass (Reading (length (Q (Reader_queue r)))) (Q(Reader_queue r := [])) True (Q (Reader_queue r)) OK))"

fun rw_entry :: "rwaddr \<Rightarrow> rw_op \<Rightarrow> thr \<Rightarrow> lock_mode \<Rightarrow> queue_view \<Rightarrow> lock_mode verdict" where
  "rw_entry r (Rdlock ts) t Unlocked Q = Pass (Reading 1) Q False [] OK"
| "rw_entry r (Rdlock ts) t (Reading k) Q = Pass (Reading (Suc k)) Q False [] OK"
| "rw_entry r (Rdlock ts) t Writing Q = Join Writing"
| "rw_entry r Tryrdlock t Unlocked Q = Pass (Reading 1) Q False [] OK"
| "rw_entry r Tryrdlock t (Reading k) Q = Pass (Reading (Suc k)) Q False [] OK"
| "rw_entry r Tryrdlock t Writing Q = Pass Writing Q False [] EBUSY"
| "rw_entry r (Wrlock ts) t Unlocked Q = Pass Writing Q False [] OK"
| "rw_entry r (Wrlock ts) t md Q = Join md"
| "rw_entry r Trywrlock t Unlocked Q = Pass Writing Q False [] OK"
| "rw_entry r Trywrlock t md Q = Pass md Q False [] EBUSY"
| "rw_entry r Unlock t (Reading (Suc (Suc k))) Q = Pass (Reading (Suc k)) Q False [] OK"
| "rw_entry r Unlock t md Q = rw_pass_on r Q"

fun rw_deadline :: "rw_op \<Rightarrow> timespec option" where
  "rw_deadline (Rdlock ts) = ts"
| "rw_deadline (Wrlock ts) = ts"
| "rw_deadline _ = None"

fun rw_line :: "rwaddr \<Rightarrow> rw_op \<Rightarrow> loc option" where
  "rw_line r (Rdlock ts) = Some (Reader_queue r)"
| "rw_line r (Wrlock ts) = Some (Writer_queue r)"
| "rw_line r _ = None"

text \<open>The assertions at the end of a wait.\<close>

fun rw_settled :: "rw_op \<Rightarrow> lock_mode \<Rightarrow> bool" where
  "rw_settled (Rdlock ts) md = (\<exists>k. md = Reading (Suc k))"
| "rw_settled (Wrlock ts) md = (md = Writing)"
| "rw_settled _ md = True"

definition rw_gate :: "rwaddr \<Rightarrow> nat \<Rightarrow> timespec option set \<Rightarrow> (rw_hold, rw_op, lock_mode) gate" where
  "rw_gate r n D =
     \<lparr>bound = n, allowed = rw_allowed D, gain = (\<lambda>o1 _. rw_gain o1), deadline = rw_deadline, line = rw_line r,
      entry = rw_entry r, settled = (\<lambda>o1 _. rw_settled o1), complete = (\<lambda>_ _ md. md)\<rparr>"

lemma rw_gate_simps [simp]:
  "bound (rw_gate r n D) = n" "allowed (rw_gate r n D) = rw_allowed D"
  "gain (rw_gate r n D) o1 h = rw_gain o1" "deadline (rw_gate r n D) = rw_deadline"
  "line (rw_gate r n D) = rw_line r" "entry (rw_gate r n D) = rw_entry r"
  "settled (rw_gate r n D) o1 t md = rw_settled o1 md" "complete (rw_gate r n D) o1 t md = md"
  "bound (rw_rules n D) = n" "allowed (rw_rules n D) = rw_allowed D"
  "gain (rw_rules n D) o1 h = rw_gain o1"
  by (simp_all add: rw_gate_def rw_rules_def)

text \<open>What a section that lets its thread pass does to the queues.\<close>

lemma rw_pass_on_cases:
  assumes "rw_pass_on r Q = Pass md Q' k ws e"
  obtains (writer) w vs where "Q (Writer_queue r) = w # vs" "Q' = Q(Writer_queue r := vs)" "\<not> k" "ws = [w]"
      "md = Writing" "e = OK"
  | (readers) "Q (Writer_queue r) = []" "Q (Reader_queue r) \<noteq> []" "Q' = Q(Reader_queue r := [])" "k"
      "ws = Q (Reader_queue r)" "md = Reading (length ws)" "e = OK"
  | (free) "Q (Writer_queue r) = []" "Q (Reader_queue r) = []" "Q' = Q" "\<not> k" "ws = []" "md = Unlocked" "e = OK"
  using assms by (auto simp: rw_pass_on_def split: list.splits if_splits)

lemma rw_entry_pass:
  assumes "rw_entry r o1 t md Q = Pass md' Q' k ws e"
  shows "(Q' = Q \<and> \<not> k \<and> ws = []) \<or> (o1 = Unlock \<and> rw_pass_on r Q = Pass md' Q' k ws e)"
  using assms by (cases "(r, o1, t, md, Q)" rule: rw_entry.cases) auto

lemma clear_line:
  assumes "\<And>l l' u. u \<in> set (Q l) \<Longrightarrow> u \<in> set (Q l') \<Longrightarrow> l = l'"
  shows "in_line Q u \<longleftrightarrow> in_line (Q(l := [])) u \<or> u \<in> set (Q l)"
    and "u \<in> set (Q l) \<Longrightarrow> \<not> in_line (Q(l := [])) u"
proof -
  show "in_line Q u \<longleftrightarrow> in_line (Q(l := [])) u \<or> u \<in> set (Q l)"
    unfolding in_line_def by (metis fun_upd_apply empty_iff empty_set)
  show "u \<in> set (Q l) \<Longrightarrow> \<not> in_line (Q(l := [])) u"
    using assms unfolding in_line_def by (auto split: if_splits)
qed

interpretation rw_laws: gate_laws "rw_gate r n D" for r n D
proof
  fix o1 t md Q md' Q' k ws e
  assume "entry (rw_gate r n D) o1 t md Q = Pass md' Q' k ws e"
    and d: "\<And>l. distinct (Q l)" and j: "\<And>l l' u. u \<in> set (Q l) \<Longrightarrow> u \<in> set (Q l') \<Longrightarrow> l = l'"
  then have "(Q' = Q \<and> \<not> k \<and> ws = []) \<or> (o1 = Unlock \<and> rw_pass_on r Q = Pass md' Q' k ws e)"
    using rw_entry_pass by simp
  then show "distinct ws \<and> (\<forall>l. distinct (Q' l) \<and> set (Q' l) \<subseteq> set (Q l)) \<and>
      (\<forall>u. in_line Q u = (in_line Q' u \<or> u \<in> set ws)) \<and> (\<forall>u. u \<in> set ws \<longrightarrow> \<not> in_line Q' u)"
  proof (elim disjE conjE)
    assume "rw_pass_on r Q = Pass md' Q' k ws e"
    then show ?thesis
    proof (cases rule: rw_pass_on_cases)
      case (writer w vs)
      moreover have "w \<notin> set vs" "distinct vs" using d [of "Writer_queue r"] writer by auto
      moreover have "w \<notin> set (Q l)" if "l \<noteq> Writer_queue r" for l using j [of w l "Writer_queue r"] writer that by auto
      ultimately show ?thesis using d take_first_line [of Q "Writer_queue r" w vs] by auto
    next
      case readers
      then show ?thesis using d clear_line [of Q _ "Reader_queue r"] j by auto
    qed (use d in simp)
  qed (use d in simp)
qed

section \<open>The invariant\<close>

text \<open>
  The mode of the lock agrees with what the threads hold.  With deadlines a lock may be held by fewer
  threads than the mode says: a thread that gets the lock after its deadline does not keep it.
\<close>

definition holders :: "(thr \<Rightarrow> rw_hold) \<Rightarrow> rw_hold \<Rightarrow> thr set" where
  "holders hs h = {t. hs t = h}"

fun mode_ok :: "bool \<Rightarrow> lock_mode \<Rightarrow> (thr \<Rightarrow> rw_hold) \<Rightarrow> bool" where
  "mode_ok exact Unlocked hs = (holders hs Reader = {} \<and> holders hs Writer = {})"
| "mode_ok exact (Reading k) hs =
     (k > 0 \<and> holders hs Writer = {} \<and> finite (holders hs Reader) \<and> card (holders hs Reader) \<le> k \<and>
      (exact \<longrightarrow> card (holders hs Reader) = k))"
| "mode_ok exact Writing hs =
     (holders hs Reader = {} \<and> (\<forall>t u. hs t = Writer \<longrightarrow> hs u = Writer \<longrightarrow> t = u) \<and>
      (exact \<longrightarrow> holders hs Writer \<noteq> {}))"

definition rw_room :: "rwaddr \<Rightarrow> nat \<Rightarrow> timespec option set \<Rightarrow> (rw_hold, rw_op, lock_mode) room \<Rightarrow> bool" where
  "rw_room r n D a \<longleftrightarrow>
     mode_ok (D \<subseteq> {None}) (res a) (holds (rw_gate r n D) a) \<and>
     (res a = Unlocked \<longrightarrow> que a (Reader_queue r) = [] \<and> que a (Writer_queue r) = []) \<and>
     (\<forall>k. res a = Reading k \<longrightarrow> que a (Reader_queue r) = [])"

lemma holders_upd:
  "holders (hs(t := h)) h' = (if h = h' then insert t (holders hs h') else holders hs h' - {t})"
  by (auto simp: holders_def)

lemma holders_iff: "t \<in> holders hs h \<longleftrightarrow> hs t = h"
  by (simp add: holders_def)

lemma rw_hold_cases: "hs t = No_lock \<or> t \<in> holders hs Reader \<or> t \<in> holders hs Writer"
  by (cases "hs t") (simp_all add: holders_def)

lemma nobody: "holders hs Reader = {} \<Longrightarrow> holders hs Writer = {} \<Longrightarrow> hs u = No_lock"
  using rw_hold_cases [of hs u] by auto

text \<open>Taking the lock.\<close>

lemma mode_first_reader:
  "mode_ok x Unlocked hs \<Longrightarrow> mode_ok x (Reading 1) (hs(t := Reader))"
  by (simp add: holders_upd)

lemma mode_next_reader:
  "mode_ok x (Reading k) hs \<Longrightarrow> hs t = No_lock \<Longrightarrow> mode_ok x (Reading (Suc k)) (hs(t := Reader))"
  by (auto simp: holders_upd holders_iff)

lemma mode_writer:
  "mode_ok x Unlocked hs \<Longrightarrow> mode_ok x Writing (hs(t := Writer))"
  using nobody [of hs] by (auto simp: holders_upd)

text \<open>Leaving it.\<close>

lemma mode_leave:
  assumes "mode_ok x (Reading (Suc (Suc k))) hs" and "hs t \<noteq> No_lock"
  shows "mode_ok x (Reading (Suc k)) (hs(t := No_lock))"
proof -
  from assms rw_hold_cases [of hs t] have "t \<in> holders hs Reader" by simp
  with assms(1) show ?thesis by (auto simp: holders_upd card_Diff_singleton)
qed

text \<open>A sole holder.\<close>

lemma mode_sole:
  assumes "mode_ok x md hs" and "hs t \<noteq> No_lock" and "\<And>k. md \<noteq> Reading (Suc (Suc k))" and "u \<noteq> t"
  shows "hs u = No_lock"
proof (cases md)
  case Unlocked
  with assms nobody [of hs] show ?thesis by simp
next
  case (Reading k)
  with assms(1,3) have k: "k = 1" by (cases k; cases "k - 1") auto
  with Reading assms(1) have f: "finite (holders hs Reader)" "card (holders hs Reader) \<le> 1" "holders hs Writer = {}" by simp_all
  moreover have "t \<in> holders hs Reader" using rw_hold_cases [of hs t] assms(2) f(3) by simp
  ultimately have "holders hs Reader = {t}" by (metis card_1_singletonE card_gt_0_iff empty_iff le_antisym less_eq_Suc_le One_nat_def singletonD)
  with rw_hold_cases [of hs u] assms(4) f(3) show ?thesis by auto
next
  case Writing
  with assms rw_hold_cases [of hs t] rw_hold_cases [of hs u] show ?thesis by (auto simp: holders_iff)
qed

lemma mode_lost:
  assumes "mode_ok x md hs" and "\<not> x"
  shows "mode_ok x md (hs(t := No_lock))"
  using assms
  by (cases md) (auto simp: holders_upd intro: order_trans [OF card_Diff1_le])

text \<open>The steps keep the invariant.\<close>

lemma rw_room_take:
  assumes room: "rw_room r n D a" and free: "holds (rw_gate r n D) a t = No_lock"
    and al: "rw_allowed D No_lock o1" and en: "rw_entry r o1 t (res a) (que a) = Pass md Q k ws e"
    and b: "res b = md" "que b = Q" "holds (rw_gate r n D) b = (holds (rw_gate r n D) a)(t := if e = OK then rw_gain o1 else No_lock)"
  shows "rw_room r n D b"
proof -
  let ?hs = "holds (rw_gate r n D) a"
  have m: "mode_ok (D \<subseteq> {None}) (res a) ?hs" using room by (simp add: rw_room_def)
  have un: "o1 \<noteq> Unlock" using al by auto
  then have q: "que b = que a" using rw_entry_pass [OF en] b(2) by simp
  have id: "?hs(t := No_lock) = ?hs" using free by (simp add: fun_upd_idem)
  from en un m have "mode_ok (D \<subseteq> {None}) md (holds (rw_gate r n D) b)"
    unfolding b(3)
    by (cases "(r, o1, t, res a, que a)" rule: rw_entry.cases)
      (use free id mode_first_reader [where hs = ?hs and t = t] mode_next_reader [where hs = ?hs and t = t]
        mode_writer [where hs = ?hs and t = t] in \<open>auto simp del: mode_ok.simps fun_upd_apply\<close>)
  moreover from en un have "(md = Unlocked \<longrightarrow> res a = Unlocked) \<and> (\<forall>k. md = Reading k \<longrightarrow> res a \<noteq> Writing)"
    by (cases "(r, o1, t, res a, que a)" rule: rw_entry.cases) auto
  ultimately show ?thesis
    using room q b(1) unfolding rw_room_def by (cases "res a") auto
qed

lemma rw_room_unlock:
  assumes room: "rw_room r n D a" and h: "holds (rw_gate r n D) a t \<noteq> No_lock"
    and k: "res a = Reading (Suc (Suc k))" and b: "res b = Reading (Suc k)" "que b = que a"
      "holds (rw_gate r n D) b = (holds (rw_gate r n D) a)(t := No_lock)"
  shows "rw_room r n D b"
  using assms mode_leave [of "D \<subseteq> {None}" k "holds (rw_gate r n D) a" t] by (simp add: rw_room_def del: mode_ok.simps)

text \<open>The sole holder passes the lock on.\<close>

lemma rw_room_pass_on:
  assumes room: "rw_room r n D a" and h: "holds (rw_gate r n D) a t \<noteq> No_lock"
    and sole: "\<And>k. res a \<noteq> Reading (Suc (Suc k))" and en: "rw_pass_on r (que a) = Pass md Q k ws e"
    and d: "distinct ws" and t: "t \<notin> set ws" and b: "res b = md" "que b = Q"
    and w: "\<And>u. u \<in> set ws \<Longrightarrow> \<exists>o2 l. rw_line r o2 = Some l \<and> u \<in> set (que a l) \<and> holds (rw_gate r n D) b u = rw_gain o2"
    and u: "\<And>u. u \<notin> set ws \<Longrightarrow> holds (rw_gate r n D) b u = (if u = t then No_lock else holds (rw_gate r n D) a u)"
    and j: "\<And>l l' u. u \<in> set (que a l) \<Longrightarrow> u \<in> set (que a l') \<Longrightarrow> l = l'"
  shows "rw_room r n D b"
proof -
  let ?hs = "holds (rw_gate r n D) a" and ?hb = "holds (rw_gate r n D) b"
  have no: "?hb u = No_lock" if "u \<notin> set ws" for u
    using mode_sole [of _ "res a" ?hs t u] room h sole u [OF that] by (auto simp: rw_room_def)
  from en show ?thesis
  proof (cases rule: rw_pass_on_cases)
    case (writer v vs)
    from w [of v] writer obtain o2 l where o2: "rw_line r o2 = Some l" "v \<in> set (que a l)" "?hb v = rw_gain o2" by auto
    have "l = Writer_queue r" using j [OF o2(2), of "Writer_queue r"] writer by simp
    with o2 have "?hb v = Writer" by (cases o2) auto
    with no writer have "?hb = (\<lambda>_. No_lock)(v := Writer)" by (auto simp: fun_eq_iff)
    with writer b show ?thesis by (simp add: rw_room_def holders_def)
  next
    case readers
    have "?hb v = Reader" if "v \<in> set ws" for v
    proof -
      from w [OF that] obtain o2 l where o2: "rw_line r o2 = Some l" "v \<in> set (que a l)" "?hb v = rw_gain o2" by auto
      have "l = Reader_queue r" using j [OF o2(2), of "Reader_queue r"] readers that by simp
      with o2 show ?thesis by (cases o2) auto
    qed
    with no have hb: "?hb u = (if u \<in> set ws then Reader else No_lock)" for u by simp
    then have "holders ?hb Reader = set ws" "holders ?hb Writer = {}" by (auto simp: holders_def)
    with readers b d show ?thesis by (simp add: rw_room_def distinct_card)
  next
    case free
    with no have "holders ?hb Reader = {}" "holders ?hb Writer = {}" by (auto simp: holders_def)
    with free b show ?thesis by (simp add: rw_room_def)
  qed
qed

lemma rw_room_step:
  assumes eff: "effect (rw_gate r n D) a b" and inv: "gate_inv (rw_gate r n D) a" and room: "rw_room r n D a"
  shows "rw_room r n D b"
  using eff
proof cases
  case (silent t)
  with room show ?thesis by (auto simp: rw_room_def)
next
  case (completed t h o1)
  with room show ?thesis by (auto simp: rw_room_def)
next
  case (lost t h o1)
  then have "h = No_lock" "\<not> D \<subseteq> {None}" by (cases o1; auto simp: waitable_def)+
  with lost room show ?thesis by (simp add: rw_room_def mode_lost del: mode_ok.simps)
next
  case (joined t o1 md l)
  then have "md = res a" "md = Writing \<or> l = Writer_queue r \<and> md \<noteq> Unlocked"
    by (cases "(r, o1, t, res a, que a)" rule: rw_entry.cases; auto simp: rw_pass_on_def split: list.splits if_splits)+
  with joined room show ?thesis by (auto simp: rw_room_def)
next
  case (passed t o1 ws md Q k e)
  let ?hs = "holds (rw_gate r n D) a" and ?hb = "holds (rw_gate r n D) b"
  show ?thesis
  proof (cases "o1 = Unlock")
    case False
    then have h: "?hs t = No_lock" and ws: "ws = []"
      using passed(1) rw_entry_pass [OF passed(5) [simplified]] by (cases o1; auto)+
    then have "?hb = ?hs(t := if e = OK then rw_gain o1 else No_lock)"
      using passed(7) by (auto simp: fun_eq_iff worth_def)
    with rw_room_take [OF room h] passed h show ?thesis by simp
  next
    case un: True
    with passed(1) have h: "?hs t \<noteq> No_lock" by simp
    show ?thesis
    proof (cases "\<exists>k. res a = Reading (Suc (Suc k))")
      case True
      then obtain j where j: "res a = Reading (Suc (Suc j))" by blast
      with passed(5) un have p: "md = Reading (Suc j)" "Q = que a" "ws = []" "e = OK" by simp_all
      then have "?hb = ?hs(t := No_lock)" using passed(7) un by (auto simp: fun_eq_iff)
      with rw_room_unlock [OF room h j] passed p show ?thesis by simp
    next
      case False
      with passed(5) un have en: "rw_pass_on r (que a) = Pass md Q k ws e"
        by (cases "(r, o1, t, res a, que a)" rule: rw_entry.cases) auto
      then have "e = OK" by (cases rule: rw_pass_on_cases) auto
      with passed(7) un have u: "?hb u = (if u = t then No_lock else ?hs u)" if "u \<notin> set ws" for u
        using that by simp
      show ?thesis
      proof (rule rw_room_pass_on [OF room h _ en passed(4,3,8,9)])
        show "\<exists>o2 l. rw_line r o2 = Some l \<and> u \<in> set (que a l) \<and> ?hb u = rw_gain o2" if "u \<in> set ws" for u
          using passed(6) [OF that] by auto
        show "l = l'" if "u \<in> set (que a l)" "u \<in> set (que a l')" for l l' u
          using lines_okD(3) [OF gate_invD(2) [OF inv] that] .
      qed (use False u in auto)
    qed
  qed
qed

text \<open>While readers are being woken with the spin lock held, no waiter is at its last assertion.\<close>

lemma rw_no_ending:
  assumes "gstep (rw_gate r n D) a b" and inv: "gate_inv (rw_gate r n D) a" and room: "rw_room r n D a"
    and "locked a \<noteq> None \<Longrightarrow> stages a t \<noteq> Ending h o1" and "locked b \<noteq> None"
  shows "stages b t \<noteq> Ending h o1"
  using assms
proof cases
  case (pass u h' o2 md Q k ws e)
  with assms(5) have k: "k" by (simp split: if_splits)
  with rw_entry_pass [of r o2 u "res a" "que a"] pass(4) have un: "o2 = Unlock"
    and en: "rw_pass_on r (que a) = Pass md Q k ws e" by auto
  have h': "rw_allowed D h' Unlock" using gate_invD(1) [OF inv, of u] pass(2) un by simp
  have hu: "holds (rw_gate r n D) a u \<noteq> No_lock" using h' pass(2) by (simp add: holds_def)
  have "res a \<noteq> Reading (Suc (Suc j))" for j using pass(4) un k by auto
  then have no: "holds (rw_gate r n D) a t = No_lock" if "t \<noteq> u"
    using mode_sole [of _ "res a" "holds (rw_gate r n D) a" u t] room hu that by (auto simp: rw_room_def)
  have "waitable (rw_gate r n D) h o1" if "stages a t = Ending h o1"
    using gate_invD(1) [OF inv, of t] that by simp
  then have "rw_gain o1 \<noteq> No_lock" if "stages a t = Ending h o1" using that by (cases o1) (auto simp: waitable_def)
  with no pass(1,2) show ?thesis by (auto simp: holds_def wake_stage_def split: if_splits)
qed (auto simp: wake_stage_def split: if_splits)

lemma rw_reach_room:
  assumes "greach (rw_gate r n D) (room_init No_lock Unlocked) a"
  shows "gate_inv (rw_gate r n D) a \<and> rw_room r n D a \<and> (locked a \<noteq> None \<longrightarrow> (\<forall>t h o1. stages a t \<noteq> Ending h o1))"
  using assms
proof induction
  case init
  then show ?case using room_init_inv [of "rw_gate r n D"]
    by (simp add: rw_room_def room_init_def holds_def holders_def)
next
  case (step b c)
  then show ?case using rw_laws.gstep_inv rw_laws.gstep_effect rw_room_step rw_no_ending by meson
qed

section \<open>The programs follow the protocol\<close>

text \<open>The parts of the unlock that wakes readers.\<close>

definition rw_final :: "rwaddr \<Rightarrow> rc pt" where
  "rw_final r =
     andthen (modify (\<lambda>s. pthread_spin_unlock (R_lock r) (s\<lparr>cell := (cell s)(Reader_queue r := None)\<rparr>)))
       (\<lambda>_. Return OK)"

definition rw_loop :: "rwaddr \<Rightarrow> nat \<Rightarrow> thr option \<Rightarrow> rc pt" where
  "rw_loop r j st = andthen (pthread_dequeuing_iterate j st (wake_reader r)) (\<lambda>_. rw_final r)"

text \<open>
  The state while readers are woken: \<open>i\<close> readers have still to be counted, and the \<^verbatim>\<open>prevp\<close> of the threads \<open>rest\<close>
  has still to be cleared, before the lock is held by \<open>m\<close> readers and the queues are \<open>Q\<close>.
\<close>

definition waking_state :: "rwaddr \<Rightarrow> nat \<Rightarrow> queue_view \<Rightarrow> nat \<Rightarrow> thr list \<Rightarrow> pt_state \<Rightarrow> bool" where
  "waking_state r m Q i rest s \<longleftrightarrow>
     spin s (R_lock r) = 1 \<and> spin s (R_held r) = 1 \<and> rw_readers (rwlocks s r) + int i = int m \<and> m > 0 \<and>
     linked ((cell s)(Reader_queue r := None)) (\<lambda>t. if t \<in> set rest then None else prevp s t) Q"

inductive rw_lag :: "rwaddr \<Rightarrow> nat \<Rightarrow> rc \<Rightarrow> thr list \<Rightarrow> lock_mode \<Rightarrow> queue_view \<Rightarrow> rc pt \<Rightarrow> pt_state \<Rightarrow> bool"
  for r n where
  start: "waking_state r m Q (length ws) ws s \<Longrightarrow> path (cell s) (cell s (Reader_queue r)) ws \<Longrightarrow> length ws \<le> n \<Longrightarrow>
    rw_lag r n OK ws (Reading m) Q (andthen (gets (\<lambda>s. cell s (Reader_queue r))) (rw_loop r n)) s"
| next_one: "waking_state r m Q (length ws) ws s \<Longrightarrow> path (cell s) st ws \<Longrightarrow> length ws \<le> j \<Longrightarrow>
    rw_lag r n OK ws (Reading m) Q (rw_loop r j st) s"
| count: "waking_state r m Q (Suc (length ws)) ws s \<Longrightarrow> path (cell s) st ws \<Longrightarrow> length ws \<le> j \<Longrightarrow>
    rw_lag r n OK (w # ws) (Reading m) Q (andthen (wake_reader r w) (\<lambda>_. rw_loop r j st)) s"
| send: "waking_state r m Q (length ws) ws s \<Longrightarrow> path (cell s) st ws \<Longrightarrow> length ws \<le> j \<Longrightarrow>
    rw_lag r n OK (w # ws) (Reading m) Q (andthen (pthread_wakeup w) (\<lambda>_. rw_loop r j st)) s"

fun rw_object :: "rwaddr \<Rightarrow> lock_mode \<Rightarrow> pt_state \<Rightarrow> bool" where
  "rw_object r Unlocked s = (spin s (R_held r) = 0 \<and> rw_readers (rwlocks s r) = 0)"
| "rw_object r (Reading k) s = (spin s (R_held r) = 1 \<and> rw_readers (rwlocks s r) = int k \<and> k > 0)"
| "rw_object r Writing s = (spin s (R_held r) = 1 \<and> rw_readers (rwlocks s r) = 0)"

fun rw_last :: "rwaddr \<Rightarrow> rw_op \<Rightarrow> rc \<Rightarrow> rc pt" where
  "rw_last r (Rdlock ts) e = rdlock_end r e"
| "rw_last r (Wrlock ts) e = wrlock_end r e"
| "rw_last r _ e = Return e"

lemma rw_last_eta [simp]: "rw_last r (Rdlock ts) = rdlock_end r" "rw_last r (Wrlock ts) = wrlock_end r"
  by (rule ext, simp)+

definition rw_impl :: "rwaddr \<Rightarrow> nat \<Rightarrow> (rw_op, lock_mode, rc) impl" where
  "rw_impl r n =
     \<lparr>guard_of = R_lock r, prog_of = rw_prog r n, code_of = (\<lambda>v. v),
      front_part = (\<lambda>t o1 p. p = rw_prog r n t o1), last_part = (\<lambda>t. rw_last r),
      tail_part = (\<lambda>t o1 e p. p = Return e), lag = (\<lambda>t o1. rw_lag r n), object = rw_object r,
      in_range = (\<lambda>_. True)\<rparr>"

lemma rw_impl_simps [simp]:
  "guard_of (rw_impl r n) = R_lock r" "prog_of (rw_impl r n) = rw_prog r n" "code_of (rw_impl r n) = (\<lambda>v. v)"
  "front_part (rw_impl r n) t o1 p \<longleftrightarrow> p = rw_prog r n t o1" "last_part (rw_impl r n) t = rw_last r"
  "tail_part (rw_impl r n) t o1 e p \<longleftrightarrow> p = Return e" "lag (rw_impl r n) t o1 = rw_lag r n"
  "object (rw_impl r n) = rw_object r" "in_range (rw_impl r n) s"
  by (simp_all add: rw_impl_def)

lemma rw_woken_part:
  "rdlock_woken r t = woken_part (R_lock r) t (rdlock_end r)"
  "wrlock_woken r t = woken_part (R_lock r) t (wrlock_end r)"
  by (rule ext, simp add: rdlock_woken_def wrlock_woken_def woken_part_def)+

lemma waking_state_frame [simp]:
  "waking_state r m Q i rest (s\<lparr>kmsgs := x\<rparr>) = waking_state r m Q i rest s"
  "waking_state r m Q i rest (s\<lparr>kexpired := y\<rparr>) = waking_state r m Q i rest s"
  "waking_state r m Q i rest (s\<lparr>errno := z\<rparr>) = waking_state r m Q i rest s"
  by (simp_all add: waking_state_def cong: if_cong)

lemma rw_lag_frame:
  "rw_lag r n e ws md Q p s \<Longrightarrow> cell s' = cell s \<Longrightarrow> (\<And>m i rest. waking_state r m Q i rest s' = waking_state r m Q i rest s) \<Longrightarrow>
     rw_lag r n e ws md Q p s'"
  by (induction rule: rw_lag.induct) (auto intro: rw_lag.intros)

lemma rw_lag_frames [simp]:
  "rw_lag r n e ws md Q p (s\<lparr>kmsgs := x\<rparr>) \<longleftrightarrow> rw_lag r n e ws md Q p s"
  "rw_lag r n e ws md Q p (s\<lparr>kexpired := y\<rparr>) \<longleftrightarrow> rw_lag r n e ws md Q p s"
  "rw_lag r n e ws md Q p (s\<lparr>errno := z\<rparr>) \<longleftrightarrow> rw_lag r n e ws md Q p s"
  by (rule iffI; erule rw_lag_frame; simp)+

lemma rw_object_frames [simp]:
  "rw_object r md (s\<lparr>kmsgs := x\<rparr>) \<longleftrightarrow> rw_object r md s" "rw_object r md (s\<lparr>kexpired := y\<rparr>) \<longleftrightarrow> rw_object r md s"
  "rw_object r md (s\<lparr>errno := z\<rparr>) \<longleftrightarrow> rw_object r md s"
  "rw_object r md (s\<lparr>cell := c, prevp := v\<rparr>) \<longleftrightarrow> rw_object r md s"
  by (cases md; simp)+

text \<open>The steps of waking.\<close>

lemma rw_lag_loop_step:
  assumes wst: "waking_state r m Q (length ws) ws s" and pa: "path (cell s) st ws" and j: "length ws \<le> j"
    and d: "distinct ws" and ps: "pstep E (rw_loop r j st) s p s'"
  shows "lagged (rw_impl r n) t o1 OK ws (Reading m) Q s p s'"
proof (cases ws)
  case Nil
  then have "p = Return OK" "s' = pthread_spin_unlock (R_lock r) (s\<lparr>cell := (cell s)(Reader_queue r := None)\<rparr>)"
    using pa ps by (auto simp: rw_loop_def rw_final_def modify_def pstep_iffs)
  then show ?thesis
    using wst Nil by (simp add: lagged_def free_state_def waking_state_def pthread_spin_unlock_def)
next
  case (Cons w vs)
  with j obtain i where i: "j = Suc i" "length vs \<le> i" by (cases j) auto
  have s': "s' = clear_prevp w s" and p: "p = andthen (wake_reader r w) (\<lambda>_. rw_loop r i (cell s (Next w)))"
    using ps pa Cons i(1) by (auto simp: rw_loop_def pstep_iffs clear_prevp_def)
  have eq: "(\<lambda>u. if u \<in> set vs then None else ((prevp s)(w := None)) u) = (\<lambda>u. if u \<in> set ws then None else prevp s u)"
    using Cons by auto
  have "waking_state r m Q (Suc (length vs)) vs s'"
    using wst Cons eq by (simp add: waking_state_def s' clear_prevp_def cong: if_cong)
  moreover have "path (cell s') (cell s (Next w)) vs" using pa Cons s' by (simp add: clear_prevp_def)
  ultimately have "rw_lag r n OK ws (Reading m) Q p s'" unfolding p Cons by (rule rw_lag.count [OF _ _ i(2)])
  then show ?thesis using wst s' by (simp add: lagged_def clear_prevp_def waking_state_def)
qed

lemma rw_lag_step:
  assumes "rw_lag r n e ws md Q p s" and "mach_ports E" and z: "\<And>w. w \<in> set ws \<Longrightarrow> kmsgs s w = 0"
    and d: "distinct ws" and ps: "pstep E p s p' s'"
  shows "lagged (rw_impl r n) t o1 e ws md Q s p' s'"
  using assms(1)
proof cases
  case (start m)
  then have "p' = rw_loop r n (cell s (Reader_queue r))" "s' = s"
    using ps by (auto simp: gets_def pstep_iffs)
  with start show ?thesis
    by (auto simp: lagged_def waking_state_def intro!: rw_lag.next_one)
next
  case (next_one m st j)
  with rw_lag_loop_step [OF next_one(4-6) d] ps show ?thesis by simp
next
  case (count m vs st j w)
  let ?u = "upd_rwlock r (\<lambda>x. x\<lparr>rw_readers := rw_readers x + 1\<rparr>) s"
  have p: "p' = andthen (pthread_wakeup w) (\<lambda>_. rw_loop r j st)" "s' = ?u"
    using ps count by (auto simp: wake_reader_def modify_def pstep_iffs)
  have "waking_state r m Q (length vs) vs ?u" using count by (simp add: waking_state_def cong: if_cong)
  then have "rw_lag r n OK (w # vs) (Reading m) Q p' s'"
    unfolding p using count by (intro rw_lag.send) auto
  with count p show ?thesis by (simp add: lagged_def waking_state_def)
next
  case (send m vs st j w)
  then have "p' = rw_loop r j st" "s' = s\<lparr>kmsgs := (kmsgs s)(w := 1)\<rparr>"
    using pstep_wakeup [OF assms(2), of s w] z ps by auto
  with send show ?thesis
    by (auto simp: lagged_def waking_state_def intro!: rw_lag.next_one)
qed

text \<open>The first section of each operation.\<close>

lemma rw_free_inv:
  assumes "free_state (rw_impl r n) md Q s"
    and "md = Unlocked \<longrightarrow> Q (Reader_queue r) = [] \<and> Q (Writer_queue r) = []"
    and "\<forall>k. md = Reading k \<longrightarrow> Q (Reader_queue r) = []"
  shows "rw_inv s Q r"
  using assms by (cases md) (auto simp: free_state_def rw_inv_def)

lemma rw_trylock_held:
  assumes "spin s (R_held r) = 1"
  shows "pthread_spin_trylock (R_held r) (upd_spin (R_lock r) 1 s) = (EBUSY, upd_spin (R_lock r) 1 s)"
proof -
  have h: "spin (upd_spin (R_lock r) 1 s) (R_held r) = 1" using assms by simp
  show ?thesis using upd_spin_same [OF h] h by (simp add: pthread_spin_trylock_def)
qed

lemma rw_front_read:
  assumes fr: "free_state (rw_impl r n) md Q s" and inv: "rw_inv s Q r" and md: "md \<noteq> Writing"
    and o1: "o1 = Rdlock ts \<or> o1 = Tryrdlock" and ps: "pstep E (rw_prog r n t o1) s p s'"
  shows "entered (rw_gate r n D) (rw_impl r n) t o1 md Q p s' \<and> kmsgs s' = kmsgs s"
proof (cases md)
  case Unlocked
  with fr rw_inv_first [OF inv] inv have "p = Return OK \<and> s' = pthread_spin_unlock (R_lock r)
      (upd_rwlock r (\<lambda>x. x\<lparr>rw_readers := 1\<rparr>) (upd_spin (R_held r) 1 (upd_spin (R_lock r) 1 s)))"
    using ps o1
    by (auto simp: pthread_rwlock_timedrdlock_internal_def pthread_rwlock_tryrdlock_def pstep_spin_section
        pstep_spin_section_last rw_sections free_state_def rw_inv_def)
  with Unlocked o1 fr show ?thesis
    by (auto simp: entered_def free_state_def pthread_spin_unlock_def)
next
  case (Reading k)
  with fr have h: "spin s (R_held r) = 1" "rw_readers (rwlocks s r) = int k" "k > 0" by (simp_all add: free_state_def)
  have c: "cell s (Reader_queue r) = None"
    using rw_inv_first(1) [OF inv] inv h by (simp add: rw_inv_def)
  have "p = Return OK \<and> s' = pthread_spin_unlock (R_lock r)
      (upd_rwlock r (\<lambda>x. x\<lparr>rw_readers := rw_readers x + 1\<rparr>) (upd_spin (R_lock r) 1 s))"
    using ps o1 rw_trylock_held [OF h(1)] h c
    by (auto simp: pthread_rwlock_timedrdlock_internal_def pthread_rwlock_tryrdlock_def pstep_spin_section
        pstep_spin_section_last rdlock_enter_def tryrdlock_section_def)
  with Reading o1 fr show ?thesis
    by (auto simp: entered_def free_state_def pthread_spin_unlock_def)
qed (use md in simp)

lemma rw_front_write:
  assumes fr: "free_state (rw_impl r n) Unlocked Q s" and inv: "rw_inv s Q r"
    and o1: "o1 = Wrlock ts \<or> o1 = Trywrlock" and ps: "pstep E (rw_prog r n t o1) s p s'"
  shows "entered (rw_gate r n D) (rw_impl r n) t o1 Unlocked Q p s' \<and> kmsgs s' = kmsgs s"
proof -
  from fr rw_inv_first [OF inv] inv have "p = Return OK \<and>
      s' = pthread_spin_unlock (R_lock r) (upd_spin (R_held r) 1 (upd_spin (R_lock r) 1 s))"
    using ps o1
    by (auto simp: pthread_rwlock_timedwrlock_internal_def pthread_rwlock_trywrlock_def pstep_spin_section
        pstep_spin_section_last rw_sections free_state_def rw_inv_def)
  with o1 fr show ?thesis by (auto simp: entered_def free_state_def pthread_spin_unlock_def)
qed

lemma rw_front_busy:
  assumes fr: "free_state (rw_impl r n) md Q s" and h: "spin s (R_held r) = 1"
    and o1: "o1 = Trywrlock \<or> o1 = Tryrdlock \<and> md = Writing" and ps: "pstep E (rw_prog r n t o1) s p s'"
  shows "entered (rw_gate r n D) (rw_impl r n) t o1 md Q p s' \<and> kmsgs s' = kmsgs s"
proof -
  have "p = Return EBUSY \<and> s' = pthread_spin_unlock (R_lock r) (upd_spin (R_lock r) 1 s)"
    using ps o1 fr rw_trylock_held [OF h]
    by (auto simp: pthread_rwlock_trywrlock_def pthread_rwlock_tryrdlock_def pstep_spin_section_last
        tryrdlock_section_def trywrlock_section_def free_state_def)
  with o1 fr h show ?thesis
    by (cases md) (auto simp: entered_def free_state_def pthread_spin_unlock_def)
qed

lemma rw_front_join:
  assumes fr: "free_state (rw_impl r n) md Q s" and inv: "rw_inv s Q r" and h: "spin s (R_held r) = 1"
    and o1: "o1 = Wrlock ts \<or> o1 = Rdlock ts \<and> md = Writing" and ts: "\<not> bad_nsec ts" and nq: "\<not> queued s t"
    and ps: "pstep E (rw_prog r n t o1) s p s'"
  shows "entered (rw_gate r n D) (rw_impl r n) t o1 md Q p s' \<and> kmsgs s' = kmsgs s"
proof -
  let ?s = "upd_spin (R_lock r) 1 s"
  obtain l where l: "rw_line r o1 = Some l" "is_head l" using o1 by auto
  from rw_enqueue [OF inv h nq l(2)] obtain c v
    where cv: "pthread_enqueue l t ?s = Some (?s\<lparr>cell := c, prevp := v\<rparr>)"
      "pthread_spin_unlock (R_lock r) (?s\<lparr>cell := c, prevp := v\<rparr>) = s\<lparr>cell := c, prevp := v\<rparr>"
      "linked c v (Q(l := t # Q l))" by auto
  have "p = blocked_prog (rw_gate r n D) (rw_impl r n) t o1 \<and> s' = s\<lparr>cell := c, prevp := v\<rparr>"
    using ps o1 fr l(1) cv(1,2) rw_trylock_held [OF h] ts
    by (auto simp: pthread_rwlock_timedwrlock_internal_def pthread_rwlock_timedrdlock_internal_def
        pstep_spin_section rdlock_enter_def wrlock_enter_def free_state_def rw_woken_part)
  moreover have "rw_entry r o1 t md Q = Join md"
    using o1 fr h by (cases md) (auto simp: free_state_def)
  ultimately show ?thesis using l fr cv(3) by (auto simp: entered_def free_state_def)
qed

lemma rw_front_leave:
  assumes fr: "free_state (rw_impl r n) (Reading (Suc (Suc k))) Q s" and ps: "pstep E (pthread_rwlock_unlock n r) s p s'"
  shows "entered (rw_gate r n D) (rw_impl r n) t Unlock (Reading (Suc (Suc k))) Q p s' \<and> kmsgs s' = kmsgs s"
proof -
  have h: "spin s (R_held r) = 1" "rw_readers (rwlocks s r) = int k + 2" using fr by (simp_all add: free_state_def)
  have "p = Return OK \<and> s' = pthread_spin_unlock (R_lock r)
      (upd_rwlock r (\<lambda>x. x\<lparr>rw_readers := rw_readers x - 1\<rparr>) (upd_spin (R_lock r) 1 s))"
    using ps rw_trylock_held [OF h(1)] h(2)
    by (auto simp: pthread_rwlock_unlock_def pstep_spin_section rw_unlock_section_def)
  with fr show ?thesis by (auto simp: entered_def free_state_def pthread_spin_unlock_def)
qed

lemma rw_front_pass_on:
  assumes fr: "free_state (rw_impl r n) md Q s" and inv: "rw_inv s Q r" and md: "md = Reading 1 \<or> md = Writing"
    and n: "length (Q (Reader_queue r)) \<le> n" and ps: "pstep E (pthread_rwlock_unlock n r) s p s'"
  shows "entered (rw_gate r n D) (rw_impl r n) t Unlock md Q p s' \<and> kmsgs s' = kmsgs s"
proof -
  let ?s = "no_readers r (upd_spin (R_lock r) 1 s)"
  have h: "spin s (R_held r) = 1" "rw_readers (rwlocks s r) \<in> {0, 1}" "spin s (R_lock r) = 0" "queues ?s Q"
    using fr md by (auto simp: free_state_def)
  have en: "rw_entry r Unlock t md Q = rw_pass_on r Q" using md by auto
  note last = rw_unlock_last [OF h(1,2)]
  show ?thesis
  proof (cases "Q (Writer_queue r)")
    case (Cons w ws)
    have c: "cell s (Writer_queue r) = Some w" using rw_inv_first(2) [OF inv] Cons by simp
    from wq.deq_first(2) [OF h(4), of "Writer_queue r" w ws] Cons
    obtain s0 where s0: "pthread_dequeue w ?s = Some s0" "queues s0 (Q(Writer_queue r := ws))" by auto
    from pthread_dequeue_frame [OF s0(1)] obtain c' v where s0': "s0 = ?s\<lparr>cell := c', prevp := v\<rparr>" by auto
    have "p = andthen (pthread_wakeup w) (\<lambda>_. Return OK) \<and> s' = pthread_spin_unlock (R_lock r) s0"
      using ps last c s0(1) by (auto simp: pthread_rwlock_unlock_def pstep_spin_section Let_def)
    with en Cons s0' s0(2) h show ?thesis
      by (auto simp: entered_def rw_pass_on_def free_state_def wakes_one_def pthread_spin_unlock_def no_readers_def)
  next
    case Nil
    have c: "cell s (Writer_queue r) = None" using rw_inv_first(2) [OF inv] Nil by simp
    show ?thesis
    proof (cases "Q (Reader_queue r) = []")
      case True
      then have "cell s (Reader_queue r) = None" using rw_inv_first(1) [OF inv] by simp
      then have "p = Return OK \<and> s' = pthread_spin_unlock (R_lock r) (pthread_spin_unlock (R_held r) ?s)"
        using ps last c by (auto simp: pthread_rwlock_unlock_def pstep_spin_section Let_def)
      with en Nil True h show ?thesis
        by (auto simp: entered_def rw_pass_on_def free_state_def pthread_spin_unlock_def no_readers_def)
    next
      case False
      then obtain u us where us: "Q (Reader_queue r) = u # us" by (cases "Q (Reader_queue r)") auto
      then have c': "cell s (Reader_queue r) = Some u" using rw_inv_first(1) [OF inv] by simp
      have p: "p = andthen (gets (\<lambda>s. cell s (Reader_queue r))) (rw_loop r n) \<and> s' = ?s"
        using ps last c c'
        by (auto simp: pthread_rwlock_unlock_def pstep_spin_section Let_def rw_loop_def [abs_def] rw_final_def)
      have "path (cell s) (cell s (Reader_queue r)) (Q (Reader_queue r))"
        using chain_path linkedD(1) [OF h(4), of "Reader_queue r"] by auto
      moreover have "waking_state r (length (Q (Reader_queue r))) (Q(Reader_queue r := []))
          (length (Q (Reader_queue r))) (Q (Reader_queue r)) ?s"
        using h False linked_clear [OF h(4), of "Reader_queue r"] by (simp add: waking_state_def)
      ultimately have "rw_lag r n OK (Q (Reader_queue r)) (Reading (length (Q (Reader_queue r))))
          (Q(Reader_queue r := [])) p s'"
        using p n by (auto intro: rw_lag.start)
      with p en Nil False show ?thesis by (simp add: entered_def rw_pass_on_def no_readers_def)
    qed
  qed
qed

lemma line_length:
  assumes "gate_inv G a"
  shows "length (que a l) \<le> bound G"
proof -
  note lines = gate_invD(2) [OF assms]
  have "set (que a l) \<subseteq> {..<bound G}"
    using lines_okD(2) [OF lines] request_allowed [OF assms] by fastforce
  then have "card (set (que a l)) \<le> bound G" using card_mono [of "{..<bound G}"] by fastforce
  then show ?thesis using distinct_card [OF lines_okD(1) [OF lines]] by simp
qed

lemma rw_front_step:
  assumes re: "greach (rw_gate r n D) (room_init No_lock Unlocked) a" and st: "stages a t = Entering h o1"
    and al: "rw_allowed D h o1" and fr: "free_state (rw_impl r n) (res a) (que a) s" and nq: "\<not> queued s t"
    and ps: "pstep E (rw_prog r n t o1) s p s'"
  shows "entered (rw_gate r n D) (rw_impl r n) t o1 (res a) (que a) p s' \<and> kmsgs s' = kmsgs s"
proof -
  have inv: "gate_inv (rw_gate r n D) a" and room: "rw_room r n D a" using rw_reach_room [OF re] by auto
  have ri: "rw_inv s (que a) r" using rw_free_inv [OF fr] room by (simp add: rw_room_def)
  have held: "spin s (R_held r) = 1" if "res a \<noteq> Unlocked" using fr that by (cases "res a") (auto simp: free_state_def)
  show ?thesis
  proof (cases o1)
    case (Rdlock ts)
    with al ps nq show ?thesis
      using rw_front_read [OF fr ri, of o1 ts] rw_front_join [OF fr ri held, of o1 ts] by (cases "res a = Writing") auto
  next
    case Tryrdlock
    with ps show ?thesis
      using rw_front_read [OF fr ri, of o1] rw_front_busy [OF fr held, of o1] by (cases "res a = Writing") auto
  next
    case (Wrlock ts)
    with al ps nq fr show ?thesis
      using rw_front_write [of r n "que a" s, OF _ ri, of o1 ts] rw_front_join [OF fr ri held, of o1 ts]
      by (cases "res a = Unlocked") auto
  next
    case Trywrlock
    with ps fr show ?thesis
      using rw_front_write [of r n "que a" s, OF _ ri, of o1] rw_front_busy [OF fr held, of o1]
      by (cases "res a = Unlocked") auto
  next
    case Unlock
    have h: "holds (rw_gate r n D) a t \<noteq> No_lock" using st al Unlock by (simp add: holds_def)
    have "res a \<noteq> Unlocked" using room h nobody [of "holds (rw_gate r n D) a" t] by (auto simp: rw_room_def)
    moreover have "res a \<noteq> Reading 0" using room by (auto simp: rw_room_def)
    ultimately consider k where "res a = Reading (Suc (Suc k))" | "res a = Reading 1 \<or> res a = Writing"
      by (metis One_nat_def lock_mode.exhaust not0_implies_Suc)
    then show ?thesis
    proof cases
      case 1
      with rw_front_leave [OF fr [unfolded 1]] ps Unlock show ?thesis by simp
    next
      case 2
      with rw_front_pass_on [OF fr ri] line_length [OF inv, of "Reader_queue r"] ps Unlock show ?thesis by simp
    qed
  qed
qed

lemmas rw_prog_defs =
  pthread_rwlock_timedrdlock_internal_def pthread_rwlock_timedwrlock_internal_def
  pthread_rwlock_tryrdlock_def pthread_rwlock_trywrlock_def pthread_rwlock_unlock_def

lemma rw_prog_not [simp]: "Return v \<noteq> rw_prog r n t o1" "Crash f \<noteq> rw_prog r n t o1"
  by (cases o1; simp add: rw_prog_defs spin_section_def section_of_def)+

lemma rw_prog_locked: "pstep E (rw_prog r n t o1) s p s' \<Longrightarrow> spin s (R_lock r) = 0"
  by (cases o1) (auto simp: rw_prog_defs pstep_spin_section pstep_spin_section_last)

lemma rw_last_not: "rw_last r o1 OK = Return v \<Longrightarrow> v = OK" "rw_last r o1 OK \<noteq> Crash f"
  by (cases o1; simp add: rdlock_end_def wrlock_end_def gets_def)+

lemma rw_last_late: "rw_last r o1 ETIMEDOUT = Return ETIMEDOUT"
  by (cases o1) (simp_all add: rdlock_end_def wrlock_end_def assert_p_def)

lemma rw_last_step:
  assumes "rw_object r md s" and "rw_settled o1 md" and "pstep E (rw_last r o1 OK) s p s'"
  shows "p = Return OK \<and> rw_object r md s' \<and> (\<exists>x. s' = s\<lparr>mutexes := x\<rparr>)"
proof -
  have "p = Return OK \<and> s' = s"
    using assms by (cases o1) (auto simp: rdlock_end_def wrlock_end_def gets_def pstep_iffs assert_p_def)
  then show ?thesis using assms(1) same_mutexes by blast
qed

lemma rw_loop_not: "Return v \<noteq> rw_loop r j st" "Crash f \<noteq> rw_loop r j st"
  by (cases st; cases j; simp add: rw_loop_def rw_final_def modify_def stuck_def)+

lemma rw_lag_not: "\<not> rw_lag r n e ws md Q (Return v) s" "\<not> rw_lag r n e ws md Q (Crash f) s"
  by (auto elim!: rw_lag.cases simp: gets_def wake_reader_def modify_def pthread_wakeup_def syscall_def rw_loop_not)

lemma rw_ending:
  assumes re: "greach (rw_gate r n D) (room_init No_lock Unlocked) a" and st: "stages a t = Ending h o1"
  shows "rw_settled o1 (res a) \<and> locked a = None"
proof -
  have inv: "gate_inv (rw_gate r n D) a" and room: "mode_ok (D \<subseteq> {None}) (res a) (holds (rw_gate r n D) a)"
    and lk: "locked a = None" using rw_reach_room [OF re] st by (auto simp: rw_room_def)
  have w: "waitable (rw_gate r n D) h o1" using gate_invD(1) [OF inv, of t] st by simp
  have h: "holds (rw_gate r n D) a t = rw_gain o1" using st by (simp add: holds_def)
  have "rw_settled o1 (res a)"
  proof (cases o1)
    case (Rdlock ts)
    with h have "t \<in> holders (holds (rw_gate r n D) a) Reader" by (simp add: holders_iff)
    with room Rdlock show ?thesis by (cases "res a") (auto simp: gr0_conv_Suc)
  next
    case (Wrlock ts)
    with h have "t \<in> holders (holds (rw_gate r n D) a) Writer" by (simp add: holders_iff)
    with room Wrlock show ?thesis by (cases "res a") auto
  qed simp_all
  with lk show ?thesis by blast
qed

lemma rw_line_head: "rw_line r o1 = Some l \<Longrightarrow> is_head l"
  by (cases o1) auto

lemma rw_gate_impl:
  assumes "mach_ports E" and "clock_ok E"
  shows "gate_impl (rw_gate r n D) (rw_rules n D) (rw_impl r n) E (room_init No_lock Unlocked)"
proof unfold_locales
  fix t o1 p s p' s'
  assume "spin s (guard_of (rw_impl r n)) \<noteq> 0" and "front_part (rw_impl r n) t o1 p" and "pstep E p s p' s'"
  then show "front_part (rw_impl r n) t o1 p' \<and> s' = s" using rw_prog_locked by auto
next
  fix a t h o1 p s p' s'
  assume "greach (rw_gate r n D) (room_init No_lock Unlocked) a" and "stages a t = Entering h o1"
    and "allowed (rw_gate r n D) h o1" and "front_part (rw_impl r n) t o1 p"
    and "free_state (rw_impl r n) (res a) (que a) s" and "\<not> queued s t" and "pstep E p s p' s'"
  then show "front_part (rw_impl r n) t o1 p' \<and> s' = s \<or>
      entered (rw_gate r n D) (rw_impl r n) t o1 (res a) (que a) p' s' \<and> kmsgs s' = kmsgs s"
    using rw_front_step by simp
next
  fix t o1 e ws md Q p s p' s'
  assume "lag (rw_impl r n) t o1 e ws md Q p s" and "\<And>w. w \<in> set ws \<Longrightarrow> kmsgs s w = 0" and "distinct ws"
    and "pstep E p s p' s'"
  then show "lagged (rw_impl r n) t o1 e ws md Q s p' s'" using rw_lag_step assms(1) by simp
next
  show "gain (rw_rules n D) = gain (rw_gate r n D)" by (intro ext) simp
qed (use assms room_init_inv rw_line_head rw_last_not rw_last_late rw_last_step rw_lag_not rw_ending in
    \<open>auto simp: pstep_iffs\<close>)

lemma rw_prog_goes: "spin s (R_lock r) = 0 \<Longrightarrow> \<exists>p' s'. pstep E (rw_prog r n t o1) s p' s'"
  by (cases o1) (auto simp: rw_prog_defs pstep_spin_section pstep_spin_section_last)

lemma rw_last_goes:
  "(\<exists>v. rw_last r o1 OK = Return v) \<or> (\<exists>p' s'. pstep E (rw_last r o1 OK) s p' s')"
  by (cases o1) (auto simp: rdlock_end_def wrlock_end_def gets_def pstep_iffs)

lemma rw_lag_goes:
  assumes "rw_lag r n e ws md Q p s" and "mach_ports E"
  shows "\<exists>p' s'. pstep E p s p' s'"
  using assms(1)
proof cases
  case (next_one m st j)
  then show ?thesis
    by (cases ws; cases j) (auto simp: rw_loop_def rw_final_def modify_def pstep_iffs)
next
  case (send m vs st j w)
  then show ?thesis
    using mach_portsD(1) [OF assms(2), of w s] by (auto simp: pthread_wakeup_def andthen_syscall pstep_iffs)
qed (auto simp: gets_def wake_reader_def modify_def pstep_iffs)

lemma rw_gate_live:
  assumes "mach_ports E" and "clock_ok E"
  shows "gate_live (rw_gate r n D) (rw_rules n D) (rw_impl r n) E (room_init No_lock Unlocked)"
  by (intro gate_live.intro rw_gate_impl assms gate_live_axioms.intro)
    (use rw_prog_goes rw_last_goes rw_lag_goes [OF _ assms(1)] in auto)

interpretation rw_live: gate_live "rw_gate r n D" "rw_rules n D" "rw_impl r n" "port_env now"
    "room_init No_lock Unlocked" for r n D now
  by (rule rw_gate_live) simp_all

section \<open>Safety and progress\<close>

lemma rw_start_rel:
  "rw_start r c \<Longrightarrow> callers_rel (rw_gate r n D) (rw_impl r n) (room_init No_lock Unlocked) c"
  by (cases c)
    (simp add: rw_start_def callers_rel_def room_init_def room_rel_def free_state_def)

lemma rw_creach:
  assumes "mach_ports E" and "clock_ok E" and "rw_start r c"
    and "creach E (rw_rules n D) (rw_prog r n) (\<lambda>v. v) c (cs, s)"
  obtains a where "gate_inv (rw_gate r n D) a" "rw_room r n D a"
    "callers_rel (rw_gate r n D) (rw_impl r n) a (cs, s)"
proof -
  from gate_impl.creach_rel_always [OF rw_gate_impl [OF assms(1,2), of r n D] _ rw_start_rel [OF assms(3)]] assms(4)
  obtain a where a: "greach (rw_gate r n D) (room_init No_lock Unlocked) a"
    "callers_rel (rw_gate r n D) (rw_impl r n) a (cs, s)" by auto
  with rw_reach_room [OF a(1)] that show ?thesis by blast
qed

lemma rw_away:
  assumes "callers_rel (rw_gate r n D) (rw_impl r n) a (cs, s)" and "cs t = Away h"
  shows "holds (rw_gate r n D) a t = h"
proof -
  have "caller_rel (rw_gate r n D) (rw_impl r n) t (stages a t) (res a) (que a) s (cs t)"
    using assms(1) by (simp add: callers_rel_def)
  with assms(2) show ?thesis by (cases "stages a t") (auto simp: holds_def)
qed

text \<open>
  C4: Readers and writers exclude each other.  In every interleaving of lock operations for reading and
  writing, with and without deadlines, attempts and unlocks by any number of threads, a thread that
  holds the lock for writing is the only holder.  The callers keep to the rules of \<open>rw_allowed\<close>: nobody locks
  again, for reading or writing, what it holds, or unlocks what it does not hold, and deadlines have a
  \<^verbatim>\<open>tv_nsec\<close> in range.
\<close>

theorem rwlock_exclusion:
  assumes "mach_ports E" and "clock_ok E" and "rw_start r c"
    and "creach E (rw_rules n D) (rw_prog r n) (\<lambda>v. v) c (cs, s)" and "cs t = Away Writer"
  shows "{u. cs u = Away Reader \<or> cs u = Away Writer} = {t}"
proof -
  obtain a where room: "rw_room r n D a" and rel: "callers_rel (rw_gate r n D) (rw_impl r n) a (cs, s)"
    using rw_creach [OF assms(1-4)] by blast
  let ?hs = "holds (rw_gate r n D) a"
  have t: "?hs t = Writer" using rw_away [OF rel assms(5)] .
  then have ne: "?hs t \<noteq> No_lock" by simp
  have "res a \<noteq> Reading k" for k using room t by (auto simp: rw_room_def holders_def)
  then have "?hs u = No_lock" if "u \<noteq> t" for u
    using mode_sole [of _ "res a" ?hs t u] room ne that by (auto simp: rw_room_def)
  then show ?thesis using rw_away [OF rel] assms(5) by fastforce
qed

definition rw_start0 :: "(rw_hold, rw_op, rc) callers" where
  "rw_start0 = ((\<lambda>_. Away No_lock), zero_state)"

lemma rw_start0: "rw_start r rw_start0"
  by (simp add: rw_start_def rw_start0_def)

lemma rw_written:
  "creach port0 (rw_rules 2 {None}) (rw_prog Threads_lock 2) (\<lambda>v. v) rw_start0
     ((\<lambda>_. Away No_lock)(1 := Away Writer), upd_spin (R_held Threads_lock) 1 zero_state)"
proof -
  have "run (rw_prog Threads_lock 2 1 (Wrlock None)) port0 zero_state =
      Done OK (upd_spin (R_held Threads_lock) 1 zero_state)"
    using run_wrlock_free [OF rw_inv_zero, of Threads_lock 1 None port0] by simp
  from creach_call [where cs = "\<lambda>_. Away No_lock" and t = 1 and prog = "rw_prog Threads_lock 2" and ?o1.0 = "Wrlock None"
      and R = "rw_rules 2 {None}" and code = "\<lambda>v. v" and h = No_lock, OF creach.init _ _ _ this]
  show ?thesis by (simp add: rw_start0_def)
qed

theorem rwlock_exclusion_witness:
  "{u. ((\<lambda>_::nat. Away No_lock :: (rw_hold, rw_op, rc) caller)(1 := Away Writer)) u = Away Reader \<or>
       ((\<lambda>_::nat. Away No_lock :: (rw_hold, rw_op, rc) caller)(1 := Away Writer)) u = Away Writer} = {1}"
  by (rule rwlock_exclusion [OF mach_ports_port_env clock_ok_port_env rw_start0 rw_written]) simp

text \<open>
  C5: Deadlock freedom of read-write locks.  As long as nobody uses a deadline, a system in which some
  thread is inside a call has a thread that can go on, or a thread that holds the lock and is not
  inside a call: waiting readers and writers are never left behind by the last holder.  The callers keep to
  the rules of \<open>rw_allowed\<close>.
\<close>

theorem rwlock_progress:
  assumes "mach_ports E" and "clock_ok E" and "rw_start r c"
    and "creach E (rw_rules n {None}) (rw_prog r n) (\<lambda>v. v) c (cs, s)" and "cs t = Calling h o1 p"
  shows "\<exists>u. can_go E (cs u) s \<or> cs u = Away Reader \<or> cs u = Away Writer"
proof (rule ccontr)
  assume no: "\<not> (\<exists>u. can_go E (cs u) s \<or> cs u = Away Reader \<or> cs u = Away Writer)"
  obtain a where inv: "gate_inv (rw_gate r n {None}) a" and room: "rw_room r n {None} a"
    and rel: "callers_rel (rw_gate r n {None}) (rw_impl r n) a (cs, s)"
    using rw_creach [OF assms(1-4)] by blast
  let ?hs = "holds (rw_gate r n {None}) a"
  have un: "rw_deadline o1 = None" if "rw_allowed {None} h o1" for h o1 using that by (cases o1) auto
  have st: "(\<exists>h. stages a u = Resting h) \<or> (\<exists>h o1. stages a u = Blocking h o1 \<and> in_line (que a) u)" for u
    by (rule gate_live.standstill [OF rw_gate_live [OF assms(1,2)] rel inv]) (use no un in auto)
  have c: "caller_rel (rw_gate r n {None}) (rw_impl r n) u (stages a u) (res a) (que a) s (cs u)" for u
    using rel by (simp add: callers_rel_def)
  have w: "waitable (rw_gate r n {None}) h o1" if "stages a u = Blocking h o1" for u h o1
    using gate_invD(1) [OF inv, of u] that by simp
  have "?hs u = No_lock" for u
  proof -
    consider h where "stages a u = Resting h" | h o1 where "stages a u = Blocking h o1" "in_line (que a) u"
      using st [of u] by blast
    then show ?thesis
    proof cases
      case 1
      with c [of u] no show ?thesis by (cases h) (auto simp: holds_def)
    next
      case 2
      with w [OF 2(1)] show ?thesis by (cases o1) (auto simp: holds_def waitable_def)
    qed
  qed
  then have e: "holders ?hs Reader = {}" "holders ?hs Writer = {}" by (simp_all add: holders_def)
  have "res a = Unlocked" using room e by (cases "res a") (auto simp: rw_room_def)
  then have q: "que a (Reader_queue r) = []" "que a (Writer_queue r) = []" using room by (simp_all add: rw_room_def)
  from st [of t] c [of t] assms(5) obtain h o1 where b: "stages a t = Blocking h o1" "in_line (que a) t" by auto
  then obtain l where l: "t \<in> set (que a l)" by (auto simp: in_line_def)
  with lines_okD(2) [OF gate_invD(2) [OF inv] l] b(1) have "l = Reader_queue r \<or> l = Writer_queue r"
    by (cases o1) auto
  with l q show False by auto
qed

text \<open>A writer waits for the thread that holds the lock.\<close>

lemma rw_called:
  "creach port0 (rw_rules 2 {None}) (rw_prog Threads_lock 2) (\<lambda>v. v) rw_start0
     ((\<lambda>_. Away No_lock)(1 := Away Writer, 0 := Calling No_lock (Wrlock None) (rw_prog Threads_lock 2 0 (Wrlock None))),
      upd_spin (R_held Threads_lock) 1 zero_state)"
  by (rule creach.step [OF rw_written cstep.call]) simp_all

theorem rwlock_progress_witness:
  "\<exists>u. can_go port0 (((\<lambda>_. Away No_lock)((1::nat) := Away Writer,
         0 := Calling No_lock (Wrlock None) (rw_prog Threads_lock 2 0 (Wrlock None)))) u)
         (upd_spin (R_held Threads_lock) 1 zero_state) \<or>
       ((\<lambda>_. Away No_lock)((1::nat) := Away Writer,
         0 := Calling No_lock (Wrlock None) (rw_prog Threads_lock 2 0 (Wrlock None)))) u = Away Reader \<or>
       ((\<lambda>_. Away No_lock)((1::nat) := Away Writer,
         0 := Calling No_lock (Wrlock None) (rw_prog Threads_lock 2 0 (Wrlock None)))) u = Away Writer"
  by (rule rwlock_progress [OF mach_ports_port_env clock_ok_port_env rw_start0 rw_called, where t = 0]) simp

text \<open>
  C11: No operation on a read-write lock fails an assertion or otherwise crashes, in any interleaving of callers
  that keep to the rules of \<open>rw_allowed\<close>:
  the assertions on the queues and on the number of readers, among them those that a woken thread
  makes without the spin lock, always hold.
\<close>

theorem rwlock_no_crash:
  assumes "mach_ports E" and "clock_ok E" and "rw_start r c"
    and "creach E (rw_rules n D) (rw_prog r n) (\<lambda>v. v) c (cs, s)"
  shows "cs t \<noteq> Calling h o1 (Crash f)"
proof -
  obtain a where "callers_rel (rw_gate r n D) (rw_impl r n) a (cs, s)" using rw_creach [OF assms] by blast
  then show ?thesis using gate_impl.caller_no_crash [OF rw_gate_impl [OF assms(1,2)]] by blast
qed

theorem rwlock_no_crash_witness:
  "((\<lambda>_::nat. Away No_lock :: (rw_hold, rw_op, rc) caller)(1 := Away Writer)) 1 \<noteq>
     Calling No_lock Unlock (Crash Assert_failed)"
  by (rule rwlock_no_crash [OF mach_ports_port_env clock_ok_port_env rw_start0 rw_written])

end
