(* ===== verification/Barrier.thy ===== *)
theory Barrier
  imports Mutex
begin

text \<open>
  Barriers (\<^verbatim>\<open>sysdeps/generic/pt-barrier-*.c\<close>).  The thread that completes a round detaches the whole
  queue of waiters, releases the spin lock and then wakes them one by one.
\<close>

section \<open>Operations\<close>

text \<open>The two results of \<^verbatim>\<open>pthread_barrier_wait\<close>: 0 and \<^verbatim>\<open>PTHREAD_BARRIER_SERIAL_THREAD\<close>.\<close>

datatype barrier_result = Barrier_passed | PTHREAD_BARRIER_SERIAL_THREAD

definition barrier_zero :: "baddr \<Rightarrow> 32 word \<Rightarrow> pt_state \<Rightarrow> pt_state" where
  "barrier_zero b count s =
     s\<lparr>spin := (spin s)(B_lock b := 0), cell := (cell s)(Barrier_queue b := None),
       barriers := (barriers s)(b := \<lparr>b_pending = count, b_count = count, b_attr = None\<rparr>)\<rparr>"

text \<open>Again the \<^verbatim>\<open>memcmp\<close> compares no bytes.\<close>

definition pthread_barrier_init :: "baddr \<Rightarrow> pthread_barrierattr option \<Rightarrow> 32 word \<Rightarrow> rc pt" where
  "pthread_barrier_init b attr count =
     (if count = 0 then Return EINVAL
      else
        andthen (modify (barrier_zero b count)) (\<lambda>_.
          case attr of
            None \<Rightarrow> Return OK
          | Some a \<Rightarrow>
              andthen (syscall Malloc) (\<lambda>(_, p, _).
                if p = 0 then Return ENOMEM
                else andthen (modify (upd_barrier b (\<lambda>x. x\<lparr>b_attr := Some a\<rparr>))) (\<lambda>_. Return OK))))"

definition pthread_barrier_destroy :: "baddr \<Rightarrow> rc pt" where
  "pthread_barrier_destroy b = Return OK"

text \<open>
  The critical section.  The result is the detached queue of a completed round, or \<open>None\<close> if
  the thread has queued itself.  In a round of one thread the code returns without unlocking.
\<close>

definition barrier_section :: "baddr \<Rightarrow> thr \<Rightarrow> pt_state \<Rightarrow> (fault + thr option option) \<times> pt_state" where
  "barrier_section b self s =
     (let s1 = upd_barrier b (\<lambda>x. x\<lparr>b_pending := b_pending x - 1\<rparr>) s in
      if b_pending (barriers s1 b) = 0 then
        (let s2 = upd_barrier b (\<lambda>x. x\<lparr>b_pending := b_count x\<rparr>) s1 in
         if b_count (barriers s2 b) > 1 then
           (Inr (Some (cell s2 (Barrier_queue b))),
            pthread_spin_unlock (B_lock b) (s2\<lparr>cell := (cell s2)(Barrier_queue b := None)\<rparr>))
         else (Inr (Some None), s2))
      else
        (case pthread_enqueue (Barrier_queue b) self s1 of
           None \<Rightarrow> (Inl Assert_failed, s1)
         | Some s2 \<Rightarrow> (Inr None, pthread_spin_unlock (B_lock b) s2)))"

text \<open>\<open>n\<close> bounds the loop over the waiters.\<close>

definition pthread_barrier_wait :: "nat \<Rightarrow> baddr \<Rightarrow> thr \<Rightarrow> barrier_result pt" where
  "pthread_barrier_wait n b self =
     andthen (spin_section (B_lock b) (barrier_section b self)) (\<lambda>r.
       case r of
         Some wakeup \<Rightarrow>
           andthen (pthread_dequeuing_iterate n wakeup pthread_wakeup)
             (\<lambda>_. Return PTHREAD_BARRIER_SERIAL_THREAD)
       | None \<Rightarrow> andthen (pthread_block self) (\<lambda>_. Return Barrier_passed))"

section \<open>Properties\<close>

text \<open>Between operations: as many waiters as threads of the round have arrived.\<close>

definition barrier_inv :: "pt_state \<Rightarrow> queue_view \<Rightarrow> baddr \<Rightarrow> bool" where
  "barrier_inv s Q b \<longleftrightarrow>
     queues s Q \<and> spin s (B_lock b) = 0 \<and> 0 < unat (b_pending (barriers s b)) \<and>
     length (Q (Barrier_queue b)) + unat (b_pending (barriers s b)) = unat (b_count (barriers s b))"

lemma run_barrier_arrive:
  assumes inv: "barrier_inv s Q b" and "b_pending (barriers s b) \<noteq> 1" and "\<not> queued s t"
    and "mach_ports h" and "kmsgs s t = 0"
  shows "\<exists>p s1. run (pthread_barrier_wait n b t) h s = Waiting p s1 \<and>
           barrier_inv s1 (Q(Barrier_queue b := t # Q (Barrier_queue b))) b \<and>
           b_pending (barriers s1 b) = b_pending (barriers s b) - 1"
proof -
  let ?s = "upd_barrier b (\<lambda>x. x\<lparr>b_pending := b_pending x - 1\<rparr>) (upd_spin (B_lock b) 1 s)"
  have sp: "spin s (B_lock b) = 0" and q: "queues ?s Q" "\<not> queued ?s t"
    using assms by (simp_all add: barrier_inv_def)
  from wq.enq_ok [OF q(1) _ q(2), of "Barrier_queue b"] obtain s0
    where s0: "pthread_enqueue (Barrier_queue b) t ?s = Some s0"
      "queues s0 (Q(Barrier_queue b := t # Q (Barrier_queue b)))" by auto
  from pthread_enqueue_frame [OF s0(1)] obtain c v where s0': "s0 = ?s\<lparr>cell := c, prevp := v\<rparr>" by auto
  let ?s1 = "upd_barrier b (\<lambda>x. x\<lparr>b_pending := b_pending x - 1\<rparr>) s\<lparr>cell := c, prevp := v\<rparr>"
  have un: "pthread_spin_unlock (B_lock b) s0 = ?s1"
    using sp s0' by (auto simp: pthread_spin_unlock_def intro!: pt_state.equality)
  have ne: "b_pending (barriers s b) - 1 \<noteq> 0" using assms(2) by auto
  have "barrier_section b t (upd_spin (B_lock b) 1 s) = (Inr None, ?s1)"
    using s0(1) un ne by (simp add: barrier_section_def Let_def)
  then have "\<exists>p. run (pthread_barrier_wait n b t) h s = Waiting p ?s1"
    using sp assms(5) by (simp add: pthread_barrier_wait_def run_simps run_block [OF assms(4)])
  moreover have un1: "unat (b_pending (barriers s b) - 1) = unat (b_pending (barriers s b)) - 1"
    using inv by (simp add: barrier_inv_def unat_sub_if_size)
  moreover have "unat (b_pending (barriers s b) - 1) \<noteq> 0"
    using ne by (simp add: unat_eq_zero)
  then have "barrier_inv ?s1 (Q(Barrier_queue b := t # Q (Barrier_queue b))) b"
    using inv s0(2) s0' un1 unfolding barrier_inv_def by auto
  ultimately show ?thesis by auto
qed

lemma run_barrier_last:
  assumes inv: "barrier_inv s Q b" and "b_pending (barriers s b) = 1" and "b_count (barriers s b) > 1"
    and "mach_ports h" and "\<And>t. t \<in> set (Q (Barrier_queue b)) \<Longrightarrow> kmsgs s t = 0"
    and "length (Q (Barrier_queue b)) \<le> n"
  shows "\<exists>s1. run (pthread_barrier_wait n b t) h s = Done PTHREAD_BARRIER_SERIAL_THREAD s1 \<and>
           barrier_inv s1 (Q(Barrier_queue b := [])) b \<and>
           b_pending (barriers s1 b) = b_count (barriers s b) \<and>
           kmsgs s1 = (\<lambda>t. if t \<in> set (Q (Barrier_queue b)) then 1 else kmsgs s t)"
proof -
  let ?ts = "Q (Barrier_queue b)"
  let ?s1 = "upd_barrier b (\<lambda>x. x\<lparr>b_pending := b_count x\<rparr>) s\<lparr>cell := (cell s)(Barrier_queue b := None)\<rparr>"
  have sp: "spin s (B_lock b) = 0" and q: "queues s Q" using inv by (simp_all add: barrier_inv_def)
  have ch: "chain (cell s) (prevp s) (Barrier_queue b) ?ts"
    using linkedD(1) [OF q, of "Barrier_queue b"] by simp
  have "path (cell ?s1) (cell s (Barrier_queue b)) ?ts"
    using path_cong [OF chain_path [OF ch], of "cell ?s1"] by simp
  from run_wake_all [OF assms(4) this assms(6)] assms(5) wq.view_distinct [OF q, of "Barrier_queue b"]
  have w: "run (pthread_dequeuing_iterate n (cell s (Barrier_queue b)) pthread_wakeup) h ?s1 =
      Done () (woken ?ts ?s1)" by simp
  have "barrier_section b t (upd_spin (B_lock b) 1 s) = (Inr (Some (cell s (Barrier_queue b))), ?s1)"
    using sp assms(2,3)
    by (auto simp: barrier_section_def Let_def pthread_spin_unlock_def intro!: pt_state.equality)
  then have "run (pthread_barrier_wait n b t) h s =
      Done PTHREAD_BARRIER_SERIAL_THREAD (woken ?ts ?s1)"
    using sp w by (simp add: pthread_barrier_wait_def run_simps)
  moreover have "queues (woken ?ts ?s1) (Q(Barrier_queue b := []))"
    using linked_clear [OF q, of "Barrier_queue b"] by (simp add: woken_def cong: if_cong)
  ultimately show ?thesis
    using inv assms(3)
    by (intro exI [of _ "woken ?ts ?s1"]) (auto simp: barrier_inv_def woken_def unat_gt_0)
qed

text \<open>
  A barrier for at least two threads: a thread that is not the last of its round blocks and
  the number of pending threads drops by one; the last one returns
  \<^verbatim>\<open>PTHREAD_BARRIER_SERIAL_THREAD\<close>, sends every waiter of the round one wakeup message, and leaves an
  empty barrier ready for the next round of the same size.
\<close>

theorem barrier_round:
  assumes "barrier_inv s Q b" and "b_count (barriers s b) > 1" and "mach_ports h"
    and "\<not> queued s t" and "kmsgs s t = 0"
    and "\<And>u. u \<in> set (Q (Barrier_queue b)) \<Longrightarrow> kmsgs s u = 0"
    and "length (Q (Barrier_queue b)) \<le> n"
  shows "\<exists>s1 Q1. barrier_inv s1 Q1 b \<and>
    (if b_pending (barriers s b) = 1
     then run (pthread_barrier_wait n b t) h s = Done PTHREAD_BARRIER_SERIAL_THREAD s1 \<and>
          Q1 = Q(Barrier_queue b := []) \<and> b_pending (barriers s1 b) = b_count (barriers s b) \<and>
          kmsgs s1 = (\<lambda>u. if u \<in> set (Q (Barrier_queue b)) then 1 else kmsgs s u)
     else (\<exists>p. run (pthread_barrier_wait n b t) h s = Waiting p s1) \<and>
          Q1 = Q(Barrier_queue b := t # Q (Barrier_queue b)) \<and>
          b_pending (barriers s1 b) = b_pending (barriers s b) - 1)"
proof (cases "b_pending (barriers s b) = 1")
  case True
  from run_barrier_last [OF assms(1) True assms(2,3,6,7), where t = t] True show ?thesis by auto
next
  case False
  from run_barrier_arrive [OF assms(1) False assms(4,3,5), of n] False show ?thesis by auto
qed

definition barrier_two :: pt_state where
  "barrier_two = zero_state\<lparr>
     barriers := (\<lambda>_. \<lparr>b_pending = 1, b_count = 2, b_attr = None\<rparr>),
     cell := (\<lambda>_. None)(Barrier_queue 0 := Some 2),
     prevp := (\<lambda>_. None)(2 := Some (Barrier_queue 0))\<rparr>"

lemma barrier_two_inv: "barrier_inv barrier_two ((\<lambda>_. [])(Barrier_queue 0 := [2])) 0"
  by (auto simp: barrier_inv_def barrier_two_def linked_def intro!: exI [of _ "Barrier_queue 0"])

theorem barrier_round_witness:
  "\<exists>s1 Q1. barrier_inv s1 Q1 0 \<and>
    (if b_pending (barriers barrier_two 0) = 1
     then run (pthread_barrier_wait 1 0 1) port0 barrier_two = Done PTHREAD_BARRIER_SERIAL_THREAD s1 \<and>
          Q1 = ((\<lambda>_. [])(Barrier_queue 0 := [2]))(Barrier_queue 0 := []) \<and>
          b_pending (barriers s1 0) = b_count (barriers barrier_two 0) \<and>
          kmsgs s1 = (\<lambda>u. if u \<in> set (((\<lambda>_. [])(Barrier_queue 0 := [2])) (Barrier_queue 0)) then 1
                          else kmsgs barrier_two u)
     else (\<exists>p. run (pthread_barrier_wait 1 0 1) port0 barrier_two = Waiting p s1) \<and>
          Q1 = ((\<lambda>_. [])(Barrier_queue 0 := [2]))
            (Barrier_queue 0 := 1 # ((\<lambda>_. [])(Barrier_queue 0 := [2])) (Barrier_queue 0)) \<and>
          b_pending (barriers s1 0) = b_pending (barriers barrier_two 0) - 1)"
  by (rule barrier_round [OF barrier_two_inv]) (simp_all add: barrier_two_def)

text \<open>
  A barrier for one thread works once: the first wait returns
  \<^verbatim>\<open>PTHREAD_BARRIER_SERIAL_THREAD\<close> but leaves the barrier's spin lock held, so that no later wait
  on the barrier ever returns.
\<close>

theorem barrier_of_one_hangs:
  assumes "barrier_inv s Q b" and "b_count (barriers s b) = 1"
  shows "\<exists>s1. run (pthread_barrier_wait n b t) h s = Done PTHREAD_BARRIER_SERIAL_THREAD s1 \<and>
           run (pthread_barrier_wait k b u) h s1 \<noteq> Done r s2"
proof -
  have "unat (b_pending (barriers s b)) = 1"
    using assms by (auto simp: barrier_inv_def)
  then have "b_pending (barriers s b) = 1" by (metis unat_1 word_unat_eq_iff)
  then obtain s1 where "run (pthread_barrier_wait n b t) h s = Done PTHREAD_BARRIER_SERIAL_THREAD s1"
      "spin s1 (B_lock b) = 1"
    using assms
    by (auto simp: barrier_inv_def pthread_barrier_wait_def run_simps barrier_section_def Let_def)
  moreover from this(2) have "run (pthread_barrier_wait k b u) h s1 \<noteq> Done r s2"
    by (simp add: pthread_barrier_wait_def run_simps)
  ultimately show ?thesis by blast
qed

lemma run_barrier_init:
  "count \<noteq> 0 \<Longrightarrow> run (pthread_barrier_init b None count) h s = Done OK (barrier_zero b count s)"
  by (simp add: pthread_barrier_init_def run_simps)

theorem barrier_of_one_hangs_witness:
  "\<exists>s1. run (pthread_barrier_wait 0 0 1) port0 (barrier_zero 0 1 zero_state) =
       Done PTHREAD_BARRIER_SERIAL_THREAD s1 \<and>
     run (pthread_barrier_wait 0 0 1) port0 s1 \<noteq> Done PTHREAD_BARRIER_SERIAL_THREAD zero_state"
  by (rule barrier_of_one_hangs [where Q = "\<lambda>_. []"])
    (simp_all add: barrier_inv_def barrier_zero_def fun_upd_idem)

end
