(* ===== verification/Barrier_Machine.thy ===== *)
theory Barrier_Machine
  imports Barrier Gate_Impl
begin

text \<open>
  All interleavings of any number of threads that wait at one barrier, as steps of the program of
  \<open>Barrier\<close>.  A barrier is a gate whose object is the number of threads that are still to come; what
  a thread has is the number of rounds that it has passed.

  Unlike the other objects, the barrier wakes its waiters after the spin lock has been released, walking
  along a queue that is detached from the barrier, while the woken threads may already arrive
  for the next round.  So the links are related to the queues of the machine only up to the
  threads that are still to be woken.
\<close>

section \<open>The callers\<close>

datatype barrier_op = Barrier_wait

definition barrier_rules :: "nat \<Rightarrow> (nat, barrier_op) rules" where
  "barrier_rules n = \<lparr>bound = n, allowed = (\<lambda>_ _. True), gain = (\<lambda>_. Suc)\<rparr>"

definition barrier_prog :: "nat \<Rightarrow> baddr \<Rightarrow> thr \<Rightarrow> barrier_op \<Rightarrow> barrier_result pt" where
  "barrier_prog m b t o1 = pthread_barrier_wait m b t"

text \<open>Both results mean that the round is complete.\<close>

definition barrier_code :: "barrier_result \<Rightarrow> rc" where
  "barrier_code v = OK"

definition barrier_start :: "baddr \<Rightarrow> 32 word \<Rightarrow> (nat, barrier_op, barrier_result) callers \<Rightarrow> bool" where
  "barrier_start b count c \<longleftrightarrow>
     fst c = (\<lambda>_. Away 0) \<and> b_pending (barriers (snd c) b) = count \<and> b_count (barriers (snd c) b) = count \<and>
     spin (snd c) (B_lock b) = 0 \<and>
     cell (snd c) = (\<lambda>_. None) \<and> prevp (snd c) = (\<lambda>_. None) \<and> kmsgs (snd c) = (\<lambda>_. 0)"

section \<open>The gate\<close>

definition barrier_entry :: "baddr \<Rightarrow> nat \<Rightarrow> nat \<Rightarrow> queue_view \<Rightarrow> nat verdict" where
  "barrier_entry b count pending Q =
     (if pending = 1 then Pass count (Q(Barrier_queue b := [])) False (Q (Barrier_queue b)) OK
      else Join (pending - 1))"

definition barrier_gate :: "baddr \<Rightarrow> nat \<Rightarrow> nat \<Rightarrow> (nat, barrier_op, nat) gate" where
  "barrier_gate b n count =
     \<lparr>bound = n, allowed = (\<lambda>_ _. True), gain = (\<lambda>_. Suc), deadline = (\<lambda>_. None),
      line = (\<lambda>_. Some (Barrier_queue b)), entry = (\<lambda>_ _. barrier_entry b count),
      settled = (\<lambda>_ _ _. True), complete = (\<lambda>_ _ r. r)\<rparr>"

lemma barrier_gate_simps [simp]:
  "bound (barrier_gate b n count) = n" "allowed (barrier_gate b n count) h o1"
  "gain (barrier_gate b n count) o1 = Suc" "deadline (barrier_gate b n count) o1 = None"
  "line (barrier_gate b n count) o1 = Some (Barrier_queue b)"
  "entry (barrier_gate b n count) o1 t = barrier_entry b count"
  "settled (barrier_gate b n count) o1 t r" "complete (barrier_gate b n count) o1 t r = r"
  "bound (barrier_rules n) = n" "allowed (barrier_rules n) h o1" "gain (barrier_rules n) o1 = Suc"
  by (simp_all add: barrier_gate_def barrier_rules_def)

lemma barrier_code_OK [simp]: "barrier_code v = OK"
  by (simp add: barrier_code_def)

lemma barrier_entry_pass:
  "barrier_entry b count r Q = Pass r' Q' k ws e \<longleftrightarrow>
     r = 1 \<and> r' = count \<and> Q' = Q(Barrier_queue b := []) \<and> \<not> k \<and> ws = Q (Barrier_queue b) \<and> e = OK"
  "barrier_entry b count r Q = Join r' \<longleftrightarrow> r \<noteq> 1 \<and> r' = r - 1"
  by (auto simp: barrier_entry_def)

interpretation barrier_laws: gate_laws "barrier_gate b n count" for b n count
proof
  fix o1 t r Q r' Q' k ws e
  assume en: "entry (barrier_gate b n count) o1 t r Q = Pass r' Q' k ws e"
    and d: "\<And>l. distinct (Q l)" and j: "\<And>l l' u. u \<in> set (Q l) \<Longrightarrow> u \<in> set (Q l') \<Longrightarrow> l = l'"
  from en have q: "Q' = Q(Barrier_queue b := [])" "ws = Q (Barrier_queue b)" by (simp_all add: barrier_entry_pass)
  have "in_line Q u \<longleftrightarrow> in_line Q' u \<or> u \<in> set ws" for u
    unfolding in_line_def q by (metis empty_iff fun_upd_apply list.set(1))
  moreover have "\<not> in_line Q' u" if "u \<in> set ws" for u
    using j that unfolding in_line_def q by (auto split: if_splits)
  ultimately show "distinct ws \<and> (\<forall>l. distinct (Q' l) \<and> set (Q' l) \<subseteq> set (Q l)) \<and>
      (\<forall>u. in_line Q u = (in_line Q' u \<or> u \<in> set ws)) \<and> (\<forall>u. u \<in> set ws \<longrightarrow> \<not> in_line Q' u)"
    using d q by auto
qed

section \<open>The invariant\<close>

text \<open>
  The waiters and the threads to come make up one round; if there are no other threads, all have passed
  the same number of rounds.
\<close>

definition barrier_room :: "baddr \<Rightarrow> nat \<Rightarrow> nat \<Rightarrow> (nat, barrier_op, nat) room \<Rightarrow> bool" where
  "barrier_room b n count a \<longleftrightarrow>
     0 < res a \<and> length (que a (Barrier_queue b)) + res a = count \<and>
     (n = count \<longrightarrow> (\<exists>k. \<forall>t<n. holds (barrier_gate b n count) a t = k))"

text \<open>When the last thread of a round arrives, all others are waiting.\<close>

lemma all_arrived:
  assumes "distinct ws" and "t \<notin> set ws" and "\<And>u. u \<in> set ws \<Longrightarrow> u < n" and "t < n" and "Suc (length ws) = n"
  shows "u < n \<longleftrightarrow> u = t \<or> u \<in> set ws"
proof -
  have "insert t (set ws) \<subseteq> {..<n}" using assms(3,4) by auto
  moreover have "card (insert t (set ws)) = card {..<n}" using assms(1,2,5) by (simp add: distinct_card)
  ultimately have "insert t (set ws) = {..<n}" by (metis card_subset_eq finite_lessThan)
  then show ?thesis by blast
qed

lemma barrier_room_step:
  assumes eff: "effect (barrier_gate b n count) a c" and room: "barrier_room b n count a" and count: "0 < count"
  shows "barrier_room b n count c"
  using eff
proof cases
  case (silent t)
  then have "que c = que a" by (cases "stages a t") auto
  with silent room show ?thesis by (auto simp: barrier_room_def)
next
  case (lost t h o1)
  then show ?thesis by simp
next
  case (joined t o1 r l)
  with room show ?thesis by (auto simp: barrier_room_def barrier_entry_pass)
next
  case (passed t o1 ws r Q k e)
  then have p: "res a = 1" "res c = count" "que c = (que a)(Barrier_queue b := [])"
    "ws = que a (Barrier_queue b)" "e = OK" by (simp_all add: barrier_entry_pass)
  have "holds (barrier_gate b n count) c u = Suc (holds (barrier_gate b n count) a u)" if "u < n" "n = count" for u
  proof (cases "u \<in> set ws")
    case True
    with passed(6) [OF True] show ?thesis by auto
  next
    case False
    have "Suc (length ws) = n" using room p that(2) by (simp add: barrier_room_def)
    with all_arrived [of ws t n u] passed(2-4,6) that(1) False have "u = t" by auto
    with passed(7) [OF False] p(5) show ?thesis by simp
  qed
  with p room count show ?thesis by (auto simp: barrier_room_def)
qed (use room in \<open>auto simp: barrier_room_def\<close>)

lemma barrier_reach_room:
  assumes "greach (barrier_gate b n count) (room_init 0 count) a" and "0 < count"
  shows "gate_inv (barrier_gate b n count) a \<and> barrier_room b n count a"
  using assms(1)
proof induction
  case init
  show ?case using assms(2) room_init_inv by (simp add: barrier_room_def room_init_def holds_def)
next
  case (step c d)
  then show ?case using barrier_laws.gstep_inv barrier_laws.gstep_effect barrier_room_step [OF _ _ assms(2)] by blast
qed

lemma barrier_unlocked:
  assumes "greach (barrier_gate b n count) (room_init 0 count) a"
  shows "locked a = None"
proof -
  have "\<not> keeps_lock (stages a t)" for t
    by (rule greach_unlocked [OF assms]) (simp add: barrier_entry_pass)
  moreover have "gate_inv (barrier_gate b n count) a"
    using barrier_laws.greach_inv [OF assms room_init_inv] .
  ultimately show ?thesis using gate_invD(3) by (cases "locked a") blast+
qed

section \<open>The programs follow the protocol\<close>

definition pending_wakeups :: "(nat, barrier_op, nat) room \<Rightarrow> thr set" where
  "pending_wakeups a = {t. \<exists>u. t \<in> set (wakes a u)}"

text \<open>The links, without those of the threads that are still to be woken.\<close>

definition attached :: "thr set \<Rightarrow> (thr \<Rightarrow> loc option) \<Rightarrow> thr \<Rightarrow> loc option" where
  "attached D p t = (if t \<in> D then None else p t)"

definition barrier_state :: "baddr \<Rightarrow> nat \<Rightarrow> (nat, barrier_op, nat) room \<Rightarrow> pt_state \<Rightarrow> bool" where
  "barrier_state b count a s \<longleftrightarrow>
     kmsgs s = inbox a \<and> spin s (B_lock b) = 0 \<and>
     unat (b_count (barriers s b)) = count \<and> unat (b_pending (barriers s b)) = res a \<and>
     linked (cell s) (attached (pending_wakeups a) (prevp s)) (que a)"

text \<open>The loop over the detached queue, before the next element is loaded and behind that.\<close>

definition wake_loop :: "nat \<Rightarrow> thr option \<Rightarrow> barrier_result pt" where
  "wake_loop j st =
     andthen (pthread_dequeuing_iterate j st pthread_wakeup) (\<lambda>_. Return PTHREAD_BARRIER_SERIAL_THREAD)"

definition walking :: "pt_state \<Rightarrow> thr list \<Rightarrow> barrier_result pt \<Rightarrow> bool" where
  "walking s ws p \<longleftrightarrow>
     (\<exists>j st. length ws \<le> j \<and> path (cell s) st ws \<and> p = wake_loop j st) \<or>
     (\<exists>j st w vs. ws = w # vs \<and> length vs \<le> j \<and> prevp s w = None \<and> path (cell s) st vs \<and>
        p = andthen (pthread_wakeup w) (\<lambda>_. wake_loop j st))"

fun barrier_caller ::
    "nat \<Rightarrow> baddr \<Rightarrow> pt_state \<Rightarrow> thr \<Rightarrow> (nat, barrier_op) stage \<Rightarrow> (nat, barrier_op, barrier_result) caller \<Rightarrow> bool" where
  "barrier_caller m b s t (Resting h) c = (c = Away h)"
| "barrier_caller m b s t (Entering h o1) c = (c = Calling h o1 (pthread_barrier_wait m b t))"
| "barrier_caller m b s t (Blocking h o1) c =
     (c = Calling h o1 (andthen (pthread_block t) (\<lambda>_. Return Barrier_passed)))"
| "barrier_caller m b s t (Waking h o1 k ws e) c = (e = OK \<and> (\<exists>p. c = Calling h o1 p \<and> walking s ws p))"
| "barrier_caller m b s t (Returned h o1 e) c = (e = OK \<and> (\<exists>v. c = Calling h o1 (Return v)))"
| "barrier_caller m b s t _ c = False"

definition barrier_rel ::
    "nat \<Rightarrow> baddr \<Rightarrow> nat \<Rightarrow> (nat, barrier_op, nat) room \<Rightarrow> (nat, barrier_op, barrier_result) callers \<Rightarrow> bool" where
  "barrier_rel m b count a c \<longleftrightarrow>
     (\<forall>t. barrier_caller m b (snd c) t (stages a t) (fst c t)) \<and> barrier_state b count a (snd c)"

text \<open>The others do not notice a step that leaves the threads they have to wake alone.\<close>

lemma walking_cong:
  assumes "walking s ws p"
    and "\<And>u. u \<in> set ws \<Longrightarrow> cell s' (Next u) = cell s (Next u) \<and> (prevp s u = None \<longrightarrow> prevp s' u = None)"
  shows "walking s' ws p"
  using assms(1) unfolding walking_def
proof (elim disjE exE conjE)
  fix j st assume "length ws \<le> j" "path (cell s) st ws" "p = wake_loop j st"
  then show "(\<exists>j st. length ws \<le> j \<and> path (cell s') st ws \<and> p = wake_loop j st) \<or>
     (\<exists>j st w vs. ws = w # vs \<and> length vs \<le> j \<and> prevp s' w = None \<and> path (cell s') st vs \<and>
        p = andthen (pthread_wakeup w) (\<lambda>_. wake_loop j st))"
    using path_cong [of "cell s" st ws "cell s'"] assms(2) by blast
next
  fix j st w vs
  assume w: "ws = w # vs" "length vs \<le> j" "prevp s w = None" "path (cell s) st vs"
    "p = andthen (pthread_wakeup w) (\<lambda>_. wake_loop j st)"
  then have "path (cell s') st vs" "prevp s' w = None"
    using path_cong [of "cell s" st vs "cell s'"] assms(2) by auto
  with w show "(\<exists>j st. length ws \<le> j \<and> path (cell s') st ws \<and> p = wake_loop j st) \<or>
     (\<exists>j st w vs. ws = w # vs \<and> length vs \<le> j \<and> prevp s' w = None \<and> path (cell s') st vs \<and>
        p = andthen (pthread_wakeup w) (\<lambda>_. wake_loop j st))" by blast
qed

lemma barrier_caller_cong:
  assumes "barrier_caller m b s t st c"
    and "\<And>u. u \<in> set (to_wake st) \<Longrightarrow>
      cell s' (Next u) = cell s (Next u) \<and> (prevp s u = None \<longrightarrow> prevp s' u = None)"
  shows "barrier_caller m b s' t st c"
  using assms walking_cong [of s _ _ s'] by (cases st) auto

lemma barrier_relI:
  assumes "barrier_rel m b count a (cs, s)" and "stages a' = (stages a)(t := st)"
    and "barrier_caller m b s' t st c" and "barrier_state b count a' s'"
    and "\<And>v u. v \<noteq> t \<Longrightarrow> u \<in> set (wakes a v) \<Longrightarrow>
      cell s' (Next u) = cell s (Next u) \<and> (prevp s u = None \<longrightarrow> prevp s' u = None)"
  shows "barrier_rel m b count a' (cs(t := c), s')"
proof -
  have "barrier_caller m b s' u (stages a u) (cs u)" if "u \<noteq> t" for u
    using assms(1) by (intro barrier_caller_cong [where s = s and s' = s'] assms(5) [OF that])
      (auto simp: barrier_rel_def)
  with assms(2-4) show ?thesis by (simp add: barrier_rel_def)
qed

lemma attached_enq:
  assumes "linked c (attached D p) Q" and "is_head h" and "t \<notin> D"
  shows "attached D (snd (enq_links h t c p)) = snd (enq_links h t c (attached D p))"
proof (cases "c h")
  case None
  with assms(3) show ?thesis by (auto simp: enq_links_def attached_def)
next
  case (Some x)
  with linkedD(1) [OF assms(1,2)] have "attached D p x \<noteq> None" by (cases "Q h") auto
  then have "x \<notin> D" by (auto simp: attached_def)
  with assms(3) Some show ?thesis by (auto simp: enq_links_def attached_def fun_eq_iff)
qed

lemma pending_upd:
  "stages a' = (stages a)(t := st) \<Longrightarrow> pending_wakeups a' = set (to_wake st) \<union> {w. \<exists>u. u \<noteq> t \<and> w \<in> set (wakes a u)}"
  by (auto simp: pending_wakeups_def)

lemma pending_quiet:
  "stages a' = (stages a)(t := st) \<Longrightarrow> wakes a t = [] \<Longrightarrow> pending_wakeups a' = set (to_wake st) \<union> pending_wakeups a"
  by (auto simp: pending_wakeups_def) (metis empty_iff list.set(1))

text \<open>A thread that arrives is neither on a queue nor about to be woken.\<close>

lemma arriving_thread:
  assumes inv: "gate_inv G a" and st: "stages a t = Entering h o1"
    and s: "linked (cell s) (attached (pending_wakeups a) (prevp s)) (que a)"
  shows "t \<notin> pending_wakeups a" "prevp s t = None"
proof -
  from gate_invD(1) [OF inv, of t] st have t: "\<not> in_line (que a) t" "quiet (wakes a) (inbox a) t" by auto
  then show "t \<notin> pending_wakeups a" by (auto simp: quiet_def pending_wakeups_def)
  moreover have "attached (pending_wakeups a) (prevp s) t = None"
    using linked_prevp_iff [OF s, of t] t(1) by (auto simp: in_line_def)
  ultimately show "prevp s t = None" by (simp add: attached_def)
qed

lemma barrier_arrive_sim:
  assumes rel: "barrier_rel m b count a (cs, s)" and inv: "gate_inv (barrier_gate b n count) a"
    and st: "stages a t = Entering h o1" and free: "locked a = None" and r: "res a \<noteq> 1" "0 < res a"
    and ps: "pstep E (pthread_barrier_wait m b t) s p' s'"
  shows "\<exists>a'. gstep (barrier_gate b n count) a a' \<and> barrier_rel m b count a' (cs(t := Calling h o1 p'), s')"
proof -
  let ?q = "Barrier_queue b" and ?D = "pending_wakeups a"
  let ?a = "goto t (Blocking h o1) a\<lparr>res := res a - 1, que := (que a)(?q := t # que a ?q)\<rparr>"
  have bs: "kmsgs s = inbox a" "spin s (B_lock b) = 0" "unat (b_count (barriers s b)) = count"
    "unat (b_pending (barriers s b)) = res a" "linked (cell s) (attached ?D (prevp s)) (que a)"
    using rel by (simp_all add: barrier_rel_def barrier_state_def)
  note t = arriving_thread [OF inv st bs(5)]
  let ?E = "enq_links ?q t (cell s) (prevp s)"
  let ?s' = "upd_barrier b (\<lambda>x. x\<lparr>b_pending := b_pending x - 1\<rparr>) s\<lparr>cell := fst ?E, prevp := snd ?E\<rparr>"
  have un: "unat (b_pending (barriers s b) - 1) = res a - 1"
    using bs(4) r(2) by (simp add: unat_sub_if_size)
  then have nz: "b_pending (barriers s b) - 1 \<noteq> 0" using r by (metis Suc_pred' One_nat_def unat_0)
  have "barrier_section b t (upd_spin (B_lock b) 1 s) = (Inr None, ?s')"
    using nz t(2) bs(2) pthread_enqueue_links [of ?q "upd_barrier b (\<lambda>x. x\<lparr>b_pending := b_pending x - 1\<rparr>) (upd_spin (B_lock b) 1 s)" t]
    by (auto simp: barrier_section_def Let_def pthread_spin_unlock_def intro!: pt_state.equality)
  then have p': "p' = andthen (pthread_block t) (\<lambda>_. Return Barrier_passed)" "s' = ?s'"
    using ps by (auto simp: pthread_barrier_wait_def pstep_spin_section)
  have g: "gstep (barrier_gate b n count) a ?a"
    using r by (intro gstep.join [OF st free]) (simp_all add: barrier_entry_pass)
  have D: "pending_wakeups ?a = ?D" using st by (subst pending_quiet [of _ a t "Blocking h o1"]) simp_all
  have "linked (fst ?E) (attached ?D (snd ?E)) ((que a)(?q := t # que a ?q))"
    using linked_enq [OF bs(5), of ?q t] t attached_enq [OF bs(5), of ?q t]
    by (simp add: attached_def enq_links_def)
  then have st': "barrier_state b count ?a s'" using bs un p'(2) unfolding barrier_state_def D by simp
  have w: "barrier_caller m b s' t (Blocking h o1) (Calling h o1 p')" using p'(1) by simp
  have "barrier_rel m b count ?a (cs(t := Calling h o1 p'), s')"
  proof (rule barrier_relI [OF rel _ w st'])
    fix v u assume "u \<in> set (wakes a v)"
    then have "u \<in> ?D" by (auto simp: pending_wakeups_def)
    moreover have "cell s ?q \<noteq> Some u" if "u \<in> ?D" for u
      using linkedD(1) [OF bs(5), of ?q] that by (cases "que a ?q") (auto simp: attached_def)
    ultimately show "cell s' (Next u) = cell s (Next u) \<and> (prevp s u = None \<longrightarrow> prevp s' u = None)"
      using t(1) p'(2) by (auto simp: enq_links_def split: option.splits)
  qed simp
  with g show ?thesis by blast
qed

lemma barrier_complete_sim:
  assumes rel: "barrier_rel m b count a (cs, s)" and inv: "gate_inv (barrier_gate b n count) a"
    and st: "stages a t = Entering h o1" and free: "locked a = None" and r: "res a = 1"
    and room: "barrier_room b n count a" and c: "1 < count" and m: "n \<le> m"
    and ps: "pstep E (pthread_barrier_wait m b t) s p' s'"
  shows "\<exists>a'. gstep (barrier_gate b n count) a a' \<and> barrier_rel m b count a' (cs(t := Calling h o1 p'), s')"
proof -
  let ?q = "Barrier_queue b" and ?D = "pending_wakeups a"
  let ?ws = "que a ?q"
  have ne: "?ws \<noteq> []" using room c r by (auto simp: barrier_room_def)
  let ?st = "Waking h o1 False ?ws OK"
  let ?a = "goto t ?st a\<lparr>res := count, que := (que a)(?q := []), locked := None\<rparr>"
  have bs: "kmsgs s = inbox a" "spin s (B_lock b) = 0" "unat (b_count (barriers s b)) = count"
    "unat (b_pending (barriers s b)) = res a" "linked (cell s) (attached ?D (prevp s)) (que a)"
    using rel by (simp_all add: barrier_rel_def barrier_state_def)
  let ?s' = "upd_barrier b (\<lambda>x. x\<lparr>b_pending := b_count x\<rparr>) s\<lparr>cell := (cell s)(?q := None)\<rparr>"
  have "b_pending (barriers s b) = 1" "b_count (barriers s b) > 1"
    using bs(3,4) r c by (simp_all add: word_less_nat_alt word_unat_eq_iff)
  then have "barrier_section b t (upd_spin (B_lock b) 1 s) = (Inr (Some (cell s ?q)), ?s')"
    using bs(2) by (auto simp: barrier_section_def Let_def pthread_spin_unlock_def intro!: pt_state.equality)
  then have p': "p' = wake_loop m (cell s ?q)" "s' = ?s'"
    using ps by (auto simp: pthread_barrier_wait_def pstep_spin_section wake_loop_def)
  have g: "gstep (barrier_gate b n count) a ?a"
    using gstep.pass [OF st free, of "barrier_gate b n count" count "(que a)(?q := [])" False ?ws OK] r ne
    by (simp add: barrier_entry_pass wake_stage_def)
  have D: "pending_wakeups ?a = set ?ws \<union> ?D" using st by (subst pending_quiet [of _ a t ?st]) simp_all
  have "attached (set ?ws \<union> ?D) (prevp s) = (\<lambda>u. if u \<in> set ?ws then None else attached ?D (prevp s) u)"
    by (auto simp: attached_def)
  then have st': "barrier_state b count ?a s'"
    using bs p'(2) linked_clear [OF bs(5), of ?q] unfolding barrier_state_def D by simp
  have "set ?ws \<subseteq> {..<n}"
  proof
    fix u assume "u \<in> set ?ws"
    then obtain h' o2 where "request (stages a u) = Some (h', o2)" using lines_okD(2) [OF gate_invD(2) [OF inv]] by blast
    with request_allowed [OF inv] show "u \<in> {..<n}" by auto
  qed
  then have "card (set ?ws) \<le> n" by (metis card_lessThan card_mono finite_lessThan)
  then have len: "length ?ws \<le> m"
    using lines_okD(1) [OF gate_invD(2) [OF inv], of ?q] m by (simp add: distinct_card)
  have "path (cell s') (cell s ?q) ?ws"
    using path_cong [OF chain_path [OF linkedD(1) [OF bs(5), of ?q]], of "cell s'"] p'(2) by simp
  with len p'(1) have w: "barrier_caller m b s' t ?st (Calling h o1 p')" by (auto simp: walking_def)
  have "barrier_rel m b count ?a (cs(t := Calling h o1 p'), s')"
    by (rule barrier_relI [OF rel _ w st']) (use p'(2) in simp_all)
  with g show ?thesis by blast
qed

lemma barrier_receive_sim:
  assumes rel: "barrier_rel m b count a (cs, s)" and inv: "gate_inv (barrier_gate b n count) a"
    and st: "stages a t = Blocking h o1" and free: "locked a = None" and E: "mach_ports E"
    and re: "greach (barrier_gate b n count) a0 a"
    and ps: "pstep E (andthen (pthread_block t) (\<lambda>_. Return Barrier_passed)) s p' s'"
  shows "\<exists>a'. greach (barrier_gate b n count) a0 a' \<and> barrier_rel m b count a' (cs(t := Calling h o1 p'), s')"
proof -
  let ?G = "barrier_gate b n count" and ?m = "(inbox a)(t := inbox a t - 1)"
  have k: "kmsgs s = inbox a" using rel by (simp add: barrier_rel_def barrier_state_def)
  from pstep_block [OF E ps] k have p': "inbox a t > 0" "p' = Return Barrier_passed" "s' = consumed t s" by auto
  with inbox_bound(2) [OF inv, of t] have nq: "\<not> in_line (que a) t" by auto
  let ?a1 = "goto t (Woken h o1 OK) a\<lparr>inbox := ?m\<rparr>" 
  let ?a2 = "goto t (Ending h o1) ?a1"
  let ?a3 = "goto t (Returned h o1 OK) ?a2\<lparr>res := res a\<rparr>"
  have "gstep ?G a ?a1" using st p'(1) by (intro gstep.receive) auto
  moreover have "gstep ?G ?a1 ?a2" using gstep.gone [of ?a1 t h o1 OK ?G] free nq by simp
  moreover have "gstep ?G ?a2 ?a3" using gstep.finish [of ?a2 t h o1 ?G] by simp
  ultimately have re': "greach ?G a0 ?a3" by (blast intro: re greach.step)
  have D: "pending_wakeups ?a3 = pending_wakeups a"
    using st by (subst pending_quiet [of _ a t "Returned h o1 OK"]) simp_all
  have st': "barrier_state b count ?a3 s'"
    using rel p'(3) k unfolding barrier_rel_def barrier_state_def D by (simp add: consumed_def)
  have w: "barrier_caller m b s' t (Returned h o1 OK) (Calling h o1 p')" using p'(2) by simp
  have "barrier_rel m b count ?a3 (cs(t := Calling h o1 p'), s')"
    by (rule barrier_relI [OF rel _ w st']) (use p'(3) in simp_all)
  with re' show ?thesis by blast
qed

text \<open>The waker: loading the next element, and sending the message.\<close>

lemma barrier_load_sim:
  assumes rel: "barrier_rel m b count a (cs, s)" and st: "stages a t = Waking h o1 k ws OK" and ne: "ws \<noteq> []"
    and w: "length ws \<le> j" "path (cell s) x ws" and ps: "pstep E (wake_loop j x) s p' s'"
  shows "barrier_rel m b count a (cs(t := Calling h o1 p'), s')"
proof -
  from ne obtain v vs where ws: "ws = v # vs" by (cases ws) auto
  with w obtain i where i: "x = Some v" "j = Suc i" "length vs \<le> i" "path (cell s) (cell s (Next v)) vs"
    by (cases j) auto
  have p': "p' = andthen (pthread_wakeup v) (\<lambda>_. wake_loop i (cell s (Next v)))" "s' = clear_prevp v s"
    using ps unfolding wake_loop_def i(1,2) dequeuing_iterate_Suc by (auto simp: pstep_iffs)
  have "v \<in> pending_wakeups a" using st ws unfolding pending_wakeups_def by (auto intro!: exI [of _ t])
  then have "attached (pending_wakeups a) (prevp s') = attached (pending_wakeups a) (prevp s)"
    using p'(2) by (auto simp: attached_def clear_prevp_def)
  then have st': "barrier_state b count a s'"
    using rel p'(2) by (simp add: barrier_rel_def barrier_state_def clear_prevp_def)
  have "walking s' ws p'"
    unfolding walking_def ws p' using i by (intro disjI2 exI conjI HOL.refl) (auto simp: clear_prevp_def)
  then have c: "barrier_caller m b s' t (Waking h o1 k ws OK) (Calling h o1 p')" by simp
  show ?thesis
    by (rule barrier_relI [OF rel _ c st']) (use st p'(2) in \<open>auto simp: clear_prevp_def fun_eq_iff\<close>)
qed

lemma barrier_send_sim:
  assumes rel: "barrier_rel m b count a (cs, s)" and inv: "gate_inv (barrier_gate b n count) a"
    and st: "stages a t = Waking h o1 False (v # vs) OK" and E: "mach_ports E"
    and w: "length vs \<le> j" "path (cell s) x vs" "prevp s v = None"
    and ps: "pstep E (andthen (pthread_wakeup v) (\<lambda>_. wake_loop j x)) s p' s'"
  shows "\<exists>a'. gstep (barrier_gate b n count) a a' \<and> barrier_rel m b count a' (cs(t := Calling h o1 p'), s')"
proof -
  let ?st = "wake_stage h o1 False vs OK"
  let ?a = "goto t ?st a\<lparr>inbox := (inbox a)(v := 1)\<rparr>"
  have i: "inbox a v = 0" using gate_inv_woken(1) [OF inv, of v t] st by simp
  have k: "kmsgs s = inbox a" using rel by (simp add: barrier_rel_def barrier_state_def)
  have p': "p' = wake_loop j x" "s' = s\<lparr>kmsgs := (kmsgs s)(v := 1)\<rparr>"
    using pstep_wakeup [OF E _ ps] i k by simp_all
  have g: "gstep (barrier_gate b n count) a ?a" using st i by (intro gstep.wake) simp_all
  have "attached (pending_wakeups ?a) (prevp s) = attached (pending_wakeups a) (prevp s)"
  proof
    fix u
    have "u \<in> pending_wakeups ?a \<longleftrightarrow> u \<in> set vs \<or> (\<exists>y. y \<noteq> t \<and> u \<in> set (wakes a y))"
      by (subst pending_upd [of _ a t ?st]) auto
    moreover have "u \<in> pending_wakeups a \<longleftrightarrow> u = v \<or> u \<in> set vs \<or> (\<exists>y. y \<noteq> t \<and> u \<in> set (wakes a y))"
      using st by (subst pending_upd [of a a t "stages a t"]) auto
    ultimately show "attached (pending_wakeups ?a) (prevp s) u = attached (pending_wakeups a) (prevp s) u"
      using w(3) by (auto simp: attached_def)
  qed
  then have st': "barrier_state b count ?a s'"
    using rel p'(2) k unfolding barrier_rel_def barrier_state_def by simp
  have c: "barrier_caller m b s' t ?st (Calling h o1 p')"
    using w(1,2) p' by (auto simp: wake_stage_def walking_def wake_loop_def)
  have "barrier_rel m b count ?a (cs(t := Calling h o1 p'), s')"
    by (rule barrier_relI [OF rel _ c st']) (use p'(2) in simp_all)
  with g show ?thesis by blast
qed

text \<open>Every step of a program is matched.\<close>

lemma barrier_sim:
  assumes rel: "barrier_rel m b count a (cs, s)" and re: "greach (barrier_gate b n count) (room_init 0 count) a"
    and c: "cs t = Calling h o1 p" and ps: "pstep E p s p' s'" and E: "mach_ports E" and m: "n \<le> m" and k: "1 < count"
  shows "\<exists>a'. greach (barrier_gate b n count) (room_init 0 count) a' \<and>
    barrier_rel m b count a' (cs(t := Calling h o1 p'), s')"
proof -
  have inv: "gate_inv (barrier_gate b n count) a" and room: "barrier_room b n count a"
    using barrier_reach_room [OF re] k by auto
  note free = barrier_unlocked [OF re]
  have bc: "barrier_caller m b s t (stages a t) (Calling h o1 p)" using rel c by (auto simp: barrier_rel_def dest: spec [of _ t])
  show ?thesis
  proof (cases "stages a t")
    case (Entering h' o2)
    with bc have st: "stages a t = Entering h o1" and p: "p = pthread_barrier_wait m b t" by simp_all
    have "0 < res a" using room by (simp add: barrier_room_def)
    with barrier_arrive_sim [OF rel inv st free] barrier_complete_sim [OF rel inv st free _ room k m] ps p re show ?thesis
      by (cases "res a = 1") (blast intro: greach.step)+
  next
    case (Blocking h' o2)
    with bc have st: "stages a t = Blocking h o1" and p: "p = andthen (pthread_block t) (\<lambda>_. Return Barrier_passed)" by simp_all
    from barrier_receive_sim [OF rel inv st free E re] ps p show ?thesis by blast
  next
    case (Waking h' o2 x ws e)
    with bc have st: "stages a t = Waking h o1 x ws OK" and w: "walking s ws p" by auto
    have x: "\<not> x" using gate_invD(3) [OF inv, of t] free st by simp
    with gate_invD(1) [OF inv, of t] st have ne: "ws \<noteq> []" by simp
    from w show ?thesis unfolding walking_def
    proof (elim disjE exE conjE)
      fix j y assume "length ws \<le> j" "path (cell s) y ws" "p = wake_loop j y"
      with barrier_load_sim [OF rel st ne] ps re show ?thesis by blast
    next
      fix j y v vs
      assume "ws = v # vs" "length vs \<le> j" "prevp s v = None" "path (cell s) y vs"
        "p = andthen (pthread_wakeup v) (\<lambda>_. wake_loop j y)"
      with barrier_send_sim [OF rel inv, of t h o1 v vs E j y] st x E ps re show ?thesis
        by simp (blast intro: greach.step)
    qed
  next
    case (Returned h' o2 e)
    with bc ps show ?thesis by (auto simp: pstep_iffs)
  qed (use bc in simp_all)
qed

lemma barrier_rel_at: "barrier_rel m b count a (cs, s) \<Longrightarrow> barrier_caller m b s t (stages a t) (cs t)"
  by (simp add: barrier_rel_def)

lemma barrier_rel_goto:
  assumes "barrier_rel m b count a (cs, s)" and "barrier_caller m b s t st c"
    and "wakes a t = []" and "to_wake st = []"
  shows "barrier_rel m b count (goto t st a) (cs(t := c), s)"
proof -
  have "pending_wakeups (goto t st a) = pending_wakeups a"
    using assms(3,4) by (subst pending_quiet [of _ a t st]) simp_all
  then have "barrier_state b count (goto t st a) s"
    using assms(1) by (simp add: barrier_rel_def barrier_state_def)
  from barrier_relI [OF assms(1) _ assms(2) this] show ?thesis by simp
qed

text \<open>A waker is at an action or at the call that sends.\<close>

lemma walking_goes:
  assumes "walking s ws p" and "ws \<noteq> []"
  shows "(\<exists>u k. p = Act (\<lambda>_. True) u k) \<or> (\<exists>w k. p = Sys (Mach_send w) k)"
  using assms(1) unfolding walking_def
proof (elim disjE exE conjE)
  fix j st assume w: "length ws \<le> j" "path (cell s) st ws" "p = wake_loop j st"
  with assms(2) obtain i v where "j = Suc i" "st = Some v" by (cases ws; cases j) auto
  with w(3) show ?thesis by (auto simp: wake_loop_def)
qed (simp add: pthread_wakeup_def syscall_def)

text \<open>A wait never returns while the waker or a queue still knows the thread.\<close>

lemma barrier_returned:
  assumes "barrier_rel m b count a (cs, s)" and "gate_inv (barrier_gate b n count) a" and "locked a = None"
    and "cs t = Calling h o1 (Return v)"
  shows "stages a t = Returned h o1 OK"
proof (cases "stages a t")
  case (Waking h' o2 x ws e)
  have "ws \<noteq> []" using gate_invD(1,3) [OF assms(2), of t] assms(3) Waking by auto
  then show ?thesis using barrier_rel_at [OF assms(1), of t] assms(4) Waking walking_goes by fastforce
qed (use barrier_rel_at [OF assms(1), of t] assms(4) in
  \<open>auto simp: pthread_barrier_wait_def spin_section_def section_of_def pthread_block_def syscall_def\<close>)

lemma barrier_step:
  assumes "cstep E (barrier_rules n) (barrier_prog m b) barrier_code c d"
    and rel: "barrier_rel m b count a c" and re: "greach (barrier_gate b n count) (room_init 0 count) a"
    and E: "mach_ports E" and m: "n \<le> m" and k: "1 < count"
  shows "\<exists>a'. greach (barrier_gate b n count) (room_init 0 count) a' \<and> barrier_rel m b count a' d"
  using assms(1)
proof cases
  case (call cs t h o1 s)
  have at: "barrier_caller m b s t (stages a t) (Away h)"
    using barrier_rel_at [of m b count a cs s t] rel call by simp
  then have st: "stages a t = Resting h" by (cases "stages a t") auto
  then have "gstep (barrier_gate b n count) a (goto t (Entering h o1) a)"
    using call by (intro gstep.call) auto
  with re have "greach (barrier_gate b n count) (room_init 0 count) (goto t (Entering h o1) a)" by (rule greach.step)
  moreover have "barrier_rel m b count (goto t (Entering h o1) a) d"
    unfolding call(2) by (rule barrier_rel_goto) (use rel call st in \<open>simp_all add: barrier_prog_def\<close>)
  ultimately show ?thesis by blast
next
  case (run cs t h o1 p s p' s')
  with barrier_sim [OF _ re, of m cs s t h o1 p E p' s'] rel E m k show ?thesis by simp
next
  case (return cs t h o1 v s)
  have inv: "gate_inv (barrier_gate b n count) a" using barrier_reach_room [OF re] k by auto
  from barrier_returned [OF _ inv barrier_unlocked [OF re]] rel return
  have st: "stages a t = Returned h o1 OK" by blast
  with gstep.return [OF st, of "barrier_gate b n count"]
  have "greach (barrier_gate b n count) (room_init 0 count) (goto t (Resting (Suc h)) a)"
    by (auto intro: greach.step [OF re])
  moreover have "barrier_rel m b count (goto t (Resting (Suc h)) a) d"
    unfolding return(2) by (rule barrier_rel_goto) (use rel return st in \<open>simp_all add: worth_def\<close>)
  ultimately show ?thesis by blast
next
  case (expire cs s x)
  have "barrier_caller m b (s\<lparr>kexpired := x\<rparr>) t (stages a t) (cs t)" for t
    by (rule barrier_caller_cong [where s = s]) (use barrier_rel_at rel expire in auto)
  with rel re expire show ?thesis by (auto simp: barrier_rel_def barrier_state_def)
qed

lemma barrier_creach:
  assumes E: "mach_ports E" and m: "n \<le> m" and start: "barrier_start b count c" and k: "1 < count"
    and "creach E (barrier_rules n) (barrier_prog m b) barrier_code c d"
  shows "\<exists>a. greach (barrier_gate b n (unat count)) (room_init 0 (unat count)) a \<and> barrier_rel m b (unat count) a d"
  using assms(5)
proof induction
  case init
  have D: "pending_wakeups (room_init 0 (unat count)) = {}" by (simp add: pending_wakeups_def room_init_def)
  have "attached {} p = p" for p by (simp add: attached_def fun_eq_iff)
  with start have "barrier_rel m b (unat count) (room_init 0 (unat count)) c"
    unfolding barrier_rel_def barrier_state_def D by (simp add: barrier_start_def room_init_def)
  then show ?case using greach.init by blast
next
  case (step d e)
  have "1 < unat count" using k by (simp add: word_less_nat_alt)
  with step.IH barrier_step [OF step.hyps(2) _ _ E m] show ?case by blast
qed

section \<open>Rounds\<close>

text \<open>The waits that a caller has completed and those that it has begun.\<close>

fun waits_done :: "(nat, barrier_op, barrier_result) caller \<Rightarrow> nat" where
  "waits_done (Away h) = h"
| "waits_done (Calling h o1 p) = h"

fun waits_begun :: "(nat, barrier_op, barrier_result) caller \<Rightarrow> nat" where
  "waits_begun (Away h) = h"
| "waits_begun (Calling h o1 p) = Suc h"

lemma waits_bounds:
  assumes "barrier_caller m b s t st c"
  shows "waits_done c \<le> has (barrier_gate b n count) st q" and "has (barrier_gate b n count) st q \<le> waits_begun c"
  using assms by (cases st; auto)+

text \<open>
  C8: The barrier separates rounds.  In every interleaving of as many threads as the barrier is for, two or more,
  however
  often each of them waits, no thread completes its wait number \<open>k\<close> before every thread has begun
  its wait number \<open>k\<close>, although woken threads enter the next round while others are still to be woken.
\<close>

theorem barrier_separates:
  assumes "mach_ports E" and "unat count \<le> m" and "barrier_start b count c" and "1 < count"
    and "creach E (barrier_rules (unat count)) (barrier_prog m b) barrier_code c (cs, s)"
    and "t < unat count" and "u < unat count"
  shows "waits_done (cs t) \<le> waits_begun (cs u)"
proof -
  let ?G = "barrier_gate b (unat count) (unat count)"
  obtain a where a: "greach ?G (room_init 0 (unat count)) a" "barrier_rel m b (unat count) a (cs, s)"
    using barrier_creach [OF assms(1-5)] by blast
  have "0 < unat count" using assms(6) by simp
  from barrier_reach_room [OF a(1) this] assms(6,7) have "holds ?G a t = holds ?G a u"
    by (auto simp: barrier_room_def)
  with waits_bounds [OF barrier_rel_at [OF a(2)]] show ?thesis unfolding holds_def by (metis order_trans)
qed

text \<open>Two threads: the first has arrived and waits, the second has completed the round.\<close>

definition two_waiting :: pt_state where
  "two_waiting = (barrier_zero 0 2 zero_state)
     \<lparr>barriers := (barriers zero_state)(0 := \<lparr>b_pending = 1, b_count = 2, b_attr = None\<rparr>),
      cell := (\<lambda>_. None)(Barrier_queue 0 := Some 0), prevp := (\<lambda>_. None)(0 := Some (Barrier_queue 0))\<rparr>"

definition two_passed :: pt_state where
  "two_passed = (barrier_zero 0 2 zero_state)\<lparr>kmsgs := (\<lambda>_. 0)(0 := 1)\<rparr>"

lemma zero_barrier [simp]: "barrier_zero 0 2 zero_state =
    zero_state\<lparr>barriers := (barriers zero_state)(0 := \<lparr>b_pending = 2, b_count = 2, b_attr = None\<rparr>)\<rparr>"
  by (simp add: barrier_zero_def fun_upd_idem)

definition barrier_start2 :: "(nat, barrier_op, barrier_result) callers" where
  "barrier_start2 = ((\<lambda>_. Away 0), barrier_zero 0 2 zero_state)"

lemma barrier_start2: "barrier_start 0 2 barrier_start2"
  by (simp add: barrier_start_def barrier_start2_def)

abbreviation blocked0 :: "barrier_result pt" where
  "blocked0 \<equiv> andthen (pthread_block 0) (\<lambda>_. Return Barrier_passed)"

lemma two_arrived:
  "creach port0 (barrier_rules 2) (barrier_prog 2 0) barrier_code barrier_start2
     ((\<lambda>_. Away 0)(0 := Calling 0 Barrier_wait blocked0), two_waiting)"
proof -
  let ?c = "\<lambda>_::nat. Away 0 :: (nat, barrier_op, barrier_result) caller"
  have 1: "cstep port0 (barrier_rules 2) (barrier_prog 2 0) barrier_code barrier_start2
      (?c(0 := Calling 0 Barrier_wait (barrier_prog 2 0 0 Barrier_wait)), barrier_zero 0 2 zero_state)"
    unfolding barrier_start2_def by (rule cstep.call) simp_all
  have "barrier_section 0 0 (upd_spin (B_lock 0) 1 (barrier_zero 0 2 zero_state)) = (Inr None, two_waiting)"
    by (auto simp: barrier_section_def Let_def two_waiting_def pthread_enqueue_def pthread_spin_unlock_def
        intro!: pt_state.equality)
  then have "pstep port0 (barrier_prog 2 0 0 Barrier_wait) (barrier_zero 0 2 zero_state) blocked0 two_waiting"
    unfolding barrier_prog_def pthread_barrier_wait_def pstep_spin_section by simp
  then have "cstep port0 (barrier_rules 2) (barrier_prog 2 0) barrier_code
      (?c(0 := Calling 0 Barrier_wait (barrier_prog 2 0 0 Barrier_wait)), barrier_zero 0 2 zero_state)
      (?c(0 := Calling 0 Barrier_wait (barrier_prog 2 0 0 Barrier_wait), 0 := Calling 0 Barrier_wait blocked0), two_waiting)"
    by (intro cstep.run) simp_all
  from creach.step [OF creach.step [OF creach.init 1] this] show ?thesis by simp
qed

lemma two_done:
  "creach port0 (barrier_rules 2) (barrier_prog 2 0) barrier_code barrier_start2
     ((\<lambda>_. Away 0)(0 := Calling 0 Barrier_wait blocked0, 1 := Away 1), two_passed)"
proof -
  have "run (barrier_prog 2 0 1 Barrier_wait) port0 two_waiting = Done PTHREAD_BARRIER_SERIAL_THREAD two_passed"
    by (auto simp: barrier_prog_def pthread_barrier_wait_def run_simps two_waiting_def two_passed_def eval_nat_numeral
        barrier_section_def Let_def pthread_spin_unlock_def run_wakeup fun_eq_iff intro!: pt_state.equality)
  from creach_call [OF two_arrived _ _ _ this, of 0] show ?thesis by (simp add: worth_def)
qed

theorem barrier_separates_witness:
  "waits_done (((\<lambda>_. Away 0)(0 := Calling 0 Barrier_wait blocked0, 1 := Away 1)) (1::nat)) \<le>
   waits_begun (((\<lambda>_. Away 0)(0 := Calling 0 Barrier_wait blocked0, 1 := Away 1)) (0::nat))"
proof -
  have d: "creach port0 (barrier_rules (unat (2 :: 32 word))) (barrier_prog 2 0) barrier_code barrier_start2
      ((\<lambda>_. Away 0)(0 := Calling 0 Barrier_wait blocked0, 1 := Away 1), two_passed)"
    using two_done by simp
  show ?thesis by (rule barrier_separates [OF mach_ports_port_env _ barrier_start2 _ d]) simp_all
qed

lemma barrier_waker_goes:
  assumes rel: "barrier_rel m b count a (cs, s)" and inv: "gate_inv (barrier_gate b n count) a" and free: "locked a = None"
    and E: "mach_ports E" and st: "stages a u = Waking h o1 k ws e"
  shows "can_go E (cs u) s"
proof -
  from barrier_rel_at [OF rel, of u] st obtain p where p: "cs u = Calling h o1 p" "walking s ws p" by auto
  have "ws \<noteq> []" using gate_invD(1,3) [OF inv, of u] free st by auto
  from walking_goes [OF p(2) this] show ?thesis
    using p(1) mach_portsD(1) [OF E] by (fastforce simp: pstep_iffs)
qed

text \<open>
  C9: No wakeup is lost at a barrier for two or more threads, whatever the number of threads that use it: if no
  thread can go on, fewer threads are inside a wait than the barrier is for.  So as soon as enough threads wait,
  they get through.  (A barrier for one thread is excluded: there the first wait returns with the spin lock held,
  see \<open>barrier_of_one_hangs\<close> in \<open>Barrier\<close>.)
\<close>

theorem barrier_progress:
  assumes "mach_ports E" and "n \<le> m" and "barrier_start b count c" and "1 < count"
    and "creach E (barrier_rules n) (barrier_prog m b) barrier_code c (cs, s)" and "\<And>t. \<not> can_go E (cs t) s"
  shows "card {t. \<exists>h o1 p. cs t = Calling h o1 p} < unat count"
proof -
  let ?G = "barrier_gate b n (unat count)"
  obtain a where a: "greach ?G (room_init 0 (unat count)) a" "barrier_rel m b (unat count) a (cs, s)"
    using barrier_creach [OF assms(1-5)] by blast
  have "0 < unat count" using assms(4) by (simp add: word_less_nat_alt)
  from barrier_reach_room [OF a(1) this] have inv: "gate_inv ?G a" and room: "barrier_room b n (unat count) a" by auto
  have bs: "kmsgs s = inbox a" "spin s (B_lock b) = 0" using a(2) by (simp_all add: barrier_rel_def barrier_state_def)
  have no_waker: "wakes a u = []" for u
    using barrier_waker_goes [OF a(2) inv barrier_unlocked [OF a(1)] assms(1), of u] assms(6) [of u]
    by (cases "stages a u") auto
  have "t \<in> set (que a (Barrier_queue b))" if c: "cs t = Calling h o1 p" for t h o1 p
  proof (cases "stages a t")
    case (Entering h' o2)
    with barrier_rel_at [OF a(2), of t] c assms(6) [of t] bs(2) show ?thesis
      by (auto simp: pthread_barrier_wait_def pstep_spin_section)
  next
    case (Blocking h' o2)
    have "kmsgs s t = 0"
      using barrier_rel_at [OF a(2), of t] assms(6) [of t] mach_portsD(2) [OF assms(1), of t s] Blocking
      by (auto simp: pthread_block_def andthen_syscall pstep_iffs split: if_splits)
    then have "in_line (que a) t"
      using gate_invD(1) [OF inv, of t] Blocking no_waker bs(1) by (auto simp: signalled_def split: if_splits)
    then show ?thesis using lines_okD(2) [OF gate_invD(2) [OF inv]] by (fastforce simp: in_line_def)
  next
    case (Waking h' o2 k ws e)
    with no_waker [of t] gate_invD(1,3) [OF inv, of t] barrier_unlocked [OF a(1)] show ?thesis by simp
  next
    case (Returned h' o2 e)
    with barrier_rel_at [OF a(2), of t] assms(6) [of t] show ?thesis by auto
  qed (use barrier_rel_at [OF a(2), of t] c in simp_all)
  then have "{t. \<exists>h o1 p. cs t = Calling h o1 p} \<subseteq> set (que a (Barrier_queue b))" by blast
  then have "card {t. \<exists>h o1 p. cs t = Calling h o1 p} \<le> length (que a (Barrier_queue b))"
    by (meson List.finite_set card_length card_mono order_trans)
  with room show ?thesis by (simp add: barrier_room_def)
qed

theorem barrier_progress_witness:
  "card {t. \<exists>h o1 p. ((\<lambda>_. Away 0)(0 := Calling 0 Barrier_wait blocked0)) (t::nat) =
      (Calling h o1 p :: (nat, barrier_op, barrier_result) caller)} < unat (2 :: 32 word)"
  by (rule barrier_progress [OF mach_ports_port_env _ barrier_start2 _ two_arrived])
    (auto simp: two_waiting_def pthread_block_def andthen_syscall pstep_iffs port_env_def)

text \<open>No wait at a barrier fails an assertion, in any interleaving.\<close>

theorem barrier_no_crash:
  assumes "mach_ports E" and "n \<le> m" and "barrier_start b count c" and "1 < count"
    and "creach E (barrier_rules n) (barrier_prog m b) barrier_code c (cs, s)"
  shows "cs t \<noteq> Calling h o1 (Crash f)"
proof -
  obtain a where a: "greach (barrier_gate b n (unat count)) (room_init 0 (unat count)) a"
    "barrier_rel m b (unat count) a (cs, s)" using barrier_creach [OF assms] by blast
  have "0 < unat count" using assms(4) by (simp add: word_less_nat_alt)
  with barrier_reach_room [OF a(1)] have inv: "gate_inv (barrier_gate b n (unat count)) a" by blast
  show ?thesis
  proof (cases "stages a t")
    case (Waking h' o2 k ws e)
    have "ws \<noteq> []" using gate_invD(1,3) [OF inv, of t] barrier_unlocked [OF a(1)] Waking by auto
    with Waking barrier_rel_at [OF a(2), of t] walking_goes show ?thesis by fastforce
  qed (use barrier_rel_at [OF a(2), of t] in
    \<open>auto simp: pthread_barrier_wait_def spin_section_def section_of_def pthread_block_def syscall_def\<close>)
qed

end
