(* ===== verification/Mach_Spin.thy ===== *)
theory Mach_Spin
  imports Spin_Lock
begin

text \<open>
  The spin locks of the Mach build (\<^verbatim>\<open>sysdeps/mach/bits/spin-lock-inline.h\<close>, \<^verbatim>\<open>sysdeps/mach/pt-spin.c\<close>), which call
  the lock operations of \<^verbatim>\<open>machine-lock.h\<close> and of the C library.  Those are parameters; with operations that do what
  their header documents, the two builds have the same spin locks.
\<close>

section \<open>Operations\<close>

type_synonym try_lock = "spinaddr \<Rightarrow> pt_state \<Rightarrow> bool \<times> pt_state"

definition mach_spin_destroy :: "spinaddr \<Rightarrow> pt_state \<Rightarrow> rc \<times> pt_state" where
  "mach_spin_destroy l s = (OK, s)"

text \<open>\<open>init\<close> is \<^verbatim>\<open>__PTHREAD_SPIN_LOCK_INITIALIZER\<close>.\<close>

definition mach_spin_init :: "int \<Rightarrow> spinaddr \<Rightarrow> pt_state \<Rightarrow> rc \<times> pt_state" where
  "mach_spin_init init l s = (OK, upd_spin l init s)"

definition mach_spin_trylock :: "try_lock \<Rightarrow> spinaddr \<Rightarrow> pt_state \<Rightarrow> rc \<times> pt_state" where
  "mach_spin_trylock spin_try_lock l s = (case spin_try_lock l s of (got, s') \<Rightarrow> (if got then OK else EBUSY, s'))"

definition mach_spin_unlock :: "(spinaddr \<Rightarrow> pt_state \<Rightarrow> pt_state) \<Rightarrow> spinaddr \<Rightarrow> pt_state \<Rightarrow> rc \<times> pt_state" where
  "mach_spin_unlock spin_unlock l s = (OK, spin_unlock l s)"

definition mach_spin_lock_slow :: "(spinaddr \<Rightarrow> unit pt) \<Rightarrow> spinaddr \<Rightarrow> rc pt" where
  "mach_spin_lock_slow spin_lock_solid l = andthen (spin_lock_solid l) (\<lambda>_. Return OK)"

definition mach_spin_lock :: "try_lock \<Rightarrow> (spinaddr \<Rightarrow> unit pt) \<Rightarrow> spinaddr \<Rightarrow> rc pt" where
  "mach_spin_lock spin_try_lock spin_lock_solid l =
     andthen (section_of (\<lambda>_. True) (\<lambda>s. case mach_spin_trylock spin_try_lock l s of (r, s') \<Rightarrow> (Inr r, s'))) (\<lambda>r.
       if r \<noteq> OK then mach_spin_lock_slow spin_lock_solid l else Return OK)"

section \<open>Agreement of the builds\<close>

text \<open>
  What the machine's operations promise on a lock word that is 0 or 1: an attempt succeeds if and only if the word is 0 and
  leaves it 1, unlocking leaves it 0, and the blocking operation waits for 0 and leaves 1.
\<close>

locale machine_lock =
  fixes spin_try_lock :: try_lock and spin_unlock :: "spinaddr \<Rightarrow> pt_state \<Rightarrow> pt_state"
    and spin_lock_solid :: "spinaddr \<Rightarrow> unit pt" and h :: "pt_state env"
  assumes try_lock: "spin s l \<in> {0, 1} \<Longrightarrow> spin_try_lock l s = (spin s l = 0, upd_spin l 1 s)"
    and unlock: "spin_unlock l s = upd_spin l 0 s"
    and solid_free: "spin s l = 0 \<Longrightarrow> run (spin_lock_solid l) h s = Done () (upd_spin l 1 s)"
    and solid_held: "spin s l = 1 \<Longrightarrow> \<exists>p. run (spin_lock_solid l) h s = Waiting p s"
begin

lemma trylock_agrees: "spin s l \<in> {0, 1} \<Longrightarrow> mach_spin_trylock spin_try_lock l s = pthread_spin_trylock l s"
  by (auto simp: mach_spin_trylock_def try_lock pthread_spin_trylock_def)

lemma unlock_agrees: "mach_spin_unlock spin_unlock l s = (OK, pthread_spin_unlock l s)"
  by (simp add: mach_spin_unlock_def unlock pthread_spin_unlock_def)

lemma lock_free:
  "spin s l = 0 \<Longrightarrow> run (mach_spin_lock spin_try_lock spin_lock_solid l) h s = Done OK (upd_spin l 1 s)"
  by (simp add: mach_spin_lock_def run_simps trylock_agrees pthread_spin_trylock_def)

lemma lock_held:
  assumes "spin s l = 1"
  shows "\<exists>p. run (mach_spin_lock spin_try_lock spin_lock_solid l) h s = Waiting p s"
proof -
  obtain p where "run (spin_lock_solid l) h s = Waiting p s" using solid_held [OF assms] by blast
  with assms show ?thesis
    by (simp add: mach_spin_lock_def mach_spin_lock_slow_def run_simps trylock_agrees pthread_spin_trylock_def)
qed

end

text \<open>The operations of the i386 build keep these promises.\<close>

definition i386_try_lock :: try_lock where
  "i386_try_lock l s = (case pthread_spin_trylock l s of (r, s') \<Rightarrow> (r = OK, s'))"

definition i386_lock_solid :: "spinaddr \<Rightarrow> unit pt" where
  "i386_lock_solid l = andthen (spin_acquire l) (\<lambda>_. Return ())"

lemma i386_machine_lock: "machine_lock i386_try_lock pthread_spin_unlock i386_lock_solid h"
  by unfold_locales
    (auto simp: i386_try_lock_def i386_lock_solid_def pthread_spin_trylock_def pthread_spin_unlock_def run_simps)

interpretation i386_lock: machine_lock i386_try_lock pthread_spin_unlock i386_lock_solid h for h
  by (rule i386_machine_lock)

text \<open>
  The two builds have the same spin locks: over machine operations that keep their promises,
  attempts and unlocking are those of the i386 build, and locking returns 0 with the lock taken if it is free
  and waits without effect if it is held, as the specification \<open>spin_acquire\<close> demands.
\<close>

theorem mach_spin_agrees:
  assumes "machine_lock spin_try_lock spin_unlock spin_lock_solid h" and "spin s l \<in> {0, 1}"
  shows "mach_spin_trylock spin_try_lock l s = pthread_spin_trylock l s \<and>
    mach_spin_unlock spin_unlock l s = (OK, pthread_spin_unlock l s) \<and>
    (case run (spin_acquire l) h s of
       Done r s' \<Rightarrow> run (mach_spin_lock spin_try_lock spin_lock_solid l) h s = Done r s'
     | Waiting _ s' \<Rightarrow> (\<exists>q. run (mach_spin_lock spin_try_lock spin_lock_solid l) h s = Waiting q s')
     | Failed _ _ \<Rightarrow> False)"
  using assms(2) machine_lock.trylock_agrees [OF assms] machine_lock.unlock_agrees [OF assms(1)]
    machine_lock.lock_free [OF assms(1)] machine_lock.lock_held [OF assms(1)]
  by (auto simp: run_simps)

end
