(* ===== verification/Attr.thy ===== *)
theory Attr
  imports Block
begin

text \<open>
  The attribute objects (\<^verbatim>\<open>sysdeps/generic/pt-attr*.c\<close>, \<^verbatim>\<open>pt-mutexattr*.c\<close>, \<^verbatim>\<open>pt-condattr*.c\<close>,
  \<^verbatim>\<open>pt-rwlockattr*.c\<close>, \<^verbatim>\<open>pt-barrierattr*.c\<close> and the Hurd's \<^verbatim>\<open>sysdeps/mach/hurd/pt-attr-set*.c\<close>, which
  replace the generic ones).  An attribute object is a value; a setter returns its code and the new
  object, a getter its code and the value it stores through its pointer argument.  The default
  attributes of threads are a variable of the library and so an argument.  The locale
  \<open>attr_member\<close> states what all pairs of a setter and a getter have in common.
\<close>

section \<open>Defaults\<close>

definition SCHED_OTHER :: int where "SCHED_OTHER = 0"
definition SCHED_FIFO :: int where "SCHED_FIFO = 1"
definition SCHED_RR :: int where "SCHED_RR = 2"

lemmas sched_consts = SCHED_OTHER_def SCHED_FIFO_def SCHED_RR_def

definition PTHREAD_STACK_DEFAULT :: "32 word" where
  "PTHREAD_STACK_DEFAULT = 2 * 1024 * 1024"

text \<open>\<^verbatim>\<open>PAGESIZE\<close> may be undefined in \<^verbatim>\<open>limits.h\<close>.\<close>

definition pthread_default_attr :: "32 word option \<Rightarrow> pthread_attr" where
  "pthread_default_attr pagesize =
     \<lparr>at_sched_priority = 0, at_stackaddr = 0, at_stacksize = PTHREAD_STACK_DEFAULT,
      at_guardsize = (case pagesize of Some p \<Rightarrow> p | None \<Rightarrow> 1),
      at_detachstate = PTHREAD_CREATE_JOINABLE, at_inheritsched = PTHREAD_EXPLICIT_SCHED,
      at_contentionscope = PTHREAD_SCOPE_SYSTEM, at_schedpolicy = SCHED_OTHER\<rparr>"

definition pthread_default_condattr :: pthread_condattr where
  "pthread_default_condattr =
     \<lparr>ca_pshared = PTHREAD_PROCESS_PRIVATE, ca_clock = CLOCK_REALTIME\<rparr>"

definition pthread_default_rwlockattr :: pthread_rwlockattr where
  "pthread_default_rwlockattr = \<lparr>ra_pshared = PTHREAD_PROCESS_PRIVATE\<rparr>"

definition pthread_default_barrierattr :: pthread_barrierattr where
  "pthread_default_barrierattr = \<lparr>ba_pshared = PTHREAD_PROCESS_PRIVATE\<rparr>"

section \<open>Thread attributes\<close>

definition pthread_attr_init :: "pthread_attr \<Rightarrow> rc \<times> pthread_attr" where
  "pthread_attr_init dflt = (OK, dflt)"

definition pthread_attr_destroy :: "pthread_attr \<Rightarrow> rc \<times> pthread_attr" where
  "pthread_attr_destroy attr = (OK, attr)"

definition pthread_attr_getdetachstate :: "pthread_attr \<Rightarrow> rc \<times> int" where
  "pthread_attr_getdetachstate attr = (OK, at_detachstate attr)"

definition pthread_attr_setdetachstate :: "pthread_attr \<Rightarrow> int \<Rightarrow> rc \<times> pthread_attr" where
  "pthread_attr_setdetachstate attr detachstate =
     (if detachstate = PTHREAD_CREATE_DETACHED \<or> detachstate = PTHREAD_CREATE_JOINABLE
      then (OK, attr\<lparr>at_detachstate := detachstate\<rparr>)
      else (EINVAL, attr))"

definition pthread_attr_getguardsize :: "pthread_attr \<Rightarrow> rc \<times> 32 word" where
  "pthread_attr_getguardsize attr = (OK, at_guardsize attr)"

definition pthread_attr_setguardsize :: "pthread_attr \<Rightarrow> 32 word \<Rightarrow> rc \<times> pthread_attr" where
  "pthread_attr_setguardsize attr guardsize = (OK, attr\<lparr>at_guardsize := guardsize\<rparr>)"

definition pthread_attr_getinheritsched :: "pthread_attr \<Rightarrow> rc \<times> int" where
  "pthread_attr_getinheritsched attr = (OK, at_inheritsched attr)"

definition pthread_attr_setinheritsched :: "pthread_attr \<Rightarrow> int \<Rightarrow> rc \<times> pthread_attr" where
  "pthread_attr_setinheritsched attr inheritsched =
     (if inheritsched = PTHREAD_INHERIT_SCHED \<or> inheritsched = PTHREAD_EXPLICIT_SCHED
      then (OK, attr\<lparr>at_inheritsched := inheritsched\<rparr>)
      else (EINVAL, attr))"

definition pthread_attr_getschedparam :: "pthread_attr \<Rightarrow> rc \<times> int" where
  "pthread_attr_getschedparam attr = (OK, at_sched_priority attr)"

definition pthread_attr_setschedparam ::
    "pthread_attr \<Rightarrow> pthread_attr \<Rightarrow> int \<Rightarrow> rc \<times> pthread_attr" where
  "pthread_attr_setschedparam dflt attr param =
     (if param = at_sched_priority dflt
      then (OK, attr\<lparr>at_sched_priority := param\<rparr>)
      else (ENOTSUP, attr))"

definition pthread_attr_getschedpolicy :: "pthread_attr \<Rightarrow> rc \<times> int" where
  "pthread_attr_getschedpolicy attr = (OK, at_schedpolicy attr)"

definition pthread_attr_setschedpolicy :: "pthread_attr \<Rightarrow> int \<Rightarrow> rc \<times> pthread_attr" where
  "pthread_attr_setschedpolicy attr policy =
     (if policy = SCHED_OTHER then (OK, attr\<lparr>at_schedpolicy := policy\<rparr>)
      else if policy = SCHED_FIFO \<or> policy = SCHED_RR then (ENOTSUP, attr)
      else (EINVAL, attr))"

definition pthread_attr_getscope :: "pthread_attr \<Rightarrow> rc \<times> int" where
  "pthread_attr_getscope attr = (OK, at_contentionscope attr)"

definition pthread_attr_setscope ::
    "pthread_attr \<Rightarrow> pthread_attr \<Rightarrow> int \<Rightarrow> rc \<times> pthread_attr" where
  "pthread_attr_setscope dflt attr contentionscope =
     (if contentionscope = at_contentionscope dflt
      then (OK, attr\<lparr>at_contentionscope := contentionscope\<rparr>)
      else if contentionscope = PTHREAD_SCOPE_PROCESS \<or> contentionscope = PTHREAD_SCOPE_SYSTEM
      then (ENOTSUP, attr)
      else (EINVAL, attr))"

definition pthread_attr_getstackaddr :: "pthread_attr \<Rightarrow> rc \<times> 32 word" where
  "pthread_attr_getstackaddr attr = (OK, at_stackaddr attr)"

definition pthread_attr_getstacksize :: "pthread_attr \<Rightarrow> rc \<times> 32 word" where
  "pthread_attr_getstacksize attr = (OK, at_stacksize attr)"

definition pthread_attr_getstack :: "pthread_attr \<Rightarrow> rc \<times> 32 word \<times> 32 word" where
  "pthread_attr_getstack attr =
     (OK, snd (pthread_attr_getstackaddr attr), snd (pthread_attr_getstacksize attr))"

text \<open>The generic setters of the stack, and those of the Hurd, which take their place.\<close>

definition generic_attr_setstackaddr :: "pthread_attr \<Rightarrow> 32 word \<Rightarrow> rc \<times> pthread_attr" where
  "generic_attr_setstackaddr attr stackaddr = (OK, attr\<lparr>at_stackaddr := stackaddr\<rparr>)"

definition generic_attr_setstacksize ::
    "pthread_attr \<Rightarrow> pthread_attr \<Rightarrow> 32 word \<Rightarrow> rc \<times> pthread_attr" where
  "generic_attr_setstacksize dflt attr stacksize =
     (if stacksize = at_stacksize dflt then
        (let attr1 = attr\<lparr>at_stacksize := stacksize\<rparr>
         in (OK, if at_guardsize attr1 > at_stacksize attr1
                 then attr1\<lparr>at_guardsize := at_stacksize attr1\<rparr> else attr1))
      else (ENOTSUP, attr))"

unbundle bit_operations_syntax

definition pthread_attr_setstackaddr ::
    "pthread_attr \<Rightarrow> pthread_attr \<Rightarrow> 32 word \<Rightarrow> rc \<times> pthread_attr" where
  "pthread_attr_setstackaddr dflt attr stackaddr =
     (if stackaddr AND (at_stacksize dflt - 1) \<noteq> 0 then (EINVAL, attr)
      else (OK, attr\<lparr>at_stackaddr := stackaddr\<rparr>))"

definition pthread_attr_setstacksize ::
    "pthread_attr \<Rightarrow> pthread_attr \<Rightarrow> 32 word \<Rightarrow> rc \<times> pthread_attr" where
  "pthread_attr_setstacksize dflt attr stacksize =
     (if stacksize \<noteq> at_stacksize dflt then (EINVAL, attr)
      else (OK, attr\<lparr>at_stacksize := stacksize\<rparr>))"

text \<open>
  \<^verbatim>\<open>pthread_attr_setstack\<close>, with the two setters it calls.  The first component is \<open>Inl\<close> if the
  \<^verbatim>\<open>assert_perror\<close> on restoring the old size fails.
\<close>

definition pthread_attr_setstack ::
    "(pthread_attr \<Rightarrow> 32 word \<Rightarrow> rc \<times> pthread_attr) \<Rightarrow>
     (pthread_attr \<Rightarrow> 32 word \<Rightarrow> rc \<times> pthread_attr) \<Rightarrow>
     pthread_attr \<Rightarrow> 32 word \<Rightarrow> 32 word \<Rightarrow> (fault + rc) \<times> pthread_attr" where
  "pthread_attr_setstack setaddr setsize attr stackaddr stacksize =
     (let s = snd (pthread_attr_getstacksize attr) in
      case setsize attr stacksize of
        (err, attr1) \<Rightarrow>
          if err \<noteq> OK then (Inr err, attr1)
          else
            (case setaddr attr1 stackaddr of
               (err, attr2) \<Rightarrow>
                 if err \<noteq> OK then
                   (case setsize attr2 s of
                      (e, attr3) \<Rightarrow>
                        if e \<noteq> OK then (Inl Assert_failed, attr3) else (Inr err, attr3))
                 else (Inr OK, attr2)))"

section \<open>Mutex attributes\<close>

definition pthread_mutexattr_init :: "pthread_mutexattr \<Rightarrow> rc \<times> pthread_mutexattr" where
  "pthread_mutexattr_init dflt = (OK, dflt)"

definition pthread_mutexattr_destroy :: "pthread_mutexattr \<Rightarrow> rc \<times> pthread_mutexattr" where
  "pthread_mutexattr_destroy attr = (OK, attr)"

text \<open>Priority ceilings are not implemented: nothing is read or written.\<close>

definition pthread_mutexattr_getprioceiling :: "pthread_mutexattr \<Rightarrow> rc" where
  "pthread_mutexattr_getprioceiling attr = ENOSYS"

definition pthread_mutexattr_setprioceiling ::
    "pthread_mutexattr \<Rightarrow> int \<Rightarrow> rc \<times> pthread_mutexattr" where
  "pthread_mutexattr_setprioceiling attr prioceiling = (ENOSYS, attr)"

definition pthread_mutex_getprioceiling :: "maddr \<Rightarrow> rc" where
  "pthread_mutex_getprioceiling m = ENOSYS"

definition pthread_mutex_setprioceiling :: "maddr \<Rightarrow> int \<Rightarrow> pt_state \<Rightarrow> rc \<times> pt_state" where
  "pthread_mutex_setprioceiling m prio s = (ENOSYS, s)"

definition pthread_mutexattr_getprotocol :: "pthread_mutexattr \<Rightarrow> rc \<times> int" where
  "pthread_mutexattr_getprotocol attr = (OK, ma_protocol attr)"

definition pthread_mutexattr_setprotocol ::
    "pthread_mutexattr \<Rightarrow> pthread_mutexattr \<Rightarrow> int \<Rightarrow> rc \<times> pthread_mutexattr" where
  "pthread_mutexattr_setprotocol dflt attr protocol =
     (if protocol = ma_protocol dflt then (OK, attr\<lparr>ma_protocol := protocol\<rparr>)
      else if protocol = PTHREAD_PRIO_NONE \<or> protocol = PTHREAD_PRIO_INHERIT \<or>
              protocol = PTHREAD_PRIO_PROTECT
      then (ENOTSUP, attr)
      else (EINVAL, attr))"

definition pthread_mutexattr_getpshared :: "pthread_mutexattr \<Rightarrow> rc \<times> int" where
  "pthread_mutexattr_getpshared attr = (OK, ma_pshared attr)"

definition pthread_mutexattr_setpshared ::
    "pthread_mutexattr \<Rightarrow> int \<Rightarrow> rc \<times> pthread_mutexattr" where
  "pthread_mutexattr_setpshared attr pshared =
     (if pshared = PTHREAD_PROCESS_PRIVATE then (OK, attr\<lparr>ma_pshared := pshared\<rparr>)
      else if pshared = PTHREAD_PROCESS_SHARED then (ENOTSUP, attr)
      else (EINVAL, attr))"

definition pthread_mutexattr_gettype :: "pthread_mutexattr \<Rightarrow> rc \<times> int" where
  "pthread_mutexattr_gettype attr = (OK, ma_mutex_type attr)"

definition pthread_mutexattr_settype :: "pthread_mutexattr \<Rightarrow> int \<Rightarrow> rc \<times> pthread_mutexattr" where
  "pthread_mutexattr_settype attr type =
     (if type = PTHREAD_MUTEX_NORMAL \<or> type = PTHREAD_MUTEX_ERRORCHECK \<or>
         type = PTHREAD_MUTEX_RECURSIVE
      then (OK, attr\<lparr>ma_mutex_type := type\<rparr>)
      else (EINVAL, attr))"

section \<open>Attributes of conditions, rwlocks and barriers\<close>

definition pthread_condattr_init :: "rc \<times> pthread_condattr" where
  "pthread_condattr_init = (OK, pthread_default_condattr)"

definition pthread_condattr_destroy :: "pthread_condattr \<Rightarrow> rc \<times> pthread_condattr" where
  "pthread_condattr_destroy attr = (OK, attr)"

definition pthread_condattr_getclock :: "pthread_condattr \<Rightarrow> rc \<times> int" where
  "pthread_condattr_getclock attr = (OK, ca_clock attr)"

text \<open>The static variable \<^verbatim>\<open>avail\<close> caches the answer of \<^verbatim>\<open>clock_getres\<close>: 0 unknown, -1 no, 1 yes.\<close>

definition pthread_condattr_setclock ::
    "pthread_condattr \<Rightarrow> int \<Rightarrow> (rc \<times> pthread_condattr) pt" where
  "pthread_condattr_setclock attr clock =
     (let set_it = (OK, attr\<lparr>ca_clock := clock\<rparr>) in
      if clock = CLOCK_MONOTONIC then
        andthen (gets clock_avail) (\<lambda>avail.
        andthen (if avail = 0 then
                   andthen (syscall (Clock_getres CLOCK_MONOTONIC)) (\<lambda>(res, _, _).
                     modify (\<lambda>s. s\<lparr>clock_avail := if res \<noteq> OK then -1 else 1\<rparr>))
                 else Return ()) (\<lambda>_.
        andthen (gets clock_avail) (\<lambda>avail.
          if avail < 0 then Return (EINVAL, attr) else Return set_it)))
      else if clock \<noteq> CLOCK_REALTIME then Return (EINVAL, attr)
      else Return set_it)"

definition pthread_condattr_getpshared :: "pthread_condattr \<Rightarrow> rc \<times> int" where
  "pthread_condattr_getpshared attr = (OK, ca_pshared attr)"

definition pthread_condattr_setpshared ::
    "pthread_condattr \<Rightarrow> int \<Rightarrow> rc \<times> pthread_condattr" where
  "pthread_condattr_setpshared attr pshared =
     (if pshared = PTHREAD_PROCESS_PRIVATE then (OK, attr\<lparr>ca_pshared := pshared\<rparr>)
      else if pshared = PTHREAD_PROCESS_SHARED then (ENOTSUP, attr)
      else (EINVAL, attr))"

definition pthread_rwlockattr_init :: "rc \<times> pthread_rwlockattr" where
  "pthread_rwlockattr_init = (OK, pthread_default_rwlockattr)"

definition pthread_rwlockattr_destroy :: "pthread_rwlockattr \<Rightarrow> rc \<times> pthread_rwlockattr" where
  "pthread_rwlockattr_destroy attr = (OK, attr)"

definition pthread_rwlockattr_getpshared :: "pthread_rwlockattr \<Rightarrow> rc \<times> int" where
  "pthread_rwlockattr_getpshared attr = (OK, ra_pshared attr)"

definition pthread_rwlockattr_setpshared ::
    "pthread_rwlockattr \<Rightarrow> int \<Rightarrow> rc \<times> pthread_rwlockattr" where
  "pthread_rwlockattr_setpshared attr pshared =
     (if pshared = PTHREAD_PROCESS_PRIVATE then (OK, attr\<lparr>ra_pshared := pshared\<rparr>)
      else if pshared = PTHREAD_PROCESS_SHARED then (ENOTSUP, attr)
      else (EINVAL, attr))"

definition pthread_barrierattr_init :: "rc \<times> pthread_barrierattr" where
  "pthread_barrierattr_init = (OK, pthread_default_barrierattr)"

definition pthread_barrierattr_destroy :: "pthread_barrierattr \<Rightarrow> rc \<times> pthread_barrierattr" where
  "pthread_barrierattr_destroy attr = (OK, attr)"

definition pthread_barrierattr_getpshared :: "pthread_barrierattr \<Rightarrow> rc \<times> int" where
  "pthread_barrierattr_getpshared attr = (OK, ba_pshared attr)"

definition pthread_barrierattr_setpshared ::
    "pthread_barrierattr \<Rightarrow> int \<Rightarrow> rc \<times> pthread_barrierattr" where
  "pthread_barrierattr_setpshared attr pshared =
     (if pshared = PTHREAD_PROCESS_PRIVATE then (OK, attr\<lparr>ba_pshared := pshared\<rparr>)
      else if pshared = PTHREAD_PROCESS_SHARED then (ENOTSUP, attr)
      else (EINVAL, attr))"

section \<open>Concurrency, scheduling and clocks\<close>

definition pthread_getconcurrency :: "pt_state \<Rightarrow> int" where
  "pthread_getconcurrency s = concurrency s"

definition pthread_setconcurrency :: "int \<Rightarrow> pt_state \<Rightarrow> rc \<times> pt_state" where
  "pthread_setconcurrency new_level s =
     (if new_level < 0 then (EINVAL, s) else (OK, s\<lparr>concurrency := new_level\<rparr>))"

definition pthread_getschedparam :: "int \<Rightarrow> rc" where
  "pthread_getschedparam thread = ENOSYS"

definition pthread_setschedparam :: "int \<Rightarrow> int \<Rightarrow> int \<Rightarrow> pt_state \<Rightarrow> rc \<times> pt_state" where
  "pthread_setschedparam thread policy param s = (ENOSYS, s)"

definition pthread_setschedprio :: "int \<Rightarrow> int \<Rightarrow> pt_state \<Rightarrow> rc \<times> pt_state" where
  "pthread_setschedprio thread prio s = (ENOSYS, s)"

text \<open>\<^verbatim>\<open>CLOCK_THREAD_CPUTIME_ID\<close> is a macro of the C library, defined or not.\<close>

definition pthread_getcpuclockid :: "int option \<Rightarrow> int \<Rightarrow> rc \<times> int option" where
  "pthread_getcpuclockid cputime_id thread =
     (case cputime_id of Some c \<Rightarrow> (OK, Some c) | None \<Rightarrow> (ENOSYS, None))"

definition pthread_equal :: "int \<Rightarrow> int \<Rightarrow> bool" where
  "pthread_equal t1 t2 \<longleftrightarrow> t1 = t2"

section \<open>The contract of a setter and its getter\<close>

locale attr_member =
  fixes setter :: "'a \<Rightarrow> 'v \<Rightarrow> rc \<times> 'a"
    and getter :: "'a \<Rightarrow> rc \<times> 'v"
    and accepts :: "'v \<Rightarrow> bool"
  assumes getter_ok: "fst (getter a) = OK"
    and setter_code: "fst (setter a v) = OK \<longleftrightarrow> accepts v"
    and stored: "accepts v \<Longrightarrow> snd (getter (snd (setter a v))) = v"
    and rejected: "\<not> accepts v \<Longrightarrow> snd (setter a v) = a"
    and overwritten: "accepts v \<Longrightarrow> accepts w \<Longrightarrow>
      snd (setter (snd (setter a v)) w) = snd (setter a w)"
    and unchanged: "accepts (snd (getter a)) \<Longrightarrow> snd (setter a (snd (getter a))) = a"
begin

text \<open>The member behaves like a variable that holds the last accepted value.\<close>

lemma last_accepted:
  "getter (snd (fold (\<lambda>v r. setter (snd r) v) vs (c, a))) =
     (OK, case filter accepts (rev vs) of [] \<Rightarrow> snd (getter a) | v # _ \<Rightarrow> v)"
proof (induction vs rule: rev_induct)
  case Nil
  then show ?case by (simp add: prod_eq_iff getter_ok)
next
  case (snoc v vs)
  then show ?case
    by (cases "accepts v") (simp_all add: prod_eq_iff getter_ok stored rejected)
qed

lemma set_then_get:
  "setter a v = (OK, b) \<Longrightarrow> getter b = (OK, v)"
  using getter_ok [of b] setter_code [of a v] stored [of v a] by (auto simp: prod_eq_iff)

end

lemmas attr_defs =
  pthread_attr_getdetachstate_def pthread_attr_setdetachstate_def
  pthread_attr_getguardsize_def pthread_attr_setguardsize_def
  pthread_attr_getinheritsched_def pthread_attr_setinheritsched_def
  pthread_attr_getschedparam_def pthread_attr_setschedparam_def
  pthread_attr_getschedpolicy_def pthread_attr_setschedpolicy_def
  pthread_attr_getscope_def pthread_attr_setscope_def
  pthread_attr_getstackaddr_def pthread_attr_setstackaddr_def
  pthread_attr_getstacksize_def pthread_attr_setstacksize_def generic_attr_setstackaddr_def
  pthread_mutexattr_getprotocol_def pthread_mutexattr_setprotocol_def
  pthread_mutexattr_getpshared_def pthread_mutexattr_setpshared_def
  pthread_mutexattr_gettype_def pthread_mutexattr_settype_def
  pthread_condattr_getpshared_def pthread_condattr_setpshared_def
  pthread_rwlockattr_getpshared_def pthread_rwlockattr_setpshared_def
  pthread_barrierattr_getpshared_def pthread_barrierattr_setpshared_def

interpretation detachstate: attr_member pthread_attr_setdetachstate pthread_attr_getdetachstate
  "\<lambda>v. v = PTHREAD_CREATE_DETACHED \<or> v = PTHREAD_CREATE_JOINABLE"
  by unfold_locales (auto simp: attr_defs split: if_splits)

interpretation guardsize: attr_member pthread_attr_setguardsize pthread_attr_getguardsize
  "\<lambda>_. True"
  by unfold_locales (auto simp: attr_defs)

interpretation inheritsched: attr_member pthread_attr_setinheritsched pthread_attr_getinheritsched
  "\<lambda>v. v = PTHREAD_INHERIT_SCHED \<or> v = PTHREAD_EXPLICIT_SCHED"
  by unfold_locales (auto simp: attr_defs split: if_splits)

interpretation schedparam: attr_member "pthread_attr_setschedparam dflt" pthread_attr_getschedparam
  "\<lambda>v. v = at_sched_priority dflt" for dflt
  by unfold_locales (auto simp: attr_defs split: if_splits)

interpretation schedpolicy: attr_member pthread_attr_setschedpolicy pthread_attr_getschedpolicy
  "\<lambda>v. v = SCHED_OTHER"
  by unfold_locales (auto simp: attr_defs split: if_splits)

interpretation scope: attr_member "pthread_attr_setscope dflt" pthread_attr_getscope
  "\<lambda>v. v = at_contentionscope dflt" for dflt
  by unfold_locales (auto simp: attr_defs split: if_splits)

interpretation stackaddr: attr_member "pthread_attr_setstackaddr dflt" pthread_attr_getstackaddr
  "\<lambda>v. v AND (at_stacksize dflt - 1) = 0" for dflt
  by unfold_locales (auto simp: attr_defs split: if_splits)

interpretation stacksize: attr_member "pthread_attr_setstacksize dflt" pthread_attr_getstacksize
  "\<lambda>v. v = at_stacksize dflt" for dflt
  by unfold_locales (auto simp: attr_defs split: if_splits)

interpretation mutex_protocol: attr_member "pthread_mutexattr_setprotocol dflt"
  pthread_mutexattr_getprotocol "\<lambda>v. v = ma_protocol dflt" for dflt
  by unfold_locales (auto simp: attr_defs split: if_splits)

interpretation mutex_pshared: attr_member pthread_mutexattr_setpshared pthread_mutexattr_getpshared
  "\<lambda>v. v = PTHREAD_PROCESS_PRIVATE"
  by unfold_locales (auto simp: attr_defs split: if_splits)

interpretation mutex_type: attr_member pthread_mutexattr_settype pthread_mutexattr_gettype
  "\<lambda>v. v = PTHREAD_MUTEX_NORMAL \<or> v = PTHREAD_MUTEX_ERRORCHECK \<or> v = PTHREAD_MUTEX_RECURSIVE"
  by unfold_locales (auto simp: attr_defs split: if_splits)

interpretation cond_pshared: attr_member pthread_condattr_setpshared pthread_condattr_getpshared
  "\<lambda>v. v = PTHREAD_PROCESS_PRIVATE"
  by unfold_locales (auto simp: attr_defs split: if_splits)

interpretation rwlock_pshared: attr_member pthread_rwlockattr_setpshared
  pthread_rwlockattr_getpshared "\<lambda>v. v = PTHREAD_PROCESS_PRIVATE"
  by unfold_locales (auto simp: attr_defs split: if_splits)

interpretation barrier_pshared: attr_member pthread_barrierattr_setpshared
  pthread_barrierattr_getpshared "\<lambda>v. v = PTHREAD_PROCESS_PRIVATE"
  by unfold_locales (auto simp: attr_defs split: if_splits)

section \<open>Properties\<close>

text \<open>
  After any sequence of calls that set the type of a mutex attribute object, the getter
  returns the last of the values that the setter accepted, or the initial one: rejected
  calls leave no trace.  A mutex can therefore never get a type that makes its operations crash
  through the attribute functions.
\<close>

theorem mutexattr_type_last_accepted:
  "pthread_mutexattr_gettype
     (snd (fold (\<lambda>v r. pthread_mutexattr_settype (snd r) v) vs (c, a))) =
   (OK, case filter (\<lambda>v. v = PTHREAD_MUTEX_NORMAL \<or> v = PTHREAD_MUTEX_ERRORCHECK \<or>
                       v = PTHREAD_MUTEX_RECURSIVE) (rev vs) of
          [] \<Rightarrow> snd (pthread_mutexattr_gettype a) | v # _ \<Rightarrow> v)"
  by (rule mutex_type.last_accepted)

text \<open>
  On the Hurd \<^verbatim>\<open>pthread_attr_setstack\<close> stores address and size together or, whichever of
  the two it rejects, leaves the attribute object exactly as it was; restoring the old size never
  fails its assertion, provided that the object's size is the default one, as every object's is
  that \<^verbatim>\<open>pthread_attr_init\<close> and the setters produce.
\<close>

theorem setstack_all_or_nothing:
  assumes "at_stacksize attr = at_stacksize dflt"
  shows "pthread_attr_setstack (pthread_attr_setstackaddr dflt) (pthread_attr_setstacksize dflt)
           attr addr sz =
         (if sz = at_stacksize dflt \<and> addr AND (at_stacksize dflt - 1) = 0
          then (Inr OK, attr\<lparr>at_stackaddr := addr, at_stacksize := sz\<rparr>)
          else (Inr EINVAL, attr))"
proof -
  have "attr\<lparr>at_stacksize := at_stacksize dflt\<rparr> = attr" using assms [symmetric] by simp
  then show ?thesis using assms
    by (auto simp: pthread_attr_setstack_def attr_defs Let_def)
qed

theorem setstack_all_or_nothing_witness:
  "pthread_attr_setstack (pthread_attr_setstackaddr zero_attr) (pthread_attr_setstacksize zero_attr)
     zero_attr 4096 2097152 =
   (if 2097152 = at_stacksize zero_attr \<and> 4096 AND (at_stacksize zero_attr - 1) = 0
    then (Inr OK, zero_attr\<lparr>at_stackaddr := 4096, at_stacksize := 2097152\<rparr>)
    else (Inr EINVAL, zero_attr))"
  by (rule setstack_all_or_nothing) simp

end
