(* ===== verification/Inlines.thy ===== *)
theory Inlines
  imports Mach_Spin Attr
begin

text \<open>
  The functions that the public header defines inline (\<^verbatim>\<open>include/pthread/pthread.h\<close>), the compare-and-swap of
  \<^verbatim>\<open>pt-atomic.h\<close>, and the locks of streams (\<^verbatim>\<open>lockfile.c\<close>), which are calls of the C library.
\<close>

section \<open>Inline functions\<close>

definition inline_pthread_equal :: "int \<Rightarrow> int \<Rightarrow> bool" where
  "inline_pthread_equal t1 t2 = pthread_equal t1 t2"

definition inline_spin_destroy :: "spinaddr \<Rightarrow> pt_state \<Rightarrow> rc \<times> pt_state" where
  "inline_spin_destroy l = pthread_spin_destroy l"

text \<open>The second argument does not matter to the function that is called.\<close>

definition inline_spin_init :: "spinaddr \<Rightarrow> int \<Rightarrow> pt_state \<Rightarrow> rc \<times> pt_state" where
  "inline_spin_init l pshared = pthread_spin_init l"

definition inline_spin_lock :: "nat \<Rightarrow> nat \<Rightarrow> spinaddr \<Rightarrow> rc pt" where
  "inline_spin_lock n spin_count l = pthread_spin_lock n spin_count l"

definition inline_spin_trylock :: "spinaddr \<Rightarrow> pt_state \<Rightarrow> rc \<times> pt_state" where
  "inline_spin_trylock l = pthread_spin_trylock l"

definition inline_spin_unlock :: "spinaddr \<Rightarrow> pt_state \<Rightarrow> rc \<times> pt_state" where
  "inline_spin_unlock l s = (OK, pthread_spin_unlock l s)"

lemma inline_spin_cycle:
  assumes "inline_spin_init l pshared s = (e, s1)"
  shows "\<exists>s2 s3. inline_spin_trylock l s1 = (OK, s2) \<and> fst (inline_spin_trylock l s2) = EBUSY \<and>
    inline_spin_unlock l s2 = (OK, s3) \<and> fst (inline_spin_trylock l s3) = OK"
  using assms
  by (auto simp: inline_spin_init_def inline_spin_trylock_def inline_spin_unlock_def pthread_spin_init_def
      pthread_spin_trylock_def pthread_spin_unlock_def)

section \<open>Compare and swap\<close>

text \<open>The atomic action on the word: the returned flag and its new value.\<close>

definition atomicptr_compare_and_swap :: "int \<Rightarrow> int \<Rightarrow> int \<Rightarrow> bool \<times> int" where
  "atomicptr_compare_and_swap oldval newval w = (if w = oldval then (True, newval) else (False, w))"

text \<open>Of two threads that replace the same value by a different one, in either order, one succeeds.\<close>

lemma one_swap_succeeds:
  assumes "x \<noteq> w" and "y \<noteq> w" and "atomicptr_compare_and_swap w x w = (r, w1)"
    and "atomicptr_compare_and_swap w y w1 = (q, w2)"
  shows "r \<and> \<not> q \<and> w2 = x"
  using assms by (auto simp: atomicptr_compare_and_swap_def)

section \<open>Locks of streams\<close>

definition cthreads_flockfile :: "int \<Rightarrow> unit pt" where
  "cthreads_flockfile fp_lock = andthen (syscall (Extern ''_IO_lock_lock'' [fp_lock])) (\<lambda>_. Return ())"

definition cthreads_funlockfile :: "int \<Rightarrow> unit pt" where
  "cthreads_funlockfile fp_lock = andthen (syscall (Extern ''_IO_lock_unlock'' [fp_lock])) (\<lambda>_. Return ())"

definition cthreads_ftrylockfile :: "int \<Rightarrow> int pt" where
  "cthreads_ftrylockfile fp_lock =
     andthen (syscall (Extern ''__libc_lock_trylock_recursive'' [fp_lock])) (\<lambda>(_, r, _). Return r)"

text \<open>With a lock that nobody has, locking and unlocking a stream leaves everything as it was.\<close>

lemma flockfile_funlockfile:
  assumes "h (Extern ''_IO_lock_lock'' [l]) s = Some (r, s1)" and "h (Extern ''_IO_lock_unlock'' [l]) s1 = Some (q, s)"
  shows "run (andthen (cthreads_flockfile l) (\<lambda>_. cthreads_funlockfile l)) h s = Done () s"
  using assms by (simp add: cthreads_flockfile_def cthreads_funlockfile_def run_simps)

end
