(* ===== verification/Mutex_Props.thy ===== *)
theory Mutex_Props
  imports Mutex
begin

text \<open>
  What a single call of a mutex operation does, on every branch: uncontended locking and
  unlocking, nesting of recursive mutexes, the error returns, waiting and handing over.
\<close>

section \<open>Uncontended\<close>

text \<open>A mutex that nobody holds or waits for, as its initialiser or its last unlock leaves it.\<close>

definition idle_mutex :: "pt_state \<Rightarrow> maddr \<Rightarrow> bool" where
  "idle_mutex s m \<longleftrightarrow>
     unlocked s m \<and> known_type s m \<and> cell s (Mutex_queue m) = None \<and>
     m_owner (mutexes s m) = None \<and> m_locks (mutexes s m) = 0"

lemma fun_upd_same_upd [simp]: "f x = y \<Longrightarrow> f(x := z, x := y) = f"
  by auto

lemma run_unlock_acquired:
  assumes "idle_mutex s m"
  shows "run (pthread_mutex_unlock m t) h (acquired m t s) = Done OK s"
  using assms
  by (cases "resolve_attr (m_attr (mutexes s m))")
    (auto simp: pthread_mutex_unlock_def run_simps idle_mutex_def unlocked_def known_type_def
      mutex_type_of_def acquired_def mutex_sections pthread_consts is_normal_def Let_def
      fun_eq_iff intro!: pt_state.equality)

text \<open>
  Locking an idle mutex of any of the three types succeeds at once, and the owner's unlock
  succeeds and restores the state exactly.
\<close>

theorem mutex_lock_unlock_roundtrip:
  assumes "idle_mutex s m"
  shows "run (andthen (pthread_mutex_lock m t) (\<lambda>e1.
           andthen (pthread_mutex_unlock m t) (\<lambda>e2. Return (e1, e2)))) h s = Done (OK, OK) s"
proof -
  have "run (pthread_mutex_lock m t) h s = Done OK (acquired m t s)"
    using assms run_timedlock_free by (simp add: pthread_mutex_lock_def idle_mutex_def)
  then show ?thesis using run_unlock_acquired [OF assms] by (simp add: run_simps)
qed

lemma idle_zero [simp]: "idle_mutex zero_state m"
  by (simp add: idle_mutex_def unlocked_def known_type_def mutex_type_of_def resolve_attr_def)

theorem mutex_lock_unlock_roundtrip_witness:
  "run (andthen (pthread_mutex_lock (User_mutex 0) 1) (\<lambda>e1.
     andthen (pthread_mutex_unlock (User_mutex 0) 1) (\<lambda>e2. Return (e1, e2)))) port0 zero_state =
   Done (OK, OK) zero_state"
  by (rule mutex_lock_unlock_roundtrip) simp

section \<open>Recursive mutexes\<close>

text \<open>\<open>owns_recursive s m t n\<close>: thread \<open>t\<close> holds the recursive mutex at nesting depth \<open>n\<close>.\<close>

definition owns_recursive :: "pt_state \<Rightarrow> maddr \<Rightarrow> thr \<Rightarrow> 32 word \<Rightarrow> bool" where
  "owns_recursive s m t n \<longleftrightarrow>
     mutex_type_of s m = PTHREAD_MUTEX_RECURSIVE \<and> spin s (M_lock m) = 0 \<and>
     spin s (M_held m) = 1 \<and> m_owner (mutexes s m) = Some t \<and> m_locks (mutexes s m) = n"

definition set_locks :: "maddr \<Rightarrow> 32 word \<Rightarrow> pt_state \<Rightarrow> pt_state" where
  "set_locks m n s = upd_mutex m (\<lambda>x. x\<lparr>m_locks := n\<rparr>) s"

lemma run_relock:
  assumes "owns_recursive s m t n"
  shows "run (pthread_mutex_lock m t) h s = Done OK (set_locks m (n + 1) s)"
  using assms
  by (cases "resolve_attr (m_attr (mutexes s m))")
    (auto simp: pthread_mutex_lock_def pthread_mutex_timedlock_internal_def run_simps
      owns_recursive_def mutex_type_of_def mutex_sections pthread_consts set_locks_def
      intro!: pt_state.equality)

lemma run_unlock_nested:
  assumes "owns_recursive s m t n" and "n - 1 > 0"
  shows "run (pthread_mutex_unlock m t) h s = Done OK (set_locks m (n - 1) s)"
  using assms
  by (cases "resolve_attr (m_attr (mutexes s m))")
    (auto simp: pthread_mutex_unlock_def run_simps owns_recursive_def mutex_type_of_def
      mutex_sections pthread_consts Let_def set_locks_def intro!: pt_state.equality)

lemma owns_recursive_set_locks:
  "owns_recursive s m t n \<Longrightarrow> owns_recursive (set_locks m k s) m t k"
  by (auto simp: owns_recursive_def mutex_type_of_def set_locks_def)

lemma set_locks_twice: "set_locks m j (set_locks m k s) = set_locks m j s"
  by (auto simp: set_locks_def)

lemma set_locks_same: "owns_recursive s m t n \<Longrightarrow> set_locks m n s = s"
  by (auto simp: owns_recursive_def set_locks_def fun_eq_iff intro!: pt_state.equality)

text \<open>\<open>n\<close> calls in a row, all of which have to return \<open>OK\<close>.\<close>

primrec times :: "nat \<Rightarrow> rc pt \<Rightarrow> bool pt" where
  "times 0 p = Return True"
| "times (Suc n) p = andthen p (\<lambda>r. if r = OK then times n p else Return False)"

lemma run_relocks:
  "owns_recursive s m t k \<Longrightarrow>
   run (times n (pthread_mutex_lock m t)) h s = Done True (set_locks m (k + of_nat n) s)"
proof (induction n arbitrary: s k)
  case 0
  then show ?case by (simp add: set_locks_same)
next
  case (Suc n)
  note IH = Suc.IH [OF owns_recursive_set_locks [OF Suc.prems], of "k + 1"]
  show ?case
    using IH by (simp add: run_simps run_relock [OF Suc.prems] set_locks_twice algebra_simps)
qed

lemma run_unlocks:
  "owns_recursive s m t (k + of_nat n) \<Longrightarrow> k > 0 \<Longrightarrow> unat k + n < 2 ^ 32 \<Longrightarrow>
   run (times n (pthread_mutex_unlock m t)) h s = Done True (set_locks m k s)"
proof (induction n arbitrary: s)
  case 0
  then show ?case by (simp add: set_locks_same)
next
  case (Suc n)
  have d: "k + of_nat (Suc n) - 1 = k + of_nat n" by simp
  have "unat (k + of_nat n :: 32 word) = unat k + n"
    using Suc.prems(3) by (simp add: unat_word_ariths unat_of_nat)
  then have pos: "k + of_nat n > 0"
    using Suc.prems(2) by (simp add: word_less_nat_alt)
  have "run (pthread_mutex_unlock m t) h s = Done OK (set_locks m (k + of_nat n) s)"
    using run_unlock_nested [OF Suc.prems(1)] pos by (simp only: d)
  then show ?case
    using Suc.IH [OF owns_recursive_set_locks [OF Suc.prems(1)]] Suc.prems(2,3)
    by (simp add: run_simps set_locks_twice)
qed

text \<open>
  C30: A thread that holds a recursive mutex can lock it any number of times more, without
  waiting, and as many unlocks bring it back to the state before: the mutex stays its own all along
  (as long as the 32-bit nesting count does not wrap around).
\<close>

theorem recursive_nesting:
  assumes "owns_recursive s m t k" and "k > 0" and "unat k + n < 2 ^ 32"
  shows "run (andthen (times n (pthread_mutex_lock m t)) (\<lambda>a.
           andthen (times n (pthread_mutex_unlock m t)) (\<lambda>b. Return (a, b)))) h s =
         Done (True, True) s"
  using run_relocks [OF assms(1)]
    run_unlocks [OF owns_recursive_set_locks [OF assms(1)] assms(2,3)]
  by (simp add: run_simps set_locks_twice set_locks_same [OF assms(1)])

definition rec_state :: pt_state where
  "rec_state = acquired (User_mutex 0) 1
     (upd_mutex (User_mutex 0) (\<lambda>x. x\<lparr>m_attr := Attr_recursive\<rparr>) zero_state)"

lemma owns_rec_state: "owns_recursive rec_state (User_mutex 0) 1 1"
  by (simp add: owns_recursive_def rec_state_def acquired_def mutex_type_of_def resolve_attr_def
      pthread_recursive_mutexattr_def)

theorem recursive_nesting_witness:
  "run (andthen (times 3 (pthread_mutex_lock (User_mutex 0) 1)) (\<lambda>a.
     andthen (times 3 (pthread_mutex_unlock (User_mutex 0) 1)) (\<lambda>b. Return (a, b)))) port0 rec_state =
   Done (True, True) rec_state"
  by (rule recursive_nesting [OF owns_rec_state]) simp_all

section \<open>Errors\<close>

text \<open>A mutex held by \<open>o\<close>, with its spin lock free.\<close>

definition held_by :: "pt_state \<Rightarrow> maddr \<Rightarrow> thr \<Rightarrow> bool" where
  "held_by s m t \<longleftrightarrow>
     spin s (M_lock m) = 0 \<and> spin s (M_held m) = 1 \<and> m_owner (mutexes s m) = Some t"

lemma run_relock_errorcheck:
  assumes "held_by s m t" and "mutex_type_of s m = PTHREAD_MUTEX_ERRORCHECK"
  shows "run (pthread_mutex_timedlock m t abstime) h s = Done EDEADLK s"
  using assms
  by (cases "resolve_attr (m_attr (mutexes s m))")
    (auto simp: pthread_mutex_timedlock_def pthread_mutex_timedlock_internal_def run_simps
      held_by_def mutex_type_of_def mutex_sections pthread_consts fun_upd_idem fun_upd_twist)

lemma run_trylock_busy:
  assumes "held_by s m t" and "known_type s m" and "t \<noteq> u \<or> mutex_type_of s m \<noteq> PTHREAD_MUTEX_RECURSIVE"
  shows "run (pthread_mutex_trylock m u) h s = Done EBUSY s"
  using assms
  by (cases "resolve_attr (m_attr (mutexes s m))")
    (auto simp: pthread_mutex_trylock_def run_simps held_by_def mutex_type_of_def known_type_def
      mutex_sections pthread_consts fun_upd_idem fun_upd_twist)

lemma run_unlock_eperm:
  assumes "held_by s m t" and "u \<noteq> t"
    and "mutex_type_of s m \<in> {PTHREAD_MUTEX_ERRORCHECK, PTHREAD_MUTEX_RECURSIVE}"
  shows "run (pthread_mutex_unlock m u) h s = Done EPERM s"
  using assms
  by (cases "resolve_attr (m_attr (mutexes s m))")
    (auto simp: pthread_mutex_unlock_def run_simps held_by_def mutex_type_of_def
      mutex_sections pthread_consts fun_upd_idem)

text \<open>
  The misuse that an error-checking mutex reports, with no effect on the state: its holder's
  second lock is \<^verbatim>\<open>EDEADLK\<close> (whatever the deadline), another thread's unlock is \<^verbatim>\<open>EPERM\<close>, and
  another thread's trylock is \<^verbatim>\<open>EBUSY\<close>.
\<close>

theorem errorcheck_misuse:
  assumes "held_by s m t" and "mutex_type_of s m = PTHREAD_MUTEX_ERRORCHECK" and "u \<noteq> t"
  shows "run (pthread_mutex_timedlock m t abstime) h s = Done EDEADLK s \<and>
         run (pthread_mutex_unlock m u) h s = Done EPERM s \<and>
         run (pthread_mutex_trylock m u) h s = Done EBUSY s"
  using run_relock_errorcheck [OF assms(1,2)] run_unlock_eperm [OF assms(1,3)]
    run_trylock_busy [OF assms(1)] assms(2,3)
  by (simp add: known_type_def)

definition ec_state :: pt_state where
  "ec_state = acquired (User_mutex 0) 1
     (upd_mutex (User_mutex 0) (\<lambda>x. x\<lparr>m_attr := Attr_errorcheck\<rparr>) zero_state)"

lemma ec_state_simps:
  "held_by ec_state (User_mutex 0) 1"
  "mutex_type_of ec_state (User_mutex 0) = PTHREAD_MUTEX_ERRORCHECK"
  by (simp_all add: held_by_def ec_state_def acquired_def mutex_type_of_def resolve_attr_def
      pthread_errorcheck_mutexattr_def pthread_consts)

theorem errorcheck_misuse_witness:
  "run (pthread_mutex_timedlock (User_mutex 0) 1 None) port0 ec_state = Done EDEADLK ec_state \<and>
   run (pthread_mutex_unlock (User_mutex 0) 2) port0 ec_state = Done EPERM ec_state \<and>
   run (pthread_mutex_trylock (User_mutex 0) 2) port0 ec_state = Done EBUSY ec_state"
  by (rule errorcheck_misuse [OF ec_state_simps]) simp

lemma waiting_if_locked:
  assumes "spin s (M_lock m) \<noteq> 0"
  shows "run (pthread_mutex_timedlock m u ts) h s \<noteq> Done r s'"
    and "run (pthread_mutex_trylock m u) h s \<noteq> Done r s'"
    and "run (pthread_mutex_unlock m u) h s \<noteq> Done r s'"
  using assms
  by (simp_all add: pthread_mutex_timedlock_def pthread_mutex_timedlock_internal_def
      pthread_mutex_trylock_def pthread_mutex_unlock_def run_simps)

lemma run_timedlock_einval:
  assumes "spin s (M_lock m) = 0" and "spin s (M_held m) = 1"
    and "mutex_type_of s m = PTHREAD_MUTEX_NORMAL" and "bad_nsec (Some ts)"
  shows "run (pthread_mutex_timedlock m t (Some ts)) h s = Done EINVAL (upd_spin (M_lock m) 1 s)"
  using assms
  by (cases "resolve_attr (m_attr (mutexes s m))")
    (auto simp: pthread_mutex_timedlock_def pthread_mutex_timedlock_internal_def run_simps
      mutex_type_of_def mutex_sections pthread_consts is_normal_def
      simp del: bad_nsec_Some intro!: pt_state.equality)

text \<open>
  A timed lock of a busy default mutex with nanoseconds out of range returns \<^verbatim>\<open>EINVAL\<close>
  without releasing the mutex's internal spin lock; afterwards no lock, trylock or unlock of that
  mutex, the holder's included, returns.
\<close>

theorem timedlock_einval_leaks_lock:
  assumes "spin s (M_lock m) = 0" and "spin s (M_held m) = 1"
    and "mutex_type_of s m = PTHREAD_MUTEX_NORMAL" and "bad_nsec (Some ts)"
  shows "\<exists>s1. run (pthread_mutex_timedlock m t (Some ts)) h s = Done EINVAL s1 \<and>
           run (pthread_mutex_unlock m u) h s1 \<noteq> Done r s2 \<and>
           run (pthread_mutex_trylock m u) h s1 \<noteq> Done r s2 \<and>
           run (pthread_mutex_timedlock m u ts') h s1 \<noteq> Done r s2"
  unfolding run_timedlock_einval [OF assms]
  using waiting_if_locked [of "upd_spin (M_lock m) 1 s" m] by simp

theorem timedlock_einval_leaks_lock_witness:
  "\<exists>s1. run (pthread_mutex_timedlock (User_mutex 0) 2 (Some \<lparr>tv_sec = 9, tv_nsec = -1\<rparr>)) port0
      (upd_spin (M_held (User_mutex 0)) 1 zero_state) = Done EINVAL s1 \<and>
     run (pthread_mutex_unlock (User_mutex 0) 1) port0 s1 \<noteq> Done OK zero_state \<and>
     run (pthread_mutex_trylock (User_mutex 0) 1) port0 s1 \<noteq> Done OK zero_state \<and>
     run (pthread_mutex_timedlock (User_mutex 0) 1 None) port0 s1 \<noteq> Done OK zero_state"
  by (rule timedlock_einval_leaks_lock) (simp_all add: mutex_type_of_def resolve_attr_def)

section \<open>Waiting and handing over\<close>

lemma timedlock_enter_wait:
  assumes "held_by s m u" and "t \<noteq> u" and "known_type s m" and "\<not> queued s t"
    and "\<not> bad_nsec abstime"
  shows "\<exists>c v. pthread_enqueue (Mutex_queue m) t (upd_spin (M_lock m) 1 s) =
             Some (upd_spin (M_lock m) 1 s\<lparr>cell := c, prevp := v\<rparr>) \<and>
           timedlock_enter (resolve_attr (m_attr (mutexes s m))) m t abstime (upd_spin (M_lock m) 1 s) =
             (Inr None, s\<lparr>cell := c, prevp := v\<rparr>)"
proof -
  let ?s = "upd_spin (M_lock m) 1 s"
  from pthread_enqueue_links [of "Mutex_queue m" ?s t] assms(4)
  obtain c v where cv: "pthread_enqueue (Mutex_queue m) t ?s = Some (?s\<lparr>cell := c, prevp := v\<rparr>)"
    by simp
  have held: "spin ?s (M_held m) = 1" using assms(1) by (simp add: held_by_def)
  have u: "pthread_spin_unlock (M_lock m) (?s\<lparr>cell := c, prevp := v\<rparr>) = s\<lparr>cell := c, prevp := v\<rparr>"
    using assms(1) by (auto simp: pthread_spin_unlock_def held_by_def intro!: pt_state.equality)
  have "timedlock_enqueue (resolve_attr (m_attr (mutexes s m))) m t abstime ?s =
      (Inr None, s\<lparr>cell := c, prevp := v\<rparr>)"
    using assms(1,5) cv u by (simp add: timedlock_enqueue_def held_by_def)
  with assms(1-3) held upd_spin_same [OF held] cv show ?thesis
    by (cases "resolve_attr (m_attr (mutexes s m))")
      (auto simp: timedlock_enter_def pthread_spin_trylock_def held_by_def known_type_def
        mutex_type_of_def)
qed

text \<open>
  A thread that locks a mutex held by another thread blocks as the first element of the wait
  queue, having released the internal spin lock, with everything but the queue as before.
\<close>

theorem lock_busy_waits:
  assumes "queues s Q" and "held_by s m u" and "t \<noteq> u" and "known_type s m" and "\<not> queued s t"
    and "mach_ports h" and "kmsgs s t = 0"
  shows "\<exists>c v p. run (pthread_mutex_lock m t) h s = Waiting p (s\<lparr>cell := c, prevp := v\<rparr>) \<and>
           linked c v (Q(Mutex_queue m := t # Q (Mutex_queue m)))"
proof -
  let ?a = "resolve_attr (m_attr (mutexes s m))" and ?s = "upd_spin (M_lock m) 1 s"
  from timedlock_enter_wait [OF assms(2-5), of None]
  obtain c v where cv: "pthread_enqueue (Mutex_queue m) t ?s = Some (?s\<lparr>cell := c, prevp := v\<rparr>)"
    "timedlock_enter ?a m t None ?s = (Inr None, s\<lparr>cell := c, prevp := v\<rparr>)" by auto
  have "queues ?s Q" "\<not> queued ?s t" using assms(1,5) by simp_all
  with wq.enq_ok [of ?s Q "Mutex_queue m" t] cv(1)
  have "linked c v (Q(Mutex_queue m := t # Q (Mutex_queue m)))" by auto
  moreover have "\<exists>p. run (pthread_mutex_lock m t) h s = Waiting p (s\<lparr>cell := c, prevp := v\<rparr>)"
    using assms(2,7) cv(2)
    by (simp add: pthread_mutex_lock_def pthread_mutex_timedlock_internal_def run_simps
        held_by_def block_until_def run_block [OF assms(6)])
  ultimately show ?thesis by blast
qed

definition busy_state :: pt_state where
  "busy_state = upd_mutex (User_mutex 0) (\<lambda>x. x\<lparr>m_owner := Some 1\<rparr>)
     (upd_spin (M_held (User_mutex 0)) 1 zero_state)"

lemma busy_state_simps:
  "queues busy_state (\<lambda>_. [])" "held_by busy_state (User_mutex 0) 1"
  "known_type busy_state (User_mutex 0)" "\<not> queued busy_state 2" "kmsgs busy_state 2 = 0"
  by (simp_all add: busy_state_def linked_def held_by_def known_type_def mutex_type_of_def
      resolve_attr_def)

theorem lock_busy_waits_witness:
  "\<exists>c v p. run (pthread_mutex_lock (User_mutex 0) 2) port0 busy_state =
       Waiting p (busy_state\<lparr>cell := c, prevp := v\<rparr>) \<and>
     linked c v ((\<lambda>_. [])(Mutex_queue (User_mutex 0) := 2 # (\<lambda>_. []) (Mutex_queue (User_mutex 0))))"
  by (rule lock_busy_waits [OF busy_state_simps(1,2) _ busy_state_simps(3,4)])
    (simp_all add: busy_state_simps)

text \<open>
  The holder's unlock of a contended default mutex takes the first waiter off the queue, leaves
  the mutex held on its behalf, and sends it exactly one wakeup message; that waiter's lock
  call then returns 0.
\<close>

theorem unlock_hands_over:
  assumes "queues s Q" and "Q (Mutex_queue m) = w # ws"
    and "spin s (M_lock m) = 0" and "spin s (M_held m) = 1" and "m_attr (mutexes s m) = Attr_null"
    and "mach_ports h" and "kmsgs s w = 0"
  shows "\<exists>s1. run (pthread_mutex_unlock m t) h s = Done OK s1 \<and>
           queues s1 (Q(Mutex_queue m := ws)) \<and> spin s1 = spin s \<and>
           kmsgs s1 = (kmsgs s)(w := 1) \<and>
           run (andthen (pthread_block w) (\<lambda>_. timedlock_woken None m w OK)) h s1 =
             Done OK (s1\<lparr>kmsgs := kmsgs s\<rparr>)"
proof -
  let ?s = "upd_spin (M_lock m) 1 s"
  have q: "queues ?s Q" using assms(1) by simp
  from wq.deq_first [OF q, of "Mutex_queue m" w ws] assms(2)
  have f: "cell s (Mutex_queue m) = Some w" by simp
  from wq.deq_first(2) [OF q, of "Mutex_queue m" w ws] assms(2)
  obtain s0 where s0: "pthread_dequeue w ?s = Some s0" "queues s0 (Q(Mutex_queue m := ws))"
    "\<not> queued s0 w" by auto
  then obtain l where "prevp ?s w = Some l" by (auto simp: pthread_dequeue_def split: option.splits)
  from pthread_dequeue_links [OF this] s0(1) obtain c v
    where s0': "s0 = ?s\<lparr>cell := c, prevp := v\<rparr>" by auto
  let ?s1 = "s\<lparr>cell := c, prevp := v, kmsgs := (kmsgs s)(w := 1)\<rparr>"
  have "run (pthread_mutex_unlock m t) h s = Done OK ?s1"
    using assms(3,5,7) f s0(1) s0' run_wakeup [OF assms(6)]
    by (auto simp: pthread_mutex_unlock_def run_simps unlock_section_def hand_over_def
        resolve_attr_def is_normal_def pthread_spin_unlock_def intro!: pt_state.equality)
  moreover have "run (andthen (pthread_block w) (\<lambda>_. timedlock_woken None m w OK)) h ?s1 =
      Done OK (?s1\<lparr>kmsgs := kmsgs s\<rparr>)"
    using assms(3,7) s0(3) s0' run_block [OF assms(6)]
    by (auto simp: run_simps timedlock_woken_def timedlock_end_def leave_queue_def
        timedlock_finish_def is_normal_def pthread_spin_unlock_def intro!: pt_state.equality)
  ultimately show ?thesis using s0(2) s0' by (intro exI [of _ ?s1]) auto
qed

definition contended_state :: pt_state where
  "contended_state = zero_state\<lparr>spin := (\<lambda>_. 0)(M_held (User_mutex 0) := 1),
     cell := (\<lambda>_. None)(Mutex_queue (User_mutex 0) := Some 2),
     prevp := (\<lambda>_. None)(2 := Some (Mutex_queue (User_mutex 0)))\<rparr>"

lemma contended_queues:
  "queues contended_state ((\<lambda>_. [])(Mutex_queue (User_mutex 0) := [2]))"
  by (auto simp: contended_state_def linked_def intro!: exI [of _ "Mutex_queue (User_mutex 0)"])

theorem unlock_hands_over_witness:
  "\<exists>s1. run (pthread_mutex_unlock (User_mutex 0) 1) port0 contended_state = Done OK s1 \<and>
     queues s1 (((\<lambda>_. [])(Mutex_queue (User_mutex 0) := [2]))(Mutex_queue (User_mutex 0) := [])) \<and>
     spin s1 = spin contended_state \<and> kmsgs s1 = (kmsgs contended_state)(2 := 1) \<and>
     run (andthen (pthread_block 2) (\<lambda>_. timedlock_woken None (User_mutex 0) 2 OK)) port0 s1 =
       Done OK (s1\<lparr>kmsgs := kmsgs contended_state\<rparr>)"
  by (rule unlock_hands_over [OF contended_queues]) (simp_all add: contended_state_def)

end
