(* ===== verification/Bracket.thy ===== *)
theory Bracket
  imports Mutex_Props Rwlock
begin

text \<open>
  What the code that protects its data by a lock relies on: taking the free lock and giving it back
  restores the state, and calls nothing outside the library.  The locale is interpreted on mutexes of any type, on both ways to hold a
  read-write lock, and on spin locks.
\<close>

definition bracket :: "rc pt \<Rightarrow> rc pt \<Rightarrow> 'a pt \<Rightarrow> 'a pt" where
  "bracket lock unlock body =
     andthen lock (\<lambda>_. andthen body (\<lambda>r. andthen unlock (\<lambda>_. Return r)))"

locale bracket_lock =
  fixes lock unlock :: "rc pt"
    and free :: "pt_state \<Rightarrow> bool"
    and taken :: "pt_state \<Rightarrow> pt_state"
    and h :: "pt_state env"
  assumes lock_free: "free s \<Longrightarrow> run lock h s = Done OK (taken s)"
    and unlock_taken: "free s \<Longrightarrow> run unlock h (taken s) = Done OK s"
    and lock_quiet: "free s \<Longrightarrow> requests lock h s = []"
    and unlock_quiet: "free s \<Longrightarrow> requests unlock h (taken s) = []"
begin

lemma bracketed:
  assumes "free s" and "run body h (taken s) = Done r (taken s1)" and "free s1"
  shows "run (bracket lock unlock body) h s = Done r s1"
  using assms by (simp add: bracket_def run_simps lock_free unlock_taken)

lemma bracketed_requests:
  assumes "free s" and "run body h (taken s) = Done r (taken s1)" and "free s1"
  shows "requests (bracket lock unlock body) h s = requests body h (taken s)"
  using assms by (simp add: bracket_def requests_simps lock_free lock_quiet unlock_quiet unlock_taken)

lemma bracketed_fail:
  assumes "free s" and "run body h (taken s) = Failed e s1"
  shows "run (bracket lock unlock body) h s = Failed e s1"
  using assms by (simp add: bracket_def run_simps lock_free)

end

lemma mutex_lock_quiet:
  assumes "idle_mutex s m"
  shows "requests (pthread_mutex_lock m t) h s = []"
  using assms
  by (cases "resolve_attr (m_attr (mutexes s m))")
    (auto simp: pthread_mutex_lock_def pthread_mutex_timedlock_internal_def requests_simps run_simps idle_mutex_def
      unlocked_def known_type_def mutex_type_of_def mutex_sections pthread_consts is_normal_def Let_def)

lemma mutex_unlock_quiet:
  assumes "idle_mutex s m"
  shows "requests (pthread_mutex_unlock m t) h (acquired m t s) = []"
  using assms
  by (cases "resolve_attr (m_attr (mutexes s m))")
    (auto simp: pthread_mutex_unlock_def requests_simps run_simps idle_mutex_def unlocked_def known_type_def
      mutex_type_of_def acquired_def mutex_sections pthread_consts is_normal_def Let_def)

interpretation mutex_lock: bracket_lock "pthread_mutex_lock m t" "pthread_mutex_unlock m t"
  "\<lambda>s. idle_mutex s m" "acquired m t" h for m t h
proof
  fix s assume "idle_mutex s m"
  then show "run (pthread_mutex_lock m t) h s = Done OK (acquired m t s)"
    using run_timedlock_free by (simp add: pthread_mutex_lock_def idle_mutex_def)
qed (simp_all add: run_unlock_acquired mutex_lock_quiet mutex_unlock_quiet)

text \<open>Taking a mutex changes nothing but its \<^verbatim>\<open>__held\<close> flag and, by type, its owner and count.\<close>

definition taken_mutex :: "thr \<Rightarrow> pthread_mutex \<Rightarrow> pthread_mutex" where
  "taken_mutex t x =
     (case resolve_attr (m_attr x) of
        None \<Rightarrow> x
      | Some a \<Rightarrow>
          if ma_mutex_type a = PTHREAD_MUTEX_RECURSIVE then x\<lparr>m_locks := 1, m_owner := Some t\<rparr>
          else if ma_mutex_type a = PTHREAD_MUTEX_ERRORCHECK then x\<lparr>m_owner := Some t\<rparr>
          else x)"

lemma acquired_eq:
  "acquired m t s = s\<lparr>spin := (spin s)(M_held m := 1),
     mutexes := (mutexes s)(m := taken_mutex t (mutexes s m))\<rparr>"
  by (cases "resolve_attr (m_attr (mutexes s m))")
    (auto simp: acquired_def mutex_type_of_def taken_mutex_def pthread_consts Let_def)

text \<open>A read-write lock that nobody holds or waits for.\<close>

definition idle_rwlock :: "pt_state \<Rightarrow> rwaddr \<Rightarrow> bool" where
  "idle_rwlock s r \<longleftrightarrow>
     spin s (R_lock r) = 0 \<and> spin s (R_held r) = 0 \<and> rw_readers (rwlocks s r) = 0 \<and>
     cell s (Reader_queue r) = None \<and> cell s (Writer_queue r) = None"

definition read_locked :: "rwaddr \<Rightarrow> pt_state \<Rightarrow> pt_state" where
  "read_locked r s = upd_rwlock r (\<lambda>x. x\<lparr>rw_readers := 1\<rparr>) (upd_spin (R_held r) 1 s)"

definition write_locked :: "rwaddr \<Rightarrow> pt_state \<Rightarrow> pt_state" where
  "write_locked r s = upd_spin (R_held r) 1 s"

interpretation read_lock: bracket_lock "pthread_rwlock_rdlock r t" "pthread_rwlock_unlock n r"
  "\<lambda>s. idle_rwlock s r" "read_locked r" h for r t n h
proof
  fix s assume i: "idle_rwlock s r"
  show "run (pthread_rwlock_rdlock r t) h s = Done OK (read_locked r s)"
    using i by (auto simp: pthread_rwlock_rdlock_def pthread_rwlock_timedrdlock_internal_def run_simps
        rw_sections idle_rwlock_def read_locked_def intro!: pt_state.equality)
  show "run (pthread_rwlock_unlock n r) h (read_locked r s) = Done OK s"
    using i by (auto simp: pthread_rwlock_unlock_def run_simps rw_unlock_section_def
        pthread_spin_trylock_def pthread_spin_unlock_def idle_rwlock_def read_locked_def Let_def
        fun_eq_iff intro!: pt_state.equality)
  show "requests (pthread_rwlock_rdlock r t) h s = []"
    using i by (auto simp: pthread_rwlock_rdlock_def pthread_rwlock_timedrdlock_internal_def requests_simps run_simps
        rw_sections idle_rwlock_def)
  show "requests (pthread_rwlock_unlock n r) h (read_locked r s) = []"
    using i by (auto simp: pthread_rwlock_unlock_def requests_simps run_simps rw_unlock_section_def
        pthread_spin_trylock_def pthread_spin_unlock_def idle_rwlock_def read_locked_def Let_def)
qed

interpretation write_lock: bracket_lock "pthread_rwlock_wrlock r t" "pthread_rwlock_unlock n r"
  "\<lambda>s. idle_rwlock s r" "write_locked r" h for r t n h
proof
  fix s assume i: "idle_rwlock s r"
  show "run (pthread_rwlock_wrlock r t) h s = Done OK (write_locked r s)"
    using i by (auto simp: pthread_rwlock_wrlock_def pthread_rwlock_timedwrlock_internal_def run_simps
        rw_sections idle_rwlock_def write_locked_def intro!: pt_state.equality)
  show "run (pthread_rwlock_unlock n r) h (write_locked r s) = Done OK s"
    using i by (auto simp: pthread_rwlock_unlock_def run_simps rw_unlock_section_def
        pthread_spin_trylock_def pthread_spin_unlock_def idle_rwlock_def write_locked_def Let_def
        fun_eq_iff intro!: pt_state.equality)
  show "requests (pthread_rwlock_wrlock r t) h s = []"
    using i by (auto simp: pthread_rwlock_wrlock_def pthread_rwlock_timedwrlock_internal_def requests_simps run_simps
        rw_sections idle_rwlock_def)
  show "requests (pthread_rwlock_unlock n r) h (write_locked r s) = []"
    using i by (auto simp: pthread_rwlock_unlock_def requests_simps run_simps rw_unlock_section_def
        pthread_spin_trylock_def pthread_spin_unlock_def idle_rwlock_def write_locked_def Let_def)
qed

interpretation spin_lock: bracket_lock "spin_acquire l"
  "andthen (spin_release l) (\<lambda>_. Return OK)" "\<lambda>s. spin s l = 0" "upd_spin l 1" h for l h
  by unfold_locales (auto simp: run_simps requests_simps fun_eq_iff intro!: pt_state.equality)

end
