(* ===== verification/Once.thy ===== *)
theory Once
  imports Block
begin

text \<open>
  \<^verbatim>\<open>pthread_once\<close> (\<^verbatim>\<open>sysdeps/generic/pt-once.c\<close>): a check without the lock, and a second one under
  the spin lock, which is held while the initialisation routine runs.  The routine is the program
  \<open>init\<close>; the second part of the theory considers any number of threads that call \<^verbatim>\<open>pthread_once\<close> with
  a routine of the program.
\<close>

section \<open>The operation\<close>

definition once_initializer :: "oaddr \<Rightarrow> pt_state \<Rightarrow> pt_state" where
  "once_initializer x s =
     s\<lparr>onces := (onces s)(x := \<lparr>once_run = 0\<rparr>), spin := (spin s)(O_lock x := 0)\<rparr>"

definition pthread_once :: "oaddr \<Rightarrow> unit pt \<Rightarrow> rc pt" where
  "pthread_once x init =
     andthen (gets (\<lambda>s. once_run (onces s x))) (\<lambda>r.
       if r = 0 then
         andthen (spin_acquire (O_lock x)) (\<lambda>_.
         andthen (gets (\<lambda>s. once_run (onces s x))) (\<lambda>r.
         andthen (if r = 0 then
                    andthen init (\<lambda>_. modify (\<lambda>s. s\<lparr>onces := (onces s)(x := \<lparr>once_run = 1\<rparr>)\<rparr>))
                  else Return ()) (\<lambda>_.
         andthen (spin_release (O_lock x)) (\<lambda>_. Return OK))))
       else Return OK)"

text \<open>One thread alone: the routine runs the first time and never again.\<close>

lemma run_once_again:
  "once_run (onces s x) \<noteq> 0 \<Longrightarrow> run (pthread_once x init) h s = Done OK s"
  by (simp add: pthread_once_def run_simps)

lemma run_once_first:
  assumes "once_run (onces s x) = 0" and "spin s (O_lock x) = 0"
    and "run init h (upd_spin (O_lock x) 1 s) = Done () s1"
  shows "run (pthread_once x init) h s =
    Done OK (upd_spin (O_lock x) 0 (s1\<lparr>onces := (onces s1)(x := \<lparr>once_run = 1\<rparr>)\<rparr>))"
  using assms by (simp add: pthread_once_def run_simps)

section \<open>Any number of threads\<close>

definition user_init :: "ptr \<Rightarrow> unit pt" where
  "user_init f = andthen (syscall (Callback f 0)) (\<lambda>_. Return ())"

datatype once_client = Not_called | Calling "rc pt" | Has_returned

text \<open>The third component counts the completed calls of the initialisation routine.\<close>

type_synonym once_sys = "(thr \<Rightarrow> once_client) \<times> pt_state \<times> nat"

definition at_routine :: "ptr \<Rightarrow> rc pt \<Rightarrow> bool" where
  "at_routine f p \<longleftrightarrow> (\<exists>k. p = Sys (Callback f 0) k)"

inductive ostep :: "pt_state env \<Rightarrow> oaddr \<Rightarrow> ptr \<Rightarrow> once_sys \<Rightarrow> once_sys \<Rightarrow> bool" for h x f where
  call: "cs t = Not_called \<Longrightarrow>
    ostep h x f (cs, s, n) (cs(t := Calling (pthread_once x (user_init f))), s, n)"
| step: "cs t = Calling p \<Longrightarrow> pstep h p s p' s' \<Longrightarrow>
    ostep h x f (cs, s, n) (cs(t := Calling p'), s', if at_routine f p then Suc n else n)"
| finish: "cs t = Calling (Return err) \<Longrightarrow> ostep h x f (cs, s, n) (cs(t := Has_returned), s, n)"

definition once_start :: "oaddr \<Rightarrow> once_sys \<Rightarrow> bool" where
  "once_start x c \<longleftrightarrow>
     fst c = (\<lambda>_. Not_called) \<and> once_run (onces (fst (snd c)) x) = 0 \<and>
     spin (fst (snd c)) (O_lock x) = 0 \<and> snd (snd c) = 0"

inductive oreach :: "pt_state env \<Rightarrow> oaddr \<Rightarrow> ptr \<Rightarrow> once_sys \<Rightarrow> once_sys \<Rightarrow> bool" for h x f where
  init: "once_start x c \<Longrightarrow> oreach h x f c c"
| step: "oreach h x f c d \<Longrightarrow> ostep h x f d e \<Longrightarrow> oreach h x f c e"

text \<open>What is required of the initialisation routine: that it leaves the control object alone.\<close>

definition routine_ok :: "pt_state env \<Rightarrow> oaddr \<Rightarrow> ptr \<Rightarrow> bool" where
  "routine_ok h x f \<longleftrightarrow>
     (\<forall>s r s'. h (Callback f 0) s = Some (r, s') \<longrightarrow>
        onces s' x = onces s x \<and> spin s' (O_lock x) = spin s (O_lock x))"

section \<open>The points of the program\<close>

datatype opoint = P_idle | P_read | P_lock | P_recheck | P_routine | P_set | P_unlock | P_end | P_done

definition prog_unlock :: "oaddr \<Rightarrow> rc pt" where
  "prog_unlock x = andthen (spin_release (O_lock x)) (\<lambda>_. Return OK)"

definition prog_set :: "oaddr \<Rightarrow> rc pt" where
  "prog_set x =
     andthen (modify (\<lambda>s. s\<lparr>onces := (onces s)(x := \<lparr>once_run = 1\<rparr>)\<rparr>)) (\<lambda>_. prog_unlock x)"

definition prog_routine :: "oaddr \<Rightarrow> ptr \<Rightarrow> rc pt" where
  "prog_routine x f = Sys (Callback f 0) (\<lambda>_. prog_set x)"

definition prog_recheck :: "oaddr \<Rightarrow> ptr \<Rightarrow> rc pt" where
  "prog_recheck x f =
     andthen (gets (\<lambda>s. once_run (onces s x))) (\<lambda>r. if r = 0 then prog_routine x f else prog_unlock x)"

definition prog_lock :: "oaddr \<Rightarrow> ptr \<Rightarrow> rc pt" where
  "prog_lock x f = andthen (spin_acquire (O_lock x)) (\<lambda>_. prog_recheck x f)"

lemma once_prog:
  "pthread_once x (user_init f) =
     andthen (gets (\<lambda>s. once_run (onces s x))) (\<lambda>r. if r = 0 then prog_lock x f else Return OK)"
proof -
  have *: "andthen (if r = 0 then andthen (user_init f)
            (\<lambda>_. modify (\<lambda>s. s\<lparr>onces := (onces s)(x := \<lparr>once_run = 1\<rparr>)\<rparr>)) else Return ())
          (\<lambda>_. andthen (spin_release (O_lock x)) (\<lambda>_. Return OK)) =
        (if r = 0 then prog_routine x f else prog_unlock x)" for r :: int
    by (simp add: user_init_def prog_routine_def prog_set_def prog_unlock_def andthen_syscall)
  show ?thesis
    unfolding pthread_once_def prog_lock_def prog_recheck_def * ..
qed

fun once_at :: "oaddr \<Rightarrow> ptr \<Rightarrow> opoint \<Rightarrow> once_client" where
  "once_at x f P_idle = Not_called"
| "once_at x f P_read = Calling (pthread_once x (user_init f))"
| "once_at x f P_lock = Calling (prog_lock x f)"
| "once_at x f P_recheck = Calling (prog_recheck x f)"
| "once_at x f P_routine = Calling (prog_routine x f)"
| "once_at x f P_set = Calling (prog_set x)"
| "once_at x f P_unlock = Calling (prog_unlock x)"
| "once_at x f P_end = Calling (Return OK)"
| "once_at x f P_done = Has_returned"

text \<open>The points at which a thread holds the spin lock.\<close>

definition critical :: "opoint \<Rightarrow> bool" where
  "critical p \<longleftrightarrow> p \<in> {P_recheck, P_routine, P_set, P_unlock}"

text \<open>\<open>k\<close> is the thread that holds the spin lock.\<close>

definition once_ok :: "(thr \<Rightarrow> opoint) \<Rightarrow> thr option \<Rightarrow> int \<Rightarrow> int \<Rightarrow> nat \<Rightarrow> bool" where
  "once_ok pt k r l n \<longleftrightarrow>
     (\<forall>t. critical (pt t) \<longleftrightarrow> k = Some t) \<and>
     l = (case k of None \<Rightarrow> 0 | Some _ \<Rightarrow> 1) \<and>
     (if r = 0 then n = (case k of None \<Rightarrow> 0 | Some t \<Rightarrow> if pt t = P_set then 1 else 0)
      else r = 1 \<and> n = 1 \<and> (case k of None \<Rightarrow> True | Some t \<Rightarrow> pt t \<noteq> P_routine \<and> pt t \<noteq> P_set)) \<and>
     (\<forall>t. pt t \<in> {P_unlock, P_end, P_done} \<longrightarrow> r = 1)"

definition once_rel :: "oaddr \<Rightarrow> ptr \<Rightarrow> (thr \<Rightarrow> opoint) \<Rightarrow> thr option \<Rightarrow> once_sys \<Rightarrow> bool" where
  "once_rel x f pt k c \<longleftrightarrow>
     (\<forall>t. fst c t = once_at x f (pt t)) \<and>
     once_ok pt k (once_run (onces (fst (snd c)) x)) (spin (fst (snd c)) (O_lock x)) (snd (snd c))"

lemmas prog_defs = prog_lock_def prog_recheck_def prog_routine_def prog_set_def prog_unlock_def
  gets_def modify_def spin_acquire_def spin_release_def pthread_spin_unlock_def

section \<open>The invariant\<close>

lemma critical_simps [simp]:
  "\<not> critical P_idle" "\<not> critical P_read" "\<not> critical P_lock" "critical P_recheck"
  "critical P_routine" "critical P_set" "critical P_unlock" "\<not> critical P_end" "\<not> critical P_done"
  by (simp_all add: critical_def)

text \<open>A move between points outside the lock.\<close>

lemma ok_outside:
  assumes "once_ok pt k r l n" and "\<not> critical (pt t)" and "\<not> critical p"
    and "p = P_end \<or> p = P_done \<Longrightarrow> r = 1"
  shows "once_ok (pt(t := p)) k r l n"
proof -
  have "k \<noteq> Some t" using assms(1,2) by (auto simp: once_ok_def)
  moreover have "p \<noteq> P_unlock" using assms(3) by auto
  ultimately show ?thesis
    using assms by (cases k; cases "r = 0") (auto simp: once_ok_def)
qed

lemma ok_lock:
  assumes "once_ok pt k r 0 n"
  shows "once_ok (pt(t := P_recheck)) (Some t) r 1 n"
proof -
  have "k = None" using assms by (cases k) (simp_all add: once_ok_def)
  with assms show ?thesis by (cases "r = 0") (auto simp: once_ok_def)
qed

text \<open>A move of the thread that holds the lock, which keeps it.\<close>

lemma ok_inside:
  assumes "once_ok pt k r l n" and "critical (pt t)" and "critical p"
    and "if r' = 0 then n' = (if p = P_set then 1 else 0)
         else r' = 1 \<and> n' = 1 \<and> p \<noteq> P_routine \<and> p \<noteq> P_set"
    and "p = P_unlock \<Longrightarrow> r' = 1" and "r = 1 \<Longrightarrow> r' = 1"
  shows "once_ok (pt(t := p)) k r' l n'"
proof -
  have k: "k = Some t" using assms(1,2) by (simp add: once_ok_def)
  have "p \<noteq> P_end" "p \<noteq> P_done" using assms(3) by auto
  with assms k show ?thesis by (cases "r' = 0"; cases "r = 0") (auto simp: once_ok_def)
qed

lemma ok_unlock:
  assumes "once_ok pt k r l n" and "pt t = P_unlock"
  shows "once_ok (pt(t := P_end)) None r 0 n"
proof -
  have "critical (pt t)" using assms(2) by simp
  with assms(1) have k: "k = Some t" unfolding once_ok_def by blast
  have r: "r = 1" using assms by (auto simp: once_ok_def)
  with assms k show ?thesis by (auto simp: once_ok_def split: if_splits)
qed

lemma ok_count:
  assumes "once_ok pt k r l n" and "critical (pt t)"
  shows "r = 0 \<Longrightarrow> n = (if pt t = P_set then 1 else 0)"
    and "r \<noteq> 0 \<Longrightarrow> r = 1 \<and> n = 1 \<and> pt t \<noteq> P_routine \<and> pt t \<noteq> P_set"
proof -
  have "k = Some t" using assms by (simp add: once_ok_def)
  with assms(1) show "r = 0 \<Longrightarrow> n = (if pt t = P_set then 1 else 0)"
    "r \<noteq> 0 \<Longrightarrow> r = 1 \<and> n = 1 \<and> pt t \<noteq> P_routine \<and> pt t \<noteq> P_set"
    by (simp_all add: once_ok_def)
qed

lemma ok_recheck:
  assumes "once_ok pt k r l n" and "pt t = P_recheck"
  shows "once_ok (pt(t := if r = 0 then P_routine else P_unlock)) k r l n"
  by (rule ok_inside [OF assms(1)])
    (use assms(2) ok_count [OF assms(1), of t] in \<open>auto split: if_splits\<close>)

lemma ok_routine:
  assumes "once_ok pt k r l n" and "pt t = P_routine"
  shows "once_ok (pt(t := P_set)) k r l (Suc n)"
  by (rule ok_inside [OF assms(1)])
    (use assms(2) ok_count [OF assms(1), of t] in auto)

lemma ok_set:
  assumes "once_ok pt k r l n" and "pt t = P_set"
  shows "once_ok (pt(t := P_unlock)) k 1 l n"
  by (rule ok_inside [OF assms(1)])
    (use assms(2) ok_count [OF assms(1), of t] in auto)

lemma once_rel_step:
  assumes "once_rel x f pt k (cs, s, n)" and "once_at x f p = c"
    and "once_ok (pt(t := p)) k' (once_run (onces s' x)) (spin s' (O_lock x)) n'"
  shows "\<exists>pt k. once_rel x f pt k (cs(t := c), s', n')"
  using assms by (intro exI [of _ "pt(t := p)"] exI [of _ k']) (auto simp: once_rel_def)

lemma sim_step:
  assumes rel: "once_rel x f pt k (cs, s, n)" and ok: "routine_ok h x f"
    and cs: "cs t = Calling p" and st: "pstep h p s p' s'"
  shows "\<exists>pt k. once_rel x f pt k (cs(t := Calling p'), s', if at_routine f p then Suc n else n)"
proof -
  from rel cs have at: "once_at x f (pt t) = Calling p"
    and inv: "once_ok pt k (once_run (onces s x)) (spin s (O_lock x)) n"
    by (auto simp: once_rel_def)
  let ?r = "once_run (onces s x)"
  show ?thesis
  proof (cases "pt t")
    case P_read
    with at st have "p' = (if ?r = 0 then prog_lock x f else Return OK)" "s' = s"
      "\<not> at_routine f p"
      by (auto simp: once_prog gets_def pstep_iffs at_routine_def)
    moreover have "?r = 0 \<or> ?r = 1" using inv by (auto simp: once_ok_def split: if_splits)
    ultimately show ?thesis
      using ok_outside [OF inv, of t "if ?r = 0 then P_lock else P_end"] P_read
      by (intro once_rel_step [OF rel, of "if ?r = 0 then P_lock else P_end"])
        (auto simp: critical_def)
  next
    case P_lock
    with at st have "spin s (O_lock x) = 0" "p' = prog_recheck x f" "s' = upd_spin (O_lock x) 1 s"
      "\<not> at_routine f p"
      by (auto simp: prog_lock_def spin_acquire_def pstep_iffs at_routine_def)
    then show ?thesis
      using ok_lock [of pt k ?r n t] inv by (intro once_rel_step [OF rel, of P_recheck]) auto
  next
    case P_recheck
    with at st have "p' = (if ?r = 0 then prog_routine x f else prog_unlock x)" "s' = s"
      "\<not> at_routine f p"
      by (auto simp: prog_recheck_def gets_def pstep_iffs at_routine_def)
    then show ?thesis
      using ok_recheck [OF inv P_recheck]
      by (intro once_rel_step [OF rel, of "if ?r = 0 then P_routine else P_unlock"]) auto
  next
    case P_routine
    with at st obtain r where "h (Callback f 0) s = Some (r, s')" "p' = prog_set x" "at_routine f p"
      by (auto simp: prog_routine_def pstep_iffs at_routine_def)
    moreover from ok this(1) have "onces s' x = onces s x" "spin s' (O_lock x) = spin s (O_lock x)"
      unfolding routine_ok_def by blast+
    ultimately show ?thesis
      using ok_routine [OF inv P_routine] by (intro once_rel_step [OF rel, of P_set]) auto
  next
    case P_set
    with at st have "p' = prog_unlock x" "s' = s\<lparr>onces := (onces s)(x := \<lparr>once_run = 1\<rparr>)\<rparr>"
      "\<not> at_routine f p"
      by (auto simp: prog_set_def modify_def pstep_iffs at_routine_def)
    with ok_set [OF inv P_set] show ?thesis by (intro once_rel_step [OF rel, of P_unlock]) auto
  next
    case P_unlock
    with at st have "p' = Return OK" "s' = upd_spin (O_lock x) 0 s" "\<not> at_routine f p"
      by (auto simp: prog_unlock_def spin_release_def modify_def pthread_spin_unlock_def pstep_iffs
          at_routine_def)
    with ok_unlock [OF inv P_unlock] show ?thesis by (intro once_rel_step [OF rel, of P_end]) auto
  qed (use at st in \<open>auto simp: pstep_iffs\<close>)
qed

lemma once_at_cases:
  "once_at x f p = Not_called \<longleftrightarrow> p = P_idle"
  "once_at x f p = Has_returned \<longleftrightarrow> p = P_done"
  "once_at x f p = Calling (Return e) \<Longrightarrow> p = P_end"
  by (cases p; simp add: once_prog prog_defs)+

lemma ostep_rel:
  assumes "ostep h x f c d" and "once_rel x f pt k c" and "routine_ok h x f"
  shows "\<exists>pt k. once_rel x f pt k d"
  using assms(1)
proof cases
  case (call cs t s n)
  with assms(2) have "pt t = P_idle" and
    inv: "once_ok pt k (once_run (onces s x)) (spin s (O_lock x)) n"
    by (auto simp: once_rel_def once_at_cases)
  with ok_outside [OF inv, of t P_read] have
    "once_ok (pt(t := P_read)) k (once_run (onces s x)) (spin s (O_lock x)) n"
    by (simp add: critical_def)
  with call assms(2) show ?thesis by (auto intro!: once_rel_step [of x f pt k cs s n P_read])
next
  case (step cs t p s p' s' n)
  with sim_step [of x f pt k cs s n h t p p' s'] assms show ?thesis by simp
next
  case (finish cs t err s n)
  then have "pt t = P_end" and
    inv: "once_ok pt k (once_run (onces s x)) (spin s (O_lock x)) n"
    using assms(2) once_at_cases(3) [of x f "pt t" err] by (auto simp: once_rel_def)
  with ok_outside [OF inv, of t P_done] have
    "once_ok (pt(t := P_done)) k (once_run (onces s x)) (spin s (O_lock x)) n"
    by (auto simp: critical_def once_ok_def)
  with finish assms(2) show ?thesis by (auto intro!: once_rel_step [of x f pt k cs s n P_done])
qed

lemma oreach_rel:
  assumes "oreach h x f c d" and "routine_ok h x f"
  shows "\<exists>pt k. once_rel x f pt k d"
  using assms(1)
proof induction
  case (init c)
  then show ?case
    by (intro exI [of _ "\<lambda>_. P_idle"] exI [of _ None])
      (auto simp: once_start_def once_rel_def once_ok_def critical_def)
next
  case (step c d e)
  then show ?case using ostep_rel assms(2) by blast
qed

text \<open>
  C28: However many threads call \<^verbatim>\<open>pthread_once\<close> on the same control object and however they are
  interleaved, the initialisation routine is executed at most once, and when any of the calls has
  returned it has been executed to its end.
\<close>

theorem once_exactly_once:
  assumes "routine_ok h x f" and "oreach h x f c (cs, s, n)"
  shows "n \<le> 1 \<and> (if \<exists>t. cs t = Has_returned then n = 1 else True)"
proof -
  from oreach_rel [OF assms(2,1)] obtain pt k where rel: "once_rel x f pt k (cs, s, n)" by blast
  then have "pt t = P_done \<longleftrightarrow> cs t = Has_returned" for t by (simp add: once_rel_def once_at_cases)
  with rel show ?thesis by (cases k) (auto simp: once_rel_def once_ok_def split: if_splits)
qed

text \<open>A run of one thread, for the witness.\<close>

definition yield_env :: "pt_state env" where
  "yield_env c s = Some ((OK, 0, 0), s)"

lemma psteps_oreach:
  assumes "psteps h p s p' s'" and "oreach h x f c (cs(t := Calling p), s, n)"
  shows "\<exists>n'. oreach h x f c (cs(t := Calling p'), s', n')"
  using assms
proof (induction arbitrary: n)
  case (step p s q u r v)
  have "ostep h x f (cs(t := Calling p), s, n)
      (cs(t := Calling q), u, if at_routine f p then Suc n else n)"
    using ostep.step [of "cs(t := Calling p)" t p h s q u x f n] step.hyps(1) by simp
  with step.prems show ?case by (intro step.IH) (rule oreach.step)
qed auto

lemma oreach_example:
  "\<exists>s n. oreach yield_env (User_once 0) 9 ((\<lambda>_. Not_called), zero_state, 0)
     ((\<lambda>_. Not_called)(1 := Has_returned), s, n)"
proof -
  let ?x = "User_once 0" and ?c = "((\<lambda>_::nat. Not_called), zero_state, 0::nat)"
  let ?p = "pthread_once ?x (user_init 9)"
  have "oreach yield_env ?x 9 ?c ?c" by (rule oreach.init) (simp add: once_start_def)
  from oreach.step [OF this ostep.call [of "\<lambda>_. Not_called" 1]]
  have c: "oreach yield_env ?x 9 ?c ((\<lambda>_. Not_called)(1 := Calling ?p), zero_state, 0)" by simp
  have "\<exists>s. run ?p yield_env zero_state = Done OK s"
    using run_once_first [of zero_state ?x "user_init 9" yield_env "upd_spin (O_lock ?x) 1 zero_state"]
    by (simp add: user_init_def run_simps yield_env_def)
  then obtain s where "run ?p yield_env zero_state = Done OK s" by blast
  from psteps_oreach [OF run_Done_psteps [OF this] c] obtain n
    where "oreach yield_env ?x 9 ?c ((\<lambda>_. Not_called)(1 := Calling (Return OK)), s, n)" by blast
  from oreach.step [OF this ostep.finish [of _ 1 OK]] show ?thesis by auto
qed

theorem once_exactly_once_witness:
  "\<exists>s n. oreach yield_env (User_once 0) 9 ((\<lambda>_. Not_called), zero_state, 0)
       ((\<lambda>_. Not_called)(1 := Has_returned), s, n) \<and> n = 1"
proof -
  from oreach_example obtain s n where
    r: "oreach yield_env (User_once 0) 9 ((\<lambda>_. Not_called), zero_state, 0)
       ((\<lambda>_. Not_called)(1 := Has_returned), s, n)" by blast
  have "routine_ok yield_env (User_once 0) 9" by (simp add: routine_ok_def yield_env_def)
  from once_exactly_once [OF this r] have "n = 1" by (auto split: if_splits)
  with r show ?thesis by blast
qed

end
