(* ===== verification/Key.thy ===== *)
theory Key
  imports Bracket Attr Once
begin

text \<open>
  Thread-specific data (\<^verbatim>\<open>sysdeps/hurd/pt-key.h\<close>, \<^verbatim>\<open>pt-key-create.c\<close>, \<^verbatim>\<open>pt-key-delete.c\<close>,
  \<^verbatim>\<open>pt-getspecific.c\<close>, \<^verbatim>\<open>pt-setspecific.c\<close>, \<^verbatim>\<open>pt-init-specific.c\<close>, \<^verbatim>\<open>pt-destroy-specific.c\<close>) and the
  generic versions that other systems would use.  Keys are indices of the array of destructors; the
  values of a thread are in a hash table of libihash, which is outside the library: the hypothesis
  \<open>ihash_ok\<close> states its documented behaviour.

  The code between locking and unlocking the key mutex that makes no call is one atomic action.
\<close>

section \<open>Initialisation of the key lock\<close>

definition key_lock_init :: "unit pt" where
  "key_lock_init =
     (case pthread_mutexattr_init pthread_default_mutexattr of (e1, a1) \<Rightarrow>
      andthen (assert_p (e1 = OK)) (\<lambda>_.
      case pthread_mutexattr_settype a1 PTHREAD_MUTEX_RECURSIVE of (e2, a2) \<Rightarrow>
      andthen (assert_p (e2 = OK)) (\<lambda>_.
      andthen (pthread_mutex_init Key_lock (Some a2)) (\<lambda>e3.
      andthen (assert_p (e3 = OK)) (\<lambda>_.
      case pthread_mutexattr_destroy a2 of (e4, a4) \<Rightarrow> assert_p (e4 = OK))))))"

definition key_lock_ready :: "rc pt" where
  "key_lock_ready = pthread_once Key_once key_lock_init"

section \<open>Creating keys\<close>

text \<open>The search loop: from \<open>i\<close> on, the first invalid element below \<open>count\<close>, or \<open>count\<close>.\<close>

function key_search :: "destructor list \<Rightarrow> int \<Rightarrow> int \<Rightarrow> int" where
  "key_search ds count i =
     (if i < count \<and> ds ! nat i \<noteq> Dtor_invalid then key_search ds count (i + 1) else i)"
  by auto
termination
  by (relation "measure (\<lambda>(ds, count, i). nat (count - i))") auto

declare key_search.simps [simp del]

datatype key_slot = Key_found int | Key_room | Key_full | Key_loops

text \<open>
  The label \<^verbatim>\<open>do_search\<close> up to the point where the array may have to grow.  A second search
  starts at 0; if that one found nothing either, the \<^verbatim>\<open>goto\<close> would be repeated forever.
\<close>

definition key_take :: "destructor \<Rightarrow> int \<Rightarrow> pt_state \<Rightarrow> (fault + key_slot) \<times> pt_state" where
  "key_take destructor i s =
     (if key_destructors s ! nat i \<noteq> Dtor_invalid \<or> \<not> key_invalid_count s > 0 then
        (Inl Assert_failed, s)
      else
        (Inr (Key_found i),
         s\<lparr>key_invalid_count := key_invalid_count s - 1,
           key_destructors := (key_destructors s)[nat i := destructor],
           key_index := i + 1\<rparr>))"

definition key_find :: "destructor \<Rightarrow> pt_state \<Rightarrow> (fault + key_slot) \<times> pt_state" where
  "key_find destructor s =
     (let i = key_search (key_destructors s) (key_count s) (key_index s);
          s1 = s\<lparr>key_index := i\<rparr>
      in if i < key_count s then key_take destructor i s1
         else if i \<noteq> key_count s then (Inl Assert_failed, s1)
         else if key_size s = key_count s then
           (if key_invalid_count s > 4 \<and> key_invalid_count s > key_size s div 8 then
              (let j = key_search (key_destructors s) (key_count s) 0;
                   s2 = s\<lparr>key_index := j\<rparr>
               in if j < key_count s then key_take destructor j s2
                  else (Inr Key_loops, s2))
            else (Inr Key_full, s1))
         else (Inr Key_room, s1))"

text \<open>The new elements of a grown array are written before they are read; they appear as null here.\<close>

definition key_grow :: "int \<Rightarrow> pt_state \<Rightarrow> pt_state" where
  "key_grow newsize s =
     s\<lparr>key_size := newsize,
       key_destructors := key_destructors s @
         replicate (nat newsize - length (key_destructors s)) Dtor_null\<rparr>"

definition key_append :: "destructor \<Rightarrow> pt_state \<Rightarrow> int \<times> pt_state" where
  "key_append destructor s =
     (key_index s,
      s\<lparr>key_destructors := (key_destructors s)[nat (key_index s) := destructor],
        key_index := key_index s + 1, key_count := key_count s + 1\<rparr>)"

definition key_newsize :: "int \<Rightarrow> int" where
  "key_newsize sz = (if sz = 0 then 8 else sz * 2)"

definition key_create_body :: "destructor \<Rightarrow> (rc \<times> int) pt" where
  "key_create_body destructor =
     andthen (section_of (\<lambda>_. True) (key_find destructor)) (\<lambda>slot.
       let finish = section_of (\<lambda>_. True) (\<lambda>s.
                      case key_append destructor s of (k, s') \<Rightarrow> (Inr (OK, k), s'))
       in case slot of
            Key_found k \<Rightarrow> Return (OK, k)
          | Key_loops \<Rightarrow> stuck
          | Key_room \<Rightarrow> finish
          | Key_full \<Rightarrow>
              andthen (gets key_size) (\<lambda>sz.
                let newsize = key_newsize sz
                in andthen (syscall (Realloc (newsize * 4))) (\<lambda>(_, p, _).
                     if p = 0 then Return (ENOMEM, -1)
                     else andthen (modify (key_grow newsize)) (\<lambda>_. finish))))"

definition pthread_key_create :: "thr \<Rightarrow> destructor \<Rightarrow> (rc \<times> int) pt" where
  "pthread_key_create self destructor =
     andthen key_lock_ready (\<lambda>_.
       bracket (pthread_mutex_lock Key_lock self) (pthread_mutex_unlock Key_lock self)
         (key_create_body destructor))"

section \<open>Deleting keys\<close>

definition valid_key :: "pt_state \<Rightarrow> int \<Rightarrow> bool" where
  "valid_key s key \<longleftrightarrow>
     \<not> (key < 0 \<or> key \<ge> key_count s \<or> key_destructors s ! nat key = Dtor_invalid)"

text \<open>The loop over the threads, which drops their values of the key.\<close>

primrec drop_key :: "int \<Rightarrow> thr option list \<Rightarrow> unit pt" where
  "drop_key key [] = Return ()"
| "drop_key key (t # ts) =
     (case t of
        None \<Rightarrow> drop_key key ts
      | Some u \<Rightarrow>
          andthen (gets (\<lambda>s. p_thread_specifics (pthreads s u))) (\<lambda>ht.
          andthen (if ht \<noteq> 0 then andthen (syscall (Ihash_remove ht key)) (\<lambda>_. Return ())
                   else Return ())
            (\<lambda>_. drop_key key ts)))"

definition key_invalidate :: "int \<Rightarrow> pt_state \<Rightarrow> (fault + rc) \<times> pt_state" where
  "key_invalidate key s =
     (if \<not> valid_key s key then (Inr EINVAL, s)
      else
        (Inr OK,
         s\<lparr>key_destructors := (key_destructors s)[nat key := Dtor_invalid],
           key_invalid_count := key_invalid_count s + 1\<rparr>))"

definition key_delete_body :: "nat \<Rightarrow> thr \<Rightarrow> int \<Rightarrow> rc pt" where
  "key_delete_body n self key =
     andthen (section_of (\<lambda>_. True) (key_invalidate key)) (\<lambda>err.
       if err \<noteq> OK then Return err
       else
         bracket (pthread_rwlock_rdlock Threads_lock self) (pthread_rwlock_unlock n Threads_lock)
           (andthen (gets (\<lambda>s. take (nat (num_threads s)) (threads_tab s))) (\<lambda>ts.
            andthen (drop_key key ts) (\<lambda>_. Return OK))))"

definition pthread_key_delete :: "nat \<Rightarrow> thr \<Rightarrow> int \<Rightarrow> rc pt" where
  "pthread_key_delete n self key =
     andthen key_lock_ready (\<lambda>_.
       bracket (pthread_mutex_lock Key_lock self) (pthread_mutex_unlock Key_lock self)
         (key_delete_body n self key))"

section \<open>Values\<close>

definition pthread_init_specific :: "thr \<Rightarrow> rc pt" where
  "pthread_init_specific t =
     andthen (modify (upd_pthread t (\<lambda>x. x\<lparr>p_thread_specifics := 0\<rparr>))) (\<lambda>_. Return OK)"

definition pthread_getspecific :: "thr \<Rightarrow> int \<Rightarrow> int pt" where
  "pthread_getspecific self key =
     andthen (gets (\<lambda>s. (valid_key s key, p_thread_specifics (pthreads s self)))) (\<lambda>(v, ht).
       if \<not> v then Return 0
       else if ht = 0 then Return 0
       else andthen (syscall (Ihash_find ht key)) (\<lambda>(_, x, _). Return x))"

definition pthread_setspecific :: "thr \<Rightarrow> int \<Rightarrow> int \<Rightarrow> rc pt" where
  "pthread_setspecific self key v =
     andthen (gets (\<lambda>s. valid_key s key)) (\<lambda>ok.
       if \<not> ok then Return EINVAL
       else
         andthen (gets (\<lambda>s. p_thread_specifics (pthreads s self))) (\<lambda>ht.
         andthen (if ht = 0 then
                    andthen (syscall Ihash_create) (\<lambda>(err, a, _).
                      if err \<noteq> OK then Return False
                      else andthen (modify (upd_pthread self (\<lambda>x. x\<lparr>p_thread_specifics := a\<rparr>)))
                             (\<lambda>_. Return True))
                  else Return True) (\<lambda>created.
           if \<not> created then Return ENOMEM
           else
             andthen (gets (\<lambda>s. p_thread_specifics (pthreads s self))) (\<lambda>ht.
             andthen (syscall (Ihash_add ht key v)) (\<lambda>(err, _, _).
               if err \<noteq> OK then Return ENOMEM else Return OK)))))"

text \<open>
  The destruction of all values of an exiting thread.  \<open>destroy_pass m t i seen\<close> is the inner loop
  from key \<open>i\<close> on, for at most \<open>m\<close> rounds; \<open>destroy_rounds k m t\<close> the outer one, at most \<open>k\<close> times.
  A destructor is a function of the program.
\<close>

fun destroy_pass :: "nat \<Rightarrow> thr \<Rightarrow> int \<Rightarrow> bool \<Rightarrow> bool pt" where
  "destroy_pass 0 t i seen = stuck"
| "destroy_pass (Suc m) t i seen =
     andthen (gets (\<lambda>s. (key_count s, key_destructors s ! nat i, p_thread_specifics (pthreads s t))))
       (\<lambda>(count, d, ht).
         if \<not> i < count then Return seen
         else if d = Dtor_invalid then destroy_pass m t (i + 1) seen
         else
           andthen (syscall (Ihash_find ht i)) (\<lambda>(_, v, _).
             if v = 0 then destroy_pass m t (i + 1) seen
             else
               andthen (syscall (Ihash_remove ht i)) (\<lambda>(_, removed, _).
               andthen (assert_p (removed = 1)) (\<lambda>_.
               andthen (gets (\<lambda>s. key_destructors s ! nat i)) (\<lambda>d.
                 case d of
                   Dtor f \<Rightarrow>
                     andthen (syscall (Callback f (nat v))) (\<lambda>_. destroy_pass m t (i + 1) True)
                 | _ \<Rightarrow> destroy_pass m t (i + 1) seen)))))"

primrec destroy_rounds :: "nat \<Rightarrow> nat \<Rightarrow> thr \<Rightarrow> unit pt" where
  "destroy_rounds 0 m t = stuck"
| "destroy_rounds (Suc k) m t =
     andthen (bracket (pthread_mutex_lock Key_lock t) (pthread_mutex_unlock Key_lock t)
                (destroy_pass m t 0 False)) (\<lambda>seen_one.
       if \<not> seen_one then Return ()
       else andthen (syscall Sched_yield) (\<lambda>_. destroy_rounds k m t))"

definition pthread_destroy_specific :: "nat \<Rightarrow> nat \<Rightarrow> thr \<Rightarrow> unit pt" where
  "pthread_destroy_specific k m t =
     andthen (gets (\<lambda>s. p_thread_specifics (pthreads s t))) (\<lambda>ht.
       if ht = 0 then Return ()
       else
         andthen key_lock_ready (\<lambda>_.
         andthen (destroy_rounds k m t) (\<lambda>_.
         andthen (gets (\<lambda>s. p_thread_specifics (pthreads s t))) (\<lambda>ht.
         andthen (syscall (Ihash_free ht)) (\<lambda>_.
           modify (upd_pthread t (\<lambda>x. x\<lparr>p_thread_specifics := 0\<rparr>)))))))"

section \<open>The generic versions\<close>

text \<open>Systems without thread-specific data; the destruction is misspelt in the source.\<close>

definition generic_key_create :: "destructor \<Rightarrow> rc" where
  "generic_key_create destructor = ENOSYS"

definition generic_key_delete :: "int \<Rightarrow> rc" where
  "generic_key_delete key = ENOSYS"

definition generic_getspecific :: "int \<Rightarrow> rc" where
  "generic_getspecific key = EINVAL"

definition generic_setspecific :: "int \<Rightarrow> int \<Rightarrow> rc" where
  "generic_setspecific key v = EINVAL"

definition generic_init_specific :: "thr \<Rightarrow> pt_state \<Rightarrow> rc \<times> pt_state" where
  "generic_init_specific t s = (OK, s)"

definition generic_destroy_specific :: "thr \<Rightarrow> pt_state \<Rightarrow> pt_state" where
  "generic_destroy_specific t s = s"

section \<open>The invariant of the key array\<close>

definition invalid_slots :: "pt_state \<Rightarrow> nat set" where
  "invalid_slots s = {i. i < nat (key_count s) \<and> key_destructors s ! i = Dtor_invalid}"

definition key_inv :: "pt_state \<Rightarrow> bool" where
  "key_inv s \<longleftrightarrow>
     0 \<le> key_index s \<and> key_index s \<le> key_count s \<and> key_count s \<le> key_size s \<and>
     length (key_destructors s) = nat (key_size s) \<and>
     key_invalid_count s = int (card (invalid_slots s))"

text \<open>The abstract state of the keys: the keys in use with their destructors.\<close>

definition key_map :: "pt_state \<Rightarrow> int \<Rightarrow> destructor option" where
  "key_map s k = (if valid_key s k then Some (key_destructors s ! nat k) else None)"

text \<open>Two states that agree except for the variables of the key array.\<close>

definition put_keys :: "pt_state \<Rightarrow> pt_state \<Rightarrow> pt_state" where
  "put_keys s1 s =
     s\<lparr>key_destructors := key_destructors s1, key_size := key_size s1, key_count := key_count s1,
       key_invalid_count := key_invalid_count s1, key_index := key_index s1\<rparr>"

definition same_but_keys :: "pt_state \<Rightarrow> pt_state \<Rightarrow> bool" where
  "same_but_keys s s1 \<longleftrightarrow> s1 = put_keys s1 s"

lemma same_but_keys_trans:
  assumes "same_but_keys s s1" and "same_but_keys s1 s2"
  shows "same_but_keys s s2"
proof -
  have "put_keys s2 (put_keys s1 s) = put_keys s2 s" by (simp add: put_keys_def)
  with assms show ?thesis unfolding same_but_keys_def by metis
qed

definition created :: "destructor \<Rightarrow> int \<Rightarrow> pt_state \<Rightarrow> pt_state \<Rightarrow> bool" where
  "created d k s s1 \<longleftrightarrow>
     key_inv s1 \<and> \<not> valid_key s k \<and> key_map s1 = (key_map s)(k \<mapsto> d) \<and> same_but_keys s s1"

lemma finite_invalid_slots [simp]: "finite (invalid_slots s)"
  by (simp add: invalid_slots_def)

lemma key_search_spec:
  "i \<le> c \<Longrightarrow> i \<le> key_search ds c i \<and> key_search ds c i \<le> c \<and>
     (key_search ds c i < c \<longrightarrow> ds ! nat (key_search ds c i) = Dtor_invalid) \<and>
     (\<forall>x. i \<le> x \<and> x < key_search ds c i \<longrightarrow> ds ! nat x \<noteq> Dtor_invalid)"
proof (induction ds c i rule: key_search.induct)
  case (1 ds c i)
  show ?case
  proof (cases "i < c \<and> ds ! nat i \<noteq> Dtor_invalid")
    case True
    then have "key_search ds c i = key_search ds c (i + 1)" by (simp add: key_search.simps)
    moreover have "x = i \<or> i + 1 \<le> x" if "i \<le> x" for x using that by linarith
    ultimately show ?thesis using "1.IH" [OF True] True by auto
  next
    case False
    then have "key_search ds c i = i" by (simp add: key_search.simps)
    with False "1.prems" show ?thesis by auto
  qed
qed

lemma search_finds:
  assumes "key_inv s" and "key_invalid_count s > 0"
  shows "key_search (key_destructors s) (key_count s) 0 < key_count s"
proof (rule ccontr)
  let ?j = "key_search (key_destructors s) (key_count s) 0"
  assume "\<not> ?thesis"
  moreover have c: "0 \<le> key_count s" using assms(1) by (simp add: key_inv_def)
  ultimately have j: "?j = key_count s" and n: "\<And>x. 0 \<le> x \<Longrightarrow> x < key_count s \<Longrightarrow>
      key_destructors s ! nat x \<noteq> Dtor_invalid"
    using key_search_spec [OF c, of "key_destructors s"] by auto
  from assms have "invalid_slots s \<noteq> {}" by (auto simp: key_inv_def)
  then obtain i where "i < nat (key_count s)" "key_destructors s ! i = Dtor_invalid"
    by (auto simp: invalid_slots_def)
  with n [of "int i"] show False by (simp add: zless_nat_eq_int_zless)
qed

lemma key_take_spec:
  assumes "key_inv s" and "0 \<le> i" "i < key_count s" and "key_destructors s ! nat i = Dtor_invalid"
    and "d \<noteq> Dtor_invalid"
  shows "\<exists>s1. key_take d i (s\<lparr>key_index := j\<rparr>) = (Inr (Key_found i), s1) \<and> created d i s s1"
proof -
  let ?s1 = "s\<lparr>key_index := i + 1, key_invalid_count := key_invalid_count s - 1,
    key_destructors := (key_destructors s)[nat i := d]\<rparr>"
  have i: "nat i \<in> invalid_slots s" using assms(2-4) by (simp add: invalid_slots_def)
  have len: "nat i < length (key_destructors s)" using assms(1-3) by (simp add: key_inv_def)
  have pos: "card (invalid_slots s) > 0" using i by (auto simp: card_gt_0_iff)
  have "invalid_slots ?s1 = invalid_slots s - {nat i}"
    using assms(5) len by (auto simp: invalid_slots_def nth_list_update)
  then have "int (card (invalid_slots ?s1)) = key_invalid_count s - 1"
    using assms(1) i pos by (simp add: card_Diff_singleton key_inv_def)
  then have "key_inv ?s1" using assms(1-3) by (simp add: key_inv_def)
  moreover have "key_map ?s1 = (key_map s)(i \<mapsto> d)"
    using assms(2,3,5) len
    by (auto simp: key_map_def valid_key_def fun_eq_iff nth_list_update nat_eq_iff)
  moreover have "same_but_keys s ?s1" by (simp add: same_but_keys_def put_keys_def)
  moreover have "key_take d i (s\<lparr>key_index := j\<rparr>) = (Inr (Key_found i), ?s1)"
    using assms(1,4) pos by (simp add: key_take_def key_inv_def)
  ultimately show ?thesis using assms(4) by (auto simp: created_def valid_key_def)
qed

lemma key_find_spec:
  assumes "key_inv s" and "d \<noteq> Dtor_invalid"
  shows "(\<exists>k s1. key_find d s = (Inr (Key_found k), s1) \<and> created d k s s1) \<or>
    key_find d s = (Inr (if key_size s = key_count s then Key_full else Key_room),
      s\<lparr>key_index := key_count s\<rparr>)"
proof -
  let ?i = "key_search (key_destructors s) (key_count s) (key_index s)"
  let ?j = "key_search (key_destructors s) (key_count s) 0"
  have i: "0 \<le> ?i" "?i \<le> key_count s"
      "?i < key_count s \<Longrightarrow> key_destructors s ! nat ?i = Dtor_invalid"
    using key_search_spec [of "key_index s" "key_count s" "key_destructors s"] assms(1)
    by (auto simp: key_inv_def)
  have c: "0 \<le> key_count s" using assms(1) by (simp add: key_inv_def)
  show ?thesis
  proof (cases "?i < key_count s")
    case True
    with i key_take_spec [OF assms(1), of ?i d ?i] assms(2) show ?thesis
      by (auto simp: key_find_def Let_def)
  next
    case False
    with i have e: "?i = key_count s" by simp
    show ?thesis
    proof (cases "key_size s = key_count s \<and> key_invalid_count s > 4 \<and>
        key_invalid_count s > key_size s div 8")
      case True
      then have "?j < key_count s" using search_finds [OF assms(1)] by simp
      with key_search_spec [OF c, of "key_destructors s"] key_take_spec [OF assms(1), of ?j d ?j]
        assms(2) e True show ?thesis by (auto simp: key_find_def Let_def)
    next
      case False
      with e show ?thesis by (auto simp: key_find_def Let_def)
    qed
  qed
qed

lemma created_trans:
  assumes "key_map s1 = key_map s" and "\<And>k. valid_key s1 k = valid_key s k" and "same_but_keys s s1"
    and "created d k s1 s2"
  shows "created d k s s2"
  using assms same_but_keys_trans by (auto simp: created_def)

lemma key_append_spec:
  assumes "key_inv s" and "key_count s < key_size s" and "key_index s = key_count s"
    and "d \<noteq> Dtor_invalid"
  shows "\<exists>s1. key_append d s = (key_count s, s1) \<and> created d (key_count s) s s1"
proof -
  let ?n = "nat (key_count s)"
  let ?s1 = "s\<lparr>key_destructors := (key_destructors s)[?n := d], key_index := key_count s + 1,
    key_count := key_count s + 1\<rparr>"
  have c: "0 \<le> key_count s" and len: "?n < length (key_destructors s)"
    using assms(1,2) by (auto simp: key_inv_def)
  have lt: "i < nat (key_count s + 1) \<longleftrightarrow> i < ?n \<or> i = ?n" for i
    using c by (auto simp: nat_add_distrib)
  have "invalid_slots ?s1 = invalid_slots s"
    using assms(4) len by (auto simp: invalid_slots_def lt nth_list_update)
  then have "key_inv ?s1" using assms(1,2) by (simp add: key_inv_def)
  moreover have v: "valid_key ?s1 k \<longleftrightarrow> k = key_count s \<or> valid_key s k" for k
    using c assms(4) len by (cases "k = key_count s") (auto simp: valid_key_def nth_list_update)
  have "key_map ?s1 k = ((key_map s)(key_count s \<mapsto> d)) k" for k
  proof (cases "k = key_count s")
    case False
    then have "valid_key s k \<Longrightarrow> ?n \<noteq> nat k" using c by (auto simp: valid_key_def)
    with False v [of k] show ?thesis by (cases "valid_key s k") (simp_all add: key_map_def)
  qed (use v [of k] len in \<open>simp add: key_map_def\<close>)
  then have "key_map ?s1 = (key_map s)(key_count s \<mapsto> d)" by blast
  moreover have "same_but_keys s ?s1" by (simp add: same_but_keys_def put_keys_def)
  ultimately show ?thesis
    using assms(3) by (auto simp: key_append_def created_def valid_key_def)
qed

lemma key_grow_spec:
  assumes "key_inv s" and "key_size s \<le> n"
  shows "key_inv (key_grow n s)" and "valid_key (key_grow n s) k = valid_key s k"
    and "key_map (key_grow n s) = key_map s" and "same_but_keys s (key_grow n s)"
proof -
  have "nat (key_count s) \<le> length (key_destructors s)"
    using assms(1) by (simp add: key_inv_def nat_mono)
  then have nth: "key_destructors (key_grow n s) ! i = key_destructors s ! i"
    if "i < nat (key_count s)" for i
    using that by (simp add: key_grow_def nth_append)
  then show v: "valid_key (key_grow n s) k = valid_key s k" for k
    by (auto simp: valid_key_def key_grow_def [THEN arg_cong [of _ _ key_count]])
  from nth have "invalid_slots (key_grow n s) = invalid_slots s"
    by (auto simp: invalid_slots_def key_grow_def [THEN arg_cong [of _ _ key_count]])
  with assms show "key_inv (key_grow n s)"
    by (auto simp: key_inv_def key_grow_def)
  show "key_map (key_grow n s) = key_map s"
    using nth v by (auto simp: key_map_def fun_eq_iff valid_key_def)
  show "same_but_keys s (key_grow n s)" by (simp add: same_but_keys_def put_keys_def key_grow_def)
qed

section \<open>Creating a key\<close>

text \<open>
  What is relied on of \<^verbatim>\<open>realloc\<close>: it returns, and leaves the variables of the library alone; it
  may fail.
\<close>

definition realloc_ok :: "pt_state env \<Rightarrow> bool" where
  "realloc_ok h \<longleftrightarrow> (\<forall>n s. \<exists>r. h (Realloc n) s = Some (r, s))"

definition key_created :: "destructor \<Rightarrow> rc \<Rightarrow> int \<Rightarrow> pt_state \<Rightarrow> pt_state \<Rightarrow> bool" where
  "key_created d e k s s1 \<longleftrightarrow>
     (if e = OK then created d k s s1
      else e = ENOMEM \<and> key_inv s1 \<and> key_map s1 = key_map s \<and> same_but_keys s s1)"

lemma key_index_end:
  assumes "key_inv s"
  shows "key_inv (s\<lparr>key_index := key_count s\<rparr>)" "key_map (s\<lparr>key_index := key_count s\<rparr>) = key_map s"
    "valid_key (s\<lparr>key_index := key_count s\<rparr>) k = valid_key s k"
    "same_but_keys s (s\<lparr>key_index := key_count s\<rparr>)"
  using assms
  by (auto simp: key_inv_def invalid_slots_def key_map_def valid_key_def same_but_keys_def put_keys_def fun_eq_iff)

lemma run_key_create_body:
  assumes "key_inv s" and "d \<noteq> Dtor_invalid" and "realloc_ok h"
  shows "\<exists>e k s1. run (key_create_body d) h s = Done (e, k) s1 \<and> key_created d e k s s1"
  using key_find_spec [OF assms(1,2)]
proof (elim disjE exE conjE)
  fix k s1 assume "key_find d s = (Inr (Key_found k), s1)" and "created d k s s1"
  then show ?thesis
    by (intro exI [of _ OK] exI [of _ k] exI [of _ s1])
      (simp add: key_create_body_def run_simps key_created_def)
next
  let ?s = "s\<lparr>key_index := key_count s\<rparr>"
  assume find: "key_find d s =
    (Inr (if key_size s = key_count s then Key_full else Key_room), ?s)"
  note s = key_index_end [OF assms(1)]
  show ?thesis
  proof (cases "key_size s = key_count s")
    case False
    with assms(1) have "key_count ?s < key_size ?s" by (simp add: key_inv_def)
    from key_append_spec [OF s(1) this _ assms(2)] obtain s1
      where s1: "key_append d ?s = (key_count s, s1)" "created d (key_count s) ?s s1" by auto
    with created_trans [OF s(2,3,4) s1(2)] False find show ?thesis
      by (intro exI [of _ OK] exI [of _ "key_count s"] exI [of _ s1])
        (simp add: key_create_body_def run_simps Let_def key_created_def)
  next
    case True
    let ?n = "key_newsize (key_size s)"
    from assms(3) obtain r where r: "h (Realloc (?n * 4)) ?s = Some (r, ?s)"
      unfolding realloc_ok_def by metis
    obtain e p x where [simp]: "r = (e, p, x)" by (cases r)
    show ?thesis
    proof (cases "p = 0")
      case True
      with \<open>key_size s = key_count s\<close> find r s show ?thesis
        by (intro exI [of _ ENOMEM] exI [of _ "-1"] exI [of _ ?s])
          (simp add: key_create_body_def run_simps Let_def key_created_def)
    next
      case False
      let ?g = "key_grow ?n ?s"
      have sz: "key_size ?s \<le> ?n" "key_size s < ?n"
        using assms(1) by (auto simp: key_inv_def key_newsize_def)
      note g = key_grow_spec [OF s(1) sz(1)]
      have "key_count ?g < key_size ?g" "key_index ?g = key_count ?g" "key_count ?g = key_count s"
        using True sz(2) by (auto simp: key_grow_def)
      with key_append_spec [OF g(1) _ _ assms(2)] obtain s1
        where s1: "key_append d ?g = (key_count s, s1)" "created d (key_count s) ?g s1" by auto
      from created_trans [OF s(2,3,4) created_trans [OF g(3,2,4) s1(2)]] s1(1) True False find r
      show ?thesis
        by (intro exI [of _ OK] exI [of _ "key_count s"] exI [of _ s1])
          (simp add: key_create_body_def run_simps Let_def key_created_def)
    qed
  qed
qed

text \<open>The key lock is no part of the key array.\<close>

lemma acquired_keys [simp]:
  "key_inv (acquired m t s) = key_inv s"
  "valid_key (acquired m t s) k = valid_key s k"
  "key_map (acquired m t s) = key_map s"
  by (auto simp: acquired_eq key_inv_def invalid_slots_def valid_key_def key_map_def fun_eq_iff)

lemma put_keys_simps [simp]:
  "key_inv (put_keys a s) = key_inv a"
  "valid_key (put_keys a s) k = valid_key a k"
  "key_map (put_keys a s) = key_map a"
  "idle_mutex (put_keys a s) m = idle_mutex s m"
  by (auto simp: put_keys_def key_inv_def invalid_slots_def valid_key_def key_map_def fun_eq_iff
      idle_mutex_def unlocked_def known_type_def mutex_type_of_def)

lemma acquired_put_keys: "acquired m t (put_keys a s) = put_keys a (acquired m t s)"
  by (simp add: acquired_eq put_keys_def)

lemma put_keys_idem [simp]: "put_keys (put_keys a s) s = put_keys a s"
  by (simp add: put_keys_def)

lemma same_but_keys_acquired:
  "same_but_keys (acquired m t s) s2 \<Longrightarrow> s2 = acquired m t (put_keys s2 s)"
  by (simp add: same_but_keys_def acquired_put_keys)

lemma key_created_acquired:
  assumes "key_created d e k (acquired m t s) s2"
  shows "key_created d e k s (put_keys s2 s)"
  using assms by (simp add: key_created_def created_def same_but_keys_def split: if_splits)

text \<open>The key lock exists already, and nobody holds it.\<close>

definition keys_idle :: "pt_state \<Rightarrow> bool" where
  "keys_idle s \<longleftrightarrow> once_run (onces s Key_once) \<noteq> 0 \<and> idle_mutex s Key_lock"

lemma run_key_lock_ready: "keys_idle s \<Longrightarrow> run key_lock_ready h s = Done OK s"
  by (simp add: key_lock_ready_def keys_idle_def run_once_again)

text \<open>
  C38: Creating a key always returns.  On success the key was not in use before; the keys in use are
  afterwards those of before and the new one, with its destructor.  The only error is
  \<^verbatim>\<open>ENOMEM\<close>, and then the keys in use are unchanged.  The invariant of the key array is kept (so the
  two assertions hold and the repeated search ends), the lock is released, and nothing but
  the key array changes.
\<close>

theorem key_create_fresh:
  assumes "key_inv s" and "keys_idle s" and "d \<noteq> Dtor_invalid" and "realloc_ok h"
  shows "\<exists>e k s1. run (pthread_key_create t d) h s = Done (e, k) s1 \<and>
    key_inv s1 \<and> keys_idle s1 \<and> s1 = put_keys s1 s \<and>
    (if e = OK then \<not> valid_key s k \<and> key_map s1 = (key_map s)(k \<mapsto> d)
     else e = ENOMEM \<and> key_map s1 = key_map s)"
proof -
  let ?a = "acquired Key_lock t s"
  from run_key_create_body [of ?a, OF _ assms(3,4)] assms(1) obtain e k s2
    where b: "run (key_create_body d) h ?a = Done (e, k) s2" "key_created d e k ?a s2" by auto
  then have "same_but_keys ?a s2" by (auto simp: key_created_def created_def split: if_splits)
  from same_but_keys_acquired [OF this] b(1)
  have r: "run (key_create_body d) h ?a = Done (e, k) (acquired Key_lock t (put_keys s2 s))" by simp
  from assms(2) have i: "idle_mutex s Key_lock" by (simp add: keys_idle_def)
  from mutex_lock.bracketed [of s Key_lock, OF i r] i
  have run: "run (pthread_key_create t d) h s = Done (e, k) (put_keys s2 s)"
    by (simp add: pthread_key_create_def run_simps run_key_lock_ready [OF assms(2)])
  have "keys_idle (put_keys s2 s)" using assms(2)
    by (simp add: keys_idle_def) (simp add: put_keys_def)
  with run key_created_acquired [OF b(2)] show ?thesis
    by (intro exI [of _ e] exI [of _ k] exI [of _ "put_keys s2 s"])
      (auto simp: key_created_def created_def split: if_splits)
qed

definition realloc_env :: "pt_state env" where
  "realloc_env c s = Some ((OK, 1, 0), s)"

definition keys_ready :: pt_state where
  "keys_ready = zero_state\<lparr>onces := (\<lambda>_. \<lparr>once_run = 1\<rparr>), key_destructors := [Dtor 5, Dtor_invalid],
     key_size := 2, key_count := 2, key_invalid_count := 1\<rparr>"

lemma keys_ready_simps:
  "key_inv keys_ready" "keys_idle keys_ready"
proof -
  have "{i. i < nat 2 \<and> [Dtor 5, Dtor_invalid] ! i = Dtor_invalid} = {1}"
    by (auto simp: less_2_cases_iff numeral_2_eq_2 less_Suc_eq)
  then show "key_inv keys_ready" by (simp add: keys_ready_def key_inv_def invalid_slots_def)
  show "keys_idle keys_ready"
    by (simp add: keys_ready_def keys_idle_def idle_mutex_def unlocked_def known_type_def
        mutex_type_of_def resolve_attr_def)
qed

theorem key_create_fresh_witness:
  "\<exists>e k s1. run (pthread_key_create 1 (Dtor 7)) realloc_env keys_ready = Done (e, k) s1 \<and>
    key_inv s1 \<and> keys_idle s1 \<and> s1 = put_keys s1 keys_ready \<and>
    (if e = OK then \<not> valid_key keys_ready k \<and> key_map s1 = (key_map keys_ready)(k \<mapsto> Dtor 7)
     else e = ENOMEM \<and> key_map s1 = key_map keys_ready)"
  by (rule key_create_fresh [OF keys_ready_simps]) (simp_all add: realloc_ok_def realloc_env_def)

section \<open>Values of keys\<close>

definition ihash_value :: "pt_state \<Rightarrow> int \<Rightarrow> int \<Rightarrow> int" where
  "ihash_value s ht k =
     (case ihashes s ht of None \<Rightarrow> 0 | Some f \<Rightarrow> (case f k of None \<Rightarrow> 0 | Some v \<Rightarrow> v))"

definition ihash_upd :: "int \<Rightarrow> int \<Rightarrow> int option \<Rightarrow> pt_state \<Rightarrow> pt_state" where
  "ihash_upd ht k x s =
     s\<lparr>ihashes := (ihashes s)(ht := map_option (\<lambda>f. f(k := x)) (ihashes s ht))\<rparr>"

text \<open>
  The values that can be entered into a table of libihash: its header reserves null and \<^verbatim>\<open>(void *) -1\<close> for the
  empty and the deleted entries.
\<close>

definition storable :: "int \<Rightarrow> bool" where
  "storable v \<longleftrightarrow> (word_of_int v :: 32 word) \<notin> {0, -1}"

text \<open>
  What is relied on of libihash, as its header documents it: a lookup of a key that is not there
  yields null; an entry that was added, with a value that is not reserved, is found; removing reports whether the key was there; creating a
  table yields the address of a new, empty one.  Adding and creating may fail, without effect.
\<close>

definition ihash_ok :: "pt_state env \<Rightarrow> bool" where
  "ihash_ok h \<longleftrightarrow>
     (\<forall>s ht k. h (Ihash_find ht k) s = Some ((OK, ihash_value s ht k, 0), s)) \<and>
     (\<forall>s ht k. \<exists>r. h (Ihash_remove ht k) s = Some (r, ihash_upd ht k None s)) \<and>
     (\<forall>s ht k v. storable v \<longrightarrow>
        (\<exists>e x y. h (Ihash_add ht k v) s =
           Some ((e, x, y), if e = OK then ihash_upd ht k (Some v) s else s))) \<and>
     (\<forall>s. \<exists>e a y. h Ihash_create s =
        Some ((e, a, y), if e = OK then s\<lparr>ihashes := (ihashes s)(a \<mapsto> Map.empty)\<rparr> else s) \<and>
        (e = OK \<longrightarrow> a \<noteq> 0 \<and> ihashes s a = None))"

lemma ihash_okD:
  assumes "ihash_ok h"
  shows "h (Ihash_find ht k) s = Some ((OK, ihash_value s ht k, 0), s)"
    and "\<exists>r. h (Ihash_remove ht k) s = Some (r, ihash_upd ht k None s)"
    and "storable v \<Longrightarrow> \<exists>e x y. h (Ihash_add ht k v) s =
           Some ((e, x, y), if e = OK then ihash_upd ht k (Some v) s else s)"
    and "\<exists>e a y. h Ihash_create s =
        Some ((e, a, y), if e = OK then s\<lparr>ihashes := (ihashes s)(a \<mapsto> Map.empty)\<rparr> else s) \<and>
        (e = OK \<longrightarrow> a \<noteq> 0 \<and> ihashes s a = None)"
  using assms unfolding ihash_ok_def by metis+

text \<open>The value that a thread has for a key, and that the threads' tables are separate.\<close>

definition spec_value :: "pt_state \<Rightarrow> thr \<Rightarrow> int \<Rightarrow> int" where
  "spec_value s t k =
     (let ht = p_thread_specifics (pthreads s t) in if ht = 0 then 0 else ihash_value s ht k)"

definition specifics_ok :: "pt_state \<Rightarrow> bool" where
  "specifics_ok s \<longleftrightarrow>
     (\<forall>t. p_thread_specifics (pthreads s t) \<noteq> 0 \<longrightarrow> ihashes s (p_thread_specifics (pthreads s t)) \<noteq> None) \<and>
     (\<forall>t u. p_thread_specifics (pthreads s t) \<noteq> 0 \<longrightarrow> t \<noteq> u \<longrightarrow>
        p_thread_specifics (pthreads s t) \<noteq> p_thread_specifics (pthreads s u))"

lemma specifics_ok_create:
  assumes "specifics_ok s" and "p_thread_specifics (pthreads s t) = 0" and "a \<noteq> 0" and "ihashes s a = None"
  defines "s1 \<equiv> upd_pthread t (\<lambda>x. x\<lparr>p_thread_specifics := a\<rparr>)
    (s\<lparr>ihashes := (ihashes s)(a \<mapsto> Map.empty)\<rparr>)"
  shows "specifics_ok s1" and "spec_value s1 u k = spec_value s u k"
proof -
  have ne: "p_thread_specifics (pthreads s u) \<noteq> a" for u
    using assms(1,3,4) unfolding specifics_ok_def by metis
  with assms(1-4) show "specifics_ok s1" by (auto simp: specifics_ok_def s1_def)
  show "spec_value s1 u k = spec_value s u k"
    using ne assms(2-4) by (auto simp: spec_value_def s1_def ihash_value_def Let_def)
qed

lemma specifics_ok_upd:
  assumes "specifics_ok s" and "p_thread_specifics (pthreads s t) = ht" and "ht \<noteq> 0"
  shows "specifics_ok (ihash_upd ht k x s)"
    and "spec_value (ihash_upd ht k x s) u j =
      (if u = t \<and> j = k then (case x of None \<Rightarrow> 0 | Some v \<Rightarrow> v) else spec_value s u j)"
proof -
  show "specifics_ok (ihash_upd ht k x s)"
    using assms by (auto simp: specifics_ok_def ihash_upd_def)
  have "p_thread_specifics (pthreads s u) = ht \<longleftrightarrow> u = t"
    using assms unfolding specifics_ok_def by metis
  moreover from assms obtain f where "ihashes s ht = Some f" by (auto simp: specifics_ok_def)
  ultimately show "spec_value (ihash_upd ht k x s) u j =
      (if u = t \<and> j = k then (case x of None \<Rightarrow> 0 | Some v \<Rightarrow> v) else spec_value s u j)"
    using assms(2,3) by (auto simp: spec_value_def ihash_upd_def ihash_value_def Let_def)
qed

lemma run_getspecific:
  assumes "ihash_ok h"
  shows "run (pthread_getspecific t key) h s =
    Done (if valid_key s key then spec_value s t key else 0) s"
  using ihash_okD(1) [OF assms]
  by (simp add: pthread_getspecific_def run_simps spec_value_def Let_def)

definition set_effect :: "thr \<Rightarrow> int \<Rightarrow> int \<Rightarrow> rc \<Rightarrow> pt_state \<Rightarrow> pt_state \<Rightarrow> bool" where
  "set_effect t key v e s s1 \<longleftrightarrow>
     specifics_ok s1 \<and> key_map s1 = key_map s \<and> e \<in> {OK, ENOMEM} \<and>
     (\<forall>u j. spec_value s1 u j = (if e = OK \<and> u = t \<and> j = key then v else spec_value s u j))"

lemma run_add:
  assumes "ihash_ok h" and "specifics_ok s" and "p_thread_specifics (pthreads s t) \<noteq> 0" and "storable v"
  shows "\<exists>e s1. run (andthen (gets (\<lambda>s. p_thread_specifics (pthreads s t))) (\<lambda>ht.
           andthen (syscall (Ihash_add ht key v)) (\<lambda>(err, _, _).
             if err \<noteq> OK then Return ENOMEM else Return OK))) h s = Done e s1 \<and>
         set_effect t key v e s s1"
proof -
  let ?ht = "p_thread_specifics (pthreads s t)"
  from ihash_okD(3) [OF assms(1,4)] obtain e x y where
    "h (Ihash_add ?ht key v) s = Some ((e, x, y), if e = OK then ihash_upd ?ht key (Some v) s else s)"
    by metis
  with specifics_ok_upd [OF assms(2) HOL.refl assms(3), of key "Some v"] assms(2) show ?thesis
    by (intro exI [of _ "if e = OK then OK else ENOMEM"]
        exI [of _ "if e = OK then ihash_upd ?ht key (Some v) s else s"])
      (auto simp: run_simps set_effect_def key_map_def valid_key_def ihash_upd_def fun_eq_iff)
qed

text \<open>
  C39: Setting the value of a valid key, to anything but null and \<^verbatim>\<open>(void *) -1\<close>, which libihash reserves, either succeeds, and then exactly
  that thread's value of that key has changed, which is what \<^verbatim>\<open>pthread_getspecific\<close> returns, or
  it fails with \<^verbatim>\<open>ENOMEM\<close> and no value has changed.
\<close>

theorem setspecific_getspecific:
  assumes "valid_key s key" and "specifics_ok s" and "ihash_ok h" and "storable v"
  shows "\<exists>e s1. run (pthread_setspecific t key v) h s = Done e s1 \<and> set_effect t key v e s s1 \<and>
    run (pthread_getspecific t key) h s1 = Done (if e = OK then v else spec_value s t key) s1"
proof -
  have "\<exists>e s1. run (pthread_setspecific t key v) h s = Done e s1 \<and> set_effect t key v e s s1"
  proof (cases "p_thread_specifics (pthreads s t) = 0")
    case False
    with run_add [OF assms(3,2) _ assms(4), of t key] assms(1) show ?thesis
      by (simp add: pthread_setspecific_def run_simps)
  next
    case True
    from ihash_okD(4) [OF assms(3)] obtain e a y where c: "h Ihash_create s =
        Some ((e, a, y), if e = OK then s\<lparr>ihashes := (ihashes s)(a \<mapsto> Map.empty)\<rparr> else s)"
      "e = OK \<Longrightarrow> a \<noteq> 0 \<and> ihashes s a = None" by metis
    show ?thesis
    proof (cases "e = OK")
      case False
      with c(1) assms(1,2) True show ?thesis
        by (intro exI [of _ ENOMEM] exI [of _ s])
          (simp add: pthread_setspecific_def run_simps set_effect_def)
    next
      case e: True
      let ?s = "upd_pthread t (\<lambda>x. x\<lparr>p_thread_specifics := a\<rparr>)
        (s\<lparr>ihashes := (ihashes s)(a \<mapsto> Map.empty)\<rparr>)"
      note n = specifics_ok_create [OF assms(2) True, of a]
      have "key_map ?s = key_map s" by (simp add: key_map_def valid_key_def fun_eq_iff)
      moreover obtain e1 s1 where "run (andthen (gets (\<lambda>s. p_thread_specifics (pthreads s t))) (\<lambda>ht.
           andthen (syscall (Ihash_add ht key v)) (\<lambda>(err, _, _).
             if err \<noteq> OK then Return ENOMEM else Return OK))) h ?s = Done e1 s1"
        "set_effect t key v e1 ?s s1"
        using run_add [OF assms(3), of ?s t v key] n(1) c(2) [OF e] assms(4) by auto
      ultimately show ?thesis
        using c(1) e True assms(1) n(2) c(2) [OF e]
        by (intro exI [of _ e1] exI [of _ s1])
          (simp add: pthread_setspecific_def run_simps set_effect_def)
    qed
  qed
  then obtain e s1 where r: "run (pthread_setspecific t key v) h s = Done e s1"
    "set_effect t key v e s s1" by blast
  then have "key_map s1 key = key_map s key" by (simp add: set_effect_def)
  with assms(1) have "valid_key s1 key" by (simp add: key_map_def split: if_splits)
  with r show ?thesis
    by (intro exI [of _ e] exI [of _ s1]) (simp add: run_getspecific [OF assms(3)] set_effect_def)
qed

definition ihash_env :: "pt_state env" where
  "ihash_env c s =
     (case c of
        Ihash_find ht k \<Rightarrow> Some ((OK, ihash_value s ht k, 0), s)
      | Ihash_remove ht k \<Rightarrow>
          Some ((OK, if (\<exists>f. ihashes s ht = Some f \<and> f k \<noteq> None) then 1 else 0, 0), ihash_upd ht k None s)
      | Ihash_add ht k v \<Rightarrow> Some ((OK, 0, 0), ihash_upd ht k (Some v) s)
      | Ihash_create \<Rightarrow>
          (if ihashes s 1 = None
           then Some ((OK, 1, 0), s\<lparr>ihashes := (ihashes s)(1 \<mapsto> Map.empty)\<rparr>)
           else Some ((ENOMEM, 0, 0), s))
      | _ \<Rightarrow> Some ((OK, 0, 0), s))"

lemma ihash_env_ok: "ihash_ok ihash_env"
  by (simp add: ihash_ok_def ihash_env_def)

lemma keys_ready_specifics: "valid_key keys_ready 0" "specifics_ok keys_ready"
  by (simp_all add: keys_ready_def valid_key_def specifics_ok_def zero_pthread_def)

theorem setspecific_getspecific_witness:
  "\<exists>e s1. run (pthread_setspecific 1 0 42) ihash_env keys_ready = Done e s1 \<and>
    set_effect 1 0 42 e keys_ready s1 \<and>
    run (pthread_getspecific 1 0) ihash_env s1 =
      Done (if e = OK then 42 else spec_value keys_ready 1 0) s1"
  by (rule setspecific_getspecific [OF keys_ready_specifics ihash_env_ok]) (simp add: storable_def)

section \<open>Deleting a key\<close>

definition drop_tables ::
    "int \<Rightarrow> int set \<Rightarrow> (int \<Rightarrow> (int \<Rightarrow> int option) option) \<Rightarrow> int \<Rightarrow> (int \<Rightarrow> int option) option" where
  "drop_tables key A m = (\<lambda>a. if a \<in> A then map_option (\<lambda>f. f(key := None)) (m a) else m a)"

definition tables_of :: "pt_state \<Rightarrow> thr option list \<Rightarrow> int set" where
  "tables_of s ts = {p_thread_specifics (pthreads s u) | u. Some u \<in> set ts} - {0}"

lemma tables_of_simps:
  "tables_of s [] = {}"
  "tables_of s (None # ts) = tables_of s ts"
  "tables_of s (Some u # ts) =
     ({p_thread_specifics (pthreads s u)} - {0}) \<union> tables_of s ts"
  by (auto simp: tables_of_def)

lemma drop_tables_twice: "drop_tables key A (drop_tables key B m) = drop_tables key (A \<union> B) m"
  by (auto simp: drop_tables_def fun_eq_iff option.map_comp comp_def)

lemma drop_tables_empty [simp]: "drop_tables key {} m = m"
  by (simp add: drop_tables_def)

lemma ihash_upd_drop: "ihash_upd ht key None s = s\<lparr>ihashes := drop_tables key {ht} (ihashes s)\<rparr>"
  by (auto simp: ihash_upd_def drop_tables_def intro!: pt_state.equality)

lemma run_drop_key:
  assumes "ihash_ok h"
  shows "run (drop_key key ts) h s = Done () (s\<lparr>ihashes := drop_tables key (tables_of s ts) (ihashes s)\<rparr>)"
proof (induction ts arbitrary: s)
  case (Cons t ts)
  show ?case
  proof (cases t)
    case (Some u)
    let ?ht = "p_thread_specifics (pthreads s u)"
    have t: "tables_of (s\<lparr>ihashes := m\<rparr>) ts = tables_of s ts" for m by (simp add: tables_of_def)
    obtain r where "h (Ihash_remove ?ht key) s = Some (r, s\<lparr>ihashes := drop_tables key {?ht} (ihashes s)\<rparr>)"
      using ihash_okD(2) [OF assms] unfolding ihash_upd_drop by metis
    with Some Cons show ?thesis
      by (auto simp: run_simps tables_of_simps t drop_tables_twice Un_commute)
  qed (simp add: Cons tables_of_simps)
qed (simp add: tables_of_simps)

definition invalidated :: "int \<Rightarrow> pt_state \<Rightarrow> pt_state" where
  "invalidated key s =
     s\<lparr>key_destructors := (key_destructors s)[nat key := Dtor_invalid],
       key_invalid_count := key_invalid_count s + 1\<rparr>"

lemma invalidated_spec:
  assumes "key_inv s" and "valid_key s key"
  shows "key_inv (invalidated key s)" and "key_map (invalidated key s) = (key_map s)(key := None)"
proof -
  have i: "0 \<le> key" "key < key_count s" "key_destructors s ! nat key \<noteq> Dtor_invalid"
    and len: "nat key < length (key_destructors s)"
    using assms by (auto simp: valid_key_def key_inv_def)
  then have "nat key < nat (key_count s)" by simp
  with len have "invalid_slots (invalidated key s) = insert (nat key) (invalid_slots s)"
    by (auto simp: invalid_slots_def invalidated_def nth_list_update)
  moreover have "nat key \<notin> invalid_slots s" using i(3) by (simp add: invalid_slots_def)
  ultimately show "key_inv (invalidated key s)"
    using assms(1) by (simp add: key_inv_def) (simp add: invalidated_def)
  have "key_map (invalidated key s) k = ((key_map s)(key := None)) k" for k
  proof (cases "0 \<le> k \<and> k \<noteq> key")
    case True
    with i have "nat key \<noteq> nat k" by auto
    with True show ?thesis by (simp add: key_map_def valid_key_def invalidated_def)
  qed (use len in \<open>auto simp: key_map_def valid_key_def invalidated_def\<close>)
  then show "key_map (invalidated key s) = (key_map s)(key := None)" by blast
qed

text \<open>The state after the deletion of a key.\<close>

definition deleted :: "int \<Rightarrow> pt_state \<Rightarrow> pt_state" where
  "deleted key s = (invalidated key s)\<lparr>ihashes := drop_tables key
     (tables_of s (take (nat (num_threads s)) (threads_tab s))) (ihashes s)\<rparr>"

lemma run_key_delete_body:
  assumes "valid_key s key" and "idle_rwlock s Threads_lock" and "ihash_ok h"
  shows "run (key_delete_body n t key) h s = Done OK (deleted key s)"
proof -
  let ?i = "invalidated key s"
  have idle: "idle_rwlock ?i Threads_lock" "idle_rwlock (deleted key s) Threads_lock"
    using assms(2) by (simp_all add: idle_rwlock_def invalidated_def deleted_def)
  have "run (andthen (gets (\<lambda>s. take (nat (num_threads s)) (threads_tab s))) (\<lambda>ts.
            andthen (drop_key key ts) (\<lambda>_. Return OK))) h (read_locked Threads_lock ?i) =
        Done OK (read_locked Threads_lock (deleted key s))"
    by (simp add: run_simps run_drop_key [OF assms(3)] read_locked_def invalidated_def deleted_def
        tables_of_def)
  from read_lock.bracketed [OF idle(1) this idle(2)] assms(1) show ?thesis
    by (simp add: key_delete_body_def run_simps key_invalidate_def invalidated_def)
qed

lemma deleted_acquired: "deleted key (acquired m t s) = acquired m t (deleted key s)"
  by (simp add: deleted_def invalidated_def acquired_eq tables_of_def)

lemma deleted_simps:
  "key_inv (deleted key s) = key_inv (invalidated key s)"
  "key_map (deleted key s) = key_map (invalidated key s)"
  "keys_idle (deleted key s) = keys_idle s"
  by (auto simp: deleted_def invalidated_def key_inv_def invalid_slots_def key_map_def valid_key_def
      fun_eq_iff keys_idle_def idle_mutex_def unlocked_def known_type_def mutex_type_of_def)

lemma run_key_delete:
  assumes "valid_key s key" and "keys_idle s" and "idle_rwlock s Threads_lock" and "ihash_ok h"
  shows "run (pthread_key_delete n t key) h s = Done OK (deleted key s)"
proof -
  from assms(2) have i: "idle_mutex s Key_lock" "idle_mutex (deleted key s) Key_lock"
    using deleted_simps(3) by (auto simp: keys_idle_def)
  have "idle_rwlock (acquired Key_lock t s) Threads_lock"
    using assms(3) by (simp add: idle_rwlock_def acquired_eq)
  from run_key_delete_body [OF _ this assms(4), of key n t] assms(1)
  have "run (key_delete_body n t key) h (acquired Key_lock t s) =
      Done OK (acquired Key_lock t (deleted key s))" by (simp add: deleted_acquired)
  from mutex_lock.bracketed [OF i(1) this i(2)] show ?thesis
    by (simp add: pthread_key_delete_def run_simps run_key_lock_ready [OF assms(2)])
qed

lemma run_key_delete_invalid:
  assumes "\<not> valid_key s key" and "keys_idle s"
  shows "run (pthread_key_delete n t key) h s = Done EINVAL s"
proof -
  from assms(2) have i: "idle_mutex s Key_lock" by (simp add: keys_idle_def)
  have "run (key_delete_body n t key) h (acquired Key_lock t s) = Done EINVAL (acquired Key_lock t s)"
    using assms(1) by (simp add: key_delete_body_def run_simps key_invalidate_def)
  from mutex_lock.bracketed [OF i this i] show ?thesis
    by (simp add: pthread_key_delete_def run_simps run_key_lock_ready [OF assms(2)])
qed

text \<open>
  Deleting a key in use succeeds: the key is no longer in use and all others are as before, every
  listed thread has lost its value of that key and no other value, the locks are released, and a second
  deletion of the key is refused with \<^verbatim>\<open>EINVAL\<close>.
\<close>

theorem key_delete_removes:
  assumes "key_inv s" and "valid_key s key" and "keys_idle s" and "idle_rwlock s Threads_lock"
    and "ihash_ok h"
  shows "\<exists>s1. run (pthread_key_delete n t key) h s = Done OK s1 \<and> key_inv s1 \<and> keys_idle s1 \<and>
    key_map s1 = (key_map s)(key := None) \<and>
    (\<forall>u. Some u \<in> set (take (nat (num_threads s)) (threads_tab s)) \<longrightarrow>
       (\<forall>k. spec_value s1 u k = (if k = key then 0 else spec_value s u k))) \<and>
    run (pthread_key_delete n t key) h s1 = Done EINVAL s1"
proof -
  let ?s = "deleted key s"
  note inv = invalidated_spec [OF assms(1,2)]
  have "key_map ?s key = None" using inv(2) by (simp add: deleted_simps)
  then have "\<not> valid_key ?s key" by (simp add: key_map_def split: if_splits)
  with run_key_delete_invalid [of ?s key n t h] assms(3)
  have second: "run (pthread_key_delete n t key) h ?s = Done EINVAL ?s" by (simp add: deleted_simps)
  have "spec_value ?s u k = (if k = key then 0 else spec_value s u k)"
    if "Some u \<in> set (take (nat (num_threads s)) (threads_tab s))" for u k
  proof -
    from that have "p_thread_specifics (pthreads s u) \<noteq> 0 \<Longrightarrow>
        p_thread_specifics (pthreads s u) \<in>
          tables_of s (take (nat (num_threads s)) (threads_tab s))" by (auto simp: tables_of_def)
    then show ?thesis
      by (auto simp: spec_value_def ihash_value_def deleted_def invalidated_def drop_tables_def Let_def
          split: option.splits)
  qed
  with run_key_delete [OF assms(2-5)] inv second assms(3) show ?thesis
    by (intro exI [of _ ?s]) (simp add: deleted_simps)
qed

text \<open>For the witness: thread 1 is listed and has the value 42 for key 0.\<close>

definition keys_used :: pt_state where
  "keys_used = upd_pthread 1 (\<lambda>x. x\<lparr>p_thread_specifics := 5\<rparr>)
     (keys_ready\<lparr>threads_tab := [Some 1], num_threads := 1,
        ihashes := (\<lambda>_. None)(5 := Some [0 \<mapsto> 42])\<rparr>)"

lemma keys_used_simps: "key_inv keys_used" "keys_idle keys_used"
  using keys_ready_simps
  by (auto simp: keys_used_def key_inv_def invalid_slots_def keys_idle_def idle_mutex_def unlocked_def
      known_type_def mutex_type_of_def)

theorem key_delete_removes_witness:
  "\<exists>s1. run (pthread_key_delete 0 1 0) ihash_env keys_used = Done OK s1 \<and> key_inv s1 \<and> keys_idle s1 \<and>
    key_map s1 = (key_map keys_used)(0 := None) \<and>
    (\<forall>u. Some u \<in> set (take (nat (num_threads keys_used)) (threads_tab keys_used)) \<longrightarrow>
       (\<forall>k. spec_value s1 u k = (if k = 0 then 0 else spec_value keys_used u k))) \<and>
    run (pthread_key_delete 0 1 0) ihash_env s1 = Done EINVAL s1"
  by (rule key_delete_removes [OF keys_used_simps(1) _ keys_used_simps(2) _ ihash_env_ok])
    (simp_all add: keys_used_def keys_ready_def idle_rwlock_def valid_key_def)

end
