(* ===== verification/Cond.thy ===== *)
theory Cond
  imports Mutex
begin

text \<open>
  Condition variables, the waking side (\<^verbatim>\<open>sysdeps/generic/pt-cond-{init,destroy,signal,brdcast}.c\<close>)
  and the hook that wakes a waiter for its cancellation (\<^verbatim>\<open>pt-cond-timedwait.c\<close>).  The waiting side,
  which can end in \<^verbatim>\<open>pthread_exit\<close>, is in \<open>Cancel\<close>.
\<close>

section \<open>Operations\<close>

definition cond_initializer :: "caddr \<Rightarrow> pt_state \<Rightarrow> pt_state" where
  "cond_initializer c s =
     s\<lparr>spin := (spin s)(C_lock c := 0), cell := (cell s)(Cond_queue c := None),
       conds := (conds s)(c := \<lparr>c_attr = None\<rparr>)\<rparr>"

text \<open>As for the other objects, the \<^verbatim>\<open>memcmp\<close> compares no bytes.\<close>

definition pthread_cond_init :: "caddr \<Rightarrow> pthread_condattr option \<Rightarrow> rc pt" where
  "pthread_cond_init c attr =
     andthen (modify (cond_initializer c)) (\<lambda>_.
       case attr of
         None \<Rightarrow> Return OK
       | Some a \<Rightarrow>
           andthen (syscall Malloc) (\<lambda>(_, p, _).
             if p = 0 then Return ENOMEM
             else
               andthen (modify (\<lambda>s. s\<lparr>conds := (conds s)(c := \<lparr>c_attr = Some a\<rparr>)\<rparr>))
                 (\<lambda>_. Return OK)))"

definition pthread_cond_destroy :: "caddr \<Rightarrow> rc pt" where
  "pthread_cond_destroy c = Return OK"

definition cond_signal_section :: "caddr \<Rightarrow> pt_state \<Rightarrow> (fault + thr option) \<times> pt_state" where
  "cond_signal_section c s =
     (case cell s (Cond_queue c) of
        None \<Rightarrow> (Inr None, pthread_spin_unlock (C_lock c) s)
      | Some wakeup \<Rightarrow>
          (case pthread_dequeue wakeup s of
             None \<Rightarrow> (Inl Assert_failed, s)
           | Some s1 \<Rightarrow> (Inr (Some wakeup), pthread_spin_unlock (C_lock c) s1)))"

definition pthread_cond_signal :: "caddr \<Rightarrow> rc pt" where
  "pthread_cond_signal c =
     andthen (spin_section (C_lock c) (cond_signal_section c)) (\<lambda>w.
       case w of
         None \<Rightarrow> Return OK
       | Some wakeup \<Rightarrow> andthen (pthread_wakeup wakeup) (\<lambda>_. Return OK))"

text \<open>The broadcast sends its messages with the spin lock held; \<open>n\<close> bounds the loop.\<close>

definition pthread_cond_broadcast :: "nat \<Rightarrow> caddr \<Rightarrow> rc pt" where
  "pthread_cond_broadcast n c =
     andthen (spin_acquire (C_lock c)) (\<lambda>_.
     andthen (gets (\<lambda>s. cell s (Cond_queue c))) (\<lambda>q.
     andthen (pthread_dequeuing_iterate n q pthread_wakeup) (\<lambda>_.
     andthen (modify (\<lambda>s. pthread_spin_unlock (C_lock c) (s\<lparr>cell := (cell s)(Cond_queue c := None)\<rparr>)))
       (\<lambda>_. Return OK))))"

text \<open>\<^verbatim>\<open>cancel_hook\<close>, and in the same words \<^verbatim>\<open>cancel_me\<close> of \<^verbatim>\<open>pt-hurd-cond-timedwait.c\<close>.\<close>

definition cancel_hook_section :: "caddr \<Rightarrow> thr \<Rightarrow> pt_state \<Rightarrow> (fault + bool) \<times> pt_state" where
  "cancel_hook_section c wakeup s =
     (if prevp s wakeup = None then (Inr False, pthread_spin_unlock (C_lock c) s)
      else
        (case pthread_dequeue wakeup s of
           None \<Rightarrow> (Inl Assert_failed, s)
         | Some s1 \<Rightarrow> (Inr True, pthread_spin_unlock (C_lock c) s1)))"

definition cancel_hook :: "thr \<times> caddr \<Rightarrow> unit pt" where
  "cancel_hook arg =
     (case arg of (wakeup, c) \<Rightarrow>
        andthen (spin_section (C_lock c) (cancel_hook_section c wakeup)) (\<lambda>unblock.
          if unblock then pthread_wakeup wakeup else Return ()))"

section \<open>Properties\<close>

definition cond_inv :: "pt_state \<Rightarrow> queue_view \<Rightarrow> caddr \<Rightarrow> bool" where
  "cond_inv s Q c \<longleftrightarrow> queues s Q \<and> spin s (C_lock c) = 0"

lemma cond_inv_first:
  "cond_inv s Q c \<Longrightarrow>
     cell s (Cond_queue c) = (case Q (Cond_queue c) of [] \<Rightarrow> None | t # _ \<Rightarrow> Some t)"
  by (simp add: cond_inv_def wq.first_view)

lemma cond_dequeue:
  assumes "cond_inv s Q c" and "is_head l" and "t \<in> set (Q l)"
  shows "\<exists>c' v. pthread_dequeue t (upd_spin (C_lock c) 1 s) =
             Some (upd_spin (C_lock c) 1 s\<lparr>cell := c', prevp := v\<rparr>) \<and>
           pthread_spin_unlock (C_lock c) (upd_spin (C_lock c) 1 s\<lparr>cell := c', prevp := v\<rparr>) =
             s\<lparr>cell := c', prevp := v\<rparr> \<and>
           linked c' v (Q(l := removeAll t (Q l)))"
proof -
  let ?s = "upd_spin (C_lock c) 1 s"
  have sp: "spin s (C_lock c) = 0" and q: "queues ?s Q" using assms by (simp_all add: cond_inv_def)
  from wq.deq_ok [OF q assms(2,3)] obtain s0
    where s0: "pthread_dequeue t ?s = Some s0" "queues s0 (Q(l := removeAll t (Q l)))" by auto
  from pthread_dequeue_frame [OF s0(1)] obtain c' v where s0': "s0 = ?s\<lparr>cell := c', prevp := v\<rparr>" by auto
  with s0 sp show ?thesis
    by (auto simp: pthread_spin_unlock_def intro!: exI [of _ c'] exI [of _ v] pt_state.equality)
qed

text \<open>
  A signal wakes exactly one waiter, the first of the queue, if there is one, and otherwise does
  nothing at all: it leaves no trace for later waiters.
\<close>

theorem cond_signal_wakes_one:
  assumes "cond_inv s Q c" and "mach_ports h"
    and "\<And>t. t \<in> set (Q (Cond_queue c)) \<Longrightarrow> kmsgs s t = 0"
  shows "case Q (Cond_queue c) of
           [] \<Rightarrow> run (pthread_cond_signal c) h s = Done OK s
         | w # ws \<Rightarrow>
             (\<exists>s1. run (pthread_cond_signal c) h s = Done OK s1 \<and>
                cond_inv s1 (Q(Cond_queue c := ws)) c \<and> kmsgs s1 = (kmsgs s)(w := 1))"
proof (cases "Q (Cond_queue c)")
  case Nil
  then show ?thesis
    using assms(1) cond_inv_first [OF assms(1)]
    by (auto simp: pthread_cond_signal_def run_simps cond_signal_section_def cond_inv_def
        pthread_spin_unlock_def intro!: pt_state.equality)
next
  case (Cons w ws)
  from cond_dequeue [OF assms(1), of "Cond_queue c" w] Cons
  obtain c' v where cv: "pthread_dequeue w (upd_spin (C_lock c) 1 s) =
        Some (upd_spin (C_lock c) 1 s\<lparr>cell := c', prevp := v\<rparr>)"
      "pthread_spin_unlock (C_lock c) (upd_spin (C_lock c) 1 s\<lparr>cell := c', prevp := v\<rparr>) =
        s\<lparr>cell := c', prevp := v\<rparr>"
      "linked c' v (Q(Cond_queue c := removeAll w (Q (Cond_queue c))))" by auto
  have "removeAll w (Q (Cond_queue c)) = ws"
    using wq.view_distinct [of s Q "Cond_queue c"] assms(1) Cons by (auto simp: cond_inv_def)
  moreover have "cell s (Cond_queue c) = Some w" using cond_inv_first [OF assms(1)] Cons by simp
  then have "run (pthread_cond_signal c) h s =
      Done OK (s\<lparr>cell := c', prevp := v, kmsgs := (kmsgs s)(w := 1)\<rparr>)"
    using assms(1,3) Cons cv(1,2)
    by (simp add: pthread_cond_signal_def run_simps cond_signal_section_def cond_inv_def
        run_wakeup [OF assms(2)])
  ultimately show ?thesis
    using Cons cv(3) assms(1) by (auto simp: cond_inv_def)
qed

text \<open>The state after a broadcast to the waiters \<open>ts\<close>.\<close>

definition broadcasted :: "caddr \<Rightarrow> thr list \<Rightarrow> pt_state \<Rightarrow> pt_state" where
  "broadcasted c ts s = (woken ts s)\<lparr>cell := (cell s)(Cond_queue c := None)\<rparr>"

lemma run_broadcast:
  assumes "cond_inv s Q c" and "mach_ports h"
    and "\<And>t. t \<in> set (Q (Cond_queue c)) \<Longrightarrow> kmsgs s t = 0" and "length (Q (Cond_queue c)) \<le> n"
  shows "run (pthread_cond_broadcast n c) h s = Done OK (broadcasted c (Q (Cond_queue c)) s)"
proof -
  let ?s = "upd_spin (C_lock c) 1 s" and ?ts = "Q (Cond_queue c)"
  have q: "queues s Q" and sp: "spin s (C_lock c) = 0" using assms(1) by (simp_all add: cond_inv_def)
  have "path (cell s) (cell s (Cond_queue c)) ?ts"
    using chain_path linkedD(1) [OF q, of "Cond_queue c"] by auto
  then have "run (pthread_dequeuing_iterate n (cell s (Cond_queue c)) pthread_wakeup) h ?s =
      Done () (woken ?ts ?s)"
    using assms(3,4) wq.view_distinct [OF q, of "Cond_queue c"]
    by (intro run_wake_all [OF assms(2)]) auto
  then show ?thesis
    using sp by (auto simp: pthread_cond_broadcast_def broadcasted_def run_simps woken_def
        pthread_spin_unlock_def intro!: pt_state.equality)
qed

lemma broadcasted_inv:
  assumes "cond_inv s Q c"
  shows "cond_inv (broadcasted c (Q (Cond_queue c)) s) (Q(Cond_queue c := [])) c"
proof -
  have "queues s Q" using assms by (simp add: cond_inv_def)
  from linked_clear [OF this, of "Cond_queue c"] assms show ?thesis
    by (simp add: cond_inv_def broadcasted_def woken_def cong: if_cong)
qed

lemma broadcasted_kmsgs:
  "kmsgs (broadcasted c ts s) = (\<lambda>t. if t \<in> set ts then 1 else kmsgs s t)"
  by (simp add: broadcasted_def woken_def)

text \<open>
  C34: A broadcast takes all waiters off the queue and sends each exactly one wakeup message; its
  loop ends after as many rounds as there are waiters.
\<close>

theorem cond_broadcast_wakes_all:
  assumes "cond_inv s Q c" and "mach_ports h"
    and "\<And>t. t \<in> set (Q (Cond_queue c)) \<Longrightarrow> kmsgs s t = 0" and "length (Q (Cond_queue c)) \<le> n"
  shows "\<exists>s1. run (pthread_cond_broadcast n c) h s = Done OK s1 \<and>
           cond_inv s1 (Q(Cond_queue c := [])) c \<and>
           kmsgs s1 = (\<lambda>t. if t \<in> set (Q (Cond_queue c)) then 1 else kmsgs s t)"
  using run_broadcast [OF assms] broadcasted_inv [OF assms(1)] broadcasted_kmsgs by blast

definition cond_three :: pt_state where
  "cond_three = zero_state\<lparr>
     cell := (\<lambda>_. None)(Cond_queue (User_cond 0) := Some 3, Next 3 := Some 2, Next 2 := Some 1),
     prevp := (\<lambda>_. None)(3 := Some (Cond_queue (User_cond 0)), 2 := Some (Next 3), 1 := Some (Next 2))\<rparr>"

lemma cond_three_inv:
  "cond_inv cond_three ((\<lambda>_. [])(Cond_queue (User_cond 0) := [3, 2, 1])) (User_cond 0)"
  by (auto simp: cond_inv_def cond_three_def linked_def intro!: exI [of _ "Cond_queue (User_cond 0)"]
      elim!: is_head.elims)

theorem cond_signal_wakes_one_witness:
  "case ((\<lambda>_. [])(Cond_queue (User_cond 0) := [3, 2, 1])) (Cond_queue (User_cond 0)) of
     [] \<Rightarrow> run (pthread_cond_signal (User_cond 0)) port0 cond_three = Done OK cond_three
   | w # ws \<Rightarrow>
       (\<exists>s1. run (pthread_cond_signal (User_cond 0)) port0 cond_three = Done OK s1 \<and>
          cond_inv s1 (((\<lambda>_. [])(Cond_queue (User_cond 0) := [3, 2, 1]))
            (Cond_queue (User_cond 0) := ws)) (User_cond 0) \<and>
          kmsgs s1 = (kmsgs cond_three)(w := 1))"
  by (rule cond_signal_wakes_one [OF cond_three_inv]) (simp_all add: cond_three_def)

theorem cond_broadcast_wakes_all_witness:
  "\<exists>s1. run (pthread_cond_broadcast 3 (User_cond 0)) port0 cond_three = Done OK s1 \<and>
     cond_inv s1 (((\<lambda>_. [])(Cond_queue (User_cond 0) := [3, 2, 1]))
       (Cond_queue (User_cond 0) := [])) (User_cond 0) \<and>
     kmsgs s1 = (\<lambda>t. if t \<in> set (((\<lambda>_. [])(Cond_queue (User_cond 0) := [3, 2, 1]))
       (Cond_queue (User_cond 0))) then 1 else kmsgs cond_three t)"
  by (rule cond_broadcast_wakes_all [OF cond_three_inv]) (simp_all add: cond_three_def)

end
