(* ===== verification/Thread.thy ===== *)
theory Thread
  imports Key Cond
begin

text \<open>
  Threads: their structures and identifiers (\<^verbatim>\<open>pthread/pt-alloc.c\<close>, \<^verbatim>\<open>pt-dealloc.c\<close>, the macros of
  \<^verbatim>\<open>pt-internal.h\<close>), stacks (\<^verbatim>\<open>sysdeps/mach/pt-stack-alloc.c\<close>), kernel threads
  (\<^verbatim>\<open>sysdeps/mach/pt-thread-*.c\<close>), machine contexts (\<^verbatim>\<open>sysdeps/mach/hurd/i386\<close>), signal states
  (\<^verbatim>\<open>sysdeps/mach/hurd/pt-sigstate*.c\<close>), creation (\<^verbatim>\<open>pthread/pt-create.c\<close>) and exit
  (\<^verbatim>\<open>pthread/pt-exit.c\<close>).

  The calling thread is the argument \<open>self\<close>, what \<^verbatim>\<open>_pthread_self ()\<close> returns; the argument \<open>n\<close>
  bounds the loops over wait queues.
\<close>

unbundle bit_operations_syntax

section \<open>The table of threads\<close>

text \<open>
  The table is indexed by the identifier minus one, with no check of the range: an access outside
  the elements that have been written is a fault.
\<close>

definition pthread_getid :: "nat \<Rightarrow> thr \<Rightarrow> int \<Rightarrow> thr option pt" where
  "pthread_getid n self thread =
     bracket (pthread_rwlock_rdlock Threads_lock self) (pthread_rwlock_unlock n Threads_lock)
       (section_of (\<lambda>_. True) (\<lambda>s.
          if 1 \<le> thread \<and> thread \<le> num_threads s
          then (Inr (threads_tab s ! nat (thread - 1)), s) else (Inl Wild_access, s)))"

definition store_id :: "int \<Rightarrow> thr option \<Rightarrow> pt_state \<Rightarrow> (fault + unit) \<times> pt_state" where
  "store_id thread t s =
     (if 1 \<le> thread \<and> thread \<le> num_threads s
      then (Inr (), s\<lparr>threads_tab := (threads_tab s)[nat (thread - 1) := t]\<rparr>)
      else (Inl Wild_access, s))"

definition pthread_setid :: "nat \<Rightarrow> thr \<Rightarrow> int \<Rightarrow> thr option \<Rightarrow> unit pt" where
  "pthread_setid n self thread t =
     bracket (pthread_rwlock_wrlock Threads_lock self) (pthread_rwlock_unlock n Threads_lock)
       (section_of (\<lambda>_. True) (store_id thread t))"

section \<open>Kernel threads\<close>

definition pthread_thread_halt :: "thr \<Rightarrow> unit pt" where
  "pthread_thread_halt t =
     andthen (gets (\<lambda>s. p_kernel_thread (pthreads s t))) (\<lambda>kt.
     andthen (syscall (Thread_terminate kt)) (\<lambda>(err, _, _). assert_p (err = OK)))"

definition pthread_thread_dealloc :: "thr \<Rightarrow> unit pt" where
  "pthread_thread_dealloc t =
     andthen (gets (\<lambda>s. p_wakeup_port (pthreads s t))) (\<lambda>port.
     andthen (syscall (Mach_port_destroy port)) (\<lambda>_. Return ()))"

text \<open>A successful \<^verbatim>\<open>__mach_port_allocate\<close> replies the name of the new port.\<close>

definition create_wakeupmsg :: "thr \<Rightarrow> rc pt" where
  "create_wakeupmsg t =
     andthen (syscall Mach_port_allocate) (\<lambda>(err, port, _).
       if err \<noteq> OK then Return EAGAIN
       else
         andthen (modify (upd_pthread t (\<lambda>x. x\<lparr>p_wakeup_port := port\<rparr>))) (\<lambda>_.
         andthen (syscall (Mach_port_insert_right port)) (\<lambda>(err, _, _).
           if err \<noteq> OK then andthen (syscall (Mach_port_destroy port)) (\<lambda>_. Return EAGAIN)
           else andthen (syscall (Mach_port_set_qlimit port 1)) (\<lambda>_. Return OK))))"

definition pthread_thread_alloc :: "thr \<Rightarrow> rc pt" where
  "pthread_thread_alloc t =
     andthen (gets (\<lambda>s. p_have_kernel_resources (pthreads s t))) (\<lambda>have.
       if have \<noteq> 0 then Return OK
       else
         andthen (create_wakeupmsg t) (\<lambda>err.
           if err \<noteq> OK then Return err
           else
             andthen (gets num_threads) (\<lambda>num.
             andthen (if num = 1 then
                        andthen (gets total_threads) (\<lambda>total.
                        andthen (assert_p (total = 0)) (\<lambda>_.
                        andthen (syscall Mach_thread_self) (\<lambda>(_, kt, _).
                        andthen (modify (upd_pthread t (\<lambda>x. x\<lparr>p_kernel_thread := kt\<rparr>))) (\<lambda>_.
                        andthen (syscall (Mach_port_deallocate kt)) (\<lambda>_. Return OK)))))
                      else
                        andthen (syscall Thread_create) (\<lambda>(err, kt, _).
                          if err \<noteq> OK then Return EAGAIN
                          else andthen (modify (upd_pthread t (\<lambda>x. x\<lparr>p_kernel_thread := kt\<rparr>)))
                                 (\<lambda>_. Return OK))) (\<lambda>err.
               if err \<noteq> OK then Return err
               else andthen (modify (upd_pthread t (\<lambda>x. x\<lparr>p_have_kernel_resources := 1\<rparr>)))
                      (\<lambda>_. Return OK)))))"

definition pthread_thread_start :: "thr \<Rightarrow> rc pt" where
  "pthread_thread_start t =
     andthen (gets (\<lambda>s. (num_threads s, total_threads s, p_kernel_thread (pthreads s t))))
       (\<lambda>(num, total, kt).
         if num = 1 then
           andthen (assert_p (total = 1)) (\<lambda>_.
           andthen (syscall Mach_thread_self) (\<lambda>(_, ktid, _).
           andthen (syscall (Mach_port_deallocate kt)) (\<lambda>_.
           andthen (assert_p (kt = ktid)) (\<lambda>_. Return OK))))
         else
           andthen (syscall (Thread_resume kt)) (\<lambda>(err, _, _).
           andthen (assert_p (err = OK)) (\<lambda>_. Return OK)))"

section \<open>Thread structures\<close>

definition init_cancelation :: "thr \<Rightarrow> pt_state \<Rightarrow> pt_state" where
  "init_cancelation t s =
     upd_pthread t (\<lambda>x. x\<lparr>p_cancel_hook := None, p_cancel_state := PTHREAD_CANCEL_ENABLE,
         p_cancel_type := PTHREAD_CANCEL_DEFERRED, p_cancel_pending := 0\<rparr>)
       (mutex_initializer (Cancel_lock t) s)"

definition init_fresh :: "thr \<Rightarrow> pt_state \<Rightarrow> pt_state" where
  "init_fresh t s =
     (let s1 = cond_initializer (State_cond t) (mutex_initializer (State_lock t) s)
      in (upd_pthread t (\<lambda>x. x\<lparr>p_stack := 0, p_cancelation_handlers := [], p_tcb := 0\<rparr>) s1)
           \<lparr>cell := (cell s1)(Next t := None), prevp := (prevp s1)(t := None)\<rparr>)"

definition initialize_pthread :: "thr \<Rightarrow> bool \<Rightarrow> rc pt" where
  "initialize_pthread t recycling =
     andthen (pthread_init_specific t) (\<lambda>err.
       if err \<noteq> OK then Return err
       else
         andthen (modify (init_cancelation t)) (\<lambda>_.
           if recycling then Return OK
           else andthen (modify (init_fresh t)) (\<lambda>_. Return OK)))"

text \<open>The loop over the list of free structures, for at most \<open>m\<close> of them.\<close>

fun find_free :: "nat \<Rightarrow> thr option \<Rightarrow> thr option pt" where
  "find_free m None = Return None"
| "find_free 0 (Some t) = stuck"
| "find_free (Suc m) (Some t) =
     andthen (gets (\<lambda>s. (p_state (pthreads s t), cell s (Next t)))) (\<lambda>(st, nxt).
       if st = PTHREAD_TERMINATED then
         section_of (\<lambda>_. True) (\<lambda>s.
           case pthread_dequeue t s of
             None \<Rightarrow> (Inl Assert_failed, s) | Some s1 \<Rightarrow> (Inr (Some t), s1))
       else find_free m nxt)"

definition pthread_alloc_recycle :: "nat \<Rightarrow> thr \<Rightarrow> thr option pt" where
  "pthread_alloc_recycle n self =
     bracket (pthread_mutex_lock Free_threads_lock self) (pthread_mutex_unlock Free_threads_lock self)
       (andthen (gets (\<lambda>s. cell s Free_threads)) (find_free n))"

text \<open>\<^verbatim>\<open>_POSIX_THREAD_THREADS_MAX\<close> of \<^verbatim>\<open>pt-sysdep.h\<close>.\<close>

definition POSIX_THREAD_THREADS_MAX :: int where
  "POSIX_THREAD_THREADS_MAX = 64"

definition new_max :: "int \<Rightarrow> int" where
  "new_max mx = (if mx > 0 then mx * 2 else POSIX_THREAD_THREADS_MAX)"

definition take_slot :: "thr \<Rightarrow> pt_state \<Rightarrow> pt_state" where
  "take_slot t s =
     (upd_pthread t (\<lambda>x. x\<lparr>p_thread := 1 + num_threads s\<rparr>) s)
       \<lparr>num_threads := num_threads s + 1,
        threads_tab := (threads_tab s)[nat (num_threads s) := None]\<rparr>"

text \<open>The elements of a new table beyond the copied ones are not initialised; they appear as null.\<close>

definition grow_table :: "ptr \<Rightarrow> pt_state \<Rightarrow> pt_state" where
  "grow_table p s =
     s\<lparr>threads_tab := take (nat (max_threads s)) (threads_tab s) @
         replicate (nat (new_max (max_threads s)) - nat (max_threads s)) None,
       max_threads := new_max (max_threads s), threads_ptr := p\<rparr>"

datatype slot = Slot_taken | Slot_limit | Slot_grow int

definition slot_section :: "int option \<Rightarrow> thr \<Rightarrow> pt_state \<Rightarrow> (fault + slot) \<times> pt_state" where
  "slot_section threads_max t s =
     (if num_threads s < max_threads s then (Inr Slot_taken, take_slot t s)
      else if (case threads_max of Some mx \<Rightarrow> num_threads s \<ge> mx | None \<Rightarrow> False)
      then (Inr Slot_limit, s)
      else (Inr (Slot_grow (max_threads s)), s))"

text \<open>The second section with the table locked yields the old table, or \<open>None\<close> to try again.\<close>

definition grow_section :: "int \<Rightarrow> ptr \<Rightarrow> thr \<Rightarrow> pt_state \<Rightarrow> (fault + ptr option) \<times> pt_state" where
  "grow_section mx p t s =
     (if mx \<noteq> max_threads s then (Inr None, s)
      else (Inr (Some (threads_ptr s)), take_slot t (grow_table p s)))"

text \<open>From the label \<^verbatim>\<open>retry\<close> on, for at most \<open>k\<close> tries.\<close>

primrec alloc_slot :: "nat \<Rightarrow> nat \<Rightarrow> int option \<Rightarrow> thr \<Rightarrow> thr \<Rightarrow> rc pt" where
  "alloc_slot 0 n threads_max self t = stuck"
| "alloc_slot (Suc k) n threads_max self t =
     andthen (bracket (pthread_rwlock_wrlock Threads_lock self) (pthread_rwlock_unlock n Threads_lock)
                (section_of (\<lambda>_. True) (slot_section threads_max t))) (\<lambda>r.
       case r of
         Slot_taken \<Rightarrow> Return OK
       | Slot_limit \<Rightarrow> andthen (syscall (Free t)) (\<lambda>_. Return EAGAIN)
       | Slot_grow mx \<Rightarrow>
           andthen (syscall Malloc) (\<lambda>(_, p, _).
             if p = 0 then andthen (syscall (Free t)) (\<lambda>_. Return ENOMEM)
             else
               andthen (bracket (pthread_rwlock_wrlock Threads_lock self)
                          (pthread_rwlock_unlock n Threads_lock)
                          (section_of (\<lambda>_. True) (grow_section mx (nat p) t))) (\<lambda>r.
                 case r of
                   None \<Rightarrow>
                     andthen (syscall (Free (nat p))) (\<lambda>_. alloc_slot k n threads_max self t)
                 | Some old \<Rightarrow> andthen (syscall (Free old)) (\<lambda>_. Return OK))))"

definition pthread_alloc :: "nat \<Rightarrow> nat \<Rightarrow> int option \<Rightarrow> thr \<Rightarrow> (rc \<times> thr) pt" where
  "pthread_alloc k n threads_max self =
     andthen (pthread_alloc_recycle n self) (\<lambda>r.
       case r of
         Some t \<Rightarrow>
           andthen (pthread_thread_halt t) (\<lambda>_.
           andthen (gets (\<lambda>s. p_tcb (pthreads s t))) (\<lambda>tcb.
           andthen (if tcb \<noteq> 0 then
                      andthen (syscall (Dl_deallocate_tls tcb)) (\<lambda>_.
                        modify (upd_pthread t (\<lambda>x. x\<lparr>p_tcb := 0\<rparr>)))
                    else Return ()) (\<lambda>_.
           andthen (initialize_pthread t True) (\<lambda>err. Return (err, t)))))
       | None \<Rightarrow>
           andthen (syscall Malloc) (\<lambda>(_, p, _).
             if p = 0 then Return (ENOMEM, 0)
             else
               andthen (initialize_pthread (nat p) False) (\<lambda>err.
                 if err \<noteq> OK then andthen (syscall (Free (nat p))) (\<lambda>_. Return (err, 0))
                 else
                   andthen (alloc_slot k n threads_max self (nat p)) (\<lambda>err. Return (err, nat p)))))"

definition pthread_dealloc :: "nat \<Rightarrow> thr \<Rightarrow> thr \<Rightarrow> unit pt" where
  "pthread_dealloc n self t =
     andthen (gets (\<lambda>s. (p_state (pthreads s t), p_thread (pthreads s t)))) (\<lambda>(st, tid).
     andthen (assert_p (st \<noteq> PTHREAD_TERMINATED)) (\<lambda>_.
     andthen (pthread_setid n self tid None) (\<lambda>_.
     andthen (bracket (pthread_mutex_lock (State_lock t) self) (pthread_mutex_unlock (State_lock t) self)
                (andthen (gets (\<lambda>s. p_state (pthreads s t))) (\<lambda>st.
                   if st \<noteq> PTHREAD_EXITED then pthread_cond_broadcast n (State_cond t) else Return OK)))
       (\<lambda>_.
     andthen (bracket (pthread_mutex_lock Free_threads_lock self)
                (pthread_mutex_unlock Free_threads_lock self)
                (section_of (\<lambda>_. True) (\<lambda>s.
                   case pthread_enqueue Free_threads t s of
                     None \<Rightarrow> (Inl Assert_failed, s) | Some s1 \<Rightarrow> (Inr (), s1)))) (\<lambda>_.
       modify (upd_pthread t (\<lambda>x. x\<lparr>p_state := PTHREAD_TERMINATED\<rparr>)))))))"

section \<open>Stacks\<close>

text \<open>
  The search for room: \<open>Vm_allocate base size\<close> replies the address of the new memory.  The bounds of
  the address space are parameters.  \<open>m\<close> bounds the rounds of the loop.
\<close>

primrec search_stack :: "nat \<Rightarrow> 32 word \<Rightarrow> 32 word \<Rightarrow> 32 word \<Rightarrow> 32 word pt" where
  "search_stack 0 vm_max stacksize base = stuck"
| "search_stack (Suc m) vm_max stacksize base =
     (if base < vm_max then
        andthen (syscall (Vm_allocate (uint base) (uint stacksize))) (\<lambda>(err, a, _).
          if err \<noteq> OK then search_stack m vm_max stacksize (base + stacksize)
          else Return (word_of_int a))
      else Return base)"

definition pthread_stack_alloc ::
    "nat \<Rightarrow> 32 word \<Rightarrow> 32 word \<Rightarrow> 32 word \<Rightarrow> (rc \<times> 32 word) pt" where
  "pthread_stack_alloc m vm_min vm_max stacksize =
     (let found = (\<lambda>base.
            andthen (modify (\<lambda>s. s\<lparr>next_stack_base := base + stacksize\<rparr>)) (\<lambda>_. Return (OK, base)))
      in andthen (gets (\<lambda>s. (at_stacksize (default_attr s), next_stack_base s))) (\<lambda>(dflt, next).
        if stacksize \<noteq> dflt then Return (EINVAL, 0)
        else
          andthen (search_stack m vm_max stacksize next) (\<lambda>base.
            if base \<ge> vm_max then
              andthen (modify (\<lambda>s. s\<lparr>next_stack_base := vm_min\<rparr>)) (\<lambda>_.
              andthen (search_stack m vm_max stacksize vm_min) (\<lambda>base.
                if base \<ge> vm_max then Return (EAGAIN, 0) else found base))
            else found base)))"

definition pthread_stack_dealloc :: "32 word \<Rightarrow> 32 word \<Rightarrow> unit pt" where
  "pthread_stack_dealloc stackaddr stacksize =
     andthen (syscall (Vm_deallocate (uint stackaddr) (uint stacksize))) (\<lambda>_. Return ())"

section \<open>Machine contexts\<close>

text \<open>\<^verbatim>\<open>HURD_TLS_DESC_DECL\<close>: the two words of the segment descriptor for a thread control block.\<close>

definition hurd_tls_desc :: "32 word \<Rightarrow> 32 word \<times> 32 word" where
  "hurd_tls_desc tcb =
     (0xffff OR push_bit 16 tcb,
      (drop_bit 16 tcb AND 0xff) OR push_bit 8 (0x12 OR 0x60 OR 0x80) OR push_bit 16 0xf OR
        push_bit 20 (4 OR 8) OR (tcb AND 0xff000000))"

text \<open>
  \<^verbatim>\<open>__thread_set_pcsptp\<close> reads the registers of a kernel thread, changes some of them and writes them back.
  The reply to \<^verbatim>\<open>__thread_get_state\<close> stands for the stack pointer and the program counter; the
  segment selector is written only if the thread pointer is set.
\<close>

definition thread_set_pcsptp ::
    "int \<Rightarrow> int option \<Rightarrow> int option \<Rightarrow> int option \<Rightarrow> rc pt" where
  "thread_set_pcsptp thread ip sp tp =
     andthen (syscall (Extern ''__thread_get_state'' [thread])) (\<lambda>(err, uesp, eip).
       if err \<noteq> OK then Return err
       else
         (let uesp1 = (case sp of Some v \<Rightarrow> v | None \<Rightarrow> uesp);
              eip1 = (case ip of Some v \<Rightarrow> v | None \<Rightarrow> eip)
          in andthen (case tp of
                        None \<Rightarrow> Return (OK, [])
                      | Some tcb \<Rightarrow>
                          (case hurd_tls_desc (word_of_int tcb) of (low, high) \<Rightarrow>
                          andthen (syscall (Extern ''mov_gs'' [])) (\<lambda>(_, sel, _).
                          andthen (if sel AND 4 \<noteq> 0
                                   then andthen (syscall (Extern ''__i386_set_ldt'' [thread, sel, uint low, uint high]))
                                          (\<lambda>(err, _, _). Return (err, sel))
                                   else andthen (syscall (Extern ''__i386_set_gdt'' [thread, sel, uint low, uint high]))
                                          (\<lambda>(err, sel, _). Return (err, sel)))
                            (\<lambda>(err, sel). Return (err, [sel]))))) (\<lambda>(err, gs).
               if err \<noteq> OK then Return err
               else
                 andthen (syscall (Extern ''__thread_set_state'' ([thread, uesp1, eip1] @ gs)))
                   (\<lambda>(err, _, _). Return err))))"

text \<open>
  The stack of a new thread.  \<open>tvmax\<close> is \<^verbatim>\<open>__hurd_threadvar_max\<close>, the number of words that the Hurd keeps at
  the end of every stack.
\<close>

definition stack_top :: "32 word \<Rightarrow> 32 word \<Rightarrow> 32 word \<Rightarrow> 32 word" where
  "stack_top tvmax stackaddr stacksize = stackaddr + stacksize - 4 * tvmax"

definition frame_base :: "32 word \<Rightarrow> 32 word" where
  "frame_base tos = (tos - 12) AND NOT 0xf"

definition push_frame :: "32 word \<Rightarrow> thr \<Rightarrow> 32 word \<Rightarrow> 32 word \<Rightarrow> pt_state \<Rightarrow> pt_state" where
  "push_frame tos t start_routine arg s =
     s\<lparr>stack_mem := (stack_mem s)(tos + 8 := arg, tos + 4 := start_routine, tos := of_nat t,
         tos - 4 := 0)\<rparr>"

definition stack_setup :: "32 word \<Rightarrow> thr \<Rightarrow> 32 word \<Rightarrow> 32 word \<Rightarrow> 32 word pt" where
  "stack_setup tvmax t start_routine arg =
     andthen (gets (\<lambda>s. (p_stackaddr (pthreads s t), p_stacksize (pthreads s t),
                p_guardsize (pthreads s t)))) (\<lambda>(bottom, stacksize, guardsize).
       (let tos = stack_top tvmax bottom stacksize
        in andthen (if start_routine \<noteq> 0 then
                      andthen (modify (push_frame (frame_base tos) t start_routine arg))
                        (\<lambda>_. Return (frame_base tos - 4))
                    else Return tos) (\<lambda>tos.
           andthen (if guardsize \<noteq> 0 then
                      andthen (syscall (Vm_protect (uint bottom) (uint guardsize))) (\<lambda>(err, _, _).
                        assert_p (err = OK))
                    else Return ()) (\<lambda>_. Return tos))))"

definition pthread_setup :: "32 word \<Rightarrow> thr \<Rightarrow> 32 word \<Rightarrow> 32 word \<Rightarrow> 32 word \<Rightarrow> rc pt" where
  "pthread_setup tvmax t entry_point start_routine arg =
     andthen (modify (upd_pthread t (\<lambda>x. x\<lparr>p_pc := entry_point\<rparr>))) (\<lambda>_.
     andthen (stack_setup tvmax t start_routine arg) (\<lambda>sp.
     andthen (modify (upd_pthread t (\<lambda>x. x\<lparr>p_sp := sp\<rparr>))) (\<lambda>_.
     andthen (modify (\<lambda>s. s\<lparr>tcb_self := (tcb_self s)(p_tcb (pthreads s t) :=
                p_kernel_thread (pthreads s t))\<rparr>)) (\<lambda>_.
     andthen (syscall Mach_thread_self) (\<lambda>(_, ktid, _).
     andthen (gets (\<lambda>s. pthreads s t)) (\<lambda>x.
     andthen (if p_kernel_thread x \<noteq> ktid then
                andthen (thread_set_pcsptp (p_kernel_thread x) (Some (uint (p_pc x)))
                           (Some (uint (p_sp x))) (Some (p_tcb x))) (\<lambda>err. assert_p (err = OK))
              else Return ()) (\<lambda>_.
     andthen (syscall (Mach_port_deallocate ktid)) (\<lambda>_. Return OK))))))))"

section \<open>Signal states\<close>

definition SIG_BLOCK :: int where "SIG_BLOCK = 1"
definition SIG_UNBLOCK :: int where "SIG_UNBLOCK = 2"
definition SIG_SETMASK :: int where "SIG_SETMASK = 3"

text \<open>The address of a thread variable is computed by the C library from an address on the stack.\<close>

definition pthread_sigstate_init :: "thr \<Rightarrow> rc pt" where
  "pthread_sigstate_init t =
     andthen (gets (\<lambda>s. p_stackaddr (pthreads s t))) (\<lambda>sp.
     andthen (syscall (Extern ''__hurd_threadvar_location_from_sp'' [uint sp])) (\<lambda>(_, location, _).
     andthen (modify (\<lambda>s. s\<lparr>stack_mem := (stack_mem s)(word_of_int location := 0)\<rparr>))
       (\<lambda>_. Return OK)))"

definition pthread_sigstate_destroy :: "thr \<Rightarrow> unit pt" where
  "pthread_sigstate_destroy t = Return ()"

definition new_blocked :: "int \<Rightarrow> 32 word \<Rightarrow> 32 word \<Rightarrow> rc \<times> 32 word" where
  "new_blocked how nset blocked =
     (if how = SIG_BLOCK then (OK, blocked OR nset)
      else if how = SIG_SETMASK then (OK, nset)
      else if how = SIG_UNBLOCK then (OK, blocked AND NOT nset)
      else (EINVAL, blocked))"

text \<open>\<open>ss\<close> is the address of the signal state; the result is the code and the old mask.\<close>

definition sigstate_section ::
    "nat \<Rightarrow> int \<Rightarrow> 32 word option \<Rightarrow> bool \<Rightarrow> pt_state \<Rightarrow> (fault + rc \<times> 32 word) \<times> pt_state" where
  "sigstate_section ss how nset clear_pending s =
     (let old = hss_blocked (sigstates s ss);
          (err, blocked) = (case nset of Some x \<Rightarrow> new_blocked how x old | None \<Rightarrow> (OK, old));
          s1 = upd_sigstate ss (\<lambda>x. x\<lparr>hss_blocked := blocked\<rparr>) s;
          s2 = (if err = OK \<and> clear_pending
                then upd_sigstate ss (\<lambda>x. x\<lparr>hss_pending := 0\<rparr>) s1 else s1)
      in (Inr (err, old), pthread_spin_unlock (Sigstate_lock ss) s2))"

definition pthread_sigstate ::
    "thr \<Rightarrow> int \<Rightarrow> 32 word option \<Rightarrow> bool \<Rightarrow> (rc \<times> 32 word) pt" where
  "pthread_sigstate t how nset clear_pending =
     andthen (gets (\<lambda>s. p_kernel_thread (pthreads s t))) (\<lambda>kt.
     andthen (syscall (Extern ''_hurd_thread_sigstate'' [kt])) (\<lambda>(_, ss, _).
     andthen (assert_p (ss \<noteq> 0)) (\<lambda>_.
       spin_section (Sigstate_lock (nat ss)) (sigstate_section (nat ss) how nset clear_pending))))"

definition pthread_sigmask :: "thr \<Rightarrow> int \<Rightarrow> 32 word option \<Rightarrow> (rc \<times> 32 word) pt" where
  "pthread_sigmask self how nset = pthread_sigstate self how nset False"

definition pthread_kill :: "nat \<Rightarrow> thr \<Rightarrow> int \<Rightarrow> int \<Rightarrow> rc pt" where
  "pthread_kill n self thread sig =
     andthen (pthread_getid n self thread) (\<lambda>p.
       case p of
         None \<Rightarrow> Return ESRCH
       | Some t \<Rightarrow>
           andthen (gets (\<lambda>s. p_kernel_thread (pthreads s t))) (\<lambda>kt.
           andthen (syscall (Extern ''_hurd_thread_sigstate'' [kt])) (\<lambda>(_, ss, _).
           andthen (assert_p (ss \<noteq> 0)) (\<lambda>_.
             if sig = 0 then Return OK
             else andthen (syscall (Extern ''_hurd_raise_signal'' [ss, sig, 0, sig, 0]))
                    (\<lambda>_. Return OK)))))"

end
