(* ===== verification/Create.thy ===== *)
theory Create
  imports Thread
begin

text \<open>
  The life of a thread: creation with all its error paths (\<^verbatim>\<open>pthread/pt-create.c\<close>,
  \<^verbatim>\<open>sysdeps/mach/hurd/pt-sysdep.c\<close>), the cancellation state (\<^verbatim>\<open>pt-setcancelstate.c\<close>,
  \<^verbatim>\<open>pt-setcanceltype.c\<close>), exit (\<^verbatim>\<open>pt-exit.c\<close>), detaching (\<^verbatim>\<open>pt-detach.c\<close>), and the small functions that
  build on them.
\<close>

section \<open>Platform constants\<close>

text \<open>
  Constants of the headers outside the library, and the bounds of the loops: \<open>cf_tries\<close> for growing
  the table, \<open>cf_queue\<close> for wait queues and the free list, \<open>cf_pages\<close> for the search for a stack,
  \<open>cf_rounds\<close> and \<open>cf_keys\<close> for the destructors, \<open>cf_handlers\<close> for the cleanup handlers.
\<close>

record pt_config =
  cf_threads_max :: "int option"      \<comment> \<open>\<^verbatim>\<open>PTHREAD_THREADS_MAX\<close>\<close>
  cf_vm_min :: "32 word"              \<comment> \<open>\<^verbatim>\<open>VM_MIN_ADDRESS\<close>\<close>
  cf_vm_max :: "32 word"              \<comment> \<open>\<^verbatim>\<open>VM_MAX_ADDRESS\<close>\<close>
  cf_threadvar_max :: "32 word"       \<comment> \<open>\<^verbatim>\<open>__hurd_threadvar_max\<close>\<close>
  cf_entry_point :: "32 word"         \<comment> \<open>the address of \<^verbatim>\<open>entry_point\<close>\<close>
  cf_call_exit :: "32 word"           \<comment> \<open>the address of \<^verbatim>\<open>call_exit\<close>\<close>
  cf_stack_default_size :: "32 word option"  \<comment> \<open>the weak \<^verbatim>\<open>__pthread_stack_default_size\<close>\<close>
  cf_init_hooks :: "ptr list"         \<comment> \<open>the functions on the hook \<^verbatim>\<open>__pthread_init\<close>\<close>
  cf_tries :: nat
  cf_queue :: nat
  cf_pages :: nat
  cf_rounds :: nat
  cf_keys :: nat
  cf_handlers :: nat

section \<open>Atomic counters\<close>

text \<open>\<^verbatim>\<open>__pthread_total\<close> is an \<^verbatim>\<open>int\<close> that only these operations change.\<close>

definition atomic_inc :: "unit pt" where
  "atomic_inc = modify (\<lambda>s. s\<lparr>total_threads := total_threads s + 1\<rparr>)"

definition atomic_dec :: "unit pt" where
  "atomic_dec = modify (\<lambda>s. s\<lparr>total_threads := total_threads s - 1\<rparr>)"

definition atomic_dec_and_test :: "bool pt" where
  "atomic_dec_and_test =
     section_of (\<lambda>_. True) (\<lambda>s.
       (Inr (total_threads s - 1 = 0), s\<lparr>total_threads := total_threads s - 1\<rparr>))"

section \<open>Creation\<close>

definition create_attr :: "thr \<Rightarrow> pthread_attr \<Rightarrow> pt_state \<Rightarrow> pt_state" where
  "create_attr t setup s =
     upd_pthread t (\<lambda>x. x\<lparr>
       p_state := (if at_detachstate setup = PTHREAD_CREATE_DETACHED
                   then PTHREAD_DETACHED else PTHREAD_JOINABLE),
       p_guardsize := (if at_stackaddr setup \<noteq> 0 then 0
                       else if at_guardsize setup \<le> at_stacksize setup then at_guardsize setup
                       else at_stacksize setup)\<rparr>) s"

definition create_stack :: "pt_config \<Rightarrow> thr \<Rightarrow> pthread_attr \<Rightarrow> rc pt" where
  "create_stack cf t setup =
     andthen (gets (\<lambda>s. (pthreads s t, default_attr s))) (\<lambda>(x, dflt).
       if p_stack x \<noteq> 0 then
         (if at_stackaddr setup \<noteq> at_stackaddr dflt then
            andthen (pthread_stack_dealloc (p_stackaddr x) (p_stacksize x)) (\<lambda>_.
            andthen (modify (upd_pthread t (\<lambda>x. x\<lparr>p_stackaddr := at_stackaddr setup,
                       p_stacksize := at_stacksize setup\<rparr>))) (\<lambda>_. Return OK))
          else Return OK)
       else
         andthen (pthread_stack_alloc (cf_pages cf) (cf_vm_min cf) (cf_vm_max cf)
                    (at_stacksize setup)) (\<lambda>(err, base).
           if err \<noteq> OK then Return err
           else
             andthen (modify (upd_pthread t (\<lambda>x. x\<lparr>p_stackaddr := base,
                        p_stacksize := at_stacksize setup, p_stack := 1\<rparr>))) (\<lambda>_. Return OK)))"

text \<open>The error paths, from the last label to the first.\<close>

definition failed_stack_alloc :: "pt_config \<Rightarrow> thr \<Rightarrow> thr \<Rightarrow> rc \<Rightarrow> rc pt" where
  "failed_stack_alloc cf self t err =
     andthen (pthread_dealloc (cf_queue cf) self t) (\<lambda>_. Return err)"

definition failed_thread_alloc :: "pt_config \<Rightarrow> thr \<Rightarrow> thr \<Rightarrow> rc \<Rightarrow> rc pt" where
  "failed_thread_alloc cf self t err =
     andthen (gets (\<lambda>s. pthreads s t)) (\<lambda>x.
     andthen (pthread_stack_dealloc (p_stackaddr x) (p_stacksize x)) (\<lambda>_.
     andthen (modify (upd_pthread t (\<lambda>x. x\<lparr>p_stack := 0\<rparr>))) (\<lambda>_.
       failed_stack_alloc cf self t err)))"

definition failed_thread_tls_alloc :: "pt_config \<Rightarrow> thr \<Rightarrow> thr \<Rightarrow> rc \<Rightarrow> rc pt" where
  "failed_thread_tls_alloc cf self t err =
     andthen (pthread_thread_dealloc t) (\<lambda>_.
     andthen (pthread_thread_halt t) (\<lambda>_. failed_thread_alloc cf self t err))"

definition failed_setup :: "pt_config \<Rightarrow> thr \<Rightarrow> thr \<Rightarrow> rc \<Rightarrow> rc pt" where
  "failed_setup cf self t err =
     andthen (gets (\<lambda>s. p_tcb (pthreads s t))) (\<lambda>tcb.
     andthen (syscall (Dl_deallocate_tls tcb)) (\<lambda>_.
     andthen (modify (upd_pthread t (\<lambda>x. x\<lparr>p_tcb := 0\<rparr>))) (\<lambda>_.
       failed_thread_tls_alloc cf self t err)))"

definition failed_sigstate :: "pt_config \<Rightarrow> thr \<Rightarrow> thr \<Rightarrow> rc \<Rightarrow> rc pt" where
  "failed_sigstate cf self t err =
     andthen (pthread_sigstate_destroy t) (\<lambda>_. failed_setup cf self t err)"

definition failed_starting :: "pt_config \<Rightarrow> thr \<Rightarrow> thr \<Rightarrow> rc \<Rightarrow> rc pt" where
  "failed_starting cf self t err =
     andthen (gets (\<lambda>s. p_thread (pthreads s t))) (\<lambda>tid.
     andthen (pthread_setid (cf_queue cf) self tid None) (\<lambda>_.
     andthen atomic_dec (\<lambda>_. failed_sigstate cf self t err)))"

text \<open>Inheriting the signal mask; the creator asks the process if it is not a thread yet.\<close>

definition create_sigmask :: "thr \<Rightarrow> thr \<Rightarrow> unit pt" where
  "create_sigmask self t =
     andthen (gets num_threads) (\<lambda>num.
     andthen (if num = 1 then
                andthen (syscall Sigprocmask) (\<lambda>(err, m, _). Return (err, word_of_int m))
              else pthread_sigstate self 0 None False) (\<lambda>(err, sigset).
     andthen (assert_p (err = OK)) (\<lambda>_.
     andthen (pthread_sigstate t SIG_SETMASK (Some sigset) True) (\<lambda>(err, _).
       assert_p (err = OK)))))"

text \<open>Publishing the thread in the table, which is only locked for reading.\<close>

definition create_publish :: "pt_config \<Rightarrow> thr \<Rightarrow> thr \<Rightarrow> unit pt" where
  "create_publish cf self t =
     bracket (pthread_rwlock_rdlock Threads_lock self) (pthread_rwlock_unlock (cf_queue cf) Threads_lock)
       (section_of (\<lambda>_. True) (\<lambda>s. store_id (p_thread (pthreads s t)) (Some t) s))"

text \<open>
  The result is the function's return value and what has been written to \<^verbatim>\<open>*thread\<close>: \<open>None\<close> if nothing has,
  as on all error paths but the last.
\<close>

definition unwritten :: "rc pt \<Rightarrow> (rc \<times> thr option) pt" where
  "unwritten p = andthen p (\<lambda>err. Return (err, None))"

definition create_running ::
    "pt_config \<Rightarrow> thr \<Rightarrow> thr \<Rightarrow> 32 word \<Rightarrow> 32 word \<Rightarrow> (rc \<times> thr option) pt" where
  "create_running cf self t start_routine arg =
     andthen (pthread_setup (cf_threadvar_max cf) t (cf_entry_point cf) start_routine arg) (\<lambda>err.
       if err \<noteq> OK then unwritten (failed_setup cf self t err)
       else
         andthen (pthread_sigstate_init t) (\<lambda>err.
           if err \<noteq> OK then unwritten (failed_sigstate cf self t err)
           else
             andthen (create_sigmask self t) (\<lambda>_.
             andthen atomic_inc (\<lambda>_.
             andthen (create_publish cf self t) (\<lambda>_.
             andthen (pthread_thread_start t) (\<lambda>err.
               if err \<noteq> OK then andthen (failed_starting cf self t err) (\<lambda>err. Return (err, Some t))
               else Return (OK, Some t)))))))"

text \<open>
  A failure of the TLS allocation jumps to its label with the \<^verbatim>\<open>err\<close> of the call before, which
  is 0; the result then is success, with nothing written to \<^verbatim>\<open>*thread\<close>.
\<close>

definition pthread_create_internal ::
    "pt_config \<Rightarrow> thr \<Rightarrow> pthread_attr option \<Rightarrow> 32 word \<Rightarrow> 32 word \<Rightarrow> (rc \<times> thr option) pt" where
  "pthread_create_internal cf self attr start_routine arg =
     andthen (pthread_alloc (cf_tries cf) (cf_queue cf) (cf_threads_max cf) self) (\<lambda>(err, t).
       if err \<noteq> OK then Return (err, None)
       else
         andthen (gets (\<lambda>s. case attr of Some a \<Rightarrow> a | None \<Rightarrow> default_attr s)) (\<lambda>setup.
         andthen (modify (create_attr t setup)) (\<lambda>_.
         andthen (create_stack cf t setup) (\<lambda>err.
           if err \<noteq> OK then unwritten (failed_stack_alloc cf self t err)
           else
             andthen (pthread_thread_alloc t) (\<lambda>err.
               if err \<noteq> OK then unwritten (failed_thread_alloc cf self t err)
               else
                 andthen (syscall Dl_allocate_tls) (\<lambda>(_, tcb, _).
                 andthen (modify (upd_pthread t (\<lambda>x. x\<lparr>p_tcb := tcb\<rparr>))) (\<lambda>_.
                   if tcb = 0 then unwritten (failed_thread_tls_alloc cf self t OK)
                   else
                     andthen (modify (\<lambda>s. s\<lparr>tcb_tcb := (tcb_tcb s)(tcb := tcb)\<rparr>)) (\<lambda>_.
                       create_running cf self t start_routine arg))))))))"

text \<open>
  \<open>None\<close>: the identifier is not written.  On success it is read from the new structure, by way of the local
  variable \<^verbatim>\<open>pthread\<close>, which is not initialised.
\<close>

definition pthread_create ::
    "pt_config \<Rightarrow> thr \<Rightarrow> pthread_attr option \<Rightarrow> 32 word \<Rightarrow> 32 word \<Rightarrow> (rc \<times> int option) pt" where
  "pthread_create cf self attr start_routine arg =
     andthen (pthread_create_internal cf self attr start_routine arg) (\<lambda>(err, pthread).
       if err = OK then
         (case pthread of
            None \<Rightarrow> Crash Uninitialised
          | Some t \<Rightarrow> andthen (gets (\<lambda>s. p_thread (pthreads s t))) (\<lambda>tid. Return (OK, Some tid)))
       else if err = ENOMEM then Return (EAGAIN, None)
       else Return (err, None))"

section \<open>Cancellation state and type\<close>

definition cancel_locked :: "thr \<Rightarrow> 'a pt \<Rightarrow> 'a pt" where
  "cancel_locked self body =
     bracket (pthread_mutex_lock (Cancel_lock self) self) (pthread_mutex_unlock (Cancel_lock self) self) body"

text \<open>The second component is the old value, if it has been stored.\<close>

definition pthread_setcancelstate :: "thr \<Rightarrow> int \<Rightarrow> (rc \<times> int option) pt" where
  "pthread_setcancelstate self state =
     (if state \<noteq> PTHREAD_CANCEL_ENABLE \<and> state \<noteq> PTHREAD_CANCEL_DISABLE then Return (EINVAL, None)
      else
        cancel_locked self (section_of (\<lambda>_. True) (\<lambda>s.
          (Inr (OK, Some (p_cancel_state (pthreads s self))),
           upd_pthread self (\<lambda>x. x\<lparr>p_cancel_state := state\<rparr>) s))))"

definition pthread_setcanceltype :: "thr \<Rightarrow> int \<Rightarrow> (rc \<times> int option) pt" where
  "pthread_setcanceltype self type =
     (if type \<noteq> PTHREAD_CANCEL_DEFERRED \<and> type \<noteq> PTHREAD_CANCEL_ASYNCHRONOUS then Return (EINVAL, None)
      else
        cancel_locked self (section_of (\<lambda>_. True) (\<lambda>s.
          (Inr (OK, Some (p_cancel_type (pthreads s self))),
           upd_pthread self (\<lambda>x. x\<lparr>p_cancel_type := type\<rparr>) s))))"

section \<open>Exit\<close>

definition PTHREAD_CANCELED :: int where
  "PTHREAD_CANCELED = -1"

definition pthread_get_cleanup_stack :: "thr \<Rightarrow> pt_state \<Rightarrow> cleanup list" where
  "pthread_get_cleanup_stack self s = p_cancelation_handlers (pthreads s self)"

definition call_handler :: "thr \<Rightarrow> cleanup \<Rightarrow> unit pt" where
  "call_handler self c =
     (case c of
        Cleanup_call f arg \<Rightarrow> andthen (syscall (Callback f arg)) (\<lambda>_. Return ())
      | Cleanup_unlock m \<Rightarrow> andthen (pthread_mutex_unlock m self) (\<lambda>_. Return ()))"

text \<open>The loop over the cleanup handlers, each being removed after its call.\<close>

primrec run_handlers :: "nat \<Rightarrow> thr \<Rightarrow> unit pt" where
  "run_handlers 0 self = stuck"
| "run_handlers (Suc m) self =
     andthen (gets (pthread_get_cleanup_stack self)) (\<lambda>hs.
       case hs of
         [] \<Rightarrow> Return ()
       | c # _ \<Rightarrow>
           andthen (call_handler self c) (\<lambda>_.
           andthen (modify (upd_pthread self (\<lambda>x. x\<lparr>p_cancelation_handlers :=
                      tl (p_cancelation_handlers x)\<rparr>))) (\<lambda>_. run_handlers m self)))"

definition exit_status :: "thr \<Rightarrow> int \<Rightarrow> pt_state \<Rightarrow> int" where
  "exit_status self status s =
     (if p_cancel_state (pthreads s self) = PTHREAD_CANCEL_ENABLE \<and> p_cancel_pending (pthreads s self) \<noteq> 0
      then PTHREAD_CANCELED else status)"

text \<open>The part of the exit that depends on the thread's state, from taking the state lock on.\<close>

definition exit_state :: "pt_config \<Rightarrow> thr \<Rightarrow> int \<Rightarrow> unit pt" where
  "exit_state cf self status =
     andthen (pthread_mutex_lock (State_lock self) self) (\<lambda>_.
     andthen (gets (\<lambda>s. (exit_status self status s, p_state (pthreads s self)))) (\<lambda>(status, st).
       case st of
         PTHREAD_DETACHED \<Rightarrow>
           andthen (pthread_mutex_unlock (State_lock self) self) (\<lambda>_.
             pthread_dealloc (cf_queue cf) self self)
       | PTHREAD_JOINABLE \<Rightarrow>
           andthen (modify (upd_pthread self (\<lambda>x. x\<lparr>p_state := PTHREAD_EXITED, p_status := status\<rparr>))) (\<lambda>_.
           andthen (pthread_cond_broadcast (cf_queue cf) (State_cond self)) (\<lambda>_.
           andthen (pthread_mutex_unlock (State_lock self) self) (\<lambda>_. Return ())))
       | _ \<Rightarrow> Crash Assert_failed))"

text \<open>The function never returns: the result type is that of its caller.\<close>

definition pthread_exit :: "pt_config \<Rightarrow> thr \<Rightarrow> int \<Rightarrow> 'a pt" where
  "pthread_exit cf self status =
     andthen (pthread_setcancelstate self PTHREAD_CANCEL_DISABLE) (\<lambda>(_, oldstate).
     andthen (run_handlers (cf_handlers cf) self) (\<lambda>_.
     andthen (pthread_setcancelstate self (case oldstate of Some v \<Rightarrow> v | None \<Rightarrow> 0)) (\<lambda>_.
     andthen (pthread_destroy_specific (cf_rounds cf) (cf_keys cf) self) (\<lambda>_.
     andthen (pthread_sigstate_destroy self) (\<lambda>_.
     andthen atomic_dec_and_test (\<lambda>last.
       if last then Crash (Process_exit 0)
       else
         andthen (exit_state cf self status) (\<lambda>_.
         andthen (pthread_thread_halt self) (\<lambda>_. Crash Assert_failed))))))))"

definition pthread_startup :: "unit pt" where
  "pthread_startup = Return ()"

text \<open>
  The thread-local variable \<^verbatim>\<open>___pthread_self\<close>, which the thread itself sets, and the macro
  \<^verbatim>\<open>_pthread_self\<close> as it is executed on the kernel thread \<open>k\<close>.
\<close>

definition set_self :: "thr \<Rightarrow> unit pt" where
  "set_self t = modify (\<lambda>s. s\<lparr>tls_self := (tls_self s)(p_kernel_thread (pthreads s t) := Some t)\<rparr>)"

definition current_pthread :: "int \<Rightarrow> thr pt" where
  "current_pthread k =
     andthen (gets (\<lambda>s. (threads_ptr s, tls_self s k))) (\<lambda>(ptr, thread).
     andthen (assert_p (ptr \<noteq> 0)) (\<lambda>_.
       case thread of
         None \<Rightarrow> Crash Assert_failed
       | Some t \<Rightarrow>
           andthen (syscall Mach_thread_self) (\<lambda>(_, ktid, _).
           andthen (gets (\<lambda>s. p_kernel_thread (pthreads s t) = ktid)) (\<lambda>ok.
           andthen (syscall (Mach_port_deallocate ktid)) (\<lambda>_.
           andthen (assert_p ok) (\<lambda>_. Return t))))))"

text \<open>The first function of a new thread, in the build outside the C library.\<close>

definition entry_point :: "pt_config \<Rightarrow> thr \<Rightarrow> ptr \<Rightarrow> ptr \<Rightarrow> unit pt" where
  "entry_point cf self start_routine arg =
     andthen (set_self self) (\<lambda>_.
     andthen pthread_startup (\<lambda>_.
     andthen (syscall (Callback start_routine arg)) (\<lambda>(_, status, _). pthread_exit cf self status)))"

section \<open>Startup of the library\<close>

text \<open>In the build outside the C library only the hooks run.\<close>

primrec run_hook :: "ptr list \<Rightarrow> unit pt" where
  "run_hook [] = Return ()"
| "run_hook (f # fs) = andthen (syscall (Callback f 0)) (\<lambda>_. run_hook fs)"

definition pthread_init :: "pt_config \<Rightarrow> unit pt" where
  "pthread_init cf = run_hook (cf_init_hooks cf)"

text \<open>
  Called once by the startup code of the Hurd, on the main thread: \<open>self\<close> is not used before the
  main thread's structure exists, since the locks are free.  The result is the new stack pointer.
\<close>

definition init_routine :: "pt_config \<Rightarrow> thr \<Rightarrow> 32 word pt" where
  "init_routine cf self =
     andthen (case cf_stack_default_size cf of
                Some sz \<Rightarrow> modify (\<lambda>s. s\<lparr>default_attr := (default_attr s)\<lparr>at_stacksize := sz\<rparr>\<rparr>)
              | None \<Rightarrow> Return ()) (\<lambda>_.
     andthen (pthread_init cf) (\<lambda>_.
     andthen (pthread_create_internal cf self None 0 0) (\<lambda>(err, thread).
     andthen (assert_p (err = OK)) (\<lambda>_.
     andthen (case thread of None \<Rightarrow> Crash Uninitialised | Some t \<Rightarrow> Return t) (\<lambda>t.
     andthen (set_self t) (\<lambda>_.
     andthen atomic_dec (\<lambda>_.
     andthen (gets (\<lambda>s. p_stackaddr (pthreads s t))) (\<lambda>a.
     andthen (syscall (Extern ''__mig_init'' [uint a])) (\<lambda>_.
     andthen (modify (\<lambda>s. s\<lparr>
         threadvar_stack_mask := NOT (at_stacksize (default_attr s) - 1),
         threadvar_stack_offset := at_stacksize (default_attr s) - cf_threadvar_max cf * 4\<rparr>)) (\<lambda>_.
       gets (\<lambda>s. p_sp (pthreads s t))))))))))))"

section \<open>Detaching\<close>

text \<open>What joining and detaching do with a thread that has exited.\<close>

definition reap :: "pt_config \<Rightarrow> thr \<Rightarrow> thr \<Rightarrow> unit pt" where
  "reap cf self t =
     andthen (pthread_thread_halt t) (\<lambda>_.
     andthen (gets (\<lambda>s. pthreads s t)) (\<lambda>x.
     andthen (assert_p (p_stack x \<noteq> 0)) (\<lambda>_.
     andthen (pthread_stack_dealloc (p_stackaddr x) (p_stacksize x)) (\<lambda>_.
     andthen (modify (upd_pthread t (\<lambda>x. x\<lparr>p_stack := 0\<rparr>))) (\<lambda>_.
     andthen (pthread_thread_dealloc t) (\<lambda>_.
       pthread_dealloc (cf_queue cf) self t))))))"

definition pthread_detach :: "pt_config \<Rightarrow> thr \<Rightarrow> int \<Rightarrow> rc pt" where
  "pthread_detach cf self thread =
     andthen (pthread_getid (cf_queue cf) self thread) (\<lambda>p.
       case p of
         None \<Rightarrow> Return ESRCH
       | Some t \<Rightarrow>
           andthen (pthread_mutex_lock (State_lock t) self) (\<lambda>_.
           andthen (gets (\<lambda>s. p_state (pthreads s t))) (\<lambda>st.
             case st of
               PTHREAD_JOINABLE \<Rightarrow>
                 andthen (modify (upd_pthread t (\<lambda>x. x\<lparr>p_state := PTHREAD_DETACHED\<rparr>))) (\<lambda>_.
                 andthen (pthread_cond_broadcast (cf_queue cf) (State_cond t)) (\<lambda>_.
                 andthen (pthread_mutex_unlock (State_lock t) self) (\<lambda>_. Return OK)))
             | PTHREAD_EXITED \<Rightarrow>
                 andthen (pthread_mutex_unlock (State_lock t) self) (\<lambda>_.
                 andthen (reap cf self t) (\<lambda>_. Return OK))
             | PTHREAD_TERMINATED \<Rightarrow>
                 andthen (pthread_mutex_unlock (State_lock t) self) (\<lambda>_. Return ESRCH)
             | PTHREAD_DETACHED \<Rightarrow>
                 andthen (pthread_mutex_unlock (State_lock t) self) (\<lambda>_. Return EINVAL))))"

section \<open>Small functions\<close>

definition pthread_self :: "thr \<Rightarrow> int pt" where
  "pthread_self self = gets (\<lambda>s. p_thread (pthreads s self))"

definition pthread_getattr_np :: "pt_config \<Rightarrow> thr \<Rightarrow> int \<Rightarrow> (rc \<times> pthread_attr option) pt" where
  "pthread_getattr_np cf self thread =
     andthen (pthread_getid (cf_queue cf) self thread) (\<lambda>p.
       case p of
         None \<Rightarrow> Return (ESRCH, None)
       | Some t \<Rightarrow>
           gets (\<lambda>s. (OK, Some ((default_attr s)\<lparr>
             at_stackaddr := p_stackaddr (pthreads s t),
             at_stacksize := p_stacksize (pthreads s t),
             at_guardsize := p_guardsize (pthreads s t),
             at_detachstate := (if p_state (pthreads s t) = PTHREAD_DETACHED
                                then PTHREAD_CREATE_DETACHED else PTHREAD_CREATE_JOINABLE)\<rparr>))))"

definition pthread_yield :: "int pt" where
  "pthread_yield = andthen (syscall Sched_yield) (\<lambda>(_, r, _). Return r)"

definition pthread_mutex_transfer_np :: "pt_config \<Rightarrow> thr \<Rightarrow> maddr \<Rightarrow> int \<Rightarrow> rc pt" where
  "pthread_mutex_transfer_np cf self m tid =
     andthen (gets (\<lambda>s. m_owner (mutexes s m))) (\<lambda>owner.
     andthen (assert_p (owner = Some self)) (\<lambda>_.
     andthen (pthread_getid (cf_queue cf) self tid) (\<lambda>p.
       case p of
         None \<Rightarrow> Return ESRCH
       | Some t \<Rightarrow>
           if t = self then Return OK
           else
             andthen (gets (\<lambda>s. (resolve_attr (m_attr (mutexes s m)), m_owner (mutexes s m))))
               (\<lambda>(attr, owner).
               case attr of
                 None \<Rightarrow> Return OK
               | Some a \<Rightarrow>
                   if ma_mutex_type a = PTHREAD_MUTEX_ERRORCHECK \<and> owner \<noteq> Some self then Return EPERM
                   else if ma_mutex_type a \<noteq> PTHREAD_MUTEX_NORMAL then
                     andthen (modify (upd_mutex m (\<lambda>x. x\<lparr>m_owner := Some t\<rparr>))) (\<lambda>_. Return OK)
                   else Return OK))))"

section \<open>The functions of cthreads\<close>

definition CTHREAD_KEY_INVALID :: int where
  "CTHREAD_KEY_INVALID = -1"

definition cthread_detach :: "pt_config \<Rightarrow> thr \<Rightarrow> int \<Rightarrow> unit pt" where
  "cthread_detach cf self thread =
     andthen (pthread_detach cf self thread) (\<lambda>err. assert_p (err = OK))"

definition cthread_fork :: "pt_config \<Rightarrow> thr \<Rightarrow> 32 word \<Rightarrow> 32 word \<Rightarrow> int option pt" where
  "cthread_fork cf self func arg =
     andthen (pthread_create cf self None func arg) (\<lambda>(err, tid).
     andthen (assert_p (err = OK)) (\<lambda>_. Return tid))"

definition set_errno_of :: "thr \<Rightarrow> rc \<Rightarrow> unit pt" where
  "set_errno_of self e = modify (\<lambda>s. s\<lparr>errno := (errno s)(self := e)\<rparr>)"

definition cthread_keycreate :: "thr \<Rightarrow> (int \<times> int) pt" where
  "cthread_keycreate self =
     andthen (pthread_key_create self Dtor_null) (\<lambda>(err, key).
       if err \<noteq> OK then andthen (set_errno_of self err) (\<lambda>_. Return (-1, CTHREAD_KEY_INVALID))
       else Return (0, key))"

definition cthread_getspecific :: "thr \<Rightarrow> int \<Rightarrow> (int \<times> int) pt" where
  "cthread_getspecific self key = andthen (pthread_getspecific self key) (\<lambda>v. Return (0, v))"

definition libc_getspecific :: "thr \<Rightarrow> int \<Rightarrow> int pt" where
  "libc_getspecific self key = pthread_getspecific self key"

definition cthread_setspecific :: "thr \<Rightarrow> int \<Rightarrow> int \<Rightarrow> int pt" where
  "cthread_setspecific self key v =
     andthen (pthread_setspecific self key v) (\<lambda>err.
       if err \<noteq> OK then andthen (set_errno_of self err) (\<lambda>_. Return (-1)) else Return 0)"

definition mutex_lock_solid :: "maddr \<Rightarrow> thr \<Rightarrow> unit pt" where
  "mutex_lock_solid m self = andthen (pthread_mutex_lock m self) (\<lambda>_. Return ())"

text \<open>The pointer is taken for the address of the first member, \<^verbatim>\<open>__held\<close>.\<close>

definition mutex_unlock_solid :: "maddr \<Rightarrow> thr \<Rightarrow> unit pt" where
  "mutex_unlock_solid m self =
     andthen (section_of (\<lambda>_. True) (\<lambda>s.
                case pthread_spin_trylock (M_held m) s of (e, s1) \<Rightarrow> (Inr e, s1))) (\<lambda>e.
       if e \<noteq> OK then Return () else andthen (pthread_mutex_unlock m self) (\<lambda>_. Return ()))"

end
