(* ===== verification/Cancel.thy ===== *)
theory Cancel
  imports Create
begin

text \<open>
  Cancellation points and cancellation requests: \<^verbatim>\<open>pthread/pt-testcancel.c\<close>, \<^verbatim>\<open>pt-cancel.c\<close>,
  \<^verbatim>\<open>sysdeps/mach/hurd/pt-docancel.c\<close>, the waiting side of condition variables
  (\<^verbatim>\<open>sysdeps/generic/pt-cond-timedwait.c\<close>, \<^verbatim>\<open>pt-cond-wait.c\<close>, \<^verbatim>\<open>sysdeps/mach/hurd/pt-hurd-cond-*.c\<close>) and
  \<^verbatim>\<open>pthread/pt-join.c\<close>.
\<close>

section \<open>Testing for and requesting cancellation\<close>

definition is_cancelled :: "thr \<Rightarrow> pt_state \<Rightarrow> bool" where
  "is_cancelled p s \<longleftrightarrow>
     p_cancel_state (pthreads s p) = PTHREAD_CANCEL_ENABLE \<and> p_cancel_pending (pthreads s p) \<noteq> 0"

definition pthread_testcancel :: "pt_config \<Rightarrow> thr \<Rightarrow> unit pt" where
  "pthread_testcancel cf self =
     andthen (cancel_locked self (gets (is_cancelled self))) (\<lambda>cancelled.
       if cancelled then pthread_exit cf self PTHREAD_CANCELED else Return ())"

definition call_exit :: "pt_config \<Rightarrow> thr \<Rightarrow> 'a pt" where
  "call_exit cf self = pthread_exit cf self 0"

text \<open>
  The last steps of an asynchronous cancellation; the cancel lock of \<open>p\<close> is held on entry.  A cancelled
  thread other than the caller is made to continue in \<^verbatim>\<open>call_exit\<close>.
\<close>

definition pthread_do_cancel :: "pt_config \<Rightarrow> thr \<Rightarrow> thr \<Rightarrow> rc pt" where
  "pthread_do_cancel cf self p =
     andthen (gets (\<lambda>s. pthreads s p)) (\<lambda>x.
     andthen (assert_p (p_cancel_pending x = 1)) (\<lambda>_.
     andthen (assert_p (p_cancel_state x = PTHREAD_CANCEL_ENABLE)) (\<lambda>_.
     andthen (pthread_mutex_unlock (Cancel_lock p) self) (\<lambda>_.
     andthen (syscall Mach_thread_self) (\<lambda>(_, ktid, _).
     andthen (gets (\<lambda>s. p_kernel_thread (pthreads s p))) (\<lambda>kt.
     andthen (syscall (Mach_port_deallocate ktid)) (\<lambda>_.
       if kt = ktid then call_exit cf self
       else
         andthen (syscall (Thread_suspend kt)) (\<lambda>(err, _, _).
         andthen (assert_p (err = OK)) (\<lambda>_.
         andthen (syscall (Thread_abort kt)) (\<lambda>(err, _, _).
         andthen (assert_p (err = OK)) (\<lambda>_.
         andthen (thread_set_pcsptp kt (Some (uint (cf_call_exit cf))) None None) (\<lambda>err.
         andthen (assert_p (err = OK)) (\<lambda>_.
         andthen (syscall (Thread_resume kt)) (\<lambda>(err, _, _).
         andthen (assert_p (err = OK)) (\<lambda>_. Return OK)))))))))))))))"

text \<open>The section up to the choice of how to cancel, with the cancel lock held.\<close>

datatype cancel_kind = Cancel_none | Cancel_async | Cancel_hook "(thr \<times> caddr) option"

definition cancel_section :: "thr \<Rightarrow> pt_state \<Rightarrow> (fault + cancel_kind) \<times> pt_state" where
  "cancel_section p s =
     (if p_cancel_pending (pthreads s p) \<noteq> 0 then (Inr Cancel_none, s)
      else
        (let s1 = upd_pthread p (\<lambda>x. x\<lparr>p_cancel_pending := 1\<rparr>) s;
             x = pthreads s1 p
         in if p_cancel_state x \<noteq> PTHREAD_CANCEL_ENABLE then (Inr Cancel_none, s1)
            else if p_cancel_type x = PTHREAD_CANCEL_ASYNCHRONOUS then (Inr Cancel_async, s1)
            else (Inr (Cancel_hook (p_cancel_hook x)), s1)))"

definition pthread_cancel :: "pt_config \<Rightarrow> thr \<Rightarrow> int \<Rightarrow> rc pt" where
  "pthread_cancel cf self thread =
     andthen (pthread_getid (cf_queue cf) self thread) (\<lambda>q.
       case q of
         None \<Rightarrow> Return ESRCH
       | Some p \<Rightarrow>
           andthen (pthread_mutex_lock (Cancel_lock p) self) (\<lambda>_.
           andthen (section_of (\<lambda>_. True) (cancel_section p)) (\<lambda>r.
             case r of
               Cancel_none \<Rightarrow> andthen (pthread_mutex_unlock (Cancel_lock p) self) (\<lambda>_. Return OK)
             | Cancel_async \<Rightarrow> pthread_do_cancel cf self p
             | Cancel_hook hook \<Rightarrow>
                 andthen (case hook of Some arg \<Rightarrow> cancel_hook arg | None \<Rightarrow> Return ()) (\<lambda>_.
                 andthen (pthread_mutex_unlock (Cancel_lock p) self) (\<lambda>_. Return OK)))))"

section \<open>Waiting on a condition\<close>

text \<open>
  The first part with the cancel lock held: either the thread has been cancelled, or it sets the
  hook, remembers its cancellation type and queues itself.  The result is the old type and the clock.
\<close>

definition wait_clock :: "caddr \<Rightarrow> pt_state \<Rightarrow> int" where
  "wait_clock c s =
     (case c_attr (conds s c) of
        Some a \<Rightarrow> ca_clock a | None \<Rightarrow> ca_clock pthread_default_condattr)"

definition cond_enqueue_section ::
    "caddr \<Rightarrow> thr \<Rightarrow> pt_state \<Rightarrow> (fault + int) \<times> pt_state" where
  "cond_enqueue_section c self s =
     (case pthread_enqueue (Cond_queue c) self s of
        None \<Rightarrow> (Inl Assert_failed, s)
      | Some s1 \<Rightarrow> (Inr (wait_clock c s1), pthread_spin_unlock (C_lock c) s1))"

definition set_hook :: "caddr \<Rightarrow> thr \<Rightarrow> pt_state \<Rightarrow> (fault + int) \<times> pt_state" where
  "set_hook c self s =
     (Inr (p_cancel_type (pthreads s self)),
      upd_pthread self (\<lambda>x. x\<lparr>p_cancel_hook := Some (self, c), p_cancel_type := PTHREAD_CANCEL_DEFERRED\<rparr>) s)"

definition wait_prepare :: "caddr \<Rightarrow> thr \<Rightarrow> (int \<times> int) option pt" where
  "wait_prepare c self =
     cancel_locked self
       (andthen (gets (is_cancelled self)) (\<lambda>cancelled.
          if cancelled then Return None
          else
            andthen (section_of (\<lambda>_. True) (set_hook c self)) (\<lambda>oldtype.
            andthen (spin_section (C_lock c) (cond_enqueue_section c self)) (\<lambda>clock_id.
              Return (Some (oldtype, clock_id))))))"

text \<open>The section after the wakeup; the result tells whether a message has to be drained.\<close>

definition wait_leave_section ::
    "caddr \<Rightarrow> thr \<Rightarrow> rc \<Rightarrow> pt_state \<Rightarrow> (fault + bool) \<times> pt_state" where
  "wait_leave_section c self err s =
     (if prevp s self = None then
        (if err = OK then (Inr False, pthread_spin_unlock (C_lock c) s)
         else if err \<noteq> ETIMEDOUT then (Inl Assert_failed, s)
         else (Inr True, pthread_spin_unlock (C_lock c) s))
      else if err \<noteq> ETIMEDOUT then (Inl Assert_failed, s)
      else
        (case pthread_dequeue self s of
           None \<Rightarrow> (Inl Assert_failed, s)
         | Some s1 \<Rightarrow> (Inr False, pthread_spin_unlock (C_lock c) s1)))"

definition clear_hook :: "thr \<Rightarrow> int \<Rightarrow> pt_state \<Rightarrow> (fault + bool) \<times> pt_state" where
  "clear_hook self oldtype s =
     (let s1 = upd_pthread self (\<lambda>x. x\<lparr>p_cancel_hook := None, p_cancel_type := oldtype\<rparr>) s
      in (Inr (is_cancelled self s1), s1))"

definition wait_finish :: "pt_config \<Rightarrow> caddr \<Rightarrow> maddr \<Rightarrow> thr \<Rightarrow> int \<Rightarrow> rc \<Rightarrow> rc pt" where
  "wait_finish cf c m self oldtype err =
     andthen (spin_section (C_lock c) (wait_leave_section c self err)) (\<lambda>drain.
     andthen (if drain then pthread_block self else Return ()) (\<lambda>_.
     andthen (cancel_locked self (section_of (\<lambda>_. True) (clear_hook self oldtype))) (\<lambda>cancelled.
     andthen (pthread_mutex_lock m self) (\<lambda>_.
       if cancelled then pthread_exit cf self PTHREAD_CANCELED else Return err))))"

definition pthread_cond_timedwait_internal ::
    "pt_config \<Rightarrow> caddr \<Rightarrow> maddr \<Rightarrow> thr \<Rightarrow> timespec option \<Rightarrow> rc pt" where
  "pthread_cond_timedwait_internal cf c m self abstime =
     (if bad_nsec abstime then Return EINVAL
      else
        andthen (wait_prepare c self) (\<lambda>r.
          case r of
            None \<Rightarrow> pthread_exit cf self PTHREAD_CANCELED
          | Some (oldtype, clock_id) \<Rightarrow>
              andthen (pthread_mutex_unlock m self) (\<lambda>_.
              andthen (block_until self abstime clock_id) (wait_finish cf c m self oldtype))))"

definition pthread_cond_timedwait ::
    "pt_config \<Rightarrow> caddr \<Rightarrow> maddr \<Rightarrow> thr \<Rightarrow> timespec option \<Rightarrow> rc pt" where
  "pthread_cond_timedwait cf c m self abstime = pthread_cond_timedwait_internal cf c m self abstime"

definition pthread_cond_wait :: "pt_config \<Rightarrow> caddr \<Rightarrow> maddr \<Rightarrow> thr \<Rightarrow> rc pt" where
  "pthread_cond_wait cf c m self = pthread_cond_timedwait_internal cf c m self None"

section \<open>Waiting on a condition in the manner of the Hurd\<close>

text \<open>
  These waits are interrupted through the signal state of the thread, whose address the C library
  yields.  The nested function \<^verbatim>\<open>cancel_me\<close> is \<open>cancel_hook\<close> for the waiting thread.
\<close>

definition hurd_enqueue_section ::
    "nat \<Rightarrow> caddr \<Rightarrow> thr \<Rightarrow> pt_state \<Rightarrow> (fault + int option) \<times> pt_state" where
  "hurd_enqueue_section ss c self s =
     (if hss_cancel (sigstates s ss) \<noteq> 0 then
        (Inr None,
         pthread_spin_unlock (C_lock c) (upd_sigstate ss (\<lambda>x. x\<lparr>hss_cancel := 0\<rparr>) s))
      else
        (case pthread_enqueue (Cond_queue c) self s of
           None \<Rightarrow> (Inl Assert_failed, s)
         | Some s1 \<Rightarrow>
             (Inr (Some (wait_clock c s1)),
              pthread_spin_unlock (C_lock c)
                (upd_sigstate ss (\<lambda>x. x\<lparr>hss_cancel_hook := Some (self, c)\<rparr>) s1))))"

text \<open>The last part, with the lock of the signal state held: whether the wait has been cancelled.\<close>

definition hurd_end_section :: "nat \<Rightarrow> bool \<Rightarrow> pt_state \<Rightarrow> (fault + bool) \<times> pt_state" where
  "hurd_end_section ss cancel s =
     (Inr (cancel \<or> hss_cancel (sigstates s ss) \<noteq> 0),
      pthread_spin_unlock (Sigstate_lock ss)
        (upd_sigstate ss (\<lambda>x. x\<lparr>hss_cancel_hook := None, hss_cancel := 0\<rparr>) s))"

definition hurd_cond_return :: "bool \<Rightarrow> rc \<Rightarrow> rc pt" where
  "hurd_cond_return cancel err =
     (if cancel then Return EINTR
      else if err \<noteq> OK then andthen (assert_p (err = ETIMEDOUT)) (\<lambda>_. Return err)
      else Return OK)"

definition hurd_cond_block ::
    "nat \<Rightarrow> caddr \<Rightarrow> maddr \<Rightarrow> thr \<Rightarrow> timespec option \<Rightarrow> int \<Rightarrow> rc pt" where
  "hurd_cond_block ss c m self abstime clock_id =
     andthen (pthread_mutex_unlock m self) (\<lambda>_.
     andthen (block_until self abstime clock_id) (\<lambda>err.
     andthen (spin_acquire (Sigstate_lock ss)) (\<lambda>_.
     andthen (spin_section (C_lock c) (leave_queue (C_lock c) self err)) (\<lambda>drain.
     andthen (if drain then pthread_block self else Return ()) (\<lambda>_.
     andthen (section_of (\<lambda>_. True) (hurd_end_section ss False)) (\<lambda>cancel.
     andthen (pthread_mutex_lock m self) (\<lambda>_. hurd_cond_return cancel err)))))))"

definition pthread_hurd_cond_timedwait_internal ::
    "caddr \<Rightarrow> maddr \<Rightarrow> thr \<Rightarrow> timespec option \<Rightarrow> rc pt" where
  "pthread_hurd_cond_timedwait_internal c m self abstime =
     andthen (syscall (Extern ''_hurd_self_sigstate'' [])) (\<lambda>(_, a, _).
       let ss = nat a
       in andthen (gets (\<lambda>s. hss_intr_port (sigstates s ss))) (\<lambda>port.
          andthen (assert_p (port = 0)) (\<lambda>_.
            if bad_nsec abstime then Return EINVAL
            else
              andthen (spin_acquire (Sigstate_lock ss)) (\<lambda>_.
              andthen (spin_section (C_lock c) (hurd_enqueue_section ss c self)) (\<lambda>r.
              andthen (spin_release (Sigstate_lock ss)) (\<lambda>_.
                case r of
                  None \<Rightarrow>
                    andthen (spin_acquire (Sigstate_lock ss)) (\<lambda>_.
                    andthen (section_of (\<lambda>_. True) (hurd_end_section ss True)) (\<lambda>cancel.
                      hurd_cond_return cancel OK))
                | Some clock_id \<Rightarrow> hurd_cond_block ss c m self abstime clock_id))))))"

definition pthread_hurd_cond_timedwait_np ::
    "caddr \<Rightarrow> maddr \<Rightarrow> thr \<Rightarrow> timespec option \<Rightarrow> rc pt" where
  "pthread_hurd_cond_timedwait_np c m self abstime =
     pthread_hurd_cond_timedwait_internal c m self abstime"

definition pthread_hurd_cond_wait_np :: "caddr \<Rightarrow> maddr \<Rightarrow> thr \<Rightarrow> bool pt" where
  "pthread_hurd_cond_wait_np c m self =
     andthen (pthread_hurd_cond_timedwait_internal c m self None) (\<lambda>err. Return (err = EINTR))"

section \<open>Joining\<close>

definition push_handler :: "thr \<Rightarrow> cleanup \<Rightarrow> unit pt" where
  "push_handler self c =
     modify (upd_pthread self (\<lambda>x. x\<lparr>p_cancelation_handlers := c # p_cancelation_handlers x\<rparr>))"

definition pop_handler :: "thr \<Rightarrow> unit pt" where
  "pop_handler self =
     modify (upd_pthread self (\<lambda>x. x\<lparr>p_cancelation_handlers := tl (p_cancelation_handlers x)\<rparr>))"

text \<open>The waiting loop, for at most \<open>k\<close> wakeups.\<close>

primrec join_wait :: "nat \<Rightarrow> pt_config \<Rightarrow> thr \<Rightarrow> thr \<Rightarrow> unit pt" where
  "join_wait 0 cf self t = stuck"
| "join_wait (Suc k) cf self t =
     andthen (gets (\<lambda>s. p_state (pthreads s t))) (\<lambda>st.
       if st = PTHREAD_JOINABLE then
         andthen (pthread_cond_wait cf (State_cond t) (State_lock t) self) (\<lambda>_. join_wait k cf self t)
       else Return ())"

definition pthread_join :: "nat \<Rightarrow> pt_config \<Rightarrow> thr \<Rightarrow> int \<Rightarrow> (rc \<times> int option) pt" where
  "pthread_join k cf self thread =
     andthen (pthread_getid (cf_queue cf) self thread) (\<lambda>p.
       case p of
         None \<Rightarrow> Return (ESRCH, None)
       | Some t \<Rightarrow>
           andthen (pthread_mutex_lock (State_lock t) self) (\<lambda>_.
           andthen (push_handler self (Cleanup_unlock (State_lock t))) (\<lambda>_.
           andthen (join_wait k cf self t) (\<lambda>_.
           andthen (pop_handler self) (\<lambda>_.
           andthen (gets (\<lambda>s. p_state (pthreads s t))) (\<lambda>st.
           andthen (pthread_mutex_unlock (State_lock t) self) (\<lambda>_.
             case st of
               PTHREAD_EXITED \<Rightarrow>
                 andthen (gets (\<lambda>s. p_status (pthreads s t))) (\<lambda>status.
                 andthen (reap cf self t) (\<lambda>_. Return (OK, Some status)))
             | PTHREAD_TERMINATED \<Rightarrow> Return (ESRCH, None)
             | _ \<Rightarrow> Return (EINVAL, None))))))))"

end
