(* ===== verification/Thread_Props.thy ===== *)
theory Thread_Props
  imports Thread
begin

text \<open>
  What the parts of thread creation guarantee: the search for a stack ends and is complete, the
  initial frame lies inside the stack and is aligned, and every new thread structure gets an
  identifier of its own.
\<close>

unbundle bit_operations_syntax

section \<open>Stacks\<close>

text \<open>
  What is relied on of \<^verbatim>\<open>vm_allocate\<close>: it returns, does not touch the library's variables, and memory it
  hands out lies below the end of the address space.
\<close>

definition vm_ok :: "pt_state env \<Rightarrow> 32 word \<Rightarrow> bool" where
  "vm_ok h vm_max \<longleftrightarrow>
     (\<forall>b n s. \<exists>e a x. h (Vm_allocate b n) s = Some ((e, a, x), s) \<and>
        (e = OK \<longrightarrow> 0 \<le> a \<and> a < uint vm_max))"

definition vm_reply :: "pt_state env \<Rightarrow> pt_state \<Rightarrow> 32 word \<Rightarrow> 32 word \<Rightarrow> rc \<times> 32 word" where
  "vm_reply h s size_of base =
     (case h (Vm_allocate (uint base) (uint size_of)) s of
        Some ((e, a, _), _) \<Rightarrow> (e, word_of_int a) | None \<Rightarrow> (KERN_ERR, 0))"

lemma unat_add_le:
  fixes a b :: "32 word"
  assumes "unat a + unat b < 2 ^ 32"
  shows "unat (a + b) = unat a + unat b"
  using assms by (simp add: unat_word_ariths)

text \<open>
  The places that are tried in a pass: from \<open>base\<close> on in steps of the stack's size, below the end of the address space.
  A pass grants the first place that the kernel does not refuse.
\<close>

definition refused_from :: "pt_state env \<Rightarrow> pt_state \<Rightarrow> 32 word \<Rightarrow> 32 word \<Rightarrow> 32 word \<Rightarrow> bool" where
  "refused_from h s sz vm_max base \<longleftrightarrow>
     (\<forall>i. unat base + i * unat sz < unat vm_max \<longrightarrow> fst (vm_reply h s sz (base + of_nat i * sz)) \<noteq> OK)"

definition granted_from ::
    "pt_state env \<Rightarrow> pt_state \<Rightarrow> 32 word \<Rightarrow> 32 word \<Rightarrow> 32 word \<Rightarrow> 32 word \<Rightarrow> bool" where
  "granted_from h s sz vm_max base b \<longleftrightarrow>
     (\<exists>i. unat base + i * unat sz < unat vm_max \<and> vm_reply h s sz (base + of_nat i * sz) = (OK, b) \<and>
          (\<forall>j<i. fst (vm_reply h s sz (base + of_nat j * sz)) \<noteq> OK))"

lemma pass_first:
  assumes "base < vm_max"
  shows "vm_reply h s sz base = (OK, b) \<Longrightarrow> granted_from h s sz vm_max base b"
    and "fst (vm_reply h s sz base) \<noteq> OK \<Longrightarrow> unat (base + sz) = unat base + unat sz \<Longrightarrow>
      granted_from h s sz vm_max (base + sz) b \<Longrightarrow> granted_from h s sz vm_max base b"
    and "fst (vm_reply h s sz base) \<noteq> OK \<Longrightarrow> unat (base + sz) = unat base + unat sz \<Longrightarrow>
      refused_from h s sz vm_max (base + sz) \<Longrightarrow> refused_from h s sz vm_max base"
proof -
  have step: "base + sz + of_nat i * sz = base + of_nat (Suc i) * sz" for i by (simp add: algebra_simps)
  show "granted_from h s sz vm_max base b" if "vm_reply h s sz base = (OK, b)"
    unfolding granted_from_def by (rule exI [of _ 0]) (use that assms in \<open>simp add: word_less_nat_alt\<close>)
  assume no: "fst (vm_reply h s sz base) \<noteq> OK" and nw: "unat (base + sz) = unat base + unat sz"
  show "granted_from h s sz vm_max base b" if "granted_from h s sz vm_max (base + sz) b"
  proof -
    from that obtain i where i: "unat base + Suc i * unat sz < unat vm_max"
      "vm_reply h s sz (base + of_nat (Suc i) * sz) = (OK, b)"
      "\<And>j. j < i \<Longrightarrow> fst (vm_reply h s sz (base + of_nat (Suc j) * sz)) \<noteq> OK"
      unfolding granted_from_def step nw by (auto simp: add.assoc simp del: of_nat_Suc)
    have "fst (vm_reply h s sz (base + of_nat j * sz)) \<noteq> OK" if "j < Suc i" for j
      using i(3) [of "j - 1"] no that by (cases j) auto
    with i(1,2) show ?thesis unfolding granted_from_def by blast
  qed
  show "refused_from h s sz vm_max base" if r: "refused_from h s sz vm_max (base + sz)"
    unfolding refused_from_def
  proof (intro allI impI)
    fix i assume "unat base + i * unat sz < unat vm_max"
    with r no show "fst (vm_reply h s sz (base + of_nat i * sz)) \<noteq> OK"
      unfolding refused_from_def step nw by (cases i) (auto simp: add.assoc)
  qed
qed

lemma search_stack_spec:
  assumes "vm_ok h vm_max" and "unat vm_max + unat sz \<le> 2 ^ 32"
    and "unat vm_max \<le> unat base + k * unat sz" and "k < m"
  shows "\<exists>b. run (search_stack m vm_max sz base) h s = Done b s \<and>
    (if b < vm_max then granted_from h s sz vm_max base b else refused_from h s sz vm_max base)"
  using assms(3,4)
proof (induction k arbitrary: base m)
  case 0
  then obtain m' where "m = Suc m'" by (cases m) auto
  with 0 show ?case by (simp add: word_less_nat_alt refused_from_def)
next
  case (Suc k)
  then obtain m' where m: "m = Suc m'" by (cases m) auto
  show ?case
  proof (cases "base < vm_max")
    case False
    with m show ?thesis by (simp add: word_less_nat_alt refused_from_def)
  next
    case True
    from assms(1) obtain e a x where r: "h (Vm_allocate (uint base) (uint sz)) s = Some ((e, a, x), s)"
      "e = OK \<Longrightarrow> 0 \<le> a \<and> a < uint vm_max" unfolding vm_ok_def by metis
    then have rep: "vm_reply h s sz base = (e, word_of_int a)" by (simp add: vm_reply_def)
    show ?thesis
    proof (cases "e = OK")
      case ok: True
      then have "0 \<le> a" "a < uint vm_max" using r(2) by auto
      moreover from this have "a < 2 ^ 32" using uint_lt2p [of vm_max] by simp
      ultimately have "word_of_int a < vm_max"
        by (simp add: word_less_def uint_word_of_int)
      moreover have "run (search_stack m vm_max sz base) h s = Done (word_of_int a) s"
        using m True r(1) ok by (simp add: run_simps)
      ultimately show ?thesis using pass_first(1) [OF True] rep ok by auto
    next
      case False
      have nw: "unat (base + sz) = unat base + unat sz"
        using True assms(2) by (intro unat_add_le) (simp add: word_less_nat_alt)
      have "unat vm_max \<le> unat (base + sz) + k * unat sz" using Suc.prems nw by simp
      from Suc.IH [OF this, of m'] Suc.prems m obtain b
        where b: "run (search_stack m' vm_max sz (base + sz)) h s = Done b s"
          "if b < vm_max then granted_from h s sz vm_max (base + sz) b else refused_from h s sz vm_max (base + sz)"
        by auto
      moreover have "run (search_stack m vm_max sz base) h s = Done b s"
        using b(1) m True r(1) False by (simp add: run_simps)
      ultimately show ?thesis using pass_first(2,3) [OF True _ nw, of h s] rep False by (auto split: if_splits)
    qed
  qed
qed

text \<open>
  C40: The allocation of a stack of the default size always ends, after at most
  \<^verbatim>\<open>VM_MAX_ADDRESS / stacksize + 1\<close> requests in each of its two passes, provided that the address space ends at
  least one stack size below 4 GB, so that the addresses do not wrap.  It yields the memory that the kernel has handed out at
  the first place that it has not refused, of those tried from \<^verbatim>\<open>next_stack_base\<close> on and then, if all of these were
  refused, of those from \<^verbatim>\<open>VM_MIN_ADDRESS\<close> on, and the next search starts right behind it; or it
  fails with \<^verbatim>\<open>EAGAIN\<close>, but only if the kernel has refused every place of both passes.
\<close>

theorem stack_alloc_complete:
  assumes "vm_ok h vm_max" and "sz = at_stacksize (default_attr s)" and "0 < unat sz"
    and "unat vm_max + unat sz \<le> 2 ^ 32" and "unat vm_max div unat sz + 1 < m"
  shows "\<exists>e b s1. run (pthread_stack_alloc m vm_min vm_max sz) h s = Done (e, b) s1 \<and>
    (if e = OK
     then b < vm_max \<and> s1 = s\<lparr>next_stack_base := b + sz\<rparr> \<and>
       (granted_from h s sz vm_max (next_stack_base s) b \<or>
        refused_from h s sz vm_max (next_stack_base s) \<and>
        granted_from h (s\<lparr>next_stack_base := vm_min\<rparr>) sz vm_max vm_min b)
     else e = EAGAIN \<and> s1 = s\<lparr>next_stack_base := vm_min\<rparr> \<and>
       refused_from h s sz vm_max (next_stack_base s) \<and> refused_from h s1 sz vm_max vm_min)"
proof -
  let ?k = "unat vm_max div unat sz + 1" and ?s = "s\<lparr>next_stack_base := vm_min\<rparr>"
  have "unat vm_max \<le> unat base + ?k * unat sz" for base :: "32 word"
    using dividend_less_times_div [OF assms(3), of "unat vm_max"] by (simp add: algebra_simps)
  note search = search_stack_spec [OF assms(1,4) this assms(5)]
  from search [of "next_stack_base s" s] obtain b where
    b: "run (search_stack m vm_max sz (next_stack_base s)) h s = Done b s"
      "b < vm_max \<Longrightarrow> granted_from h s sz vm_max (next_stack_base s) b"
      "\<not> b < vm_max \<Longrightarrow> refused_from h s sz vm_max (next_stack_base s)" by (auto split: if_splits)
  from search [of vm_min ?s] obtain c where
    c: "run (search_stack m vm_max sz vm_min) h ?s = Done c ?s"
      "c < vm_max \<Longrightarrow> granted_from h ?s sz vm_max vm_min c"
      "\<not> c < vm_max \<Longrightarrow> refused_from h ?s sz vm_max vm_min" by (auto split: if_splits)
  show ?thesis
  proof (cases "b < vm_max")
    case True
    with b assms(2) show ?thesis
      by (intro exI [of _ OK] exI [of _ b] exI [of _ "s\<lparr>next_stack_base := b + sz\<rparr>"])
        (auto simp: pthread_stack_alloc_def run_simps Let_def)
  next
    case no: False
    show ?thesis
    proof (cases "c < vm_max")
      case True
      with no b c assms(2) show ?thesis
        by (intro exI [of _ OK] exI [of _ c] exI [of _ "s\<lparr>next_stack_base := c + sz\<rparr>"])
          (auto simp: pthread_stack_alloc_def run_simps Let_def)
    next
      case False
      with no b c assms(2) show ?thesis
        by (intro exI [of _ EAGAIN] exI [of _ 0] exI [of _ ?s])
          (auto simp: pthread_stack_alloc_def run_simps Let_def)
    qed
  qed
qed

text \<open>For the witness: a kernel that refuses everything below 4 MB, in an address space of 16 MB.\<close>

definition vm_env :: "pt_state env" where
  "vm_env c s =
     (case c of
        Vm_allocate b n \<Rightarrow>
          Some ((if 0x400000 \<le> b \<and> b < 0x1000000 then OK else KERN_ERR, b, 0), s)
      | _ \<Rightarrow> Some ((OK, 0, 0), s))"

theorem stack_alloc_complete_witness:
  "\<exists>e b s1. run (pthread_stack_alloc 20 0x1000 0x1000000 0x200000) vm_env zero_state = Done (e, b) s1 \<and>
    (if e = OK
     then b < 0x1000000 \<and> s1 = zero_state\<lparr>next_stack_base := b + 0x200000\<rparr> \<and>
       (granted_from vm_env zero_state 0x200000 0x1000000 (next_stack_base zero_state) b \<or>
        refused_from vm_env zero_state 0x200000 0x1000000 (next_stack_base zero_state) \<and>
        granted_from vm_env (zero_state\<lparr>next_stack_base := 0x1000\<rparr>) 0x200000 0x1000000 0x1000 b)
     else e = EAGAIN \<and> s1 = zero_state\<lparr>next_stack_base := 0x1000\<rparr> \<and>
       refused_from vm_env zero_state 0x200000 0x1000000 (next_stack_base zero_state) \<and>
       refused_from vm_env s1 0x200000 0x1000000 0x1000)"
  by (rule stack_alloc_complete) (auto simp: vm_ok_def vm_env_def zero_attr_def)

section \<open>The initial frame\<close>

lemma unat_align16: "unat (x AND NOT 0xf :: 32 word) = unat x div 16 * 16"
proof -
  have m: "(0xf :: 32 word) = mask 4" by (simp add: mask_eq_exp_minus_1)
  have "x AND NOT (mask 4) = push_bit 4 (drop_bit 4 x)"
    by (simp add: bit_eq_iff bit_simps) auto
  moreover have "unat (push_bit 4 (drop_bit 4 x)) = unat x div 16 * 16"
  proof -
    have "unat x < 2 ^ LENGTH(32)" by (rule unsigned_less)
    then have "unat x div 16 * 16 < 2 ^ 32"
      using div_times_less_eq_dividend [of "unat x" 16] by simp
    then show ?thesis
      by (simp add: push_bit_eq_mult drop_bit_eq_div unat_word_ariths unat_div)
  qed
  ultimately show ?thesis by (simp add: m)
qed

text \<open>
  The frame of a new thread: at the stack pointer a null return address, then the thread, the start
  routine and its argument, as the entry point expects its three arguments.
\<close>

definition frame_at :: "(32 word \<Rightarrow> 32 word) \<Rightarrow> 32 word \<Rightarrow> thr \<Rightarrow> 32 word \<Rightarrow> 32 word \<Rightarrow> bool" where
  "frame_at mem sp t start_routine arg \<longleftrightarrow>
     mem sp = 0 \<and> mem (sp + 4) = of_nat t \<and> mem (sp + 8) = start_routine \<and> mem (sp + 12) = arg"

lemma frame_base_bounds:
  assumes "unat tos \<ge> 32"
  shows "unat (frame_base tos) + 12 \<le> unat tos" and "unat tos \<le> unat (frame_base tos) + 27"
    and "unat (frame_base tos) mod 16 = 0"
proof -
  have "(12 :: 32 word) \<le> tos" using assms by (simp add: word_le_nat_alt)
  then have m: "unat (tos - 12) = unat tos - 12" by (simp add: unat_sub)
  have f: "unat (frame_base tos) = (unat tos - 12) div 16 * 16"
    unfolding frame_base_def unat_align16 m ..
  have d: "(unat tos - 12) div 16 * 16 + (unat tos - 12) mod 16 = unat tos - 12"
    by (rule div_mult_mod_eq)
  have "(unat tos - 12) mod 16 \<le> 15" by simp
  with d show "unat tos \<le> unat (frame_base tos) + 27" using f assms by linarith
  from d show "unat (frame_base tos) + 12 \<le> unat tos" using f assms by linarith
  show "unat (frame_base tos) mod 16 = 0" by (simp add: f)
qed

lemma push_frame_frame:
  "frame_at (stack_mem (push_frame tos t f a s)) (tos - 4) t f a"
  by (simp add: frame_at_def push_frame_def)

lemma push_frame_other:
  assumes "unat tos \<ge> 4" and "unat tos + 12 \<le> 2 ^ 32"
    and "unat p < unat tos - 4 \<or> unat p \<ge> unat tos + 12"
  shows "stack_mem (push_frame tos t f a s) p = stack_mem s p"
proof -
  have "unat (tos - 4) = unat tos - 4" using assms(1) by (simp add: unat_sub word_le_nat_alt)
  moreover have "unat (tos + 4) = unat tos + 4" "unat (tos + 8) = unat tos + 8"
    using assms(2) by (simp_all add: unat_word_ariths)
  ultimately have "p \<noteq> tos - 4" "p \<noteq> tos" "p \<noteq> tos + 4" "p \<noteq> tos + 8" using assms(1,3) by auto
  then show ?thesis by (simp add: push_frame_def)
qed

lemma run_stack_setup:
  assumes "p_stackaddr (pthreads s t) = a" and "p_stacksize (pthreads s t) = z"
    and "p_guardsize (pthreads s t) = g" and "start_routine \<noteq> 0"
    and "unat a + unat z < 2 ^ 32" and "unat g + 4 * unat tvmax + 32 \<le> unat z"
    and "\<And>b n s. h (Vm_protect b n) s = Some ((OK, 0, 0), s)"
  shows "\<exists>sp s1. run (stack_setup tvmax t start_routine arg) h s = Done sp s1 \<and>
    unat a + unat g \<le> unat sp \<and> unat sp + 16 + 4 * unat tvmax \<le> unat a + unat z \<and>
    (unat sp + 4) mod 16 = 0 \<and> frame_at (stack_mem s1) sp t start_routine arg \<and>
    (\<forall>p. unat p < unat sp \<or> unat sp + 16 \<le> unat p \<longrightarrow> stack_mem s1 p = stack_mem s p) \<and>
    s1\<lparr>stack_mem := stack_mem s\<rparr> = s"
proof -
  let ?tos = "stack_top tvmax a z"
  let ?f = "frame_base ?tos"
  let ?s1 = "push_frame ?f t start_routine arg s"
  have "unat (a + z) = unat a + unat z" using assms(5) by (simp add: unat_word_ariths)
  moreover have "unat (4 * tvmax) = 4 * unat tvmax"
    using assms(5,6) by (simp add: unat_word_ariths)
  ultimately have top: "unat ?tos = unat a + unat z - 4 * unat tvmax"
    using assms(6) by (simp add: stack_top_def unat_sub word_le_nat_alt)
  then have big: "32 \<le> unat ?tos" using assms(6) by linarith
  note fb = frame_base_bounds [OF big]
  have sp: "unat (?f - 4) = unat ?f - 4" using fb(2) big by (simp add: unat_sub word_le_nat_alt)
  have run: "run (stack_setup tvmax t start_routine arg) h s = Done (?f - 4) ?s1"
    using assms(1-4,7) by (simp add: stack_setup_def run_simps Let_def)
  have "stack_mem ?s1 p = stack_mem s p"
    if "unat p < unat (?f - 4) \<or> unat (?f - 4) + 16 \<le> unat p" for p
    using that sp fb(1,2) big top assms(5) by (intro push_frame_other) linarith+
  moreover have "unat (?f - 4) + 4 = unat ?f" "unat a + unat g \<le> unat (?f - 4)"
      "unat (?f - 4) + 16 + 4 * unat tvmax \<le> unat a + unat z"
    using sp fb(1,2) big top assms(6) by linarith+
  ultimately show ?thesis
    using run fb(3) push_frame_frame [of ?f t start_routine arg s]
    by (intro exI [of _ "?f - 4"] exI [of _ ?s1]) (auto simp: push_frame_def)
qed

text \<open>
  The stack set up for a new thread: the stack pointer and the whole frame lie between the
  guard pages and the words reserved for the Hurd, the arguments of the entry point start at a
  multiple of 16, the frame holds the null return address, the thread, the start routine and its
  argument, and no other memory is written.
\<close>

theorem stack_setup_frame:
  assumes "p_stackaddr (pthreads s t) = a" and "p_stacksize (pthreads s t) = z"
    and "p_guardsize (pthreads s t) = g" and "start_routine \<noteq> 0"
    and "unat a + unat z < 2 ^ 32" and "unat g + 4 * unat tvmax + 32 \<le> unat z"
    and "\<And>b n s. h (Vm_protect b n) s = Some ((OK, 0, 0), s)"
  shows "\<exists>sp s1. run (stack_setup tvmax t start_routine arg) h s = Done sp s1 \<and>
    unat a + unat g \<le> unat sp \<and> unat sp + 16 + 4 * unat tvmax \<le> unat a + unat z \<and>
    (unat sp + 4) mod 16 = 0 \<and> frame_at (stack_mem s1) sp t start_routine arg \<and>
    (\<forall>p. unat p < unat sp \<or> unat sp + 16 \<le> unat p \<longrightarrow> stack_mem s1 p = stack_mem s p) \<and>
    s1\<lparr>stack_mem := stack_mem s\<rparr> = s"
  using assms by (rule run_stack_setup)

definition frame_state :: pt_state where
  "frame_state = upd_pthread 1 (\<lambda>x. x\<lparr>p_stackaddr := 0x200000, p_stacksize := 0x200000,
     p_guardsize := 0x1000\<rparr>) zero_state"

theorem stack_setup_frame_witness:
  "\<exists>sp s1. run (stack_setup 12 1 0x8000 7) vm_env frame_state = Done sp s1 \<and>
    unat (0x200000 :: 32 word) + unat (0x1000 :: 32 word) \<le> unat sp \<and>
    unat sp + 16 + 4 * unat (12 :: 32 word) \<le> unat (0x200000 :: 32 word) + unat (0x200000 :: 32 word) \<and>
    (unat sp + 4) mod 16 = 0 \<and> frame_at (stack_mem s1) sp 1 0x8000 7 \<and>
    (\<forall>p. unat p < unat sp \<or> unat sp + 16 \<le> unat p \<longrightarrow> stack_mem s1 p = stack_mem frame_state p) \<and>
    s1\<lparr>stack_mem := stack_mem frame_state\<rparr> = frame_state"
  by (rule stack_setup_frame) (simp_all add: frame_state_def vm_env_def)

section \<open>Identifiers\<close>

text \<open>
  The table of threads between operations: as many elements as \<^verbatim>\<open>__pthread_max_threads\<close> says, of which
  \<^verbatim>\<open>__pthread_num_threads\<close> are in use, and nobody holds its lock.
\<close>

definition threads_inv :: "pt_state \<Rightarrow> bool" where
  "threads_inv s \<longleftrightarrow>
     0 \<le> num_threads s \<and> num_threads s \<le> max_threads s \<and>
     length (threads_tab s) = nat (max_threads s) \<and> idle_rwlock s Threads_lock"

lemma run_getid:
  assumes "idle_rwlock s Threads_lock" and "1 \<le> i" and "i \<le> num_threads s"
  shows "run (pthread_getid n self i) h s = Done (threads_tab s ! nat (i - 1)) s"
  unfolding pthread_getid_def
  by (rule read_lock.bracketed [OF assms(1) _ assms(1)])
    (use assms(2,3) in \<open>simp add: run_simps read_locked_def\<close>)

lemma run_setid:
  assumes "idle_rwlock s Threads_lock" and "1 \<le> i" and "i \<le> num_threads s"
  shows "run (pthread_setid n self i x) h s =
    Done () (s\<lparr>threads_tab := (threads_tab s)[nat (i - 1) := x]\<rparr>)"
  unfolding pthread_setid_def
  by (rule write_lock.bracketed [OF assms(1)])
    (use assms in \<open>simp_all add: run_simps write_locked_def store_id_def idle_rwlock_def\<close>)

text \<open>Neither calls anything outside the library.\<close>

lemma getid_quiet:
  assumes "idle_rwlock s Threads_lock" and "1 \<le> i" and "i \<le> num_threads s"
  shows "requests (pthread_getid n self i) h s = []"
  unfolding pthread_getid_def
  by (rule trans [OF read_lock.bracketed_requests [OF assms(1) _ assms(1), where r = "threads_tab s ! nat (i - 1)"]])
    (use assms(2,3) in \<open>simp_all add: run_simps requests_simps read_locked_def\<close>)

lemma setid_quiet:
  assumes "idle_rwlock s Threads_lock" and "1 \<le> i" and "i \<le> num_threads s"
  shows "requests (pthread_setid n self i x) h s = []"
  unfolding pthread_setid_def
  by (rule trans [OF write_lock.bracketed_requests [OF assms(1), where r = "()"
          and ?s1.0 = "s\<lparr>threads_tab := (threads_tab s)[nat (i - 1) := x]\<rparr>"]])
    (use assms in \<open>simp_all add: run_simps requests_simps write_locked_def store_id_def idle_rwlock_def\<close>)

text \<open>What is relied on of \<^verbatim>\<open>malloc\<close> and \<^verbatim>\<open>free\<close>: they return and leave the library's variables alone.\<close>

definition malloc_ok :: "pt_state env \<Rightarrow> bool" where
  "malloc_ok h \<longleftrightarrow>
     (\<forall>s. \<exists>e p x. h Malloc s = Some ((e, p, x), s)) \<and> (\<forall>s p. \<exists>r. h (Free p) s = Some (r, s))"

definition got_slot :: "thr \<Rightarrow> pt_state \<Rightarrow> pt_state \<Rightarrow> bool" where
  "got_slot t s s1 \<longleftrightarrow>
     threads_inv s1 \<and> num_threads s1 = num_threads s + 1 \<and>
     pthreads s1 = (pthreads s)(t := (pthreads s t)\<lparr>p_thread := num_threads s1\<rparr>) \<and>
     prevp s1 = prevp s \<and> threads_tab s1 ! nat (num_threads s) = None \<and>
     (\<forall>i < nat (num_threads s). threads_tab s1 ! i = threads_tab s ! i)"

lemma take_slot_spec:
  assumes "threads_inv s" and "num_threads s < max_threads s"
  shows "got_slot t s (take_slot t s)"
proof -
  have n: "nat (num_threads s) < length (threads_tab s)" using assms by (simp add: threads_inv_def)
  have "idle_rwlock (take_slot t s) Threads_lock"
    using assms(1) by (simp add: threads_inv_def idle_rwlock_def take_slot_def)
  with assms n show ?thesis
    by (auto simp: got_slot_def threads_inv_def take_slot_def nth_list_update)
qed

lemma grow_table_spec:
  assumes "threads_inv s"
  shows "threads_inv (grow_table p s)" and "max_threads s < max_threads (grow_table p s)"
    and "num_threads (grow_table p s) = num_threads s" and "pthreads (grow_table p s) = pthreads s"
    and "prevp (grow_table p s) = prevp s"
    and "i < nat (num_threads s) \<Longrightarrow> threads_tab (grow_table p s) ! i = threads_tab s ! i"
proof -
  have mx: "max_threads s < new_max (max_threads s)" "0 \<le> max_threads s"
    using assms by (auto simp: new_max_def POSIX_THREAD_THREADS_MAX_def threads_inv_def)
  then have "nat (max_threads s) \<le> nat (new_max (max_threads s))" by (simp add: nat_mono)
  with assms mx show "threads_inv (grow_table p s)"
    by (auto simp: threads_inv_def grow_table_def idle_rwlock_def)
  show "max_threads s < max_threads (grow_table p s)" using mx by (simp add: grow_table_def)
  show "threads_tab (grow_table p s) ! i = threads_tab s ! i" if "i < nat (num_threads s)"
  proof -
    have "nat (num_threads s) \<le> nat (max_threads s)" using assms by (simp add: threads_inv_def nat_mono)
    with that assms show ?thesis by (simp add: grow_table_def nth_append threads_inv_def)
  qed
qed (simp_all add: grow_table_def)

lemma run_write_section:
  assumes "idle_rwlock s r" and "f (write_locked r s) = (Inr x, write_locked r s1)" and "idle_rwlock s1 r"
  shows "run (bracket (pthread_rwlock_wrlock r self) (pthread_rwlock_unlock n r)
      (section_of (\<lambda>_. True) f)) h s = Done x s1"
  by (rule write_lock.bracketed [OF assms(1) _ assms(3)]) (simp add: run_simps assms(2))

lemma run_slot_section:
  assumes "threads_inv s"
  shows "run (bracket (pthread_rwlock_wrlock Threads_lock self) (pthread_rwlock_unlock n Threads_lock)
      (section_of (\<lambda>_. True) (slot_section mx t))) h s =
    (if num_threads s < max_threads s then Done Slot_taken (take_slot t s)
     else if (case mx of Some m \<Rightarrow> num_threads s \<ge> m | None \<Rightarrow> False) then Done Slot_limit s
     else Done (Slot_grow (max_threads s)) s)"
proof -
  let ?l = "case mx of Some m \<Rightarrow> num_threads s \<ge> m | None \<Rightarrow> False"
  have i: "idle_rwlock s Threads_lock" "idle_rwlock (take_slot t s) Threads_lock"
    using assms by (simp_all add: threads_inv_def idle_rwlock_def take_slot_def)
  have "num_threads s < max_threads s \<Longrightarrow> slot_section mx t (write_locked Threads_lock s) =
      (Inr Slot_taken, write_locked Threads_lock (take_slot t s))"
    by (simp add: slot_section_def take_slot_def write_locked_def)
  moreover have "\<not> num_threads s < max_threads s \<Longrightarrow> slot_section mx t (write_locked Threads_lock s) =
      (Inr (if ?l then Slot_limit else Slot_grow (max_threads s)), write_locked Threads_lock s)"
    by (simp add: slot_section_def write_locked_def split: option.split)
  ultimately show ?thesis
    using run_write_section [OF i(1) _ i(2), of "slot_section mx t"]
      run_write_section [OF i(1) _ i(1), of "slot_section mx t"]
    by (cases "num_threads s < max_threads s") auto
qed

lemma run_grow_section:
  assumes "threads_inv s"
  shows "run (bracket (pthread_rwlock_wrlock Threads_lock self) (pthread_rwlock_unlock n Threads_lock)
      (section_of (\<lambda>_. True) (grow_section (max_threads s) p t))) h s =
    Done (Some (threads_ptr s)) (take_slot t (grow_table p s))"
proof -
  have i: "idle_rwlock s Threads_lock" "idle_rwlock (take_slot t (grow_table p s)) Threads_lock"
    using assms by (simp_all add: threads_inv_def idle_rwlock_def take_slot_def grow_table_def)
  show ?thesis
    by (rule run_write_section [OF i(1) _ i(2)])
      (simp add: grow_section_def take_slot_def grow_table_def write_locked_def)
qed

lemma run_alloc_slot:
  assumes "threads_inv s" and "malloc_ok h"
  shows "\<exists>e s1. run (alloc_slot (Suc k) n mx self t) h s = Done e s1 \<and>
    (if e = OK then got_slot t s s1 else e \<in> {EAGAIN, ENOMEM} \<and> s1 = s)"
proof -
  from assms(2) obtain e p x where m: "h Malloc s = Some ((e, p, x), s)"
    unfolding malloc_ok_def by metis
  have f: "\<exists>r. h (Free q) s = Some (r, s)" for q s using assms(2) by (simp add: malloc_ok_def)
  let ?g = "take_slot t (grow_table (nat p) s)"
  have "num_threads (grow_table (nat p) s) < max_threads (grow_table (nat p) s)"
    using grow_table_spec(2,3) [OF assms(1), of "nat p"] assms(1) by (simp add: threads_inv_def)
  from take_slot_spec [OF grow_table_spec(1) [OF assms(1)] this, of t]
  have g: "got_slot t s ?g"
    using grow_table_spec(3-6) [OF assms(1)] by (auto simp: got_slot_def)
  obtain r1 where r1: "h (Free t) s = Some (r1, s)" using f by blast
  obtain r2 where r2: "h (Free (threads_ptr s)) ?g = Some (r2, ?g)" using f by blast
  consider "num_threads s < max_threads s"
    | "\<not> num_threads s < max_threads s" "case mx of Some m \<Rightarrow> num_threads s \<ge> m | None \<Rightarrow> False"
    | "\<not> num_threads s < max_threads s" "\<not> (case mx of Some m \<Rightarrow> num_threads s \<ge> m | None \<Rightarrow> False)" "p = 0"
    | "\<not> num_threads s < max_threads s" "\<not> (case mx of Some m \<Rightarrow> num_threads s \<ge> m | None \<Rightarrow> False)" "p \<noteq> 0"
    by blast
  then show ?thesis
  proof cases
    case 1
    with take_slot_spec [OF assms(1), of t] show ?thesis
      by (intro exI [of _ OK] exI [of _ "take_slot t s"])
        (simp add: run_simps run_slot_section [OF assms(1)])
  next
    case 2
    with r1 show ?thesis
      by (intro exI [of _ EAGAIN] exI [of _ s]) (simp add: run_simps run_slot_section [OF assms(1)])
  next
    case 3
    with r1 m show ?thesis
      by (intro exI [of _ ENOMEM] exI [of _ s]) (simp add: run_simps run_slot_section [OF assms(1)])
  next
    case 4
    with r2 m g show ?thesis
      by (intro exI [of _ OK] exI [of _ ?g])
        (simp add: run_simps run_slot_section [OF assms(1)] run_grow_section [OF assms(1)])
  qed
qed

section \<open>New thread structures\<close>

definition new_struct :: "pt_state \<Rightarrow> thr \<Rightarrow> bool" where
  "new_struct s t \<longleftrightarrow>
     p_cancel_hook (pthreads s t) = None \<and> p_cancel_state (pthreads s t) = PTHREAD_CANCEL_ENABLE \<and>
     p_cancel_type (pthreads s t) = PTHREAD_CANCEL_DEFERRED \<and> p_cancel_pending (pthreads s t) = 0 \<and>
     p_thread_specifics (pthreads s t) = 0 \<and> p_tcb (pthreads s t) = 0 \<and> prevp s t = None"

definition initialized :: "thr \<Rightarrow> bool \<Rightarrow> pt_state \<Rightarrow> pt_state" where
  "initialized t recycling s =
     (let s1 = init_cancelation t (upd_pthread t (\<lambda>x. x\<lparr>p_thread_specifics := 0\<rparr>) s)
      in if recycling then s1 else init_fresh t s1)"

lemma run_initialize: "run (initialize_pthread t r) h s = Done OK (initialized t r s)"
  by (simp add: initialize_pthread_def pthread_init_specific_def initialized_def run_simps Let_def)

lemmas initialized_defs =
  initialized_def init_cancelation_def init_fresh_def mutex_initializer_def cond_initializer_def

lemma initialized_frame:
  "threads_inv (initialized t r s) = threads_inv s"
  "num_threads (initialized t r s) = num_threads s"
  "threads_tab (initialized t r s) = threads_tab s"
  "u \<noteq> t \<Longrightarrow> pthreads (initialized t r s) u = pthreads s u"
  "p_thread (pthreads (initialized t r s) t) = p_thread (pthreads s t)"
  by (auto simp: initialized_defs threads_inv_def idle_rwlock_def Let_def)

lemma initialized_links:
  "cell (initialized t True s) = (cell s)(Mutex_queue (Cancel_lock t) := None)"
  "prevp (initialized t True s) = prevp s"
  by (simp_all add: initialized_defs)

lemma initialized_new:
  "r \<Longrightarrow> prevp s t = None \<Longrightarrow> p_tcb (pthreads s t) = 0 \<Longrightarrow> new_struct (initialized t r s) t"
  "\<not> r \<Longrightarrow> new_struct (initialized t r s) t"
  by (auto simp: new_struct_def initialized_defs Let_def)

text \<open>
  What the allocation relies on besides \<open>malloc_ok\<close>: freeing TLS memory returns, and the kernel accepts the termination of
  each of the kernel threads \<open>ks\<close>, those of the free structures.  It may have terminated them before; if it then
  replies with an error, the assertion of \<^verbatim>\<open>__pthread_thread_halt\<close> fails.
\<close>

definition reuse_ok :: "pt_state env \<Rightarrow> int set \<Rightarrow> bool" where
  "reuse_ok h ks \<longleftrightarrow>
     (\<forall>k\<in>ks. \<forall>s. \<exists>x y. h (Thread_terminate k) s = Some ((OK, x, y), s)) \<and>
     (\<forall>a s. \<exists>r. h (Dl_deallocate_tls a) s = Some (r, s))"

abbreviation is_terminated :: "pt_state \<Rightarrow> thr \<Rightarrow> bool" where
  "is_terminated s u \<equiv> p_state (pthreads s u) = PTHREAD_TERMINATED"

lemma run_find_free_skip:
  assumes "chain (cell s) (prevp s) l (us @ vs)" and "\<forall>u\<in>set us. \<not> is_terminated s u" and "length us \<le> n"
  shows "\<exists>l'. chain (cell s) (prevp s) l' vs \<and>
    run (find_free n (cell s l)) h s = run (find_free (n - length us) (cell s l')) h s"
  using assms
proof (induction us arbitrary: l n)
  case (Cons u us)
  then obtain m where n: "n = Suc m" by (cases n) auto
  from Cons.IH [of "Next u" m] Cons.prems n show ?case by (auto simp: run_simps)
qed auto

lemma run_recycle_none:
  assumes "idle_mutex s Free_threads_lock" and "queues s Q" and "\<forall>u\<in>set (Q Free_threads). \<not> is_terminated s u"
    and "length (Q Free_threads) \<le> n"
  shows "run (pthread_alloc_recycle n self) h s = Done None s"
proof -
  let ?a = "acquired Free_threads_lock self s"
  have "chain (cell ?a) (prevp ?a) Free_threads (Q Free_threads @ [])"
    using linkedD(1) [OF assms(2), of Free_threads] by (simp add: acquired_eq)
  from run_find_free_skip [OF this _ assms(4), of h] assms(3) obtain l where
    "cell ?a l = None"
    "run (find_free n (cell ?a Free_threads)) h ?a = run (find_free (n - length (Q Free_threads)) (cell ?a l)) h ?a"
    by (auto simp: acquired_eq)
  then have "run (find_free n (cell ?a Free_threads)) h ?a = Done None ?a" by simp
  then show ?thesis
    unfolding pthread_alloc_recycle_def
    by (intro mutex_lock.bracketed [OF assms(1) _ assms(1)]) (simp add: run_simps)
qed

lemma run_recycle_empty:
  assumes "idle_mutex s Free_threads_lock" and "cell s Free_threads = None"
  shows "run (pthread_alloc_recycle n self) h s = Done None s"
  unfolding pthread_alloc_recycle_def
  by (rule mutex_lock.bracketed [OF assms(1) _ assms(1)])
    (use assms(2) in \<open>simp add: run_simps acquired_eq\<close>)

lemma idle_mutex_links:
  assumes "idle_mutex s m" and "c (Mutex_queue m) = None"
  shows "idle_mutex (s\<lparr>cell := c, prevp := v\<rparr>) m"
  using assms by (simp add: idle_mutex_def unlocked_def known_type_def mutex_type_of_def)

lemma run_recycle_some:
  assumes "idle_mutex s Free_threads_lock" and "queues s Q" and "Q Free_threads = us @ t # vs"
    and "\<forall>u\<in>set us. \<not> is_terminated s u" and "is_terminated s t" and "length us < n"
  shows "\<exists>c v. run (pthread_alloc_recycle n self) h s = Done (Some t) (s\<lparr>cell := c, prevp := v\<rparr>) \<and>
    linked c v (Q(Free_threads := us @ vs)) \<and> v t = None"
proof -
  let ?a = "acquired Free_threads_lock self s"
  obtain m where m: "n - length us = Suc m" using assms(6) by (cases "n - length us") auto
  have q: "queues ?a Q" using assms(2) by (simp add: acquired_eq)
  have "distinct (Q Free_threads)" using linked_distinct [OF q, of Free_threads] by simp
  then have rem: "removeAll t (Q Free_threads) = us @ vs" using assms(3) by (simp add: removeAll_distinct_split)
  from wq.deq_ok [OF q, of Free_threads t] assms(3) rem obtain s0
    where s0: "pthread_dequeue t ?a = Some s0" "queues s0 (Q(Free_threads := us @ vs))" by auto
  from s0(1) have gone: "prevp s0 t = None" by (auto simp: pthread_dequeue_def Let_def split: option.splits)
  from pthread_dequeue_frame [OF s0(1)] obtain c v
    where eq: "s0 = ?a\<lparr>cell := c, prevp := v\<rparr>" by auto
  have "Q (Mutex_queue Free_threads_lock) = []"
    using wq.first_view [OF assms(2), of "Mutex_queue Free_threads_lock"] assms(1)
    by (auto simp: idle_mutex_def split: list.splits)
  then have cm: "c (Mutex_queue Free_threads_lock) = None"
    using wq.first_view [OF s0(2), of "Mutex_queue Free_threads_lock"] eq by simp
  have comm: "s0 = acquired Free_threads_lock self (s\<lparr>cell := c, prevp := v\<rparr>)"
    by (simp add: eq acquired_eq)
  have "chain (cell ?a) (prevp ?a) Free_threads (us @ t # vs)"
    using linkedD(1) [OF q, of Free_threads] assms(3) by simp
  from run_find_free_skip [OF this, of n h] assms(4,6) obtain l where
    l: "cell ?a l = Some t" "run (find_free n (cell ?a Free_threads)) h ?a = run (find_free (Suc m) (cell ?a l)) h ?a"
    by (auto simp: acquired_eq m)
  have "run (andthen (gets (\<lambda>s. cell s Free_threads)) (find_free n)) h ?a = Done (Some t) s0"
    using l assms(5) s0(1) by (simp add: run_simps) (simp add: acquired_eq)
  from mutex_lock.bracketed [OF assms(1) this [unfolded comm] idle_mutex_links [of s, OF assms(1), of c, OF cm]]
  have "run (pthread_alloc_recycle n self) h s = Done (Some t) (s\<lparr>cell := c, prevp := v\<rparr>)"
    by (simp add: pthread_alloc_recycle_def)
  with s0(2) gone eq show ?thesis by auto
qed

lemma run_alloc_reuse:
  assumes "run (pthread_alloc_recycle n self) h s = Done (Some t) s0"
    and "reuse_ok h {p_kernel_thread (pthreads s0 t)}" and "prevp s0 t = None"
  shows "\<exists>s1. run (pthread_alloc k n mx self) h s = Done (OK, t) s1 \<and> new_struct s1 t \<and>
    threads_inv s1 = threads_inv s0 \<and> num_threads s1 = num_threads s0 \<and>
    threads_tab s1 = threads_tab s0 \<and> p_thread (pthreads s1 t) = p_thread (pthreads s0 t) \<and>
    cell s1 = (cell s0)(Mutex_queue (Cancel_lock t) := None) \<and> prevp s1 = prevp s0 \<and> (\<forall>u. u \<noteq> t \<longrightarrow> pthreads s1 u = pthreads s0 u)"
proof -
  let ?kt = "p_kernel_thread (pthreads s0 t)" and ?tcb = "p_tcb (pthreads s0 t)"
  let ?s1 = "if ?tcb \<noteq> 0 then upd_pthread t (\<lambda>x. x\<lparr>p_tcb := 0\<rparr>) s0 else s0"
  from assms(2) obtain x y r where e: "h (Thread_terminate ?kt) s0 = Some ((OK, x, y), s0)"
    "h (Dl_deallocate_tls ?tcb) s0 = Some (r, s0)" unfolding reuse_ok_def by blast
  have "run (pthread_alloc k n mx self) h s = Done (OK, t) (initialized t True ?s1)"
    using assms(1) e by (simp add: pthread_alloc_def run_simps pthread_thread_halt_def run_initialize)
  moreover have "new_struct (initialized t True ?s1) t"
    using assms(3) by (intro initialized_new) auto
  moreover have "threads_inv ?s1 = threads_inv s0"
    by (simp add: threads_inv_def idle_rwlock_def)
  ultimately show ?thesis
    by (intro exI [of _ "initialized t True ?s1"])
      (simp add: initialized_frame initialized_links)
qed

lemma run_alloc_fresh:
  assumes "run (pthread_alloc_recycle n self) h s = Done None s" and "threads_inv s" and "malloc_ok h"
  shows "\<exists>e t s1. run (pthread_alloc (Suc k) n mx self) h s = Done (e, t) s1 \<and> threads_inv s1 \<and>
    (if e = OK then new_struct s1 t \<and> num_threads s1 = num_threads s + 1 \<and>
       p_thread (pthreads s1 t) = num_threads s1 \<and>
       (\<forall>i < nat (num_threads s). threads_tab s1 ! i = threads_tab s ! i)
     else e \<in> {EAGAIN, ENOMEM} \<and> num_threads s1 = num_threads s \<and> threads_tab s1 = threads_tab s) \<and>
    (\<forall>u. u \<noteq> t \<longrightarrow> pthreads s1 u = pthreads s u)"
proof -
  from assms(3) obtain e p x where m: "h Malloc s = Some ((e, p, x), s)"
    unfolding malloc_ok_def by metis
  let ?t = "nat p" and ?i = "initialized (nat p) False s"
  have inv: "threads_inv ?i" using assms(2) by (simp add: initialized_frame)
  from run_alloc_slot [OF inv assms(3), of k n mx self ?t] obtain e1 s1
    where r: "run (alloc_slot (Suc k) n mx self ?t) h ?i = Done e1 s1"
      "if e1 = OK then got_slot ?t ?i s1 else e1 \<in> {EAGAIN, ENOMEM} \<and> s1 = ?i" by blast
  show ?thesis
  proof (cases "p = 0")
    case True
    with assms(1,2) m show ?thesis
      by (intro exI [of _ ENOMEM] exI [of _ 0] exI [of _ s])
        (simp add: pthread_alloc_def run_simps del: alloc_slot.simps)
  next
    case False
    with assms(1) m r(1) have run: "run (pthread_alloc (Suc k) n mx self) h s = Done (e1, ?t) s1"
      by (simp add: pthread_alloc_def run_simps run_initialize del: alloc_slot.simps)
    have "new_struct ?i ?t" by (rule initialized_new) simp
    show ?thesis
    proof (cases "e1 = OK")
      case True
      with r(2) have g: "got_slot ?t ?i s1" by simp
      with \<open>new_struct ?i ?t\<close> have "new_struct s1 ?t" by (simp add: new_struct_def got_slot_def)
      with run g True show ?thesis
        by (intro exI [of _ OK] exI [of _ ?t] exI [of _ s1])
          (simp add: got_slot_def initialized_frame)
    next
      case False
      with run r(2) inv show ?thesis
        by (intro exI [of _ e1] exI [of _ ?t] exI [of _ s1]) (auto simp: initialized_frame)
    qed
  qed
qed

text \<open>
  C17: Allocating a thread structure.  If a structure on the free list is marked as terminated, the first such one
  is taken off the list and reused with the identifier it has; structures before it, whose threads are still on their way out,
  are passed over.  This needs that the kernel accepts the termination of the kernel thread of that structure,
  which it may have terminated before.  Otherwise the new structure gets the
  number of identifiers used so far plus one, which no other thread has had, and the table, enlarged if
  necessary, keeps all its entries; or the allocation fails with \<^verbatim>\<open>EAGAIN\<close> or \<^verbatim>\<open>ENOMEM\<close> and the table
  is as before.  The cancellation state of the structure is reset and no other structure is touched.
\<close>

theorem alloc_gives_own_id:
  assumes "threads_inv s" and "idle_mutex s Free_threads_lock" and "queues s Q"
    and "malloc_ok h" and "reuse_ok h ((\<lambda>u. p_kernel_thread (pthreads s u)) ` set (Q Free_threads))"
    and "length (Q Free_threads) \<le> n" and "0 < k"
  shows "\<exists>e t s1. run (pthread_alloc k n mx self) h s = Done (e, t) s1 \<and> threads_inv s1 \<and>
    (case filter (is_terminated s) (Q Free_threads) of
       u # us \<Rightarrow>
         e = OK \<and> t = u \<and> new_struct s1 t \<and> chain (cell s1) (prevp s1) Free_threads (removeAll t (Q Free_threads)) \<and>
         num_threads s1 = num_threads s \<and>
         threads_tab s1 = threads_tab s \<and> p_thread (pthreads s1 t) = p_thread (pthreads s t)
     | [] \<Rightarrow>
         if e = OK then
           new_struct s1 t \<and> num_threads s1 = num_threads s + 1 \<and>
           p_thread (pthreads s1 t) = num_threads s1 \<and>
           (\<forall>i < nat (num_threads s). threads_tab s1 ! i = threads_tab s ! i)
         else e \<in> {EAGAIN, ENOMEM} \<and> num_threads s1 = num_threads s \<and> threads_tab s1 = threads_tab s) \<and>
    (\<forall>u. u \<noteq> t \<longrightarrow> pthreads s1 u = pthreads s u)"
proof (cases "filter (is_terminated s) (Q Free_threads)")
  case Nil
  obtain k' where k: "k = Suc k'" using assms(7) by (cases k) auto
  from Nil have "\<forall>u\<in>set (Q Free_threads). \<not> is_terminated s u" by (simp add: filter_empty_conv)
  from run_alloc_fresh [OF run_recycle_none [OF assms(2,3) this assms(6)] assms(1,4)] show ?thesis
    using Nil by (simp add: k)
next
  case (Cons t ts)
  then obtain us vs where q: "Q Free_threads = us @ t # vs" "\<forall>u\<in>set us. \<not> is_terminated s u" "is_terminated s t"
    by (auto simp: filter_eq_Cons_iff)
  with assms(6) have "length us < n" by simp
  from run_recycle_some [OF assms(2,3) q this] obtain c v
    where r: "run (pthread_alloc_recycle n self) h s = Done (Some t) (s\<lparr>cell := c, prevp := v\<rparr>)"
      "linked c v (Q(Free_threads := us @ vs))" "v t = None" by blast
  let ?s0 = "s\<lparr>cell := c, prevp := v\<rparr>"
  have "distinct (Q Free_threads)" using linked_distinct [OF assms(3), of Free_threads] by simp
  then have rem: "removeAll t (Q Free_threads) = us @ vs" using q(1) by (simp add: removeAll_distinct_split)
  have "Q (Reader_queue Threads_lock) = []" "Q (Writer_queue Threads_lock) = []"
    using wq.first_view [OF assms(3), of "Reader_queue Threads_lock"]
      wq.first_view [OF assms(3), of "Writer_queue Threads_lock"] assms(1)
    by (auto simp: threads_inv_def idle_rwlock_def split: list.splits)
  then have "c (Reader_queue Threads_lock) = None" "c (Writer_queue Threads_lock) = None"
    using wq.first_view [of ?s0 "Q(Free_threads := us @ vs)"] r(2) by simp_all
  then have "threads_inv ?s0" using assms(1) by (simp add: threads_inv_def idle_rwlock_def)
  moreover have "prevp ?s0 t = None" "reuse_ok h {p_kernel_thread (pthreads ?s0 t)}"
    using r(3) assms(5) q(1) by (auto simp: reuse_ok_def)
  note a = run_alloc_reuse [OF r(1) this(2,1), of k mx]
  moreover have "chain (c(Mutex_queue (Cancel_lock t) := None)) v Free_threads (us @ vs)"
    using linkedD(1) [OF r(2), of Free_threads] by (auto intro: chain_cong [of c v])
  ultimately show ?thesis using Cons by (auto simp: rem)
qed

definition alloc_env :: "pt_state env" where
  "alloc_env c s = (case c of Malloc \<Rightarrow> Some ((OK, 7, 0), s) | _ \<Rightarrow> Some ((OK, 0, 0), s))"

text \<open>Two identifiers are in use, and structure 2 is free.\<close>

definition one_free :: pt_state where
  "one_free = upd_pthread 2 (\<lambda>x. x\<lparr>p_state := PTHREAD_TERMINATED, p_thread := 2\<rparr>)
     (zero_state\<lparr>threads_tab := [Some 1, None], num_threads := 2, max_threads := 2,
        cell := (\<lambda>_. None)(Free_threads := Some 2), prevp := (\<lambda>_. None)(2 := Some Free_threads)\<rparr>)"

lemma one_free_simps:
  "threads_inv one_free" "idle_mutex one_free Free_threads_lock"
  "queues one_free ((\<lambda>_. [])(Free_threads := [2]))"
  by (auto simp: one_free_def threads_inv_def idle_rwlock_def idle_mutex_def unlocked_def known_type_def
      mutex_type_of_def resolve_attr_def linked_def intro!: exI [of _ Free_threads])

text \<open>For the witness: of the two structures on the free list, the first is not yet marked as terminated.\<close>

definition two_free :: pt_state where
  "two_free = the (pthread_enqueue Free_threads 3 one_free)"

lemma two_free_eq: "pthread_enqueue Free_threads 3 one_free = Some two_free"
  by (simp add: two_free_def pthread_enqueue_def one_free_def)

lemma two_free_simps:
  "threads_inv two_free" "idle_mutex two_free Free_threads_lock"
  "queues two_free ((\<lambda>_. [])(Free_threads := [3, 2]))"
  "is_terminated two_free 2" "\<not> is_terminated two_free 3"
proof -
  show "queues two_free ((\<lambda>_. [])(Free_threads := [3, 2]))"
    using wq.enq_ok [OF one_free_simps(3), of Free_threads 3] two_free_eq by (simp add: one_free_def)
qed (simp_all add: two_free_def pthread_enqueue_def one_free_def threads_inv_def idle_rwlock_def idle_mutex_def
    unlocked_def known_type_def mutex_type_of_def resolve_attr_def zero_pthread_def)

theorem alloc_gives_own_id_witness:
  "\<exists>s1. run (pthread_alloc 1 2 None 1) alloc_env two_free = Done (OK, 2) s1 \<and> threads_inv s1 \<and>
    new_struct s1 2 \<and> chain (cell s1) (prevp s1) Free_threads [3] \<and> num_threads s1 = num_threads two_free \<and>
    threads_tab s1 = threads_tab two_free \<and> p_thread (pthreads s1 2) = p_thread (pthreads two_free 2)"
  using alloc_gives_own_id [OF two_free_simps(1-3), of alloc_env 2 1 None 1] two_free_simps(4,5)
  by (auto simp: malloc_ok_def reuse_ok_def alloc_env_def)

section \<open>Segment descriptors\<close>

text \<open>The fields of a segment descriptor, as the processor reads them from its two words.\<close>

definition desc_base :: "32 word \<times> 32 word \<Rightarrow> 32 word" where
  "desc_base d = drop_bit 16 (fst d) OR push_bit 16 (snd d AND 0xff) OR (snd d AND 0xff000000)"

definition desc_limit :: "32 word \<times> 32 word \<Rightarrow> 32 word" where
  "desc_limit d = (fst d AND 0xffff) OR (snd d AND 0xf0000)"

definition desc_flags :: "32 word \<times> 32 word \<Rightarrow> 32 word" where
  "desc_flags d = drop_bit 8 (snd d) AND 0xf0ff"

lemma desc_masks:
  "(0xffff :: 32 word) = mask 16" "(0xff :: 32 word) = mask 8" "(0xff000000 :: 32 word) = push_bit 24 (mask 8)"
  "(0xf0000 :: 32 word) = push_bit 16 (mask 4)" "(0xf0ff :: 32 word) = mask 8 OR push_bit 12 (mask 4)"
  by (simp_all add: mask_eq_exp_minus_1 push_bit_eq_mult)

lemma tls_desc_words:
  "fst (hurd_tls_desc t) = mask 16 OR push_bit 16 t"
  "snd (hurd_tls_desc t) = (drop_bit 16 t AND mask 8) OR 0xcff200 OR (t AND push_bit 24 (mask 8))"
proof -
  have c: "push_bit 8 (0x12 OR 0x60 OR 0x80) OR (push_bit 16 0xf OR push_bit 20 (4 OR 8)) = (0xcff200 :: 32 word)"
    by simp
  have "snd (hurd_tls_desc t) = (drop_bit 16 t AND 0xff) OR
      (push_bit 8 (0x12 OR 0x60 OR 0x80) OR (push_bit 16 0xf OR push_bit 20 (4 OR 8))) OR (t AND 0xff000000)"
    by (simp only: hurd_tls_desc_def snd_conv or.assoc)
  then show "snd (hurd_tls_desc t) = (drop_bit 16 t AND mask 8) OR 0xcff200 OR (t AND push_bit 24 (mask 8))"
    unfolding c desc_masks(2,3) .
qed (simp add: hurd_tls_desc_def desc_masks(1))

lemma tls_desc_consts:
  "(0xcff200 :: 32 word) AND mask 8 = 0" "(0xcff200 :: 32 word) AND push_bit 24 (mask 8) = 0"
  "(0xcff200 :: 32 word) AND push_bit 16 (mask 4) = push_bit 16 (mask 4)"
  by (simp_all flip: desc_masks)

lemma tls_desc_flags: "desc_flags (hurd_tls_desc t) = 0xc0f2"
proof -
  have c: "drop_bit 8 (0xcff200 :: 32 word) AND (mask 8 OR push_bit 12 (mask 4)) = 0xc0f2"
    unfolding desc_masks(5) [symmetric] by simp
  have "drop_bit 8 (drop_bit 16 t AND mask 8) = 0"
    "drop_bit 8 (t AND push_bit 24 (mask 8)) AND (mask 8 OR push_bit 12 (mask 4)) = 0"
    by (rule bit_word_eqI; auto simp: bit_simps)+
  then show ?thesis
    unfolding desc_flags_def tls_desc_words desc_masks drop_bit_or bit.conj_disj_distrib2 c by simp
qed

lemma tls_desc_limit: "desc_limit (hurd_tls_desc t) = 0xfffff"
proof -
  have "desc_limit (hurd_tls_desc t) = mask 20"
    unfolding desc_limit_def tls_desc_words desc_masks bit.conj_disj_distrib2 tls_desc_consts
    by (rule bit_word_eqI) (auto simp: bit_simps)
  then show ?thesis by (simp add: mask_eq_exp_minus_1)
qed

text \<open>
  The segment descriptor that is installed for a thread describes its thread control block: the processor reads
  exactly the address of the block as the base, for every address, and otherwise a writable data
  segment of user level that is present and spans 4 GB in pages.
\<close>

theorem tls_descriptor:
  "desc_base (hurd_tls_desc tcb) = tcb \<and> desc_limit (hurd_tls_desc tcb) = 0xfffff \<and>
   desc_flags (hurd_tls_desc tcb) = 0xc0f2"
proof -
  have "desc_base (hurd_tls_desc tcb) = tcb"
    unfolding desc_base_def tls_desc_words desc_masks bit.conj_disj_distrib2 tls_desc_consts
    by (rule bit_word_eqI) (auto simp: bit_simps)
  with tls_desc_limit tls_desc_flags show ?thesis by blast
qed

end
