(* ===== verification/Life.thy ===== *)
theory Life
  imports Cancel Thread_Props
begin

text \<open>
  Properties of the life of threads: exiting, joining, cancelling and waiting on a condition.
\<close>

section \<open>Exit\<close>

lemma run_cancel_locked:
  assumes "idle_mutex s (Cancel_lock t)" and "f (acquired (Cancel_lock t) t s) =
      (Inr x, acquired (Cancel_lock t) t s1)" and "idle_mutex s1 (Cancel_lock t)"
  shows "run (cancel_locked t (section_of (\<lambda>_. True) f)) h s = Done x s1"
  unfolding cancel_locked_def
  by (rule mutex_lock.bracketed [OF assms(1) _ assms(3)]) (simp add: run_simps assms(2))

lemma idle_mutex_pthreads [simp]: "idle_mutex (s\<lparr>pthreads := p\<rparr>) m = idle_mutex s m"
  by (simp add: idle_mutex_def unlocked_def known_type_def mutex_type_of_def)

lemma idle_mutex_total [simp]: "idle_mutex (s\<lparr>total_threads := n\<rparr>) m = idle_mutex s m"
  by (simp add: idle_mutex_def unlocked_def known_type_def mutex_type_of_def)

lemma run_setcancelstate:
  assumes "idle_mutex s (Cancel_lock t)" and "v \<in> {PTHREAD_CANCEL_ENABLE, PTHREAD_CANCEL_DISABLE}"
  shows "run (pthread_setcancelstate t v) h s =
    Done (OK, Some (p_cancel_state (pthreads s t))) (upd_pthread t (\<lambda>x. x\<lparr>p_cancel_state := v\<rparr>) s)"
proof -
  let ?f = "\<lambda>s. (Inr (OK, Some (p_cancel_state (pthreads s t))), upd_pthread t (\<lambda>x. x\<lparr>p_cancel_state := v\<rparr>) s)"
  have "run (cancel_locked t (section_of (\<lambda>_. True) ?f)) h s =
      Done (OK, Some (p_cancel_state (pthreads s t))) (upd_pthread t (\<lambda>x. x\<lparr>p_cancel_state := v\<rparr>) s)"
    by (rule run_cancel_locked [OF assms(1)]) (use assms(1) in \<open>simp_all add: acquired_eq\<close>)
  with assms(2) show ?thesis by (auto simp: pthread_setcancelstate_def)
qed

text \<open>The cleanup handlers are functions of the program that do not touch the library's variables.\<close>

definition handlers_ok :: "pt_state env \<Rightarrow> cleanup list \<Rightarrow> bool" where
  "handlers_ok h hs \<longleftrightarrow> (\<forall>c\<in>set hs. case c of
     Cleanup_call f a \<Rightarrow> \<forall>s. \<exists>r. h (Callback f a) s = Some (r, s) | Cleanup_unlock m \<Rightarrow> False)"

definition set_handlers :: "thr \<Rightarrow> cleanup list \<Rightarrow> pt_state \<Rightarrow> pt_state" where
  "set_handlers t hs s = upd_pthread t (\<lambda>x. x\<lparr>p_cancelation_handlers := hs\<rparr>) s"

lemma set_handlers_twice [simp]: "set_handlers t hs (set_handlers t gs s) = set_handlers t hs s"
  by (simp add: set_handlers_def)

lemma set_handlers_same: "p_cancelation_handlers (pthreads s t) = hs \<Longrightarrow> set_handlers t hs s = s"
  by (auto simp: set_handlers_def fun_eq_iff intro!: pt_state.equality)

lemma run_run_handlers:
  "p_cancelation_handlers (pthreads s t) = hs \<Longrightarrow> handlers_ok h hs \<Longrightarrow> length hs < m \<Longrightarrow>
   run (run_handlers m t) h s = Done () (set_handlers t [] s)"
proof (induction hs arbitrary: s m)
  case Nil
  then obtain m' where "m = Suc m'" by (cases m) auto
  with Nil show ?case by (simp add: run_simps pthread_get_cleanup_stack_def set_handlers_same)
next
  case (Cons c hs)
  then obtain m' where m: "m = Suc m'" by (cases m) auto
  from Cons.prems(2) obtain f a where c: "c = Cleanup_call f a"
    by (cases c) (auto simp: handlers_ok_def)
  with Cons.prems(2) have "\<exists>r. h (Callback f a) s = Some (r, s)" by (simp add: handlers_ok_def)
  then obtain r where "h (Callback f a) s = Some (r, s)" by blast
  moreover have "run (run_handlers m' t) h (set_handlers t hs s) = Done () (set_handlers t [] s)"
    using Cons.IH [of "set_handlers t hs s" m'] Cons.prems m
    by (simp add: handlers_ok_def) (simp add: set_handlers_def)
  ultimately show ?case
    using Cons.prems(1) m c
    by (simp add: run_simps pthread_get_cleanup_stack_def call_handler_def set_handlers_def)
qed

text \<open>
  A thread that may exit: its locks are free, its cancellation state is one of the two values, it has
  no thread-specific data left, and its cleanup handlers are as above.
\<close>

definition may_exit :: "pt_state env \<Rightarrow> pt_config \<Rightarrow> thr \<Rightarrow> pt_state \<Rightarrow> bool" where
  "may_exit h cf t s \<longleftrightarrow>
     idle_mutex s (Cancel_lock t) \<and> idle_mutex s (State_lock t) \<and>
     p_cancel_state (pthreads s t) \<in> {PTHREAD_CANCEL_ENABLE, PTHREAD_CANCEL_DISABLE} \<and>
     p_thread_specifics (pthreads s t) = 0 \<and>
     handlers_ok h (p_cancelation_handlers (pthreads s t)) \<and>
     length (p_cancelation_handlers (pthreads s t)) < cf_handlers cf"

text \<open>The state in which the exit decrements the number of threads.\<close>

definition cleaned :: "thr \<Rightarrow> pt_state \<Rightarrow> pt_state" where
  "cleaned t s = (set_handlers t [] s)\<lparr>total_threads := total_threads s - 1\<rparr>"

lemma run_pthread_exit:
  assumes "may_exit h cf t s"
  shows "run (pthread_exit cf t status) h s =
    (if total_threads s = 1 then Failed (Process_exit 0) (cleaned t s)
     else run (andthen (exit_state cf t status) (\<lambda>_.
            andthen (pthread_thread_halt t) (\<lambda>_. Crash Assert_failed))) h (cleaned t s))"
proof -
  let ?v = "p_cancel_state (pthreads s t)"
  let ?d = "upd_pthread t (\<lambda>x. x\<lparr>p_cancel_state := PTHREAD_CANCEL_DISABLE\<rparr>) s"
  have i: "idle_mutex s (Cancel_lock t)" and v: "?v \<in> {PTHREAD_CANCEL_ENABLE, PTHREAD_CANCEL_DISABLE}"
    using assms by (auto simp: may_exit_def)
  have r1: "run (pthread_setcancelstate t PTHREAD_CANCEL_DISABLE) h s = Done (OK, Some ?v) ?d"
    using run_setcancelstate [OF i] by simp
  have r2: "run (run_handlers (cf_handlers cf) t) h ?d = Done () (set_handlers t [] ?d)"
    using assms by (intro run_run_handlers) (auto simp: may_exit_def)
  have "idle_mutex (set_handlers t [] ?d) (Cancel_lock t)" using i by (simp add: set_handlers_def)
  moreover have "upd_pthread t (\<lambda>x. x\<lparr>p_cancel_state := ?v\<rparr>) (set_handlers t [] ?d) = set_handlers t [] s"
    by (auto simp: set_handlers_def intro!: pt_state.equality)
  ultimately have r3: "\<exists>x. run (pthread_setcancelstate t ?v) h (set_handlers t [] ?d) =
      Done (OK, x) (set_handlers t [] s)"
    using run_setcancelstate [OF _ v, of "set_handlers t [] ?d"] by auto
  have "p_thread_specifics (pthreads (set_handlers t [] s) t) = 0" "total_threads (set_handlers t [] s) = total_threads s"
    using assms by (simp_all add: may_exit_def set_handlers_def)
  with r1 r2 r3 show ?thesis
    by (auto simp: pthread_exit_def run_simps pthread_destroy_specific_def pthread_sigstate_destroy_def
        atomic_dec_and_test_def cleaned_def)
qed

lemma cond_inv_acquired [simp]: "cond_inv (acquired m t s) Q c = cond_inv s Q c"
  by (simp add: cond_inv_def acquired_eq)

lemma broadcasted_acquired: "broadcasted c ts (acquired m t s) = acquired m t (broadcasted c ts s)"
  by (simp add: broadcasted_def woken_def acquired_eq cong: if_cong)

definition exited :: "thr \<Rightarrow> int \<Rightarrow> pt_state \<Rightarrow> pt_state" where
  "exited t status s = upd_pthread t (\<lambda>x. x\<lparr>p_state := PTHREAD_EXITED, p_status := status\<rparr>) s"

lemma run_exit_state_joinable:
  assumes "idle_mutex s (State_lock t)" and "p_state (pthreads s t) = PTHREAD_JOINABLE"
    and "cond_inv s Q (State_cond t)" and "mach_ports h"
    and "\<And>u. u \<in> set (Q (Cond_queue (State_cond t))) \<Longrightarrow> kmsgs s u = 0"
    and "length (Q (Cond_queue (State_cond t))) \<le> cf_queue cf"
  shows "run (exit_state cf t status) h s = Done ()
    (broadcasted (State_cond t) (Q (Cond_queue (State_cond t))) (exited t (exit_status t status s) s))"
proof -
  let ?m = "State_lock t" and ?ts = "Q (Cond_queue (State_cond t))"
  let ?e = "exited t (exit_status t status s) s"
  let ?b = "broadcasted (State_cond t) ?ts ?e"
  have "cond_inv (acquired ?m t ?e) Q (State_cond t)" using assms(3)
    by (simp add: exited_def cond_inv_def acquired_eq)
  moreover have "kmsgs (acquired ?m t ?e) = kmsgs s" by (simp add: acquired_eq exited_def)
  ultimately have r: "run (pthread_cond_broadcast (cf_queue cf) (State_cond t)) h (acquired ?m t ?e) =
      Done OK (acquired ?m t ?b)"
    unfolding broadcasted_acquired [symmetric]
    using assms(5,6) by (intro run_broadcast [OF _ assms(4)]) simp_all
  have "idle_mutex ?b ?m" using assms(1)
    by (simp add: idle_mutex_def unlocked_def known_type_def mutex_type_of_def broadcasted_def woken_def
        exited_def)
  note u = mutex_lock.unlock_taken [OF this, of t h]
  have e: "(acquired ?m t s)\<lparr>pthreads := (pthreads s)(t := (pthreads s t)\<lparr>p_state := PTHREAD_EXITED,
      p_status := exit_status t status s\<rparr>)\<rparr> = acquired ?m t ?e"
    by (simp add: exited_def acquired_eq)
  have p: "pthreads (acquired ?m t s) = pthreads s"
      "exit_status t status (acquired ?m t s) = exit_status t status s"
    by (simp_all add: acquired_eq exit_status_def)
  show ?thesis
    using assms(2) by (simp add: exit_state_def run_simps mutex_lock.lock_free [OF assms(1)] p e r u)
qed

text \<open>The state in which a joinable thread leaves, \<open>ts\<close> being the threads that wait to join it.\<close>

definition left_by :: "thr \<Rightarrow> int \<Rightarrow> thr list \<Rightarrow> pt_state \<Rightarrow> pt_state" where
  "left_by t status ts s = broadcasted (State_cond t) ts (exited t status (cleaned t s))"

lemma left_by_simps:
  "p_state (pthreads (left_by t status ts s) t) = PTHREAD_EXITED"
  "p_status (pthreads (left_by t status ts s) t) = status"
  "p_cancelation_handlers (pthreads (left_by t status ts s) t) = []"
  "p_kernel_thread (pthreads (left_by t status ts s) t) = p_kernel_thread (pthreads s t)"
  "p_stack (pthreads (left_by t status ts s) t) = p_stack (pthreads s t)"
  "p_thread (pthreads (left_by t status ts s) t) = p_thread (pthreads s t)"
  "u \<noteq> t \<Longrightarrow> pthreads (left_by t status ts s) u = pthreads s u"
  "total_threads (left_by t status ts s) = total_threads s - 1"
  "threads_tab (left_by t status ts s) = threads_tab s" "num_threads (left_by t status ts s) = num_threads s"
  "kmsgs (left_by t status ts s) = (\<lambda>u. if u \<in> set ts then 1 else kmsgs s u)"
  "idle_mutex (left_by t status ts s) m = idle_mutex s m"
  "threads_inv (left_by t status ts s) = threads_inv s"
  by (simp_all add: left_by_def broadcasted_def woken_def exited_def cleaned_def set_handlers_def
      idle_mutex_def unlocked_def known_type_def mutex_type_of_def threads_inv_def idle_rwlock_def cong: if_cong)

lemma left_by_inv:
  assumes "cond_inv s Q (State_cond t)"
  shows "cond_inv (left_by t status (Q (Cond_queue (State_cond t))) s) (Q(Cond_queue (State_cond t) := [])) (State_cond t)"
  unfolding left_by_def
  by (rule broadcasted_inv) (use assms in \<open>simp add: exited_def cond_inv_def cleaned_def set_handlers_def\<close>)

lemma run_exit_joinable:
  assumes "may_exit h cf t s" and "p_state (pthreads s t) = PTHREAD_JOINABLE"
    and "cond_inv s Q (State_cond t)" and "mach_ports h"
    and "\<And>u. u \<in> set (Q (Cond_queue (State_cond t))) \<Longrightarrow> kmsgs s u = 0"
    and "length (Q (Cond_queue (State_cond t))) \<le> cf_queue cf"
    and "\<And>s'. h (Thread_terminate (p_kernel_thread (pthreads s t))) s' = None" and "total_threads s \<noteq> 1"
  shows "\<exists>p. run (pthread_exit cf t status :: unit pt) h s =
    Waiting p (left_by t (exit_status t status s) (Q (Cond_queue (State_cond t))) s)"
proof -
  let ?c = "State_cond t" and ?ts = "Q (Cond_queue (State_cond t))" and ?s = "cleaned t s"
  let ?b = "left_by t (exit_status t status s) ?ts s"
  have i: "idle_mutex ?s (State_lock t)" and c: "cond_inv ?s Q ?c"
    using assms(1,3) by (simp_all add: may_exit_def cleaned_def set_handlers_def cond_inv_def)
  have "exit_status t status ?s = exit_status t status s"
    by (simp add: exit_status_def cleaned_def set_handlers_def)
  moreover have "run (exit_state cf t status) h ?s = Done () (broadcasted ?c ?ts (exited t (exit_status t status ?s) ?s))"
    using assms(2,5,6) by (intro run_exit_state_joinable [OF i _ c assms(4)])
      (simp_all add: cleaned_def set_handlers_def)
  ultimately have "run (exit_state cf t status) h ?s = Done () ?b" by (simp add: left_by_def)
  then show ?thesis
    using assms(7,8) by (simp add: run_pthread_exit [OF assms(1)] run_simps pthread_thread_halt_def left_by_simps)
qed

text \<open>
  The exit of a joinable thread.  If it is the last thread, the process exits with 0.  Otherwise
  its cleanup handlers have run, its state is that of an exited thread with its status (or
  \<^verbatim>\<open>PTHREAD_CANCELED\<close> if a cancellation is pending and enabled), the number of threads is one less, every
  thread waiting to join it has been taken off the queue and sent exactly one wakeup message, its locks
  are free, and it is in the call that terminates it.
\<close>

theorem exit_of_joinable:
  assumes "may_exit h cf t s" and "p_state (pthreads s t) = PTHREAD_JOINABLE"
    and "cond_inv s Q (State_cond t)" and "mach_ports h"
    and "\<And>u. u \<in> set (Q (Cond_queue (State_cond t))) \<Longrightarrow> kmsgs s u = 0"
    and "length (Q (Cond_queue (State_cond t))) \<le> cf_queue cf"
    and "\<And>s'. h (Thread_terminate (p_kernel_thread (pthreads s t))) s' = None"
  shows "if total_threads s = 1
    then \<exists>s1. run (pthread_exit cf t status :: unit pt) h s = Failed (Process_exit 0) s1
    else \<exists>p s1. run (pthread_exit cf t status :: unit pt) h s = Waiting p s1 \<and>
      p_state (pthreads s1 t) = PTHREAD_EXITED \<and>
      p_status (pthreads s1 t) = exit_status t status s \<and>
      p_cancelation_handlers (pthreads s1 t) = [] \<and> total_threads s1 = total_threads s - 1 \<and>
      cond_inv s1 (Q(Cond_queue (State_cond t) := [])) (State_cond t) \<and>
      kmsgs s1 = (\<lambda>u. if u \<in> set (Q (Cond_queue (State_cond t))) then 1 else kmsgs s u) \<and>
      idle_mutex s1 (State_lock t) \<and> idle_mutex s1 (Cancel_lock t)"
proof (cases "total_threads s = 1")
  case True
  then show ?thesis using run_pthread_exit [OF assms(1), of status] by auto
next
  case False
  from run_exit_joinable [OF assms False] obtain p where
    "run (pthread_exit cf t status :: unit pt) h s =
      Waiting p (left_by t (exit_status t status s) (Q (Cond_queue (State_cond t))) s)" by blast
  moreover have "idle_mutex s (State_lock t)" "idle_mutex s (Cancel_lock t)" using assms(1) by (simp_all add: may_exit_def)
  ultimately show ?thesis using False left_by_inv [OF assms(3)] by (auto simp: left_by_simps)
qed

text \<open>For the witness: thread 1 exits with one cleanup handler; threads 2 and 3 wait to join it.\<close>

definition life_config :: pt_config where
  "life_config = \<lparr>cf_threads_max = None, cf_vm_min = 0x1000, cf_vm_max = 0x1000000, cf_threadvar_max = 12,
     cf_entry_point = 0x8000, cf_call_exit = 0x9000, cf_stack_default_size = None, cf_init_hooks = [], cf_tries = 2,
     cf_queue = 8, cf_pages = 20, cf_rounds = 2, cf_keys = 2, cf_handlers = 2\<rparr>"

definition life_env :: "pt_state env" where
  "life_env c s =
     (case c of
        Mach_send t \<Rightarrow> port0 c s
      | Mach_recv t \<Rightarrow> port0 c s
      | Mach_recv_timeout t ms \<Rightarrow> port0 c s
      | Thread_terminate k \<Rightarrow> (if k = 1 then None else Some ((OK, 0, 0), s))
      | _ \<Rightarrow> Some ((OK, 0, 0), s))"

lemma life_env_ports: "mach_ports life_env"
  using mach_ports_port_env [of "\<lparr>tv_sec = 1, tv_nsec = 0\<rparr>"] by (simp add: mach_ports_def life_env_def)

definition exiting :: pt_state where
  "exiting = upd_pthread 1 (\<lambda>x. x\<lparr>p_kernel_thread := 1, p_cancelation_handlers := [Cleanup_call 5 6]\<rparr>)
     (zero_state\<lparr>total_threads := 3,
       cell := (\<lambda>_. None)(Cond_queue (State_cond 1) := Some 3, Next 3 := Some 2),
       prevp := (\<lambda>_. None)(3 := Some (Cond_queue (State_cond 1)), 2 := Some (Next 3))\<rparr>)"

lemma exiting_inv:
  "cond_inv exiting ((\<lambda>_. [])(Cond_queue (State_cond 1) := [3, 2])) (State_cond 1)"
  by (auto simp: cond_inv_def exiting_def linked_def intro!: exI [of _ "Cond_queue (State_cond 1)"]
      elim!: is_head.elims)

lemma exiting_may_exit: "may_exit life_env life_config 1 exiting"
  by (simp add: may_exit_def exiting_def idle_mutex_def unlocked_def known_type_def mutex_type_of_def
      resolve_attr_def handlers_ok_def life_env_def life_config_def zero_pthread_def pthread_consts)

theorem exit_of_joinable_witness:
  "if total_threads exiting = 1
    then \<exists>s1. run (pthread_exit life_config 1 42 :: unit pt) life_env exiting = Failed (Process_exit 0) s1
    else \<exists>p s1. run (pthread_exit life_config 1 42 :: unit pt) life_env exiting = Waiting p s1 \<and>
      p_state (pthreads s1 1) = PTHREAD_EXITED \<and>
      p_status (pthreads s1 1) = exit_status 1 42 exiting \<and>
      p_cancelation_handlers (pthreads s1 1) = [] \<and> total_threads s1 = total_threads exiting - 1 \<and>
      cond_inv s1 (((\<lambda>_. [])(Cond_queue (State_cond 1) := [3, 2]))(Cond_queue (State_cond 1) := []))
        (State_cond 1) \<and>
      kmsgs s1 = (\<lambda>u. if u \<in> set (((\<lambda>_. [])(Cond_queue (State_cond 1) := [3, 2]))
        (Cond_queue (State_cond 1))) then 1 else kmsgs exiting u) \<and>
      idle_mutex s1 (State_lock 1) \<and> idle_mutex s1 (Cancel_lock 1)"
  by (rule exit_of_joinable [OF exiting_may_exit _ exiting_inv life_env_ports])
    (simp_all add: exiting_def life_config_def life_env_def zero_pthread_def)

section \<open>Joining\<close>

lemma linked_other:
  assumes "linked c v Q" and "linked c' v' (Q(l := ts))" and "is_head l'" and "l' \<noteq> l"
  shows "c' l' = c l'"
proof -
  let ?s = "zero_state\<lparr>cell := c, prevp := v\<rparr>" and ?s' = "zero_state\<lparr>cell := c', prevp := v'\<rparr>"
  from wq.first_view [of ?s Q l'] wq.first_view [of ?s' "Q(l := ts)" l'] assms show ?thesis by simp
qed

lemma idle_other_links:
  assumes "queues s Q" and "linked c v (Q(Free_threads := ts))"
  shows "idle_mutex (s\<lparr>cell := c, prevp := v\<rparr>) m = idle_mutex s m"
    and "idle_rwlock (s\<lparr>cell := c, prevp := v\<rparr>) r = idle_rwlock s r"
  using linked_other [OF assms]
  by (simp_all add: idle_mutex_def unlocked_def known_type_def mutex_type_of_def idle_rwlock_def)

text \<open>The state after the structure of an exited thread has been put on the free list.\<close>

definition freed :: "thr \<Rightarrow> (loc \<Rightarrow> thr option) \<Rightarrow> (thr \<Rightarrow> loc option) \<Rightarrow> pt_state \<Rightarrow> pt_state" where
  "freed t c v s =
     s\<lparr>threads_tab := (threads_tab s)[nat (p_thread (pthreads s t) - 1) := None], cell := c, prevp := v,
       pthreads := (pthreads s)(t := (pthreads s t)\<lparr>p_state := PTHREAD_TERMINATED\<rparr>)\<rparr>"

lemma run_free_list:
  assumes "idle_mutex s Free_threads_lock" and "queues s Q" and "\<not> queued s t"
  shows "\<exists>c v. run (bracket (pthread_mutex_lock Free_threads_lock self)
        (pthread_mutex_unlock Free_threads_lock self)
        (section_of (\<lambda>_. True) (\<lambda>s. case pthread_enqueue Free_threads t s of
           None \<Rightarrow> (Inl Assert_failed, s) | Some s1 \<Rightarrow> (Inr (), s1)))) h s =
      Done () (s\<lparr>cell := c, prevp := v\<rparr>) \<and> linked c v (Q(Free_threads := t # Q Free_threads)) \<and>
    requests (bracket (pthread_mutex_lock Free_threads_lock self)
        (pthread_mutex_unlock Free_threads_lock self)
        (section_of (\<lambda>_. True) (\<lambda>s. case pthread_enqueue Free_threads t s of
           None \<Rightarrow> (Inl Assert_failed, s) | Some s1 \<Rightarrow> (Inr (), s1)))) h s = []"
proof -
  let ?a = "acquired Free_threads_lock self s"
  have q: "queues ?a Q" "\<not> queued ?a t" using assms(2,3) by (simp_all add: acquired_eq)
  from wq.enq_ok [OF q(1) _ q(2), of Free_threads] obtain s0
    where s0: "pthread_enqueue Free_threads t ?a = Some s0" "queues s0 (Q(Free_threads := t # Q Free_threads))"
    by auto
  from pthread_enqueue_frame [OF s0(1)] obtain c v where eq: "s0 = ?a\<lparr>cell := c, prevp := v\<rparr>" by auto
  with s0(2) have l: "linked c v (Q(Free_threads := t # Q Free_threads))" by simp
  have comm: "s0 = acquired Free_threads_lock self (s\<lparr>cell := c, prevp := v\<rparr>)"
    by (simp add: eq acquired_eq)
  have r: "run (section_of (\<lambda>_. True) (\<lambda>s. case pthread_enqueue Free_threads t s of
      None \<Rightarrow> (Inl Assert_failed, s) | Some s1 \<Rightarrow> (Inr (), s1))) h ?a =
      Done () (acquired Free_threads_lock self (s\<lparr>cell := c, prevp := v\<rparr>))"
    using s0(1) comm by (simp add: run_simps)
  have "idle_mutex (s\<lparr>cell := c, prevp := v\<rparr>) Free_threads_lock"
    using assms(1) idle_other_links(1) [OF assms(2) l] by simp
  note b = mutex_lock.bracketed [OF assms(1) r this] mutex_lock.bracketed_requests [OF assms(1) r this]
  show ?thesis
    using l by (intro exI [of _ c] exI [of _ v] conjI) (rule b, assumption, simp add: b(2) requests_simps)
qed

lemma run_dealloc_exited:
  assumes "threads_inv s" and "idle_mutex s Free_threads_lock" and "idle_mutex s (State_lock t)"
    and "queues s Q" and "\<not> queued s t" and "p_state (pthreads s t) = PTHREAD_EXITED"
    and "1 \<le> p_thread (pthreads s t)" and "p_thread (pthreads s t) \<le> num_threads s"
  shows "\<exists>c v. run (pthread_dealloc n self t) h s = Done () (freed t c v s) \<and>
    linked c v (Q(Free_threads := t # Q Free_threads)) \<and> requests (pthread_dealloc n self t) h s = []"
proof -
  let ?i = "p_thread (pthreads s t)"
  let ?s = "s\<lparr>threads_tab := (threads_tab s)[nat (?i - 1) := None]\<rparr>"
  have r1: "run (pthread_setid n self ?i None) h s = Done () ?s"
    using assms(1,7,8) by (intro run_setid) (simp_all add: threads_inv_def)
  have idle: "idle_mutex ?s m = idle_mutex s m" for m
    by (simp add: idle_mutex_def unlocked_def known_type_def mutex_type_of_def)
  let ?body = "andthen (gets (\<lambda>s. p_state (pthreads s t))) (\<lambda>st.
      if st \<noteq> PTHREAD_EXITED then pthread_cond_broadcast n (State_cond t) else Return OK)"
  let ?b = "bracket (pthread_mutex_lock (State_lock t) self) (pthread_mutex_unlock (State_lock t) self) ?body"
  have r2: "run ?b h ?s = Done OK ?s" and q2: "requests ?b h ?s = []"
  proof -
    have i: "idle_mutex ?s (State_lock t)"
      and b: "run ?body h (acquired (State_lock t) self ?s) = Done OK (acquired (State_lock t) self ?s)"
      using assms(3,6) by (simp_all add: idle run_simps acquired_eq)
    show "run ?b h ?s = Done OK ?s" by (rule mutex_lock.bracketed [OF i b i])
    show "requests ?b h ?s = []"
      using assms(6) by (simp add: mutex_lock.bracketed_requests [OF i b i]) (simp add: requests_simps run_simps acquired_eq)
  qed
  from run_free_list [of ?s Q t self h] assms(2,4,5) obtain c v
    where r3: "run (bracket (pthread_mutex_lock Free_threads_lock self)
        (pthread_mutex_unlock Free_threads_lock self)
        (section_of (\<lambda>_. True) (\<lambda>s. case pthread_enqueue Free_threads t s of
           None \<Rightarrow> (Inl Assert_failed, s) | Some s1 \<Rightarrow> (Inr (), s1)))) h ?s =
      Done () (?s\<lparr>cell := c, prevp := v\<rparr>)" "linked c v (Q(Free_threads := t # Q Free_threads))"
      "requests (bracket (pthread_mutex_lock Free_threads_lock self)
        (pthread_mutex_unlock Free_threads_lock self)
        (section_of (\<lambda>_. True) (\<lambda>s. case pthread_enqueue Free_threads t s of
           None \<Rightarrow> (Inl Assert_failed, s) | Some s1 \<Rightarrow> (Inr (), s1)))) h ?s = []"
    by (auto simp: idle)
  have "requests (pthread_setid n self ?i None) h s = []"
    using assms(1,7,8) by (intro setid_quiet) (simp_all add: threads_inv_def)
  then have "requests (pthread_dealloc n self t) h s = []"
    using assms(6) by (simp add: pthread_dealloc_def requests_simps run_simps r1 r2 q2 r3(1,3))
  moreover have "run (pthread_dealloc n self t) h s = Done () (freed t c v s)"
    using assms(6) by (simp add: pthread_dealloc_def run_simps r1 r2 r3(1) freed_def)
  ultimately show ?thesis using r3(2) by blast
qed

text \<open>What joining relies on of the kernel: these calls succeed, without effect on the library.\<close>

definition reap_ok :: "pt_state env \<Rightarrow> bool" where
  "reap_ok h \<longleftrightarrow>
     (\<forall>k s. \<exists>x y. h (Thread_terminate k) s = Some ((OK, x, y), s)) \<and>
     (\<forall>a z s. \<exists>r. h (Vm_deallocate a z) s = Some (r, s)) \<and>
     (\<forall>p s. \<exists>r. h (Mach_port_destroy p) s = Some (r, s))"

text \<open>What is released of a thread that is reaped: its kernel thread, its stack and its wakeup port.\<close>

definition reap_requests :: "pthread \<Rightarrow> syscall list" where
  "reap_requests x =
     [Thread_terminate (p_kernel_thread x), Vm_deallocate (uint (p_stackaddr x)) (uint (p_stacksize x)),
      Mach_port_destroy (p_wakeup_port x)]"

lemma run_reap:
  assumes "reap_ok h" and "threads_inv s" and "idle_mutex s Free_threads_lock"
    and "idle_mutex s (State_lock t)" and "queues s Q" and "\<not> queued s t"
    and "p_state (pthreads s t) = PTHREAD_EXITED" and "p_stack (pthreads s t) \<noteq> 0"
    and "1 \<le> p_thread (pthreads s t)" and "p_thread (pthreads s t) \<le> num_threads s"
  shows "\<exists>c v. run (reap cf self t) h s =
      Done () (freed t c v (upd_pthread t (\<lambda>x. x\<lparr>p_stack := 0\<rparr>) s)) \<and>
    linked c v (Q(Free_threads := t # Q Free_threads)) \<and>
    requests (reap cf self t) h s = reap_requests (pthreads s t)"
proof -
  let ?x = "pthreads s t" and ?s = "upd_pthread t (\<lambda>x. x\<lparr>p_stack := 0\<rparr>) s"
  from assms(1) obtain x y where e1: "h (Thread_terminate (p_kernel_thread ?x)) s = Some ((OK, x, y), s)"
    unfolding reap_ok_def by metis
  from assms(1) obtain r where
    e2: "h (Vm_deallocate (uint (p_stackaddr ?x)) (uint (p_stacksize ?x))) s = Some (r, s)"
    unfolding reap_ok_def by metis
  from assms(1) obtain q where e3: "h (Mach_port_destroy (p_wakeup_port ?x)) ?s = Some (q, ?s)"
    unfolding reap_ok_def by metis
  have inv: "threads_inv ?s" using assms(2) by (simp add: threads_inv_def idle_rwlock_def)
  from run_dealloc_exited [OF inv, of t Q "cf_queue cf" self h] assms(3-7,9,10) obtain c v
    where "run (pthread_dealloc (cf_queue cf) self t) h ?s = Done () (freed t c v ?s)"
      "linked c v (Q(Free_threads := t # Q Free_threads))"
      "requests (pthread_dealloc (cf_queue cf) self t) h ?s = []" by auto
  with e1 e2 e3 assms(8) show ?thesis
    by (intro exI [of _ c] exI [of _ v])
      (simp add: reap_def run_simps requests_simps pthread_thread_halt_def pthread_stack_dealloc_def
        pthread_thread_dealloc_def reap_requests_def)
qed

lemma run_join_missing:
  assumes "idle_rwlock s Threads_lock" and "1 \<le> i" and "i \<le> num_threads s"
    and "threads_tab s ! nat (i - 1) = None"
  shows "run (pthread_join k cf self i) h s = Done (ESRCH, None) s"
  using assms(4) by (simp add: pthread_join_def run_simps run_getid [OF assms(1-3)])

lemma run_join_freed:
  assumes "reap_ok h" and "threads_inv s" and "idle_mutex s Free_threads_lock"
    and "idle_mutex s (State_lock t)" and "queues s Q" and "\<not> queued s t"
    and "p_state (pthreads s t) = PTHREAD_EXITED" and "p_stack (pthreads s t) \<noteq> 0"
    and "p_thread (pthreads s t) = i" and "1 \<le> i" and "i \<le> num_threads s"
    and "threads_tab s ! nat (i - 1) = Some t" and "self \<noteq> t"
  shows "\<exists>c v. run (pthread_join (Suc k) cf self i) h s =
      Done (OK, Some (p_status (pthreads s t))) (freed t c v (upd_pthread t (\<lambda>x. x\<lparr>p_stack := 0\<rparr>) s)) \<and>
    linked c v (Q(Free_threads := t # Q Free_threads)) \<and>
    requests (pthread_join (Suc k) cf self i) h s = reap_requests (pthreads s t)"
proof -
  let ?m = "State_lock t" and ?hs = "p_cancelation_handlers (pthreads s self)"
  have idle: "idle_rwlock s Threads_lock" using assms(2) by (simp add: threads_inv_def)
  from run_reap [OF assms(1-8)] assms(9-11) obtain c v
    where r: "run (reap cf self t) h s = Done () (freed t c v (upd_pthread t (\<lambda>x. x\<lparr>p_stack := 0\<rparr>) s))"
      and l: "linked c v (Q(Free_threads := t # Q Free_threads))"
      and rq: "requests (reap cf self t) h s = reap_requests (pthreads s t)" by blast
  have push: "run (push_handler self (Cleanup_unlock ?m)) h (acquired ?m self s) =
      Done () (set_handlers self (Cleanup_unlock ?m # ?hs) (acquired ?m self s))"
    by (simp add: push_handler_def run_simps set_handlers_def acquired_eq)
  have pop: "run (pop_handler self) h (set_handlers self (Cleanup_unlock ?m # ?hs) (acquired ?m self s)) =
      Done () (acquired ?m self s)"
    by (auto simp: pop_handler_def run_simps set_handlers_def acquired_eq fun_eq_iff
        intro!: pt_state.equality)
  have st: "p_state (pthreads (set_handlers self x (acquired ?m self s)) t) = PTHREAD_EXITED"
      "p_state (pthreads (acquired ?m self s) t) = PTHREAD_EXITED" for x
    using assms(7,13) by (simp_all add: set_handlers_def acquired_eq)
  have "run (pthread_join (Suc k) cf self i) h s = Done (OK, Some (p_status (pthreads s t)))
      (freed t c v (upd_pthread t (\<lambda>x. x\<lparr>p_stack := 0\<rparr>) s))"
    using assms(12) by (simp add: pthread_join_def run_simps run_getid [OF idle assms(10,11)]
        mutex_lock.lock_free [OF assms(4)] mutex_lock.unlock_taken [OF assms(4)] push pop st r)
  moreover have "requests (push_handler self x) h u = []" "requests (pop_handler self) h u = []" for x u
    by (simp_all add: push_handler_def pop_handler_def requests_simps)
  then have "requests (pthread_join (Suc k) cf self i) h s = reap_requests (pthreads s t)"
    using assms(12) by (simp add: pthread_join_def run_simps requests_simps run_getid [OF idle assms(10,11)]
        getid_quiet [OF idle assms(10,11)] mutex_lock.lock_quiet [OF assms(4)] mutex_lock.unlock_quiet [OF assms(4)]
        mutex_lock.lock_free [OF assms(4)] mutex_lock.unlock_taken [OF assms(4)] push pop st r rq)
  ultimately show ?thesis using l by blast
qed

lemma run_join_exited:
  assumes "reap_ok h" and "threads_inv s" and "idle_mutex s Free_threads_lock"
    and "idle_mutex s (State_lock t)" and "queues s Q" and "\<not> queued s t"
    and "p_state (pthreads s t) = PTHREAD_EXITED" and "p_stack (pthreads s t) \<noteq> 0"
    and "p_thread (pthreads s t) = i" and "1 \<le> i" and "i \<le> num_threads s"
    and "threads_tab s ! nat (i - 1) = Some t" and "self \<noteq> t"
  shows "\<exists>s1. run (pthread_join (Suc k) cf self i) h s = Done (OK, Some (p_status (pthreads s t))) s1 \<and>
    threads_inv s1 \<and> threads_tab s1 = (threads_tab s)[nat (i - 1) := None] \<and>
    queues s1 (Q(Free_threads := t # Q Free_threads)) \<and>
    p_state (pthreads s1 t) = PTHREAD_TERMINATED \<and> p_stack (pthreads s1 t) = 0 \<and>
    pthreads s1 self = pthreads s self \<and>
    requests (pthread_join (Suc k) cf self i) h s =
      [Thread_terminate (p_kernel_thread (pthreads s t)),
       Vm_deallocate (uint (p_stackaddr (pthreads s t))) (uint (p_stacksize (pthreads s t))),
       Mach_port_destroy (p_wakeup_port (pthreads s t))] \<and>
    run (pthread_join (Suc k) cf self i) h s1 = Done (ESRCH, None) s1"
proof -
  from run_join_freed [OF assms, of k cf] obtain c v where
    run: "run (pthread_join (Suc k) cf self i) h s =
      Done (OK, Some (p_status (pthreads s t))) (freed t c v (upd_pthread t (\<lambda>x. x\<lparr>p_stack := 0\<rparr>) s))"
    and l: "linked c v (Q(Free_threads := t # Q Free_threads))"
    and rq: "requests (pthread_join (Suc k) cf self i) h s = reap_requests (pthreads s t)" by blast
  let ?s1 = "freed t c v (upd_pthread t (\<lambda>x. x\<lparr>p_stack := 0\<rparr>) s)"
  have "idle_rwlock (s\<lparr>cell := c, prevp := v\<rparr>) Threads_lock"
    using assms(2) idle_other_links(2) [OF assms(5) l] by (simp add: threads_inv_def)
  then have inv: "threads_inv ?s1"
    using assms(2) by (simp add: threads_inv_def freed_def idle_rwlock_def)
  have tab: "threads_tab ?s1 = (threads_tab s)[nat (i - 1) := None]" "num_threads ?s1 = num_threads s"
    using assms(9) by (simp_all add: freed_def)
  have len: "nat (i - 1) < length (threads_tab s)" using assms(2,10,11) by (simp add: threads_inv_def)
  have second: "run (pthread_join (Suc k) cf self i) h ?s1 = Done (ESRCH, None) ?s1"
    by (rule run_join_missing) (use inv tab len assms(10,11) in \<open>simp_all add: threads_inv_def\<close>)
  show ?thesis
    using run inv tab l second assms(13) rq
    by (intro exI [of _ ?s1] conjI) (simp_all add: freed_def reap_requests_def)
qed

text \<open>
  C16: Joining a thread that has exited yields its exit status and removes it: its identifier denotes
  no thread any more, so a second join is refused with \<^verbatim>\<open>ESRCH\<close>; the calls that it makes to the kernel are exactly
  the termination of its kernel thread, which the kernel must accept, the release of its stack's memory and the destruction
  of its wakeup port, in this order; its
  structure is terminated and first on the free list; the identifiers of the other threads and the
  caller's cleanup handlers are as before.
\<close>

theorem join_exited:
  assumes "reap_ok h" and "threads_inv s" and "idle_mutex s Free_threads_lock"
    and "idle_mutex s (State_lock t)" and "queues s Q" and "\<not> queued s t"
    and "p_state (pthreads s t) = PTHREAD_EXITED" and "p_stack (pthreads s t) \<noteq> 0"
    and "p_thread (pthreads s t) = i" and "1 \<le> i" and "i \<le> num_threads s"
    and "threads_tab s ! nat (i - 1) = Some t" and "self \<noteq> t"
  shows "\<exists>s1. run (pthread_join (Suc k) cf self i) h s = Done (OK, Some (p_status (pthreads s t))) s1 \<and>
    threads_inv s1 \<and> threads_tab s1 = (threads_tab s)[nat (i - 1) := None] \<and>
    queues s1 (Q(Free_threads := t # Q Free_threads)) \<and>
    p_state (pthreads s1 t) = PTHREAD_TERMINATED \<and> p_stack (pthreads s1 t) = 0 \<and>
    pthreads s1 self = pthreads s self \<and>
    requests (pthread_join (Suc k) cf self i) h s =
      [Thread_terminate (p_kernel_thread (pthreads s t)),
       Vm_deallocate (uint (p_stackaddr (pthreads s t))) (uint (p_stacksize (pthreads s t))),
       Mach_port_destroy (p_wakeup_port (pthreads s t))] \<and>
    run (pthread_join (Suc k) cf self i) h s1 = Done (ESRCH, None) s1"
  using assms by (rule run_join_exited)

definition joinee :: pt_state where
  "joinee = upd_pthread 2 (\<lambda>x. x\<lparr>p_state := PTHREAD_EXITED, p_stack := 1, p_thread := 2, p_status := 42,
       p_kernel_thread := 22, p_wakeup_port := 23, p_stackaddr := 0x200000, p_stacksize := 0x1000\<rparr>)
     (zero_state\<lparr>threads_tab := [Some 1, Some 2], num_threads := 2, max_threads := 2\<rparr>)"

lemma joinee_simps:
  "threads_inv joinee" "idle_mutex joinee Free_threads_lock" "idle_mutex joinee (State_lock 2)"
  "queues joinee (\<lambda>_. [])"
  by (simp_all add: joinee_def threads_inv_def idle_rwlock_def idle_mutex_def unlocked_def known_type_def
      mutex_type_of_def resolve_attr_def linked_def)

theorem join_exited_witness:
  "\<exists>s1. run (pthread_join (Suc 0) life_config 1 2) alloc_env joinee =
      Done (OK, Some (p_status (pthreads joinee 2))) s1 \<and>
    threads_inv s1 \<and> threads_tab s1 = (threads_tab joinee)[nat (2 - 1) := None] \<and>
    queues s1 ((\<lambda>_. [])(Free_threads := 2 # (\<lambda>_. []) Free_threads)) \<and>
    p_state (pthreads s1 2) = PTHREAD_TERMINATED \<and> p_stack (pthreads s1 2) = 0 \<and>
    pthreads s1 1 = pthreads joinee 1 \<and>
    requests (pthread_join (Suc 0) life_config 1 2) alloc_env joinee =
      [Thread_terminate 22, Vm_deallocate 0x200000 0x1000, Mach_port_destroy 23] \<and>
    run (pthread_join (Suc 0) life_config 1 2) alloc_env s1 = Done (ESRCH, None) s1"
  using join_exited [OF _ joinee_simps, of alloc_env 2 1 0 life_config] by (simp add: reap_ok_def alloc_env_def joinee_def)

section \<open>Waiting on a condition\<close>

lemma idle_acquired:
  "m \<noteq> m' \<Longrightarrow> idle_mutex (acquired m' t s) m = idle_mutex s m"
  by (simp add: acquired_eq idle_mutex_def unlocked_def known_type_def mutex_type_of_def)

definition hooked :: "caddr \<Rightarrow> thr \<Rightarrow> pt_state \<Rightarrow> pt_state" where
  "hooked c t s = upd_pthread t (\<lambda>x. x\<lparr>p_cancel_hook := Some (t, c), p_cancel_type := PTHREAD_CANCEL_DEFERRED\<rparr>) s"

lemma run_cond_enqueue:
  assumes "queues s Q" and "\<not> queued s t" and "spin s (C_lock c) = 0"
  shows "\<exists>l v. run (spin_section (C_lock c) (cond_enqueue_section c t)) h s =
      Done (wait_clock c s) (s\<lparr>cell := l, prevp := v\<rparr>) \<and>
    linked l v (Q(Cond_queue c := t # Q (Cond_queue c)))"
proof -
  let ?s = "upd_spin (C_lock c) 1 s"
  have q: "queues ?s Q" "\<not> queued ?s t" using assms by simp_all
  from wq.enq_ok [OF q(1) _ q(2), of "Cond_queue c"] obtain s0
    where s0: "pthread_enqueue (Cond_queue c) t ?s = Some s0"
      "queues s0 (Q(Cond_queue c := t # Q (Cond_queue c)))" by auto
  from pthread_enqueue_frame [OF s0(1)] obtain l v where eq: "s0 = ?s\<lparr>cell := l, prevp := v\<rparr>" by auto
  have "pthread_spin_unlock (C_lock c) s0 = s\<lparr>cell := l, prevp := v\<rparr>" "wait_clock c s0 = wait_clock c s"
    using assms(3) by (auto simp: eq pthread_spin_unlock_def wait_clock_def intro!: pt_state.equality)
  with s0 eq assms(3) show ?thesis
    by (intro exI [of _ l] exI [of _ v]) (simp add: run_simps cond_enqueue_section_def)
qed

lemma run_wait_prepare_body:
  assumes "idle_mutex s (Cancel_lock t)" and "\<not> is_cancelled t s" and "cond_inv s Q c"
    and "\<not> queued s t"
  shows "\<exists>l v clock. run (andthen (gets (is_cancelled t)) (\<lambda>cancelled.
          if cancelled then Return None
          else
            andthen (section_of (\<lambda>_. True) (set_hook c t)) (\<lambda>oldtype.
            andthen (spin_section (C_lock c) (cond_enqueue_section c t)) (\<lambda>clock_id.
              Return (Some (oldtype, clock_id)))))) h (acquired (Cancel_lock t) t s) =
      Done (Some (p_cancel_type (pthreads s t), clock))
        (acquired (Cancel_lock t) t ((hooked c t s)\<lparr>cell := l, prevp := v\<rparr>)) \<and>
    idle_mutex ((hooked c t s)\<lparr>cell := l, prevp := v\<rparr>) (Cancel_lock t) \<and>
    linked l v (Q(Cond_queue c := t # Q (Cond_queue c)))"
proof -
  let ?m = "Cancel_lock t" and ?h = "hooked c t s"
  have q: "queues s Q" "spin s (C_lock c) = 0" using assms(3) by (simp_all add: cond_inv_def)
  then obtain l v where
    e: "run (spin_section (C_lock c) (cond_enqueue_section c t)) h (acquired ?m t ?h) =
      Done (wait_clock c (acquired ?m t ?h)) ((acquired ?m t ?h)\<lparr>cell := l, prevp := v\<rparr>)"
      "linked l v (Q(Cond_queue c := t # Q (Cond_queue c)))"
    using run_cond_enqueue [of "acquired ?m t ?h" Q t c h] assms(4)
    by (auto simp: acquired_eq hooked_def)
  have eq: "(acquired ?m t ?h)\<lparr>cell := l, prevp := v\<rparr> = acquired ?m t (?h\<lparr>cell := l, prevp := v\<rparr>)"
    by (simp add: acquired_eq)
  have sh: "set_hook c t (acquired ?m t s) = (Inr (p_cancel_type (pthreads s t)), acquired ?m t ?h)"
    by (simp add: set_hook_def acquired_eq hooked_def)
  have "is_cancelled t (acquired ?m t s) = is_cancelled t s" by (simp add: is_cancelled_def acquired_eq)
  with assms(2) e(1) eq sh have body: "run (andthen (gets (is_cancelled t)) (\<lambda>cancelled.
          if cancelled then Return None
          else
            andthen (section_of (\<lambda>_. True) (set_hook c t)) (\<lambda>oldtype.
            andthen (spin_section (C_lock c) (cond_enqueue_section c t)) (\<lambda>clock_id.
              Return (Some (oldtype, clock_id)))))) h (acquired ?m t s) =
      Done (Some (p_cancel_type (pthreads s t), wait_clock c (acquired ?m t ?h)))
        (acquired ?m t (?h\<lparr>cell := l, prevp := v\<rparr>))"
    by (simp add: run_simps)
  have "l (Mutex_queue ?m) = cell s (Mutex_queue ?m)"
    by (rule linked_other [OF q(1) e(2)]) simp_all
  with assms(1) have "idle_mutex (?h\<lparr>cell := l, prevp := v\<rparr>) ?m"
    by (simp add: hooked_def idle_mutex_def unlocked_def known_type_def mutex_type_of_def)
  with body e(2) show ?thesis by blast
qed

lemma run_wait_prepare:
  assumes "idle_mutex s (Cancel_lock t)" and "\<not> is_cancelled t s" and "cond_inv s Q c"
    and "\<not> queued s t"
  shows "\<exists>l v clock. run (wait_prepare c t) h s =
      Done (Some (p_cancel_type (pthreads s t), clock)) ((hooked c t s)\<lparr>cell := l, prevp := v\<rparr>) \<and>
    linked l v (Q(Cond_queue c := t # Q (Cond_queue c)))"
proof -
  from run_wait_prepare_body [OF assms, of h] obtain l v clock where
    r: "linked l v (Q(Cond_queue c := t # Q (Cond_queue c)))"
    "idle_mutex ((hooked c t s)\<lparr>cell := l, prevp := v\<rparr>) (Cancel_lock t)"
    "run (andthen (gets (is_cancelled t)) (\<lambda>cancelled.
          if cancelled then Return None
          else
            andthen (section_of (\<lambda>_. True) (set_hook c t)) (\<lambda>oldtype.
            andthen (spin_section (C_lock c) (cond_enqueue_section c t)) (\<lambda>clock_id.
              Return (Some (oldtype, clock_id)))))) h (acquired (Cancel_lock t) t s) =
      Done (Some (p_cancel_type (pthreads s t), clock))
        (acquired (Cancel_lock t) t ((hooked c t s)\<lparr>cell := l, prevp := v\<rparr>))" by blast
  from mutex_lock.bracketed [OF assms(1) r(3,2)] r(1) show ?thesis
    unfolding wait_prepare_def cancel_locked_def by blast
qed

text \<open>The states on the way.\<close>

lemma visits_basic:
  "visits (gets v) h s = {s}" "visits (section_of (\<lambda>_. True) f) h s = {s, snd (f s)}"
  "spin s l = 0 \<Longrightarrow> visits (spin_section l f) h s = {s, snd (f (upd_spin l 1 s))}"
  by (auto simp: gets_def section_of_def spin_section_def of_sum_def visits_start split: sum.split)

lemma visits_lock:
  assumes "idle_mutex s m"
  shows "visits (pthread_mutex_lock m t) h s \<subseteq> {s, acquired m t s}"
    and "visits (pthread_mutex_unlock m t) h (acquired m t s) \<subseteq> {acquired m t s, s}"
proof -
  note defs = visits_andthen visits_basic run_simps idle_mutex_def unlocked_def known_type_def mutex_type_of_def
    acquired_def mutex_sections pthread_consts is_normal_def Let_def
  show "visits (pthread_mutex_lock m t) h s \<subseteq> {s, acquired m t s}"
    using assms
    by (cases "resolve_attr (m_attr (mutexes s m))")
      (auto simp: pthread_mutex_lock_def pthread_mutex_timedlock_internal_def defs)
  show "visits (pthread_mutex_unlock m t) h (acquired m t s) \<subseteq> {acquired m t s, s}"
    using assms
    by (cases "resolve_attr (m_attr (mutexes s m))")
      (auto simp: pthread_mutex_unlock_def defs fun_eq_iff intro!: pt_state.equality)
qed

lemma visits_bracket:
  assumes "idle_mutex s m" and "run body h (acquired m t s) = Done r (acquired m t s1)" and "idle_mutex s1 m"
  shows "visits (bracket (pthread_mutex_lock m t) (pthread_mutex_unlock m t) body) h s \<subseteq>
    {s, acquired m t s, s1} \<union> visits body h (acquired m t s)"
  using visits_lock(1) [OF assms(1), of t h] visits_lock(2) [OF assms(3), of t h] assms(2)
    visits_start [of "acquired m t s" body h] run_visits [OF assms(2)]
  by (auto simp: bracket_def visits_andthen mutex_lock.lock_free [OF assms(1)] mutex_lock.unlock_taken [OF assms(3)])

lemma visits_wait_prepare:
  assumes "idle_mutex s (Cancel_lock t)" and "\<not> is_cancelled t s" and "cond_inv s Q c"
    and "\<not> queued s t" and "u \<in> visits (wait_prepare c t) h s" and "m \<noteq> Cancel_lock t"
  shows "spin u (M_held m) = spin s (M_held m)"
proof -
  let ?m = "Cancel_lock t" and ?h = "hooked c t s"
  let ?body = "andthen (gets (is_cancelled t)) (\<lambda>cancelled.
          if cancelled then Return None
          else
            andthen (section_of (\<lambda>_. True) (set_hook c t)) (\<lambda>oldtype.
            andthen (spin_section (C_lock c) (cond_enqueue_section c t)) (\<lambda>clock_id.
              Return (Some (oldtype, clock_id)))))"
  from run_wait_prepare_body [OF assms(1-4), of h] obtain l v clock where
    r: "run ?body h (acquired ?m t s) =
        Done (Some (p_cancel_type (pthreads s t), clock)) (acquired ?m t (?h\<lparr>cell := l, prevp := v\<rparr>))"
    and i: "idle_mutex (?h\<lparr>cell := l, prevp := v\<rparr>) ?m" by blast
  have sp: "spin (acquired ?m t s) (M_held m) = spin s (M_held m)" "spin (acquired ?m t s) (C_lock c) = 0"
    using assms(3,6) by (simp_all add: acquired_eq cond_inv_def)
  have "spin w (M_held m) = spin s (M_held m)" if "w \<in> visits ?body h (acquired ?m t s)" for w
  proof -
    have h: "spin (snd (set_hook c t x)) = spin x" for x by (simp add: set_hook_def)
    have e: "spin (snd (cond_enqueue_section c t x)) (M_held m) = spin x (M_held m)" for x
    proof (cases "pthread_enqueue (Cond_queue c) t x")
      case (Some y)
      with arg_cong [OF pthread_enqueue_frame [OF Some], of spin] show ?thesis
        by (simp add: cond_enqueue_section_def pthread_spin_unlock_def)
    qed (simp add: cond_enqueue_section_def)
    show ?thesis
      using that sp by (auto simp: visits_andthen visits_basic run_simps h e split: if_splits sum.splits)
  qed
  moreover from assms(5) visits_bracket [OF assms(1) r i]
  have "u \<in> {s, acquired ?m t s, ?h\<lparr>cell := l, prevp := v\<rparr>} \<union> visits ?body h (acquired ?m t s)"
    by (auto simp: wait_prepare_def cancel_locked_def)
  ultimately show ?thesis using sp(1) by (auto simp: hooked_def)
qed

definition unhooked :: "thr \<Rightarrow> int \<Rightarrow> pt_state \<Rightarrow> pt_state" where
  "unhooked t oldtype s = upd_pthread t (\<lambda>x. x\<lparr>p_cancel_hook := None, p_cancel_type := oldtype\<rparr>) s"

text \<open>A thread that has been taken off the queue and sent its wakeup message, by whomever.\<close>

definition woken_up :: "pt_state \<Rightarrow> thr \<Rightarrow> caddr \<Rightarrow> maddr \<Rightarrow> bool" where
  "woken_up s t c m \<longleftrightarrow>
     \<not> queued s t \<and> kmsgs s t = 1 \<and> spin s (C_lock c) = 0 \<and> idle_mutex s m \<and> idle_mutex s (Cancel_lock t)"

lemma run_wait_finish:
  assumes "\<not> queued s t" and "spin s (C_lock c) = 0" and "idle_mutex s m" and "idle_mutex s (Cancel_lock t)"
  shows "run (wait_finish cf c m t oldtype OK) h s =
    (if is_cancelled t s
     then run (pthread_exit cf t PTHREAD_CANCELED) h (acquired m t (unhooked t oldtype s))
     else Done OK (acquired m t (unhooked t oldtype s)))"
proof -
  let ?u = "unhooked t oldtype s"
  have r1: "wait_leave_section c t OK (upd_spin (C_lock c) 1 s) = (Inr False, s)"
    using assms(1,2) by (auto simp: wait_leave_section_def pthread_spin_unlock_def
        intro!: pt_state.equality)
  have i: "idle_mutex ?u (Cancel_lock t)" "idle_mutex ?u m" using assms(3,4) by (simp_all add: unhooked_def)
  have ch: "clear_hook t oldtype (acquired (Cancel_lock t) t s) =
      (Inr (is_cancelled t s), acquired (Cancel_lock t) t ?u)"
    by (simp add: clear_hook_def acquired_eq unhooked_def is_cancelled_def)
  have r2: "run (cancel_locked t (section_of (\<lambda>_. True) (clear_hook t oldtype))) h s =
      Done (is_cancelled t s) ?u"
    by (rule run_cancel_locked [OF assms(4) _ i(1)]) (rule ch)
  show ?thesis
    by (simp add: wait_finish_def run_simps assms(2) r1 r2 mutex_lock.lock_free [OF i(2)])
qed

text \<open>
  C15: Waiting on a condition.  The caller, which holds the mutex and is not cancelled, sets its
  cancellation hook, becomes the first waiter of the condition, releases the mutex and blocks.  Nobody can miss it: in
  every state that it passes through on its way to blocking, either the mutex is still held, so that
  nobody who changes the condition under the mutex can have signalled it yet, or the thread is already first on the queue
  with its hook set.  Once it has been taken off the queue and woken, by a signal, a broadcast or a
  cancellation, it clears the hook, restores its cancellation type, takes the mutex again
  and returns 0; or, if a cancellation is pending, exits, holding the mutex.
\<close>

theorem cond_wait_protocol:
  assumes "idle_mutex s m" and "idle_mutex s (Cancel_lock t)" and "m \<noteq> Cancel_lock t"
    and "\<not> is_cancelled t s" and "cond_inv s Q c" and "\<not> queued s t" and "mach_ports h" and "kmsgs s t = 0"
  shows "\<exists>p s1. run (pthread_cond_wait cf c m t) h (acquired m t s) = Waiting p s1 \<and>
    idle_mutex s1 m \<and> queues s1 (Q(Cond_queue c := t # Q (Cond_queue c))) \<and>
    p_cancel_hook (pthreads s1 t) = Some (t, c) \<and>
    (\<forall>q u. psteps h (pthread_cond_wait cf c m t) (acquired m t s) q u \<longrightarrow>
       spin u (M_held m) = 1 \<or>
       cell u (Cond_queue c) = Some t \<and> prevp u t = Some (Cond_queue c) \<and> p_cancel_hook (pthreads u t) = Some (t, c)) \<and>
    (\<forall>s2. woken_up s2 t c m \<longrightarrow>
       (let s3 = acquired m t (unhooked t (p_cancel_type (pthreads s t)) (s2\<lparr>kmsgs := (kmsgs s2)(t := 0)\<rparr>))
        in run p h s2 = (if is_cancelled t s2 then run (pthread_exit cf t PTHREAD_CANCELED) h s3
                         else Done OK s3)))"
proof -
  let ?a = "acquired m t s" and ?old = "p_cancel_type (pthreads s t)"
  have ia: "idle_mutex ?a (Cancel_lock t)" using assms(2,3) by (simp add: idle_acquired)
  have pre: "\<not> is_cancelled t ?a" "cond_inv ?a Q c" "\<not> queued ?a t"
    using assms(4-6) by (simp_all add: is_cancelled_def acquired_eq cond_inv_def)
  from run_wait_prepare [OF ia pre] obtain l v clock where
    prep: "run (wait_prepare c t) h ?a =
        Done (Some (p_cancel_type (pthreads ?a t), clock)) ((hooked c t ?a)\<lparr>cell := l, prevp := v\<rparr>)"
      and lk: "linked l v (Q(Cond_queue c := t # Q (Cond_queue c)))" by blast
  let ?s1 = "(hooked c t s)\<lparr>cell := l, prevp := v\<rparr>"
  have eq: "(hooked c t ?a)\<lparr>cell := l, prevp := v\<rparr> = acquired m t ?s1" "p_cancel_type (pthreads ?a t) = ?old"
    by (simp_all add: hooked_def acquired_eq)
  have "queues s Q" using assms(5) by (simp add: cond_inv_def)
  from linked_other [OF this lk, of "Mutex_queue m"] assms(1) have i1: "idle_mutex ?s1 m"
    by (simp add: hooked_def idle_mutex_def unlocked_def known_type_def mutex_type_of_def)
  let ?p = "andthen (block_until t None clock) (wait_finish cf c m t ?old)"
  have blk: "block_until t None clock = andthen (pthread_block t) (\<lambda>_. Return OK)"
    by (simp add: block_until_def)
  have k1: "kmsgs ?s1 t = 0" using assms(8) by (simp add: hooked_def)
  then have run: "run (pthread_cond_wait cf c m t) h ?a = Waiting ?p ?s1"
    by (simp add: pthread_cond_wait_def pthread_cond_timedwait_internal_def run_simps prep eq
        mutex_lock.unlock_taken [OF i1] blk run_block [OF assms(7)])
  have "run ?p h s2 = (if is_cancelled t s2
      then run (pthread_exit cf t PTHREAD_CANCELED) h
        (acquired m t (unhooked t ?old (s2\<lparr>kmsgs := (kmsgs s2)(t := 0)\<rparr>)))
      else Done OK (acquired m t (unhooked t ?old (s2\<lparr>kmsgs := (kmsgs s2)(t := 0)\<rparr>))))"
    if "woken_up s2 t c m" for s2
  proof -
    let ?s2 = "s2\<lparr>kmsgs := (kmsgs s2)(t := 0)\<rparr>"
    have k: "idle_mutex ?s2 x = idle_mutex s2 x" for x
      by (simp add: idle_mutex_def unlocked_def known_type_def mutex_type_of_def)
    have "is_cancelled t ?s2 = is_cancelled t s2" by (simp add: is_cancelled_def)
    with that run_wait_finish [of ?s2 t c m cf ?old h] show ?thesis
      by (simp add: woken_up_def k run_simps blk run_block [OF assms(7)])
  qed
  note again = this
  have first: "cell ?s1 (Cond_queue c) = Some t" "prevp ?s1 t = Some (Cond_queue c)"
      "p_cancel_hook (pthreads ?s1 t) = Some (t, c)"
    using linkedD(1) [OF lk, of "Cond_queue c"] by (simp_all add: hooked_def)
  have way: "spin u (M_held m) = 1 \<or> cell u (Cond_queue c) = Some t \<and> prevp u t = Some (Cond_queue c) \<and>
      p_cancel_hook (pthreads u t) = Some (t, c)"
    if "psteps h (pthread_cond_wait cf c m t) ?a q u" for q u
  proof -
    have held: "spin ?a (M_held m) = 1" "spin (acquired m t ?s1) (M_held m) = 1" by (simp_all add: acquired_eq)
    from psteps_visits [OF that] have "u \<in> visits (wait_prepare c t) h ?a \<union> visits (pthread_mutex_unlock m t) h (acquired m t ?s1) \<union> {?s1}"
      by (simp add: pthread_cond_wait_def pthread_cond_timedwait_internal_def visits_andthen prep eq
          mutex_lock.unlock_taken [OF i1] blk run_block [OF assms(7)] k1 [simplified] run_simps pthread_block_def andthen_syscall
          mach_portsD(2) [OF assms(7)])
    with visits_wait_prepare [OF ia pre _ assms(3)] visits_lock(2) [OF i1, of t h] held
    have "spin u (M_held m) = 1 \<or> u = ?s1" by auto
    with first show ?thesis by blast
  qed
  have "queues ?s1 (Q(Cond_queue c := t # Q (Cond_queue c)))" using lk by simp
  with run i1 first(3) way again show ?thesis
    unfolding Let_def by (intro exI [of _ ?p] exI [of _ ?s1] conjI allI impI) simp_all
qed

theorem cond_wait_protocol_witness:
  "\<exists>p s1. run (pthread_cond_wait life_config (User_cond 0) (User_mutex 0) 1) life_env
      (acquired (User_mutex 0) 1 zero_state) = Waiting p s1 \<and>
    idle_mutex s1 (User_mutex 0) \<and>
    queues s1 ((\<lambda>_. [])(Cond_queue (User_cond 0) := 1 # (\<lambda>_. []) (Cond_queue (User_cond 0)))) \<and>
    p_cancel_hook (pthreads s1 1) = Some (1, User_cond 0) \<and>
    (\<forall>q u. psteps life_env (pthread_cond_wait life_config (User_cond 0) (User_mutex 0) 1)
         (acquired (User_mutex 0) 1 zero_state) q u \<longrightarrow>
       spin u (M_held (User_mutex 0)) = 1 \<or>
       cell u (Cond_queue (User_cond 0)) = Some 1 \<and> prevp u 1 = Some (Cond_queue (User_cond 0)) \<and>
       p_cancel_hook (pthreads u 1) = Some (1, User_cond 0)) \<and>
    (\<forall>s2. woken_up s2 1 (User_cond 0) (User_mutex 0) \<longrightarrow>
       (let s3 = acquired (User_mutex 0) 1 (unhooked 1 (p_cancel_type (pthreads zero_state 1))
                   (s2\<lparr>kmsgs := (kmsgs s2)(1 := 0)\<rparr>))
        in run p life_env s2 = (if is_cancelled 1 s2
             then run (pthread_exit life_config 1 PTHREAD_CANCELED) life_env s3 else Done OK s3)))"
  by (rule cond_wait_protocol [OF idle_zero idle_zero _ _ _ _ life_env_ports])
    (simp_all add: is_cancelled_def zero_pthread_def cond_inv_def linked_def)

section \<open>Cancelling\<close>










end
