(* ===== verification/Create_Props.thy ===== *)
theory Create_Props
  imports Life
begin

text \<open>
  The error exits of \<^verbatim>\<open>__pthread_create_internal\<close>: what has been acquired is released in the reverse order
  and the thread's structure goes to the free list.  One of them is reached with no error set.
\<close>

section \<open>Releasing a thread that has not started\<close>

lemma run_broadcast_none:
  assumes "cell s (Cond_queue c) = None" and "spin s (C_lock c) = 0"
  shows "run (pthread_cond_broadcast n c) h s = Done OK s" and "requests (pthread_cond_broadcast n c) h s = []"
  using assms by (auto simp: pthread_cond_broadcast_def run_simps requests_simps pthread_spin_unlock_def
      fun_eq_iff intro!: pt_state.equality)

text \<open>A thread that nobody waits for, with its locks free and its identifier in the table.\<close>

definition unstarted :: "thr \<Rightarrow> pt_state \<Rightarrow> bool" where
  "unstarted t s \<longleftrightarrow>
     threads_inv s \<and> idle_mutex s Free_threads_lock \<and> idle_mutex s (State_lock t) \<and> \<not> queued s t \<and>
     p_state (pthreads s t) \<in> {PTHREAD_JOINABLE, PTHREAD_DETACHED} \<and>
     cell s (Cond_queue (State_cond t)) = None \<and> spin s (C_lock (State_cond t)) = 0 \<and>
     1 \<le> p_thread (pthreads s t) \<and> p_thread (pthreads s t) \<le> num_threads s"

lemma run_dealloc_unstarted:
  assumes "unstarted t s" and "queues s Q"
  shows "\<exists>c v. run (pthread_dealloc n self t) h s = Done () (freed t c v s) \<and>
    linked c v (Q(Free_threads := t # Q Free_threads)) \<and> requests (pthread_dealloc n self t) h s = []"
proof -
  let ?i = "p_thread (pthreads s t)" and ?m = "State_lock t"
  let ?s = "s\<lparr>threads_tab := (threads_tab s)[nat (?i - 1) := None]\<rparr>"
  let ?a = "acquired ?m self ?s"
  note u = assms(1) [unfolded unstarted_def]
  have r1: "run (pthread_setid n self ?i None) h s = Done () ?s" "requests (pthread_setid n self ?i None) h s = []"
    using u by (auto intro!: run_setid setid_quiet simp: threads_inv_def)
  have idle: "idle_mutex ?s m = idle_mutex s m" for m
    by (simp add: idle_mutex_def unlocked_def known_type_def mutex_type_of_def)
  have b: "run (pthread_cond_broadcast n (State_cond t)) h ?a = Done OK ?a"
      "requests (pthread_cond_broadcast n (State_cond t)) h ?a = []"
    using u by (auto intro!: run_broadcast_none simp: acquired_eq)
  let ?body = "andthen (gets (\<lambda>s. p_state (pthreads s t))) (\<lambda>st.
         if st \<noteq> PTHREAD_EXITED then pthread_cond_broadcast n (State_cond t) else Return OK)"
  have st: "p_state (pthreads ?a t) \<noteq> PTHREAD_EXITED" using u by (auto simp: acquired_eq)
  have body: "run ?body h ?a = Done OK ?a" "requests ?body h ?a = []"
    using st b by (simp_all add: run_simps requests_simps)
  have im: "idle_mutex ?s ?m" using u by (simp add: idle)
  note r2 = mutex_lock.bracketed [OF im body(1) im]
    mutex_lock.bracketed_requests [OF im body(1) im, unfolded body(2)]
  from run_free_list [of ?s Q t self h] u assms(2) obtain c v
    where r3: "run (bracket (pthread_mutex_lock Free_threads_lock self)
        (pthread_mutex_unlock Free_threads_lock self)
        (section_of (\<lambda>_. True) (\<lambda>s. case pthread_enqueue Free_threads t s of
           None \<Rightarrow> (Inl Assert_failed, s) | Some s1 \<Rightarrow> (Inr (), s1)))) h ?s =
      Done () (?s\<lparr>cell := c, prevp := v\<rparr>)" "linked c v (Q(Free_threads := t # Q Free_threads))"
      "requests (bracket (pthread_mutex_lock Free_threads_lock self)
        (pthread_mutex_unlock Free_threads_lock self)
        (section_of (\<lambda>_. True) (\<lambda>s. case pthread_enqueue Free_threads t s of
           None \<Rightarrow> (Inl Assert_failed, s) | Some s1 \<Rightarrow> (Inr (), s1)))) h ?s = []"
    by (auto simp: idle)
  have "run (pthread_dealloc n self t) h s = Done () (freed t c v s)"
    using u by (auto simp: pthread_dealloc_def run_simps r1 r2 r3(1) freed_def)
  moreover have "requests (pthread_dealloc n self t) h s = []"
    using u by (auto simp: pthread_dealloc_def run_simps requests_simps r1 r2 r3(1,3))
  ultimately show ?thesis using r3(2) by blast
qed

lemma unstarted_upd [simp]:
  "unstarted t (upd_pthread t (\<lambda>x. x\<lparr>p_stack := a\<rparr>) s) = unstarted t s"
  "unstarted t (upd_pthread t (\<lambda>x. x\<lparr>p_tcb := b\<rparr>) s) = unstarted t s"
  by (simp_all add: unstarted_def threads_inv_def idle_rwlock_def)

lemma run_failed_thread_alloc:
  assumes "unstarted t s" and "queues s Q" and "reap_ok h"
  shows "\<exists>c v. run (failed_thread_alloc cf self t err) h s =
      Done err (freed t c v (upd_pthread t (\<lambda>x. x\<lparr>p_stack := 0\<rparr>) s)) \<and>
    linked c v (Q(Free_threads := t # Q Free_threads)) \<and>
    requests (failed_thread_alloc cf self t err) h s =
      [Vm_deallocate (uint (p_stackaddr (pthreads s t))) (uint (p_stacksize (pthreads s t)))]"
proof -
  let ?x = "pthreads s t" and ?s = "upd_pthread t (\<lambda>x. x\<lparr>p_stack := 0\<rparr>) s"
  from assms(3) obtain r where
    e: "h (Vm_deallocate (uint (p_stackaddr ?x)) (uint (p_stacksize ?x))) s = Some (r, s)"
    unfolding reap_ok_def by metis
  from run_dealloc_unstarted [of t ?s Q "cf_queue cf" self h] assms(1,2) obtain c v
    where "run (pthread_dealloc (cf_queue cf) self t) h ?s = Done () (freed t c v ?s)"
      "linked c v (Q(Free_threads := t # Q Free_threads))"
      "requests (pthread_dealloc (cf_queue cf) self t) h ?s = []" by auto
  with e show ?thesis
    by (intro exI [of _ c] exI [of _ v])
      (simp add: failed_thread_alloc_def failed_stack_alloc_def run_simps requests_simps pthread_stack_dealloc_def)
qed

text \<open>What is released of a thread that has not started: its wakeup port, its kernel thread and its stack.\<close>

definition release_requests :: "pthread \<Rightarrow> syscall list" where
  "release_requests x =
     [Mach_port_destroy (p_wakeup_port x), Thread_terminate (p_kernel_thread x),
      Vm_deallocate (uint (p_stackaddr x)) (uint (p_stacksize x))]"

lemma run_failed_tls:
  assumes "unstarted t s" and "queues s Q" and "reap_ok h"
  shows "\<exists>c v. run (failed_thread_tls_alloc cf self t err) h s =
      Done err (freed t c v (upd_pthread t (\<lambda>x. x\<lparr>p_stack := 0\<rparr>) s)) \<and>
    linked c v (Q(Free_threads := t # Q Free_threads)) \<and>
    requests (failed_thread_tls_alloc cf self t err) h s = release_requests (pthreads s t)"
proof -
  let ?x = "pthreads s t"
  from assms(3) obtain r x y where "h (Mach_port_destroy (p_wakeup_port ?x)) s = Some (r, s)"
    "h (Thread_terminate (p_kernel_thread ?x)) s = Some ((OK, x, y), s)" unfolding reap_ok_def by metis
  moreover from run_failed_thread_alloc [OF assms] obtain c v where
    "run (failed_thread_alloc cf self t err) h s = Done err (freed t c v (upd_pthread t (\<lambda>x. x\<lparr>p_stack := 0\<rparr>) s))"
    "linked c v (Q(Free_threads := t # Q Free_threads))"
    "requests (failed_thread_alloc cf self t err) h s =
      [Vm_deallocate (uint (p_stackaddr (pthreads s t))) (uint (p_stacksize (pthreads s t)))]" by blast
  ultimately show ?thesis
    by (intro exI [of _ c] exI [of _ v])
      (simp add: failed_thread_tls_alloc_def run_simps requests_simps pthread_thread_dealloc_def pthread_thread_halt_def
        release_requests_def)
qed

text \<open>The structure is free again: terminated, first on the free list, without identifier or stack.\<close>

definition given_back :: "thr \<Rightarrow> (loc \<Rightarrow> thr list) \<Rightarrow> pt_state \<Rightarrow> pt_state \<Rightarrow> bool" where
  "given_back t Q s s1 \<longleftrightarrow>
     threads_tab s1 = (threads_tab s)[nat (p_thread (pthreads s t) - 1) := None] \<and> num_threads s1 = num_threads s \<and>
     p_state (pthreads s1 t) = PTHREAD_TERMINATED \<and> p_stack (pthreads s1 t) = 0 \<and>
     p_thread (pthreads s1 t) = p_thread (pthreads s t) \<and>
     queues s1 (Q(Free_threads := t # Q Free_threads)) \<and> (\<forall>u. u \<noteq> t \<longrightarrow> pthreads s1 u = pthreads s u)"

lemma freed_given_back:
  "linked c v (Q(Free_threads := t # Q Free_threads)) \<Longrightarrow>
   given_back t Q s (freed t c v (upd_pthread t (\<lambda>x. x\<lparr>p_stack := 0\<rparr>) s))"
  by (simp add: given_back_def freed_def)


section \<open>A failure that is reported as success\<close>

text \<open>
  C23: When the allocation of thread-local storage fails, after structure, stack and kernel thread have been
  obtained, \<^verbatim>\<open>__pthread_create_internal\<close> releases all of them, as on the other error paths, and yet returns 0, without having
  written \<^verbatim>\<open>*thread\<close>: the jump to the error exit is made with \<^verbatim>\<open>err\<close> still 0.  So \<^verbatim>\<open>pthread_create\<close>, instead of failing, goes on to
  read the identifier of the new thread through its uninitialised variable \<^verbatim>\<open>pthread\<close>, which is undefined.
\<close>

theorem tls_failure_reads_uninitialised:
  assumes "run (pthread_alloc (cf_tries cf) (cf_queue cf) (cf_threads_max cf) self) h s = Done (OK, t) s0"
    and "setup = (case attr of Some a \<Rightarrow> a | None \<Rightarrow> default_attr s0)"
    and "run (create_stack cf t setup) h (create_attr t setup s0) = Done OK s1"
    and "run (pthread_thread_alloc t) h s1 = Done OK s2"
    and "h Dl_allocate_tls s2 = Some ((e, 0, x), s2)"
    and "unstarted t s2" and "queues s2 Q" and "reap_ok h"
  shows "\<exists>s3 cs. run (pthread_create_internal cf self attr f a) h s = Done (OK, None) s3 \<and> given_back t Q s2 s3 \<and>
    requests (pthread_create_internal cf self attr f a) h s =
      cs @ [Dl_allocate_tls, Mach_port_destroy (p_wakeup_port (pthreads s2 t)),
        Thread_terminate (p_kernel_thread (pthreads s2 t)),
        Vm_deallocate (uint (p_stackaddr (pthreads s2 t))) (uint (p_stacksize (pthreads s2 t)))] \<and>
    run (pthread_create cf self attr f a) h s = Failed Uninitialised s3"
proof -
  let ?s = "upd_pthread t (\<lambda>x. x\<lparr>p_tcb := 0\<rparr>) s2"
  have "unstarted t ?s" "queues ?s Q" using assms(6,7) by simp_all
  from run_failed_tls [OF this assms(8), of cf self OK] obtain c v where
    r: "run (failed_thread_tls_alloc cf self t OK) h ?s = Done OK (freed t c v (upd_pthread t (\<lambda>x. x\<lparr>p_stack := 0\<rparr>) ?s))"
      "linked c v (Q(Free_threads := t # Q Free_threads))"
      "requests (failed_thread_tls_alloc cf self t OK) h ?s = release_requests (pthreads ?s t)" by blast
  let ?s3 = "freed t c v (upd_pthread t (\<lambda>x. x\<lparr>p_stack := 0\<rparr>) ?s)"
  have run: "run (pthread_create_internal cf self attr f a) h s = Done (OK, None) ?s3"
    using assms(1,3-5) r(1)
    by (simp add: pthread_create_internal_def unwritten_def run_simps assms(2) [symmetric])
  moreover from run have "run (pthread_create cf self attr f a) h s = Failed Uninitialised ?s3"
    by (simp add: pthread_create_def run_simps)
  moreover have "given_back t Q s2 ?s3" using r(2) by (simp add: given_back_def freed_def)
  moreover have "\<exists>cs. requests (pthread_create_internal cf self attr f a) h s =
      cs @ Dl_allocate_tls # release_requests (pthreads s2 t)"
    using assms(1,3-5) r(1,3)
    by (simp add: pthread_create_internal_def unwritten_def run_simps requests_simps assms(2) [symmetric]
        release_requests_def)
  ultimately show ?thesis unfolding release_requests_def by blast
qed

definition none_free :: pt_state where
  "none_free = one_free\<lparr>cell := (\<lambda>_. None), prevp := (\<lambda>_. None)\<rparr>"

lemma run_recycle_one: "run (pthread_alloc_recycle 8 1) h one_free = Done (Some 2) none_free"
proof -
  have "run (andthen (gets (\<lambda>s. cell s Free_threads)) (find_free 8)) h (acquired Free_threads_lock 1 one_free) =
      Done (Some 2) (acquired Free_threads_lock 1 none_free)"
    by (auto simp: one_free_def none_free_def acquired_eq zero_pthread_def eval_nat_numeral
        pthread_dequeue_def run_simps fun_eq_iff taken_mutex_def intro!: pt_state.equality)
  moreover have "idle_mutex none_free Free_threads_lock"
    by (simp add: none_free_def one_free_def idle_mutex_def unlocked_def known_type_def mutex_type_of_def resolve_attr_def)
  ultimately show ?thesis
    unfolding pthread_alloc_recycle_def by (intro mutex_lock.bracketed [OF one_free_simps(2)])
qed

text \<open>The states on the way: with the structure, with the stack, and with the kernel thread.\<close>

definition with_struct :: pt_state where
  "with_struct = initialized 2 True none_free"

definition with_stack :: pt_state where
  "with_stack = upd_pthread 2 (\<lambda>x. x\<lparr>p_stackaddr := 0, p_stacksize := 2097152, p_stack := 1\<rparr>)
     ((create_attr 2 zero_attr with_struct)\<lparr>next_stack_base := 2097152\<rparr>)"

definition with_kernel :: pt_state where
  "with_kernel = upd_pthread 2 (\<lambda>x. x\<lparr>p_wakeup_port := 0, p_kernel_thread := 0, p_have_kernel_resources := 1\<rparr>)
     with_stack"

lemmas tls_states = none_free_def one_free_def with_struct_def with_stack_def with_kernel_def initialized_defs
  create_attr_def zero_pthread_def zero_attr_def pthread_consts

lemma run_search_first:
  assumes "0 < m" and "base < vm_max" and "h (Vm_allocate (uint base) (uint z)) s = Some ((OK, a, x), s)"
  shows "run (search_stack m vm_max z base) h s = Done (word_of_int a) s"
  using assms by (cases m) (simp_all add: run_simps)

lemma tls_run:
  "run (pthread_alloc (cf_tries life_config) (cf_queue life_config) (cf_threads_max life_config) 1) alloc_env one_free =
     Done (OK, 2) with_struct"
  "run (create_stack life_config 2 zero_attr) alloc_env (create_attr 2 zero_attr with_struct) = Done OK with_stack"
  "run (pthread_thread_alloc 2) alloc_env with_stack = Done OK with_kernel"
proof -
  show "run (pthread_alloc (cf_tries life_config) (cf_queue life_config) (cf_threads_max life_config) 1) alloc_env one_free =
     Done (OK, 2) with_struct"
    using run_recycle_one
    by (simp add: pthread_alloc_def run_simps life_config_def pthread_thread_halt_def run_initialize alloc_env_def
        with_struct_def none_free_def one_free_def zero_pthread_def)
  show "run (create_stack life_config 2 zero_attr) alloc_env (create_attr 2 zero_attr with_struct) = Done OK with_stack"
    by (simp add: create_stack_def run_simps pthread_stack_alloc_def Let_def tls_states alloc_env_def life_config_def
        run_search_first [where a = 0 and x = 0])
  show "run (pthread_thread_alloc 2) alloc_env with_stack = Done OK with_kernel"
    by (simp add: pthread_thread_alloc_def create_wakeupmsg_def run_simps tls_states alloc_env_def)
qed

lemma tls_unstarted: "unstarted 2 with_kernel" "queues with_kernel (\<lambda>_. [])" "reap_ok alloc_env"
  by (simp_all add: unstarted_def tls_states threads_inv_def idle_rwlock_def idle_mutex_def unlocked_def known_type_def
      mutex_type_of_def resolve_attr_def linked_def reap_ok_def alloc_env_def)

theorem tls_failure_reads_uninitialised_witness:
  "\<exists>s3 cs. run (pthread_create_internal life_config 1 None 5 6) alloc_env one_free = Done (OK, None) s3 \<and>
    given_back 2 (\<lambda>_. []) with_kernel s3 \<and>
    requests (pthread_create_internal life_config 1 None 5 6) alloc_env one_free =
      cs @ [Dl_allocate_tls, Mach_port_destroy (p_wakeup_port (pthreads with_kernel 2)),
        Thread_terminate (p_kernel_thread (pthreads with_kernel 2)),
        Vm_deallocate (uint (p_stackaddr (pthreads with_kernel 2))) (uint (p_stacksize (pthreads with_kernel 2)))] \<and>
    run (pthread_create life_config 1 None 5 6) alloc_env one_free = Failed Uninitialised s3"
  by (rule tls_failure_reads_uninitialised [OF tls_run(1) _ tls_run(2,3) _ tls_unstarted])
    (simp_all add: alloc_env_def tls_states)


end
