(* ===== verification/Create_Start.thy ===== *)
theory Create_Start
  imports Create_Props
begin

text \<open>
  The way of \<^verbatim>\<open>pthread_create\<close> that succeeds, from the machine context of the new thread to its start: the frame for
  its entry point, the inherited signal mask, the table of threads and the number of threads.
\<close>

section \<open>What is relied on\<close>

text \<open>
  Outside calls that succeed and leave the library's variables alone.  \<open>sig_of\<close> are the signal states of kernel
  threads, \<open>me\<close> is the kernel thread of the caller, and the thread variable for the signal state of a stack is
  among the words that the Hurd keeps at its end.
\<close>

definition start_ok :: "pt_state env \<Rightarrow> 32 word \<Rightarrow> int \<Rightarrow> (int \<Rightarrow> nat) \<Rightarrow> 32 word \<Rightarrow> 32 word \<Rightarrow> bool" where
  "start_ok h tvmax me sig_of a z \<longleftrightarrow>
     (\<forall>b n s. h (Vm_protect b n) s = Some ((OK, 0, 0), s)) \<and>
     (\<forall>s. \<exists>x. h Mach_thread_self s = Some ((OK, me, x), s)) \<and>
     (\<forall>k s. \<exists>r. h (Mach_port_deallocate k) s = Some (r, s)) \<and>
     (\<forall>k s. \<exists>x y. h (Thread_resume k) s = Some ((OK, x, y), s)) \<and>
     (\<forall>f xs s. \<exists>x y. h (Extern f xs) s = Some ((OK, x, y), s)) \<and>
     (\<forall>k s. sig_of k > 0 \<and> (\<exists>y. h (Extern ''_hurd_thread_sigstate'' [k]) s = Some ((OK, int (sig_of k), y), s))) \<and>
     (\<forall>s. \<exists>(v :: 32 word) y. h (Extern ''__hurd_threadvar_location_from_sp'' [uint a]) s = Some ((OK, uint v, y), s) \<and>
        unat (stack_top tvmax a z) \<le> unat v)"

lemma start_okD:
  assumes "start_ok h tvmax me sig_of a z"
  shows "h (Vm_protect b n) s = Some ((OK, 0, 0), s)"
    and "\<exists>x. h Mach_thread_self s = Some ((OK, me, x), s)"
    and "\<exists>r. h (Mach_port_deallocate k) s = Some (r, s)"
    and "\<exists>x y. h (Thread_resume k) s = Some ((OK, x, y), s)"
    and "\<exists>x y. h (Extern f xs) s = Some ((OK, x, y), s)"
    and "sig_of k > 0" "\<exists>y. h (Extern ''_hurd_thread_sigstate'' [k]) s = Some ((OK, int (sig_of k), y), s)"
    and "\<exists>(v :: 32 word) y. h (Extern ''__hurd_threadvar_location_from_sp'' [uint a]) s = Some ((OK, uint v, y), s) \<and>
        unat (stack_top tvmax a z) \<le> unat v"
  using assms unfolding start_ok_def by blast+

section \<open>The steps\<close>

text \<open>
  The calls of a creation that starts the kernel thread \<open>kt\<close>: its stack pointer and program counter are set, and the last
  call resumes it.
\<close>

definition starts_thread :: "syscall list \<Rightarrow> int \<Rightarrow> 32 word \<Rightarrow> 32 word \<Rightarrow> bool" where
  "starts_thread cs kt sp pc \<longleftrightarrow>
     (\<exists>us gs vs. cs = us @ Extern ''__thread_set_state'' ([kt, uint sp, uint pc] @ gs) # vs @ [Thread_resume kt])"

lemma starts_thread_more: "starts_thread cs kt sp pc \<Longrightarrow> starts_thread (bs @ cs) kt sp pc"
  unfolding starts_thread_def by (metis append.assoc)

lemma run_set_pcsptp:
  assumes "start_ok h tvmax me sig_of a z"
  shows "run (thread_set_pcsptp k ip sp tp) h s = Done OK s"
    and "sp = Some sp' \<Longrightarrow> ip = Some ip' \<Longrightarrow>
      \<exists>us gs. requests (thread_set_pcsptp k ip sp tp) h s = us @ [Extern ''__thread_set_state'' ([k, sp', ip'] @ gs)]"
proof -
  note ext = start_okD(5) [OF assms]
  obtain x y where 1: "h (Extern ''__thread_get_state'' [k]) s = Some ((OK, x, y), s)" using ext by blast
  have "\<exists>r. h (Extern ''__thread_set_state'' xs) s = Some ((OK, r), s)" for xs using ext by blast
  then obtain r where 2: "\<And>xs. h (Extern ''__thread_set_state'' xs) s = Some ((OK, r xs), s)" by metis
  let ?tls = "\<lambda>tcb. case hurd_tls_desc (word_of_int tcb) of (low, high) \<Rightarrow>
      andthen (syscall (Extern ''mov_gs'' [])) (\<lambda>(_, sel, _).
      andthen (if sel AND 4 \<noteq> 0
               then andthen (syscall (Extern ''__i386_set_ldt'' [k, sel, uint low, uint high]))
                      (\<lambda>(err, _, _). Return (err, sel))
               else andthen (syscall (Extern ''__i386_set_gdt'' [k, sel, uint low, uint high]))
                      (\<lambda>(err, sel, _). Return (err, sel)))
        (\<lambda>(err, sel). Return (err, [sel])))"
  have tls: "\<exists>gs. run (?tls tcb) h s = Done (OK, gs) s" for tcb
  proof -
    obtain low high where d: "hurd_tls_desc (word_of_int tcb) = (low, high)" by (cases "hurd_tls_desc (word_of_int tcb)")
    obtain sel y3 where 3: "h (Extern ''mov_gs'' []) s = Some ((OK, sel, y3), s)" using ext by blast
    obtain x4 y4 where 4: "h (Extern ''__i386_set_ldt'' [k, sel, uint low, uint high]) s = Some ((OK, x4, y4), s)"
      using ext by blast
    obtain x5 y5 where 5: "h (Extern ''__i386_set_gdt'' [k, sel, uint low, uint high]) s = Some ((OK, x5, y5), s)"
      using ext by blast
    show ?thesis using d 3 4 5 by (simp add: run_simps)
  qed
  define q :: "(rc \<times> int list) pt" where "q = (case tp of None \<Rightarrow> Return (OK, []) | Some tcb \<Rightarrow> ?tls tcb)"
  have "\<exists>gs. run q h s = Done (OK, gs) s" using tls by (cases tp) (simp_all add: q_def)
  then obtain gs where q: "run q h s = Done (OK, gs) s" by blast
  have p: "thread_set_pcsptp k ip sp tp =
      andthen (syscall (Extern ''__thread_get_state'' [k])) (\<lambda>(err, uesp, eip).
        if err \<noteq> OK then Return err
        else andthen q (\<lambda>(err, gs).
          if err \<noteq> OK then Return err
          else andthen (syscall (Extern ''__thread_set_state''
              ([k, case sp of Some v \<Rightarrow> v | None \<Rightarrow> uesp, case ip of Some v \<Rightarrow> v | None \<Rightarrow> eip] @ gs)))
            (\<lambda>(err, _, _). Return err)))"
    by (simp only: thread_set_pcsptp_def q_def Let_def)
  show "run (thread_set_pcsptp k ip sp tp) h s = Done OK s"
    using 1 2 q by (simp add: p run_simps split_def)
  show "\<exists>us gs. requests (thread_set_pcsptp k ip sp tp) h s = us @ [Extern ''__thread_set_state'' ([k, sp', ip'] @ gs)]"
    if "sp = Some sp'" "ip = Some ip'"
  proof -
    have "requests (thread_set_pcsptp k ip sp tp) h s =
        (Extern ''__thread_get_state'' [k] # requests q h s) @ [Extern ''__thread_set_state'' ([k, sp', ip'] @ gs)]"
      unfolding p by (simp add: 1 2 q that run_simps requests_simps split_def)
    then show ?thesis by blast
  qed
qed

text \<open>The state after the context of \<open>t\<close> has been set up: its registers, its stack, its control block.\<close>

definition set_up :: "thr \<Rightarrow> 32 word \<Rightarrow> 32 word \<Rightarrow> (32 word \<Rightarrow> 32 word) \<Rightarrow> pt_state \<Rightarrow> pt_state" where
  "set_up t ep sp mem s =
     (upd_pthread t (\<lambda>x. x\<lparr>p_pc := ep, p_sp := sp\<rparr>) s)
       \<lparr>stack_mem := mem, tcb_self := (tcb_self s)(p_tcb (pthreads s t) := p_kernel_thread (pthreads s t))\<rparr>"

lemma run_setup:
  assumes ok: "start_ok h tvmax me sig_of a z" and kt: "p_kernel_thread (pthreads s t) \<noteq> me"
    and st: "p_stackaddr (pthreads s t) = a" "p_stacksize (pthreads s t) = z" "p_guardsize (pthreads s t) = g"
    and f: "f \<noteq> 0" and sz: "unat a + unat z < 2 ^ 32" "unat g + 4 * unat tvmax + 32 \<le> unat z"
  shows "\<exists>sp mem. run (pthread_setup tvmax t ep f arg) h s = Done OK (set_up t ep sp mem s) \<and>
    frame_at mem sp t f arg \<and> unat a + unat g \<le> unat sp \<and> unat sp + 16 + 4 * unat tvmax \<le> unat a + unat z \<and>
    (\<exists>us gs. requests (pthread_setup tvmax t ep f arg) h s =
       us @ [Extern ''__thread_set_state'' ([p_kernel_thread (pthreads s t), uint sp, uint ep] @ gs), Mach_port_deallocate me])"
proof -
  let ?s0 = "upd_pthread t (\<lambda>x. x\<lparr>p_pc := ep\<rparr>) s"
  have "\<exists>sp s1. run (stack_setup tvmax t f arg) h ?s0 = Done sp s1 \<and>
      unat a + unat g \<le> unat sp \<and> unat sp + 16 + 4 * unat tvmax \<le> unat a + unat z \<and>
      (unat sp + 4) mod 16 = 0 \<and> frame_at (stack_mem s1) sp t f arg \<and>
      (\<forall>p. unat p < unat sp \<or> unat sp + 16 \<le> unat p \<longrightarrow> stack_mem s1 p = stack_mem ?s0 p) \<and>
      s1\<lparr>stack_mem := stack_mem ?s0\<rparr> = ?s0"
    by (rule run_stack_setup) (use st f sz start_okD(1) [OF ok] in simp_all)
  then obtain sp s1 where
    s1: "run (stack_setup tvmax t f arg) h ?s0 = Done sp s1" "s1\<lparr>stack_mem := stack_mem ?s0\<rparr> = ?s0"
      "frame_at (stack_mem s1) sp t f arg" "unat a + unat g \<le> unat sp"
      "unat sp + 16 + 4 * unat tvmax \<le> unat a + unat z" by blast
  have "?s0\<lparr>stack_mem := stack_mem s1\<rparr> = (s1\<lparr>stack_mem := stack_mem ?s0\<rparr>)\<lparr>stack_mem := stack_mem s1\<rparr>"
    unfolding s1(2) ..
  then have eq: "s1 = ?s0\<lparr>stack_mem := stack_mem s1\<rparr>" by simp
  obtain x where 1: "h Mach_thread_self s' = Some ((OK, me, x s'), s')" for s'
    using start_okD(2) [OF ok] by metis
  obtain r where 2: "h (Mach_port_deallocate me) s' = Some (r s', s')" for s'
    using start_okD(3) [OF ok] by metis
  let ?s2 = "set_up t ep sp (stack_mem s1) s"
  have "run (andthen (modify (upd_pthread t (\<lambda>x. x\<lparr>p_sp := sp\<rparr>))) (\<lambda>_.
      modify (\<lambda>s. s\<lparr>tcb_self := (tcb_self s)(p_tcb (pthreads s t) := p_kernel_thread (pthreads s t))\<rparr>))) h s1 = Done () ?s2"
    by (subst eq) (simp add: run_simps set_up_def)
  moreover have k2: "p_kernel_thread (pthreads ?s2 t) = p_kernel_thread (pthreads s t)" "p_sp (pthreads ?s2 t) = sp"
    "p_pc (pthreads ?s2 t) = ep" by (simp_all add: set_up_def)
  moreover from k2 kt have "p_kernel_thread (pthreads ?s2 t) \<noteq> me" by simp
  ultimately have run: "run (pthread_setup tvmax t ep f arg) h s = Done OK ?s2"
    and rq: "\<exists>us. requests (pthread_setup tvmax t ep f arg) h s =
      us @ requests (thread_set_pcsptp (p_kernel_thread (pthreads s t)) (Some (uint ep)) (Some (uint sp))
        (Some (p_tcb (pthreads ?s2 t)))) h ?s2 @ [Mach_port_deallocate me]"
    using s1(1) 1 2 run_set_pcsptp(1) [OF ok] by (simp_all add: pthread_setup_def run_simps requests_simps)
  from run_set_pcsptp(2) [OF ok HOL.refl HOL.refl, of "p_kernel_thread (pthreads s t)" "uint ep" "uint sp"
      "Some (p_tcb (pthreads ?s2 t))" ?s2] obtain us gs where
    "requests (thread_set_pcsptp (p_kernel_thread (pthreads s t)) (Some (uint ep)) (Some (uint sp))
        (Some (p_tcb (pthreads ?s2 t)))) h ?s2 =
      us @ [Extern ''__thread_set_state'' ([p_kernel_thread (pthreads s t), uint sp, uint ep] @ gs)]" by blast
  with rq obtain us' where "requests (pthread_setup tvmax t ep f arg) h s =
      (us' @ us) @ [Extern ''__thread_set_state'' ([p_kernel_thread (pthreads s t), uint sp, uint ep] @ gs),
        Mach_port_deallocate me]" by auto
  with run s1(3-5) show ?thesis by blast
qed

text \<open>The thread variable of the signal state is outside the frame.\<close>

lemma frame_at_upd:
  assumes "frame_at mem sp t f arg" and "unat sp + 16 \<le> unat v"
  shows "frame_at (mem(v := x)) sp t f arg"
proof -
  have "unat (sp + 12) = unat sp + 12" "unat (sp + 8) = unat sp + 8" "unat (sp + 4) = unat sp + 4"
    using assms(2) unsigned_less [of v, where ?'a = nat] by (simp_all add: unat_word_ariths)
  with assms(2) have "sp \<noteq> v" "sp + 4 \<noteq> v" "sp + 8 \<noteq> v" "sp + 12 \<noteq> v" by auto
  with assms(1) show ?thesis by (simp add: frame_at_def)
qed

lemma run_sigstate_init:
  assumes ok: "start_ok h tvmax me sig_of a z" and "p_stackaddr (pthreads s t) = a"
  shows "\<exists>v. run (pthread_sigstate_init t) h s = Done OK (s\<lparr>stack_mem := (stack_mem s)(v := 0)\<rparr>) \<and>
    unat (stack_top tvmax a z) \<le> unat v"
proof -
  from start_okD(8) [OF ok] obtain v :: "32 word" and y where
    "h (Extern ''__hurd_threadvar_location_from_sp'' [uint a]) s = Some ((OK, uint v, y), s)"
    "unat (stack_top tvmax a z) \<le> unat v" by blast
  with assms(2) show ?thesis by (intro exI [where x = v]) (simp add: pthread_sigstate_init_def run_simps)
qed

text \<open>The new thread gets the mask of its creator and nothing pending.\<close>

definition inherited :: "nat \<Rightarrow> nat \<Rightarrow> pt_state \<Rightarrow> pt_state" where
  "inherited old new s =
     upd_sigstate new (\<lambda>x. x\<lparr>hss_blocked := hss_blocked (sigstates s old), hss_pending := 0\<rparr>) s"

lemma run_sigstate_set:
  assumes ok: "start_ok h tvmax me sig_of a z"
    and "spin s (Sigstate_lock (sig_of (p_kernel_thread (pthreads s t)))) = 0"
  shows "run (pthread_sigstate t SIG_SETMASK (Some m) True) h s =
      Done (OK, hss_blocked (sigstates s (sig_of (p_kernel_thread (pthreads s t)))))
        (upd_sigstate (sig_of (p_kernel_thread (pthreads s t))) (\<lambda>x. x\<lparr>hss_blocked := m, hss_pending := 0\<rparr>) s)"
proof -
  obtain y where "h (Extern ''_hurd_thread_sigstate'' [k]) s' = Some ((OK, int (sig_of k), y k s'), s')" for k s'
    using start_okD(7) [OF ok] by metis
  with start_okD(6) [OF ok, of "p_kernel_thread (pthreads s t)"] assms(2) show ?thesis
    by (simp add: pthread_sigstate_def run_simps sigstate_section_def Let_def pthread_spin_unlock_def new_blocked_def
        SIG_SETMASK_def SIG_BLOCK_def SIG_UNBLOCK_def fun_upd_idem)
qed

lemma run_create_sigmask:
  assumes ok: "start_ok h tvmax me sig_of a z" and "num_threads s \<noteq> 1"
    and "spin s (Sigstate_lock (sig_of (p_kernel_thread (pthreads s self)))) = 0"
    and "spin s (Sigstate_lock (sig_of (p_kernel_thread (pthreads s t)))) = 0"
  shows "run (create_sigmask self t) h s =
    Done () (inherited (sig_of (p_kernel_thread (pthreads s self))) (sig_of (p_kernel_thread (pthreads s t))) s)"
proof -
  obtain y where y: "h (Extern ''_hurd_thread_sigstate'' [k]) s' = Some ((OK, int (sig_of k), y k s'), s')" for k s'
    using start_okD(7) [OF ok] by metis
  have 1: "run (pthread_sigstate self 0 None False) h s =
      Done (OK, hss_blocked (sigstates s (sig_of (p_kernel_thread (pthreads s self))))) s"
    using y start_okD(6) [OF ok, of "p_kernel_thread (pthreads s self)"] assms(3)
    by (simp add: pthread_sigstate_def run_simps sigstate_section_def Let_def pthread_spin_unlock_def fun_upd_idem)
  note 2 = run_sigstate_set [OF ok assms(4)]
  show ?thesis using assms(2) 1 2 by (simp add: create_sigmask_def run_simps inherited_def)
qed

lemma run_create_publish:
  assumes "idle_rwlock s Threads_lock" and "1 \<le> p_thread (pthreads s t)" and "p_thread (pthreads s t) \<le> num_threads s"
  shows "run (create_publish cf self t) h s =
    Done () (s\<lparr>threads_tab := (threads_tab s)[nat (p_thread (pthreads s t) - 1) := Some t]\<rparr>)"
  unfolding create_publish_def
  by (rule read_lock.bracketed [OF assms(1)])
    (use assms in \<open>simp_all add: run_simps read_locked_def store_id_def idle_rwlock_def\<close>)

lemma run_thread_start:
  assumes ok: "start_ok h tvmax me sig_of a z" and "num_threads s \<noteq> 1"
  shows "run (pthread_thread_start t) h s = Done OK s"
    and "requests (pthread_thread_start t) h s = [Thread_resume (p_kernel_thread (pthreads s t))]"
proof -
  obtain x y where "h (Thread_resume (p_kernel_thread (pthreads s t))) s = Some ((OK, x, y), s)"
    using start_okD(4) [OF ok] by blast
  with assms(2) show "run (pthread_thread_start t) h s = Done OK s"
    "requests (pthread_thread_start t) h s = [Thread_resume (p_kernel_thread (pthreads s t))]"
    by (simp_all add: pthread_thread_start_def run_simps requests_simps)
qed

section \<open>A thread that runs\<close>

text \<open>What a thread must have before its context is set up, apart from what \<open>start_ok\<close> gives.\<close>

definition startable :: "int \<Rightarrow> (int \<Rightarrow> nat) \<Rightarrow> 32 word \<Rightarrow> thr \<Rightarrow> thr \<Rightarrow> pt_state \<Rightarrow> bool" where
  "startable me sig_of tvmax self t s \<longleftrightarrow>
     (let x = pthreads s t in
      p_kernel_thread x \<noteq> me \<and> unat (p_stackaddr x) + unat (p_stacksize x) < 2 ^ 32 \<and>
      unat (p_guardsize x) + 4 * unat tvmax + 32 \<le> unat (p_stacksize x) \<and>
      num_threads s \<noteq> 1 \<and> idle_rwlock s Threads_lock \<and> 1 \<le> p_thread x \<and> p_thread x \<le> num_threads s \<and>
      spin s (Sigstate_lock (sig_of (p_kernel_thread (pthreads s self)))) = 0 \<and>
      spin s (Sigstate_lock (sig_of (p_kernel_thread x))) = 0)"

text \<open>The thread runs: its registers and frame, its mask, its identifier, and the number of threads.\<close>

definition launched ::
    "(int \<Rightarrow> nat) \<Rightarrow> pt_config \<Rightarrow> thr \<Rightarrow> thr \<Rightarrow> 32 word \<Rightarrow> 32 word \<Rightarrow> pt_state \<Rightarrow> pt_state \<Rightarrow> bool" where
  "launched sig_of cf self t f arg s s1 \<longleftrightarrow>
     (let x = pthreads s t; y = pthreads s1 t; new = sig_of (p_kernel_thread x) in
      p_pc y = cf_entry_point cf \<and> frame_at (stack_mem s1) (p_sp y) t f arg \<and>
      unat (p_stackaddr x) + unat (p_guardsize x) \<le> unat (p_sp y) \<and>
      unat (p_sp y) + 16 + 4 * unat (cf_threadvar_max cf) \<le> unat (p_stackaddr x) + unat (p_stacksize x) \<and>
      tcb_self s1 (p_tcb x) = p_kernel_thread x \<and>
      hss_blocked (sigstates s1 new) = hss_blocked (sigstates s (sig_of (p_kernel_thread (pthreads s self)))) \<and>
      hss_pending (sigstates s1 new) = 0 \<and>
      threads_tab s1 = (threads_tab s)[nat (p_thread x - 1) := Some t] \<and> total_threads s1 = total_threads s + 1 \<and>
      y = x\<lparr>p_pc := p_pc y, p_sp := p_sp y\<rparr> \<and> (\<forall>u. u \<noteq> t \<longrightarrow> pthreads s1 u = pthreads s u) \<and>
      s1 = s\<lparr>pthreads := pthreads s1, stack_mem := stack_mem s1, tcb_self := tcb_self s1, sigstates := sigstates s1,
        total_threads := total_threads s1, threads_tab := threads_tab s1\<rparr>)"

lemma stack_top_unat:
  assumes "unat a + unat z < 2 ^ 32" and "4 * unat tvmax \<le> unat z"
  shows "unat (stack_top tvmax a z) = unat a + unat z - 4 * unat tvmax"
proof -
  have "unat (a + z) = unat a + unat z" using assms(1) by (simp add: unat_word_ariths)
  moreover have "unat (4 * tvmax) = 4 * unat tvmax" using assms by (simp add: unat_word_ariths)
  ultimately show ?thesis using assms by (simp add: stack_top_def unat_sub word_le_nat_alt)
qed

lemma run_create_running:
  assumes ok: "start_ok h (cf_threadvar_max cf) me sig_of (p_stackaddr (pthreads s t)) (p_stacksize (pthreads s t))"
    and st: "startable me sig_of (cf_threadvar_max cf) self t s" and f: "f \<noteq> 0"
  shows "\<exists>s1. run (create_running cf self t f arg) h s = Done (OK, Some t) s1 \<and> launched sig_of cf self t f arg s s1 \<and>
    starts_thread (requests (create_running cf self t f arg) h s) (p_kernel_thread (pthreads s t))
      (p_sp (pthreads s1 t)) (cf_entry_point cf)"
proof -
  let ?x = "pthreads s t" and ?tv = "cf_threadvar_max cf"
  let ?a = "p_stackaddr ?x" and ?z = "p_stacksize ?x"
  note st = st [unfolded startable_def Let_def]
  from run_setup [OF ok _ HOL.refl HOL.refl HOL.refl f, of "cf_entry_point cf" arg] st obtain sp mem where
    1: "run (pthread_setup ?tv t (cf_entry_point cf) f arg) h s = Done OK (set_up t (cf_entry_point cf) sp mem s)"
      "frame_at mem sp t f arg" "unat ?a + unat (p_guardsize ?x) \<le> unat sp"
      "unat sp + 16 + 4 * unat ?tv \<le> unat ?a + unat ?z"
      "\<exists>us gs. requests (pthread_setup ?tv t (cf_entry_point cf) f arg) h s =
        us @ [Extern ''__thread_set_state'' ([p_kernel_thread ?x, uint sp, uint (cf_entry_point cf)] @ gs),
          Mach_port_deallocate me]" by blast
  let ?s1 = "set_up t (cf_entry_point cf) sp mem s"
  from run_sigstate_init [OF ok, of ?s1 t] obtain v where
    2: "run (pthread_sigstate_init t) h ?s1 = Done OK (?s1\<lparr>stack_mem := mem(v := 0)\<rparr>)"
      "unat (stack_top ?tv ?a ?z) \<le> unat v" by (auto simp: set_up_def)
  have "unat (stack_top ?tv ?a ?z) = unat ?a + unat ?z - 4 * unat ?tv" using st by (intro stack_top_unat) auto
  with 1(4) 2(2) have "unat sp + 16 \<le> unat v" by simp
  then have fr: "frame_at (mem(v := 0)) sp t f arg" using frame_at_upd [OF 1(2)] by simp
  let ?s2 = "?s1\<lparr>stack_mem := mem(v := 0)\<rparr>"
  let ?old = "sig_of (p_kernel_thread (pthreads s self))" and ?new = "sig_of (p_kernel_thread ?x)"
  have k: "p_kernel_thread (pthreads ?s2 u) = p_kernel_thread (pthreads s u)" for u by (simp add: set_up_def)
  have 3: "run (create_sigmask self t) h ?s2 = Done () (inherited ?old ?new ?s2)"
    using run_create_sigmask [OF ok, of ?s2 self t] st unfolding k by (simp add: set_up_def)
  let ?s3 = "(inherited ?old ?new ?s2)\<lparr>total_threads := total_threads s + 1\<rparr>"
  let ?s4 = "?s3\<lparr>threads_tab := (threads_tab s)[nat (p_thread ?x - 1) := Some t]\<rparr>"
  have 4: "run atomic_inc h (inherited ?old ?new ?s2) = Done () ?s3"
    by (simp add: atomic_inc_def run_simps inherited_def set_up_def)
  have 5: "run (create_publish cf self t) h ?s3 = Done () ?s4"
    using run_create_publish [of ?s3 t cf self h] st by (simp add: inherited_def set_up_def idle_rwlock_def)
  have "num_threads ?s4 \<noteq> 1" "p_kernel_thread (pthreads ?s4 t) = p_kernel_thread ?x"
    using st by (simp_all add: inherited_def set_up_def)
  note 6 = run_thread_start [OF ok this(1), of t, unfolded this(2)]
  have "run (create_running cf self t f arg) h s = Done (OK, Some t) ?s4"
    using 1(1) 2(1) 3 4 5 6(1) by (simp add: create_running_def run_simps)
  moreover have "\<exists>vs. requests (create_running cf self t f arg) h s =
      requests (pthread_setup ?tv t (cf_entry_point cf) f arg) h s @ vs @ [Thread_resume (p_kernel_thread ?x)]"
    using 1(1) 2(1) 3 4 5 6 by (simp add: create_running_def run_simps requests_simps)
  with 1(5) have "starts_thread (requests (create_running cf self t f arg) h s) (p_kernel_thread ?x) sp (cf_entry_point cf)"
    unfolding starts_thread_def by fastforce
  moreover have "p_sp (pthreads ?s4 t) = sp" by (simp add: inherited_def set_up_def)
  moreover have "launched sig_of cf self t f arg s ?s4"
    using fr 1(3,4) by (simp add: launched_def Let_def inherited_def set_up_def)
  ultimately show ?thesis by (intro exI [of _ ?s4] conjI) simp_all
qed

text \<open>
  With any attributes, and with a structure that is recycled or new: when nothing fails, the creation of a thread returns 0 with
  its identifier.  The thread starts at the entry point with a frame for the start routine and its argument, inside its
  stack between the guard pages and the words of the Hurd; its control block names its kernel thread; it has the signal
  mask of its creator and no signal pending; its identifier denotes it; there is one thread more, and no other
  thread's structure has changed.
\<close>

theorem create_launches:
  assumes "run (pthread_alloc (cf_tries cf) (cf_queue cf) (cf_threads_max cf) self) h s = Done (OK, t) s0"
    and "setup = (case attr of Some a \<Rightarrow> a | None \<Rightarrow> default_attr s0)"
    and "run (create_stack cf t setup) h (create_attr t setup s0) = Done OK s1"
    and "run (pthread_thread_alloc t) h s1 = Done OK s2"
    and "h Dl_allocate_tls s2 = Some ((e, tcb, x), s2)" and "tcb \<noteq> 0"
    and "start_ok h (cf_threadvar_max cf) me sig_of (p_stackaddr (pthreads s2 t)) (p_stacksize (pthreads s2 t))"
    and "startable me sig_of (cf_threadvar_max cf) self t s2" and "f \<noteq> 0"
  shows "\<exists>s3. run (pthread_create cf self attr f arg) h s = Done (OK, Some (p_thread (pthreads s2 t))) s3 \<and>
    launched sig_of cf self t f arg ((upd_pthread t (\<lambda>x. x\<lparr>p_tcb := tcb\<rparr>) s2)\<lparr>tcb_tcb := (tcb_tcb s2)(tcb := tcb)\<rparr>) s3"
proof -
  let ?s = "(upd_pthread t (\<lambda>x. x\<lparr>p_tcb := tcb\<rparr>) s2)\<lparr>tcb_tcb := (tcb_tcb s2)(tcb := tcb)\<rparr>"
  have st: "startable me sig_of (cf_threadvar_max cf) self t ?s"
    using assms(8) by (simp add: startable_def Let_def idle_rwlock_def)
  have ok: "start_ok h (cf_threadvar_max cf) me sig_of (p_stackaddr (pthreads ?s t)) (p_stacksize (pthreads ?s t))"
    using assms(7) by simp
  from run_create_running [OF ok st assms(9), of arg] obtain s3 where
    s3: "run (create_running cf self t f arg) h ?s = Done (OK, Some t) s3" "launched sig_of cf self t f arg ?s s3" by blast
  have "p_thread (pthreads s3 t) = p_thread (pthreads s2 t)"
  proof -
    have "pthreads s3 t = (pthreads ?s t)\<lparr>p_pc := p_pc (pthreads s3 t), p_sp := p_sp (pthreads s3 t)\<rparr>"
      using s3(2) unfolding launched_def Let_def by blast
    then have "p_thread (pthreads s3 t) = p_thread ((pthreads ?s t)\<lparr>p_pc := p_pc (pthreads s3 t), p_sp := p_sp (pthreads s3 t)\<rparr>)"
      by (rule arg_cong)
    then show ?thesis by simp
  qed
  with assms(1,3-6) s3(1) have "run (pthread_create cf self attr f arg) h s = Done (OK, Some (p_thread (pthreads s2 t))) s3"
    by (simp add: pthread_create_def pthread_create_internal_def run_simps assms(2) [symmetric])
  with s3(2) show ?thesis by blast
qed

text \<open>For the witness: the caller runs on kernel thread 3, the new kernel thread is 5.\<close>

definition start_env :: "pt_state env" where
  "start_env c s =
     (case c of
        Dl_allocate_tls \<Rightarrow> Some ((OK, 9, 0), s)
      | Mach_thread_self \<Rightarrow> Some ((OK, 3, 0), s)
      | Thread_create \<Rightarrow> Some ((OK, 5, 0), s)
      | Extern f xs \<Rightarrow>
          Some ((OK, if f = ''_hurd_thread_sigstate'' then int (Suc (nat (hd xs)))
                     else if f = ''__hurd_threadvar_location_from_sp'' then 2097104 else 0, 0), s)
      | _ \<Rightarrow> Some ((OK, 0, 0), s))"

definition with_thread :: pt_state where
  "with_thread = upd_pthread 2 (\<lambda>x. x\<lparr>p_kernel_thread := 5\<rparr>) with_kernel"

lemma start_run:
  "run (pthread_alloc (cf_tries life_config) (cf_queue life_config) (cf_threads_max life_config) 1) start_env one_free =
     Done (OK, 2) with_struct"
  "run (create_stack life_config 2 zero_attr) start_env (create_attr 2 zero_attr with_struct) = Done OK with_stack"
  "run (pthread_thread_alloc 2) start_env with_stack = Done OK with_thread"
proof -
  show "run (pthread_alloc (cf_tries life_config) (cf_queue life_config) (cf_threads_max life_config) 1) start_env one_free =
     Done (OK, 2) with_struct"
    using run_recycle_one [of start_env]
    by (simp add: pthread_alloc_def run_simps life_config_def pthread_thread_halt_def run_initialize start_env_def
        with_struct_def none_free_def one_free_def zero_pthread_def)
  show "run (create_stack life_config 2 zero_attr) start_env (create_attr 2 zero_attr with_struct) = Done OK with_stack"
    by (simp add: create_stack_def run_simps pthread_stack_alloc_def Let_def tls_states start_env_def life_config_def
        run_search_first [where a = 0 and x = 0])
  show "run (pthread_thread_alloc 2) start_env with_stack = Done OK with_thread"
    by (simp add: pthread_thread_alloc_def create_wakeupmsg_def run_simps with_thread_def tls_states start_env_def)
qed

lemma start_env_ok: "start_ok start_env 12 3 (\<lambda>k. Suc (nat k)) 0 2097152"
  by (auto simp: start_ok_def start_env_def stack_top_def intro!: exI [of _ "2097104 :: 32 word"])

lemma with_thread_startable:
  "startable 3 (\<lambda>k. Suc (nat k)) 12 1 2 with_thread"
  "p_stackaddr (pthreads with_thread 2) = 0" "p_stacksize (pthreads with_thread 2) = 2097152"
  by (simp_all add: startable_def with_thread_def tls_states idle_rwlock_def)

theorem create_launches_witness:
  "\<exists>s3. run (pthread_create life_config 1 None 5 6) start_env one_free =
      Done (OK, Some (p_thread (pthreads with_thread 2))) s3 \<and>
    launched (\<lambda>k. Suc (nat k)) life_config 1 2 5 6
      ((upd_pthread 2 (\<lambda>x. x\<lparr>p_tcb := 9\<rparr>) with_thread)\<lparr>tcb_tcb := (tcb_tcb with_thread)(9 := 9)\<rparr>) s3"
  by (rule create_launches [OF start_run(1) _ start_run(2,3), where me = 3 and e = OK and x = 0])
    (simp_all add: start_env_ok with_thread_startable life_config_def start_env_def tls_states del: One_nat_def)

end
