(* ===== verification/Create_Fresh.thy ===== *)
theory Create_Fresh
  imports Create_Start
begin

text \<open>
  \<^verbatim>\<open>pthread_create\<close> with a structure from \<^verbatim>\<open>malloc\<close>, all the way: the structure and its identifier, the stack, the kernel
  thread and its wakeup port, the thread-local storage, and the start.  The first steps are shared with the
  startup of the library.
\<close>

section \<open>What is relied on\<close>

text \<open>Outside calls that succeed and leave the library's variables alone; \<open>a\<close> and \<open>z\<close> are a free place and the size of stacks.\<close>

definition supply_ok :: "pt_state env \<Rightarrow> 32 word \<Rightarrow> 32 word \<Rightarrow> bool" where
  "supply_ok h a z \<longleftrightarrow>
     (\<forall>s. \<exists>e p x. p > 0 \<and> h Malloc s = Some ((e, p, x), s)) \<and>
     (\<forall>p s. \<exists>r. h (Free p) s = Some (r, s)) \<and>
     (\<forall>s. \<exists>x. h (Vm_allocate (uint a) (uint z)) s = Some ((OK, uint a, x), s)) \<and>
     (\<forall>s. \<exists>p x. h Mach_port_allocate s = Some ((OK, p, x), s)) \<and>
     (\<forall>p s. \<exists>x y. h (Mach_port_insert_right p) s = Some ((OK, x, y), s)) \<and>
     (\<forall>p q s. \<exists>r. h (Mach_port_set_qlimit p q) s = Some (r, s)) \<and>
     (\<forall>s. \<exists>e tcb x. tcb \<noteq> 0 \<and> h Dl_allocate_tls s = Some ((e, tcb, x), s))"

text \<open>Nothing to recycle, nothing locked, and the limits are not reached.\<close>

definition roomy :: "pt_config \<Rightarrow> pt_state \<Rightarrow> bool" where
  "roomy cf s \<longleftrightarrow>
     threads_inv s \<and> idle_mutex s Free_threads_lock \<and> cell s Free_threads = None \<and>
     next_stack_base s < cf_vm_max cf \<and> (\<forall>k. spin s (Sigstate_lock k) = 0) \<and>
     cf_tries cf > 0 \<and> cf_pages cf > 0 \<and> (case cf_threads_max cf of Some m \<Rightarrow> num_threads s < m | None \<Rightarrow> True)"

text \<open>
  \<open>t\<close> is the memory that \<^verbatim>\<open>malloc\<close> returns for the structure; its \<^verbatim>\<open>have_kernel_resources\<close>, which no function
  initialises, is 0.
\<close>

definition fresh_block :: "pt_state env \<Rightarrow> thr \<Rightarrow> pt_state \<Rightarrow> bool" where
  "fresh_block h t s \<longleftrightarrow>
     t > 0 \<and> (\<exists>e x. h Malloc s = Some ((e, int t, x), s)) \<and>
     p_have_kernel_resources (pthreads s t) = 0"

section \<open>The structure\<close>

text \<open>The identifier is the next one, in the table or in an enlarged table at \<open>p\<close>.\<close>

definition with_id :: "thr \<Rightarrow> ptr \<Rightarrow> pt_state \<Rightarrow> pt_state" where
  "with_id t p s =
     take_slot t (if num_threads s < max_threads s then initialized t False s
                  else grow_table p (initialized t False s))"

lemma run_alloc_fresh_block:
  assumes ok: "supply_ok h a z" and r: "roomy cf s" and t: "fresh_block h t s"
  shows "\<exists>p. p > 0 \<and>
    run (pthread_alloc (cf_tries cf) (cf_queue cf) (cf_threads_max cf) self) h s = Done (OK, t) (with_id t p s)"
proof -
  note ok = ok [unfolded supply_ok_def] and r = r [unfolded roomy_def]
  from t obtain e x where 1: "t > 0" "h Malloc s = Some ((e, int t, x), s)" by (auto simp: fresh_block_def)
  let ?s = "initialized t False s"
  from ok obtain e' q y where 2: "q > 0" "h Malloc ?s = Some ((e', q, y), ?s)" by blast
  have mx: "max_threads ?s = max_threads s" by (simp add: initialized_defs Let_def)
  have i: "threads_inv ?s" "num_threads ?s = num_threads s" using r by (simp_all only: initialized_frame)
  let ?m = "with_id t (nat q) s"
  from ok obtain f where 3: "h (Free (threads_ptr ?s)) ?m = Some (f, ?m)" by blast
  from r obtain k where k: "cf_tries cf = Suc k" by (cases "cf_tries cf") auto
  have lim: "\<not> (case cf_threads_max cf of Some m \<Rightarrow> num_threads s \<ge> m | None \<Rightarrow> False)"
    using r by (auto split: option.splits)
  have "run (alloc_slot (cf_tries cf) (cf_queue cf) (cf_threads_max cf) self t) h ?s = Done OK ?m"
  proof (cases "num_threads s < max_threads s")
    case True
    then show ?thesis using run_slot_section [OF i(1)] by (simp add: run_simps with_id_def i mx k)
  next
    case False
    have sl: "run (bracket (pthread_rwlock_wrlock Threads_lock self) (pthread_rwlock_unlock (cf_queue cf) Threads_lock)
        (section_of (\<lambda>_. True) (slot_section (cf_threads_max cf) t))) h ?s = Done (Slot_grow (max_threads s)) ?s"
      unfolding run_slot_section [OF i(1)] i(2) mx using False lim by (simp cong: option.case_cong)
    with False 2 3 show ?thesis
      using run_grow_section [OF i(1), unfolded mx] by (simp add: run_simps with_id_def k)
  qed
  then have "run (pthread_alloc (cf_tries cf) (cf_queue cf) (cf_threads_max cf) self) h s = Done (OK, t) ?m"
    using run_recycle_empty [of s] r 1
    by (simp add: pthread_alloc_def run_simps run_initialize del: alloc_slot.simps)
  with 2(1) show ?thesis by (metis zero_less_nat_eq)
qed

lemma with_id_simps [simp]:
  "next_stack_base (with_id t p s) = next_stack_base s" "default_attr (with_id t p s) = default_attr s"
  "num_threads (with_id t p s) = num_threads s + 1" "total_threads (with_id t p s) = total_threads s"
  "p_stack (pthreads (with_id t p s) t) = 0" "p_thread (pthreads (with_id t p s) t) = num_threads s + 1"
  "p_have_kernel_resources (pthreads (with_id t p s) t) = p_have_kernel_resources (pthreads s t)"
  "sigstates (with_id t p s) = sigstates s" "tls_self (with_id t p s) = tls_self s"
  "spin (with_id t p s) (Sigstate_lock k) = spin s (Sigstate_lock k)"
  "u \<noteq> t \<Longrightarrow> pthreads (with_id t p s) u = pthreads s u" "cell (with_id t p s) Free_threads = cell s Free_threads"
  by (auto simp: with_id_def take_slot_def grow_table_def initialized_defs Let_def)

lemma with_id_ptr: "p > 0 \<Longrightarrow> threads_ptr s > 0 \<or> max_threads s \<le> num_threads s \<Longrightarrow> threads_ptr (with_id t p s) > 0"
  by (auto simp: with_id_def take_slot_def grow_table_def initialized_defs Let_def)

text \<open>The table keeps its entries.\<close>

lemma with_id_table:
  assumes "threads_inv s"
  shows "threads_inv (with_id t p s)" and "i < nat (num_threads s) \<Longrightarrow> threads_tab (with_id t p s) ! i = threads_tab s ! i"
proof -
  let ?i = "initialized t False s"
  let ?g = "if num_threads s < max_threads s then ?i else grow_table p ?i"
  have i: "threads_inv ?i" "num_threads ?i = num_threads s" "threads_tab ?i = threads_tab s"
    using assms by (simp_all only: initialized_frame)
  have mx: "max_threads ?i = max_threads s" by (simp add: initialized_defs Let_def)
  note gs = grow_table_spec [OF i(1), where p = p, unfolded i(2,3) mx]
  have g: "threads_inv ?g" "num_threads ?g < max_threads ?g" "num_threads ?g = num_threads s"
    "j < nat (num_threads s) \<Longrightarrow> threads_tab ?g ! j = threads_tab s ! j" for j
    using i mx gs(1-3) gs(6) [of j] assms by (auto simp: threads_inv_def)
  then have "got_slot t ?g (with_id t p s)" unfolding with_id_def by (intro take_slot_spec)
  with g show "threads_inv (with_id t p s)" "i < nat (num_threads s) \<Longrightarrow> threads_tab (with_id t p s) ! i = threads_tab s ! i"
    by (simp_all add: got_slot_def)
qed

section \<open>The stack\<close>

definition with_mem :: "thr \<Rightarrow> ptr \<Rightarrow> pt_state \<Rightarrow> pt_state" where
  "with_mem t p s =
     upd_pthread t (\<lambda>x. x\<lparr>p_stackaddr := next_stack_base s, p_stacksize := at_stacksize (default_attr s), p_stack := 1\<rparr>)
       ((create_attr t (default_attr s) (with_id t p s))
         \<lparr>next_stack_base := next_stack_base s + at_stacksize (default_attr s)\<rparr>)"

lemma run_stack_fresh:
  assumes ok: "supply_ok h (next_stack_base s) (at_stacksize (default_attr s))" and r: "roomy cf s"
  shows "run (create_stack cf t (default_attr s)) h (create_attr t (default_attr s) (with_id t p s)) =
    Done OK (with_mem t p s)"
proof -
  let ?s = "create_attr t (default_attr s) (with_id t p s)"
  have ca: "default_attr ?s = default_attr s" "next_stack_base ?s = next_stack_base s" "p_stack (pthreads ?s t) = 0"
    by (simp_all add: create_attr_def)
  from ok obtain x where
    "h (Vm_allocate (uint (next_stack_base s)) (uint (at_stacksize (default_attr s)))) ?s =
      Some ((OK, uint (next_stack_base s), x), ?s)" unfolding supply_ok_def by blast
  with run_search_first [where h = h and s = ?s and base = "next_stack_base s" and z = "at_stacksize (default_attr s)"
      and a = "uint (next_stack_base s)" and m = "cf_pages cf" and vm_max = "cf_vm_max cf" and x = x] r
  have "run (search_stack (cf_pages cf) (cf_vm_max cf) (at_stacksize (default_attr s)) (next_stack_base s)) h ?s =
      Done (next_stack_base s) ?s" by (simp add: roomy_def)
  moreover have "\<not> cf_vm_max cf \<le> next_stack_base s" using r by (simp add: roomy_def not_le)
  ultimately show ?thesis
    by (simp add: create_stack_def run_simps pthread_stack_alloc_def Let_def ca with_mem_def)
qed

section \<open>The kernel thread\<close>

definition with_port :: "thr \<Rightarrow> ptr \<Rightarrow> int \<Rightarrow> pt_state \<Rightarrow> pt_state" where
  "with_port t p port s = upd_pthread t (\<lambda>x. x\<lparr>p_wakeup_port := port\<rparr>) (with_mem t p s)"

lemma run_wakeupmsg_fresh:
  assumes "supply_ok h a z"
  shows "\<exists>port. run (create_wakeupmsg t) h (with_mem t p s) = Done OK (with_port t p port s)"
proof -
  let ?s = "with_mem t p s"
  from assms obtain port y where 1: "h Mach_port_allocate ?s = Some ((OK, port, y), ?s)"
    unfolding supply_ok_def by metis
  let ?s1 = "with_port t p port s"
  from assms obtain x3 y3 r4 where "h (Mach_port_insert_right port) ?s1 = Some ((OK, x3, y3), ?s1)"
    "h (Mach_port_set_qlimit port 1) ?s1 = Some (r4, ?s1)" unfolding supply_ok_def by metis
  with 1 have "run (create_wakeupmsg t) h ?s = Done OK ?s1"
    by (simp add: create_wakeupmsg_def run_simps with_port_def)
  then show ?thesis by blast
qed

definition with_kernel_thread :: "thr \<Rightarrow> ptr \<Rightarrow> int \<Rightarrow> int \<Rightarrow> int \<Rightarrow> pt_state \<Rightarrow> pt_state" where
  "with_kernel_thread t p port kt tcb s =
     (upd_pthread t (\<lambda>x. x\<lparr>p_wakeup_port := port, p_kernel_thread := kt, p_have_kernel_resources := 1, p_tcb := tcb\<rparr>)
       (with_mem t p s))\<lparr>tcb_tcb := (tcb_tcb s)(tcb := tcb)\<rparr>"

lemma with_mem_tcb [simp]: "tcb_tcb (with_mem t p s) = tcb_tcb s"
  by (simp add: with_mem_def create_attr_def with_id_def take_slot_def grow_table_def initialized_defs Let_def)

text \<open>Storing the address of a new control block, in the structure and in the block.\<close>

definition with_tcb :: "thr \<Rightarrow> int \<Rightarrow> pt_state \<Rightarrow> pt_state" where
  "with_tcb t tcb s = (upd_pthread t (\<lambda>x. x\<lparr>p_tcb := tcb\<rparr>) s)\<lparr>tcb_tcb := (tcb_tcb s)(tcb := tcb)\<rparr>"

lemma with_kernel_thread_eq:
  "with_tcb t tcb
     (upd_pthread t (\<lambda>x. x\<lparr>p_have_kernel_resources := 1\<rparr>) (upd_pthread t (\<lambda>x. x\<lparr>p_kernel_thread := kt\<rparr>) (with_port t p port s))) =
   with_kernel_thread t p port kt tcb s"
  by (simp add: with_kernel_thread_def with_port_def with_tcb_def)

lemma with_kernel_thread_simps:
  assumes "threads_inv s"
  shows "num_threads (with_kernel_thread t p port kt tcb s) = num_threads s + 1"
    "total_threads (with_kernel_thread t p port kt tcb s) = total_threads s"
    "threads_inv (with_kernel_thread t p port kt tcb s)"
    "p_thread (pthreads (with_kernel_thread t p port kt tcb s) t) = num_threads s + 1"
    "p_kernel_thread (pthreads (with_kernel_thread t p port kt tcb s) t) = kt"
    "p_stackaddr (pthreads (with_kernel_thread t p port kt tcb s) t) = next_stack_base s"
    "p_stacksize (pthreads (with_kernel_thread t p port kt tcb s) t) = at_stacksize (default_attr s)"
    "p_stack (pthreads (with_kernel_thread t p port kt tcb s) t) = 1"
    "p_tcb (pthreads (with_kernel_thread t p port kt tcb s) t) = tcb"
    "default_attr (with_kernel_thread t p port kt tcb s) = default_attr s"
    "threads_ptr (with_kernel_thread t p port kt tcb s) = threads_ptr (with_id t p s)"
    "threads_tab (with_kernel_thread t p port kt tcb s) = threads_tab (with_id t p s)"
    "spin (with_kernel_thread t p port kt tcb s) (Sigstate_lock k) = spin s (Sigstate_lock k)"
    "sigstates (with_kernel_thread t p port kt tcb s) = sigstates s"
    "u \<noteq> t \<Longrightarrow> pthreads (with_kernel_thread t p port kt tcb s) u = pthreads s u"
    "unat (p_guardsize (pthreads (with_kernel_thread t p port kt tcb s) t)) =
       (if at_stackaddr (default_attr s) \<noteq> 0 then 0
        else min (unat (at_guardsize (default_attr s))) (unat (at_stacksize (default_attr s))))"
    "tcb_tcb (with_kernel_thread t p port kt tcb s) tcb = tcb"
  using assms with_id_table(1) [OF assms, of t p]
  by (auto simp: with_kernel_thread_def with_mem_def create_attr_def threads_inv_def idle_rwlock_def word_le_nat_alt min_def)

text \<open>The list of free structures and its lock are not touched.\<close>

lemma with_kernel_thread_free_list:
  "mutexes (with_kernel_thread t p port kt tcb s) Free_threads_lock = mutexes s Free_threads_lock"
  "cell (with_kernel_thread t p port kt tcb s) Free_threads = cell s Free_threads"
  "cell (with_kernel_thread t p port kt tcb s) (Mutex_queue Free_threads_lock) = cell s (Mutex_queue Free_threads_lock)"
  "spin (with_kernel_thread t p port kt tcb s) (M_lock Free_threads_lock) = spin s (M_lock Free_threads_lock)"
  "spin (with_kernel_thread t p port kt tcb s) (M_held Free_threads_lock) = spin s (M_held Free_threads_lock)"
  by (simp_all add: with_kernel_thread_def with_mem_def create_attr_def with_id_def take_slot_def grow_table_def
      initialized_defs Let_def)

text \<open>The kernel thread is a new one; for the first thread of the process it is the one that runs.\<close>

lemma run_thread_alloc_fresh:
  assumes ok: "supply_ok h a z" and k: "\<And>s. \<exists>x. h Thread_create s = Some ((OK, kt, x), s)"
    and n: "num_threads s \<noteq> 0" and b: "p_have_kernel_resources (pthreads s t) = 0"
  shows "\<exists>port s1. run (pthread_thread_alloc t) h (with_mem t p s) = Done OK s1 \<and>
    (\<forall>tcb. with_tcb t tcb s1 = with_kernel_thread t p port kt tcb s)"
proof -
  have n': "num_threads (with_port t p port s) \<noteq> 1" "p_have_kernel_resources (pthreads (with_mem t p s) t) = 0" for port
    using n b by (simp_all add: with_port_def with_mem_def create_attr_def)
  from run_wakeupmsg_fresh [OF ok, of t p s] obtain port where
    1: "run (create_wakeupmsg t) h (with_mem t p s) = Done OK (with_port t p port s)" by blast
  obtain x where "h Thread_create (with_port t p port s) = Some ((OK, kt, x), with_port t p port s)" using k by blast
  with 1 n' have "run (pthread_thread_alloc t) h (with_mem t p s) = Done OK
      (upd_pthread t (\<lambda>x. x\<lparr>p_have_kernel_resources := 1\<rparr>) (upd_pthread t (\<lambda>x. x\<lparr>p_kernel_thread := kt\<rparr>) (with_port t p port s)))"
    by (simp add: pthread_thread_alloc_def run_simps)
  then show ?thesis using with_kernel_thread_eq by metis
qed

section \<open>The new thread\<close>

text \<open>
  The thread \<open>t\<close> runs on the kernel thread \<open>kt\<close> with the next identifier and the next stack.  The identifiers of the other
  threads denote what they did, and their structures have not changed.
\<close>

definition created ::
    "(int \<Rightarrow> nat) \<Rightarrow> pt_config \<Rightarrow> thr \<Rightarrow> thr \<Rightarrow> int \<Rightarrow> 32 word \<Rightarrow> 32 word \<Rightarrow> pt_state \<Rightarrow> pt_state \<Rightarrow> bool" where
  "created sig_of cf self t kt f arg s s1 \<longleftrightarrow>
     (let x = pthreads s1 t; a = next_stack_base s; z = at_stacksize (default_attr s) in
      p_thread x = num_threads s + 1 \<and> p_kernel_thread x = kt \<and> p_stackaddr x = a \<and> p_stacksize x = z \<and>
      p_pc x = cf_entry_point cf \<and> frame_at (stack_mem s1) (p_sp x) t f arg \<and>
      unat a + unat (p_guardsize x) \<le> unat (p_sp x) \<and> unat (p_sp x) + 16 + 4 * unat (cf_threadvar_max cf) \<le> unat a + unat z \<and>
      tcb_self s1 (p_tcb x) = kt \<and> tcb_tcb s1 (p_tcb x) = p_tcb x \<and>
      hss_blocked (sigstates s1 (sig_of kt)) = hss_blocked (sigstates s (sig_of (p_kernel_thread (pthreads s self)))) \<and>
      hss_pending (sigstates s1 (sig_of kt)) = 0 \<and>
      num_threads s1 = num_threads s + 1 \<and> total_threads s1 = total_threads s + 1 \<and> threads_inv s1 \<and>
      threads_tab s1 ! nat (num_threads s) = Some t \<and> (\<forall>i < nat (num_threads s). threads_tab s1 ! i = threads_tab s ! i) \<and>
      (\<forall>u. u \<noteq> t \<longrightarrow> pthreads s1 u = pthreads s u) \<and> next_stack_base s1 = a + z \<and> default_attr s1 = default_attr s)"

lemma launched_frame:
  assumes "launched sig_of cf self t f arg s s1"
  shows "num_threads s1 = num_threads s" "max_threads s1 = max_threads s" "threads_ptr s1 = threads_ptr s"
    "next_stack_base s1 = next_stack_base s" "default_attr s1 = default_attr s" "spin s1 = spin s" "cell s1 = cell s"
    "rwlocks s1 = rwlocks s" "tls_self s1 = tls_self s" "tcb_tcb s1 = tcb_tcb s"
proof -
  have e: "s1 = s\<lparr>pthreads := pthreads s1, stack_mem := stack_mem s1, tcb_self := tcb_self s1, sigstates := sigstates s1,
      total_threads := total_threads s1, threads_tab := threads_tab s1\<rparr>"
    using assms unfolding launched_def Let_def by blast
  show "num_threads s1 = num_threads s" "max_threads s1 = max_threads s" "threads_ptr s1 = threads_ptr s"
    "next_stack_base s1 = next_stack_base s" "default_attr s1 = default_attr s" "spin s1 = spin s" "cell s1 = cell s"
    "rwlocks s1 = rwlocks s" "tls_self s1 = tls_self s" "tcb_tcb s1 = tcb_tcb s" by (subst e, simp)+
qed

lemma launched_created:
  assumes l: "launched sig_of cf self t f arg (with_kernel_thread t p port kt tcb s) s1" and inv: "threads_inv s"
    and t: "self \<noteq> t"
  shows "created sig_of cf self t kt f arg s s1"
proof -
  let ?k = "with_kernel_thread t p port kt tcb s"
  note ks = with_kernel_thread_simps [OF inv, where t = t and p = p and port = port and kt = kt and tcb = tcb]
  note fr = launched_frame [OF l]
  have x: "pthreads s1 t = (pthreads ?k t)\<lparr>p_pc := p_pc (pthreads s1 t), p_sp := p_sp (pthreads s1 t)\<rparr>"
    using l unfolding launched_def Let_def by blast
  have x': "p_thread (pthreads s1 t) = p_thread (pthreads ?k t)" "p_kernel_thread (pthreads s1 t) = p_kernel_thread (pthreads ?k t)"
    "p_stackaddr (pthreads s1 t) = p_stackaddr (pthreads ?k t)" "p_stacksize (pthreads s1 t) = p_stacksize (pthreads ?k t)"
    "p_guardsize (pthreads s1 t) = p_guardsize (pthreads ?k t)" "p_tcb (pthreads s1 t) = p_tcb (pthreads ?k t)"
    by (subst x, simp)+
  have tab: "threads_tab s1 = (threads_tab ?k)[nat (num_threads s) := Some t]"
    using l ks(4) by (simp add: launched_def Let_def)
  have k: "0 \<le> num_threads s" "num_threads s + 1 \<le> max_threads ?k" "length (threads_tab ?k) = nat (max_threads ?k)"
    "idle_rwlock ?k Threads_lock"
    using inv ks(1,3) by (auto simp: threads_inv_def)
  have ti: "threads_inv s1" "threads_tab s1 ! nat (num_threads s) = Some t" 
    using k fr tab ks(1) by (auto simp: threads_inv_def idle_rwlock_def nat_less_iff)
  moreover have "threads_tab s1 ! i = threads_tab s ! i" if "i < nat (num_threads s)" for i
    using with_id_table(2) [OF inv that] that ks tab by simp
  moreover have "next_stack_base ?k = next_stack_base s + at_stacksize (default_attr s)"
    by (simp add: with_kernel_thread_def with_mem_def)
  ultimately show ?thesis
    using l t fr ks x' by (simp add: created_def launched_def Let_def)
qed

lemma run_create_fresh:
  assumes sup: "supply_ok h (next_stack_base s) (at_stacksize (default_attr s))"
    and ok: "start_ok h (cf_threadvar_max cf) me sig_of (next_stack_base s) (at_stacksize (default_attr s))"
    and kt: "\<And>s. \<exists>x. h Thread_create s = Some ((OK, kt, x), s)" "kt \<noteq> me"
    and r: "roomy cf s" "fresh_block h t s" "num_threads s \<noteq> 0" "self \<noteq> t"
    and z: "unat (next_stack_base s) + unat (at_stacksize (default_attr s)) < 2 ^ 32"
      "unat (at_guardsize (default_attr s)) + 4 * unat (cf_threadvar_max cf) + 32 \<le> unat (at_stacksize (default_attr s))"
    and f: "f \<noteq> 0"
  shows "\<exists>s1. run (pthread_create cf self None f arg) h s = Done (OK, Some (num_threads s + 1)) s1 \<and>
    created sig_of cf self t kt f arg s s1 \<and>
    starts_thread (requests (pthread_create cf self None f arg) h s) kt (p_sp (pthreads s1 t)) (cf_entry_point cf)"
proof -
  have inv: "threads_inv s" using r(1) by (simp add: roomy_def)
  from run_alloc_fresh_block [OF sup r(1,2), of self] obtain p where
    1: "run (pthread_alloc (cf_tries cf) (cf_queue cf) (cf_threads_max cf) self) h s = Done (OK, t) (with_id t p s)" by blast
  note 2 = run_stack_fresh [OF sup r(1), of t p]
  have b: "p_have_kernel_resources (pthreads s t) = 0" using r(2) by (simp add: fresh_block_def)
  from run_thread_alloc_fresh [OF sup kt(1) r(3) b, of p] obtain port s2 where
    3: "run (pthread_thread_alloc t) h (with_mem t p s) = Done OK s2"
      "\<And>tcb. with_tcb t tcb s2 = with_kernel_thread t p port kt tcb s" by blast
  from sup obtain e tcb x where 4: "tcb \<noteq> 0" "h Dl_allocate_tls s2 = Some ((e, tcb, x), s2)"
    unfolding supply_ok_def by blast
  let ?k = "with_kernel_thread t p port kt tcb s"
  note ks = with_kernel_thread_simps [OF inv, where t = t and p = p and port = port and kt = kt and tcb = tcb]
  have st: "startable me sig_of (cf_threadvar_max cf) self t ?k"
    using ks kt(2) r z inv by (auto simp: startable_def Let_def threads_inv_def roomy_def)
  have "start_ok h (cf_threadvar_max cf) me sig_of (p_stackaddr (pthreads ?k t)) (p_stacksize (pthreads ?k t))"
    using ok ks by simp
  from run_create_running [OF this st f, of arg] obtain s3 where
    5: "run (create_running cf self t f arg) h ?k = Done (OK, Some t) s3" "launched sig_of cf self t f arg ?k s3"
      "starts_thread (requests (create_running cf self t f arg) h ?k) kt (p_sp (pthreads s3 t)) (cf_entry_point cf)"
    by (auto simp: ks)
  note tcb = 3(2) [of tcb, unfolded with_tcb_def]
  have i: "run (pthread_create_internal cf self None f arg) h s = Done (OK, Some t) s3"
    using 1 2 3(1) 4 5(1) tcb by (simp add: pthread_create_internal_def run_simps)
  have "\<exists>us. requests (pthread_create_internal cf self None f arg) h s = us @ requests (create_running cf self t f arg) h ?k"
    using 1 2 3(1) 4 5(1) tcb by (simp add: pthread_create_internal_def run_simps requests_simps)
  with 5(3) have "starts_thread (requests (pthread_create_internal cf self None f arg) h s) kt (p_sp (pthreads s3 t))
      (cf_entry_point cf)" by (auto intro: starts_thread_more)
  with i have starts: "starts_thread (requests (pthread_create cf self None f arg) h s) kt (p_sp (pthreads s3 t)) (cf_entry_point cf)"
    by (simp add: pthread_create_def run_simps requests_simps)
  note i
  moreover have c: "created sig_of cf self t kt f arg s s3" using 5(2) inv r(4) by (rule launched_created)
  ultimately have "run (pthread_create cf self None f arg) h s = Done (OK, Some (num_threads s + 1)) s3"
    by (simp add: pthread_create_def run_simps created_def Let_def)
  with c starts show ?thesis by blast
qed

text \<open>
  C20: Creating a thread with the default attributes (\<^verbatim>\<open>attr\<close> null), when the list of free structures is empty, the outside
  calls succeed, no limit is reached and the member \<^verbatim>\<open>have_kernel_resources\<close>, which no function initialises, happens to be 0 in the
  memory from \<^verbatim>\<open>malloc\<close>, returns 0 with the identifier of a thread that runs: the kernel has been given its stack pointer and its
  program counter, the entry point, and the last call has resumed it.  It has the next identifier and the next stack; at
  its stack pointer is a frame for the start
  routine and its argument, between the guard pages and the words of the Hurd; its control block names itself and its new
  kernel thread; it has the signal mask of its creator and no signal pending; there is one thread more, and the identifiers and
  structures of all other threads are what they were.
\<close>

theorem create_succeeds:
  assumes "supply_ok h (next_stack_base s) (at_stacksize (default_attr s))"
    and "start_ok h (cf_threadvar_max cf) me sig_of (next_stack_base s) (at_stacksize (default_attr s))"
    and "\<And>s. \<exists>x. h Thread_create s = Some ((OK, kt, x), s)" and "kt \<noteq> me"
    and "roomy cf s" and "fresh_block h t s" and "num_threads s \<noteq> 0" and "self \<noteq> t"
    and "unat (next_stack_base s) + unat (at_stacksize (default_attr s)) < 2 ^ 32"
    and "unat (at_guardsize (default_attr s)) + 4 * unat (cf_threadvar_max cf) + 32 \<le> unat (at_stacksize (default_attr s))"
    and "f \<noteq> 0"
  shows "\<exists>s1. run (pthread_create cf self None f arg) h s = Done (OK, Some (num_threads s + 1)) s1 \<and>
    created sig_of cf self t kt f arg s s1 \<and>
    starts_thread (requests (pthread_create cf self None f arg) h s) kt (p_sp (pthreads s1 t)) (cf_entry_point cf)"
  using assms by (rule run_create_fresh)

text \<open>
  For the witness: the caller runs on kernel thread 3, the new kernel thread is 5, structures are at 7 and then at 8.
\<close>

definition boot_env :: "pt_state env" where
  "boot_env c s =
     (case c of
        Malloc \<Rightarrow> Some ((OK, if num_threads s = 0 then 7 else 8, 0), s)
      | Vm_allocate a n \<Rightarrow> Some ((OK, a, 0), s)
      | Sigprocmask \<Rightarrow> Some ((OK, 5, 0), s)
      | Extern f xs \<Rightarrow>
          (if f = ''__hurd_threadvar_location_from_sp'' then Some ((OK, hd xs + 2097104, 0), s) else start_env c s)
      | _ \<Rightarrow> start_env c s)"

lemma boot_env_ok:
  "supply_ok boot_env a z" "start_ok boot_env 12 3 (\<lambda>k. Suc (nat k)) 0 2097152"
  "start_ok boot_env 12 3 (\<lambda>k. Suc (nat k)) 2097152 2097152" "\<exists>x. boot_env Thread_create s = Some ((OK, 5, x), s)"
proof -
  show "supply_ok boot_env a z" "\<exists>x. boot_env Thread_create s = Some ((OK, 5, x), s)"
    by (simp_all add: supply_ok_def boot_env_def start_env_def)
  show "start_ok boot_env 12 3 (\<lambda>k. Suc (nat k)) 0 2097152"
    by (auto simp: start_ok_def boot_env_def start_env_def stack_top_def intro!: exI [of _ "2097104 :: 32 word"])
  show "start_ok boot_env 12 3 (\<lambda>k. Suc (nat k)) 2097152 2097152"
    by (auto simp: start_ok_def boot_env_def start_env_def stack_top_def intro!: exI [of _ "4194256 :: 32 word"])
qed

definition one_running :: pt_state where
  "one_running = zero_state\<lparr>num_threads := 1, max_threads := 4, threads_tab := [Some 7, None, None, None]\<rparr>"

lemma one_running_simps:
  "roomy life_config one_running" "fresh_block boot_env 8 one_running" "default_attr one_running = zero_attr"
  "next_stack_base one_running = 0" "num_threads one_running \<noteq> 0" "cf_threadvar_max life_config = 12"
  "at_stacksize zero_attr = 2097152" "at_guardsize zero_attr = 1"
  by (auto simp: one_running_def roomy_def fresh_block_def boot_env_def threads_inv_def life_config_def zero_pthread_def zero_attr_def
      idle_rwlock_def idle_mutex_def unlocked_def known_type_def mutex_type_of_def resolve_attr_def)

theorem create_succeeds_witness:
  "\<exists>s1. run (pthread_create life_config 7 None 5 6) boot_env one_running = Done (OK, Some (num_threads one_running + 1)) s1 \<and>
    created (\<lambda>k. Suc (nat k)) life_config 7 8 5 5 6 one_running s1 \<and>
    starts_thread (requests (pthread_create life_config 7 None 5 6) boot_env one_running) 5 (p_sp (pthreads s1 8))
      (cf_entry_point life_config)"
  by (rule create_succeeds [where me = 3])
    (simp_all add: boot_env_ok one_running_simps)

end
