(* ===== verification/Startup.thy ===== *)
theory Startup
  imports Create_Fresh
begin

text \<open>
  The startup of the library (\<^verbatim>\<open>init_routine\<close> of \<^verbatim>\<open>pt-sysdep.c\<close>), which makes the running kernel thread the main
  thread, and the variable \<^verbatim>\<open>___pthread_self\<close>, by which a thread finds its own structure.
\<close>

section \<open>What is relied on\<close>

text \<open>
  The outside calls of the startup succeed and leave the library's variables alone.  \<open>m0\<close> is the signal
  mask of the process; the other parameters are those of \<open>start_ok\<close>.
\<close>

definition startup_ok ::
    "pt_state env \<Rightarrow> pt_config \<Rightarrow> int \<Rightarrow> (int \<Rightarrow> nat) \<Rightarrow> int \<Rightarrow> 32 word \<Rightarrow> 32 word \<Rightarrow> bool" where
  "startup_ok h cf me sig_of m0 a z \<longleftrightarrow>
     start_ok h (cf_threadvar_max cf) me sig_of a z \<and> supply_ok h a z \<and>
     (\<forall>f \<in> set (cf_init_hooks cf). \<forall>s. \<exists>r. h (Callback f 0) s = Some (r, s)) \<and>
     (\<forall>s. \<exists>x. h Sigprocmask s = Some ((OK, m0, x), s))"

text \<open>
  The state of a process before its startup: no threads, no table, nothing locked.  The memory for thread
  structures is zero in one respect: \<^verbatim>\<open>have_kernel_resources\<close>, which no function initialises.
\<close>

definition unborn :: "pt_config \<Rightarrow> pt_state \<Rightarrow> bool" where
  "unborn cf s \<longleftrightarrow>
     roomy cf s \<and> num_threads s = 0 \<and> max_threads s = 0 \<and> total_threads s = 0 \<and>
     (\<forall>t. p_have_kernel_resources (pthreads s t) = 0)"

text \<open>The size of all stacks.\<close>

definition stack_size :: "pt_config \<Rightarrow> pt_state \<Rightarrow> 32 word" where
  "stack_size cf s = (case cf_stack_default_size cf of Some z \<Rightarrow> z | None \<Rightarrow> at_stacksize (default_attr s))"

definition sized :: "pt_config \<Rightarrow> pt_state \<Rightarrow> pt_state" where
  "sized cf s = s\<lparr>default_attr := (default_attr s)\<lparr>at_stacksize := stack_size cf s\<rparr>\<rparr>"

section \<open>The steps\<close>

lemma run_run_hook:
  assumes "\<And>f s. f \<in> set fs \<Longrightarrow> \<exists>r. h (Callback f 0) s = Some (r, s)"
  shows "run (run_hook fs) h s = Done () s"
  using assms
proof (induction fs)
  case (Cons f fs)
  obtain r where "h (Callback f 0) s = Some (r, s)" using Cons.prems [of f s] by auto
  with Cons show ?case by (simp add: run_simps)
qed simp

lemma unbornD:
  assumes "unborn cf s"
  shows "roomy cf s" "threads_inv s" "num_threads s = 0" "total_threads s = 0" "p_have_kernel_resources (pthreads s t) = 0"
    "max_threads s \<le> num_threads s" "spin s (Sigstate_lock k) = 0"
  using assms by (auto simp: unborn_def roomy_def)

lemma run_main_thread:
  assumes ok: "startup_ok h cf me sig_of m0 a z" and u: "unborn cf s"
  shows "\<exists>port s1. run (pthread_thread_alloc t) h (with_mem t p s) = Done OK s1 \<and>
    (\<forall>tcb. with_tcb t tcb s1 = with_kernel_thread t p port me tcb s)"
proof -
  have so: "start_ok h (cf_threadvar_max cf) me sig_of a z" "supply_ok h a z" using ok by (simp_all add: startup_ok_def)
  have n: "num_threads (with_port t p port s) = 1" "total_threads (with_port t p port s) = 0"
    "p_have_kernel_resources (pthreads (with_mem t p s) t) = 0" for port
    using unbornD [OF u] by (simp_all add: with_port_def with_mem_def create_attr_def)
  from run_wakeupmsg_fresh [OF so(2), of t p s] obtain port where
    1: "run (create_wakeupmsg t) h (with_mem t p s) = Done OK (with_port t p port s)" by blast
  let ?s1 = "with_port t p port s"
  obtain x r where "h Mach_thread_self ?s1 = Some ((OK, me, x), ?s1)"
    "h (Mach_port_deallocate me) (upd_pthread t (\<lambda>x. x\<lparr>p_kernel_thread := me\<rparr>) ?s1) =
      Some (r, upd_pthread t (\<lambda>x. x\<lparr>p_kernel_thread := me\<rparr>) ?s1)"
    using start_okD(2,3) [OF so(1)] by metis
  with n 1 have "run (pthread_thread_alloc t) h (with_mem t p s) = Done OK
      (upd_pthread t (\<lambda>x. x\<lparr>p_have_kernel_resources := 1\<rparr>) (upd_pthread t (\<lambda>x. x\<lparr>p_kernel_thread := me\<rparr>) ?s1))"
    by (simp add: pthread_thread_alloc_def run_simps)
  then show ?thesis using with_kernel_thread_eq by metis
qed

lemma run_main_setup:
  assumes ok: "start_ok h tvmax me sig_of a z" and "p_kernel_thread (pthreads s t) = me"
  shows "run (pthread_setup tvmax t ep 0 0) h s =
    Done OK (set_up t ep (stack_top tvmax (p_stackaddr (pthreads s t)) (p_stacksize (pthreads s t))) (stack_mem s) s)"
proof -
  let ?sp = "stack_top tvmax (p_stackaddr (pthreads s t)) (p_stacksize (pthreads s t))"
  have 0: "run (stack_setup tvmax t 0 0) h (upd_pthread t (\<lambda>x. x\<lparr>p_pc := ep\<rparr>) s) =
      Done ?sp (upd_pthread t (\<lambda>x. x\<lparr>p_pc := ep\<rparr>) s)"
    using start_okD(1) [OF ok] by (simp add: stack_setup_def run_simps Let_def)
  obtain x where 1: "h Mach_thread_self s' = Some ((OK, me, x s'), s')" for s'
    using start_okD(2) [OF ok] by metis
  obtain r where 2: "h (Mach_port_deallocate me) s' = Some (r s', s')" for s'
    using start_okD(3) [OF ok] by metis
  show ?thesis using 0 1 2 assms(2) by (simp add: pthread_setup_def run_simps set_up_def)
qed

text \<open>The state when the creation of the main thread returns; \<open>v\<close> is its thread variable for the signal state.\<close>

definition main_started :: "pt_config \<Rightarrow> thr \<Rightarrow> (int \<Rightarrow> nat) \<Rightarrow> int \<Rightarrow> 32 word \<Rightarrow> pt_state \<Rightarrow> pt_state" where
  "main_started cf t sig_of m0 v s =
     (let x = pthreads s t;
          s1 = set_up t (cf_entry_point cf) (stack_top (cf_threadvar_max cf) (p_stackaddr x) (p_stacksize x)) (stack_mem s) s
      in (upd_sigstate (sig_of (p_kernel_thread x)) (\<lambda>y. y\<lparr>hss_blocked := word_of_int m0, hss_pending := 0\<rparr>) s1)
        \<lparr>stack_mem := (stack_mem s)(v := 0), total_threads := total_threads s + 1,
         threads_tab := (threads_tab s)[nat (p_thread x - 1) := Some t]\<rparr>)"

lemma run_main_running:
  assumes ok: "startup_ok h cf me sig_of m0 (p_stackaddr (pthreads s t)) z"
    and k: "p_kernel_thread (pthreads s t) = me" and n: "num_threads s = 1" "total_threads s = 0"
    and i: "idle_rwlock s Threads_lock" "p_thread (pthreads s t) = 1" and sp: "\<And>k. spin s (Sigstate_lock k) = 0"
  shows "\<exists>v. run (create_running cf self t 0 0) h s = Done (OK, Some t) (main_started cf t sig_of m0 v s)"
proof -
  let ?x = "pthreads s t" and ?tv = "cf_threadvar_max cf"
  have so: "start_ok h ?tv me sig_of (p_stackaddr ?x) z" using ok by (simp add: startup_ok_def)
  let ?s1 = "set_up t (cf_entry_point cf) (stack_top ?tv (p_stackaddr ?x) (p_stacksize ?x)) (stack_mem s) s"
  note 1 = run_main_setup [OF so k, of "cf_entry_point cf"]
  from run_sigstate_init [OF so, of ?s1 t] obtain v where
    2: "run (pthread_sigstate_init t) h ?s1 = Done OK (?s1\<lparr>stack_mem := (stack_mem s)(v := 0)\<rparr>)"
    by (auto simp: set_up_def)
  let ?s2 = "?s1\<lparr>stack_mem := (stack_mem s)(v := 0)\<rparr>"
  let ?s3 = "upd_sigstate (sig_of me) (\<lambda>y. y\<lparr>hss_blocked := word_of_int m0, hss_pending := 0\<rparr>) ?s2"
  from ok obtain y where "h Sigprocmask ?s2 = Some ((OK, m0, y), ?s2)" unfolding startup_ok_def by blast
  with run_sigstate_set [OF so, of ?s2 t "word_of_int m0"] k n sp
  have 3: "run (create_sigmask self t) h ?s2 = Done () ?s3" by (simp add: create_sigmask_def run_simps set_up_def)
  let ?s4 = "?s3\<lparr>total_threads := 1\<rparr>"
  have 4: "run atomic_inc h ?s3 = Done () ?s4" using n by (simp add: atomic_inc_def run_simps set_up_def)
  let ?s5 = "?s4\<lparr>threads_tab := (threads_tab s)[0 := Some t]\<rparr>"
  have 5: "run (create_publish cf self t) h ?s4 = Done () ?s5"
    using run_create_publish [of ?s4 t cf self h] i n by (simp add: set_up_def idle_rwlock_def)
  obtain x6 r6 where "h Mach_thread_self ?s5 = Some ((OK, me, x6), ?s5)" "h (Mach_port_deallocate me) ?s5 = Some (r6, ?s5)"
    using start_okD(2,3) [OF so] by metis
  with k n have 6: "run (pthread_thread_start t) h ?s5 = Done OK ?s5"
    by (simp add: pthread_thread_start_def run_simps set_up_def)
  have "?s5 = main_started cf t sig_of m0 v s"
    using k n i by (simp add: main_started_def Let_def set_up_def)
  with 1 2 3 4 5 6 show ?thesis by (auto simp: create_running_def run_simps)
qed

section \<open>The main thread\<close>

lemma sized_simps [simp]:
  "at_stacksize (default_attr (sized cf s)) = stack_size cf s" "next_stack_base (sized cf s) = next_stack_base s"
  "pthreads (sized cf s) = pthreads s" "unborn cf (sized cf s) = unborn cf s"
  by (simp_all add: sized_def unborn_def roomy_def threads_inv_def idle_rwlock_def idle_mutex_def unlocked_def known_type_def
      mutex_type_of_def cong: option.case_cong)

lemma run_main_create:
  assumes ok: "startup_ok h cf me sig_of m0 (next_stack_base s) (at_stacksize (default_attr s))" and u: "unborn cf s"
    and t: "fresh_block h t s"
  shows "\<exists>p port tcb v. p > 0 \<and> run (pthread_create_internal cf self None 0 0) h s =
    Done (OK, Some t) (main_started cf t sig_of m0 v (with_kernel_thread t p port me tcb s))"
proof -
  have sup: "supply_ok h (next_stack_base s) (at_stacksize (default_attr s))" using ok by (simp add: startup_ok_def)
  note u' = unbornD [OF u]
  from run_alloc_fresh_block [OF sup u'(1) t, of self] obtain p where
    1: "p > 0" "run (pthread_alloc (cf_tries cf) (cf_queue cf) (cf_threads_max cf) self) h s = Done (OK, t) (with_id t p s)"
    by blast
  note 2 = run_stack_fresh [OF sup u'(1), of t p]
  from run_main_thread [OF ok u, of t p] obtain port s1 where
    3: "run (pthread_thread_alloc t) h (with_mem t p s) = Done OK s1"
      "\<And>tcb. with_tcb t tcb s1 = with_kernel_thread t p port me tcb s" by blast
  from sup obtain e tcb x where 4: "tcb \<noteq> 0" "h Dl_allocate_tls s1 = Some ((e, tcb, x), s1)"
    unfolding supply_ok_def by blast
  let ?k = "with_kernel_thread t p port me tcb s"
  note ks = with_kernel_thread_simps [OF u'(2), where t = t and p = p and port = port and kt = me and tcb = tcb]
  have "\<exists>v. run (create_running cf self t 0 0) h ?k = Done (OK, Some t) (main_started cf t sig_of m0 v ?k)"
    by (rule run_main_running) (use ok ks u' in \<open>simp_all add: threads_inv_def\<close>)
  then obtain v where 5: "run (create_running cf self t 0 0) h ?k = Done (OK, Some t) (main_started cf t sig_of m0 v ?k)" by blast
  have "run (pthread_create_internal cf self None 0 0) h s = Done (OK, Some t) (main_started cf t sig_of m0 v ?k)"
    using 1(2) 2 3(1) 3(2) [of tcb, unfolded with_tcb_def] 4 5 by (simp add: pthread_create_internal_def run_simps)
  with 1(1) show ?thesis by blast
qed

text \<open>
  What holds when the startup returns.  The thread variables of an address on the main stack are found by masking the
  address, if stacks are aligned to their size.
\<close>

definition main_running ::
    "pt_config \<Rightarrow> int \<Rightarrow> (int \<Rightarrow> nat) \<Rightarrow> int \<Rightarrow> pt_state \<Rightarrow> thr \<Rightarrow> 32 word \<Rightarrow> pt_state \<Rightarrow> bool" where
  "main_running cf me sig_of m0 s t sp s1 \<longleftrightarrow>
     (let a = next_stack_base s; z = stack_size cf s; x = pthreads s1 t in
      threads_inv s1 \<and> num_threads s1 = 1 \<and> total_threads s1 = 0 \<and> threads_tab s1 ! 0 = Some t \<and>
      p_thread x = 1 \<and> p_kernel_thread x = me \<and> p_stackaddr x = a \<and> p_stacksize x = z \<and> p_stack x \<noteq> 0 \<and>
      hss_blocked (sigstates s1 (sig_of me)) = word_of_int m0 \<and> hss_pending (sigstates s1 (sig_of me)) = 0 \<and>
      sp = stack_top (cf_threadvar_max cf) a z \<and>
      threadvar_stack_mask s1 = NOT (z - 1) \<and> threadvar_stack_offset s1 = z - cf_threadvar_max cf * 4)"

text \<open>The state when the startup returns.\<close>

definition booted :: "pt_config \<Rightarrow> int \<Rightarrow> thr \<Rightarrow> pt_state \<Rightarrow> pt_state" where
  "booted cf me t s =
     s\<lparr>tls_self := (tls_self s)(me := Some t), total_threads := 0,
       threadvar_stack_mask := NOT (at_stacksize (default_attr s) - 1),
       threadvar_stack_offset := at_stacksize (default_attr s) - cf_threadvar_max cf * 4\<rparr>"

lemma main_running_start:
  fixes t :: thr and port me tcb m0 :: int and sig_of :: "int \<Rightarrow> nat" and v :: "32 word"
  assumes u: "unborn cf s" and p: "p > 0"
  defines "k \<equiv> with_kernel_thread t p port me tcb (sized cf s)"
  defines "s1 \<equiv> booted cf me t (main_started cf t sig_of m0 v k)"
  shows "main_running cf me sig_of m0 s t (stack_top (cf_threadvar_max cf) (next_stack_base s) (stack_size cf s)) s1"
    and "threads_ptr s1 \<noteq> 0" and "tls_self s1 me = Some t"
proof -
  have u': "unborn cf (sized cf s)" using u by simp
  note ui = unbornD [OF u']
  note ks = with_kernel_thread_simps [OF ui(2), where t = t and p = p and port = port and kt = me and tcb = tcb, folded k_def]
  have "0 < length (threads_tab k)" using ks(1,3) ui(3) by (simp add: threads_inv_def)
  then show "main_running cf me sig_of m0 s t (stack_top (cf_threadvar_max cf) (next_stack_base s) (stack_size cf s)) s1"
    using ks ui(3,4) by (simp add: main_running_def Let_def s1_def booted_def main_started_def set_up_def threads_inv_def idle_rwlock_def)
  show "threads_ptr s1 \<noteq> 0" "tls_self s1 me = Some t"
    using ks with_id_ptr [OF p, of "sized cf s" t] ui(6) by (simp_all add: s1_def booted_def main_started_def Let_def set_up_def)
qed

lemma run_init_routine:
  assumes ok: "startup_ok h cf me sig_of m0 (next_stack_base s) (stack_size cf s)" and u: "unborn cf s"
    and t: "fresh_block h t (sized cf s)"
  shows "\<exists>p port tcb v. p > 0 \<and> run (init_routine cf self) h s =
    Done (stack_top (cf_threadvar_max cf) (next_stack_base s) (stack_size cf s))
      (booted cf me t (main_started cf t sig_of m0 v (with_kernel_thread t p port me tcb (sized cf s))))"
proof -
  let ?s = "sized cf s"
  from run_main_create [of h cf me sig_of m0 ?s t self] ok u t obtain p port tcb v where
    r: "p > 0" "run (pthread_create_internal cf self None 0 0) h ?s =
      Done (OK, Some t) (main_started cf t sig_of m0 v (with_kernel_thread t p port me tcb ?s))" by auto
  let ?k = "with_kernel_thread t p port me tcb ?s"
  let ?m = "main_started cf t sig_of m0 v ?k"
  have u': "unborn cf ?s" using u by simp
  note ks = with_kernel_thread_simps [OF unbornD(2) [OF u'], where t = t and p = p and port = port and kt = me and tcb = tcb]
  have so: "start_ok h (cf_threadvar_max cf) me sig_of (next_stack_base s) (stack_size cf s)"
    using ok by (simp add: startup_ok_def)
  have 0: "run (case cf_stack_default_size cf of
        Some sz \<Rightarrow> modify (\<lambda>s. s\<lparr>default_attr := (default_attr s)\<lparr>at_stacksize := sz\<rparr>\<rparr>)
      | None \<Rightarrow> Return ()) h s = Done () ?s"
    by (simp add: run_simps sized_def stack_size_def split: option.split)
  have 1: "run (pthread_init cf) h ?s = Done () ?s"
    using ok unfolding pthread_init_def startup_ok_def by (intro run_run_hook) blast
  have f: "p_kernel_thread (pthreads ?m t) = me" "total_threads ?m = 1"
    "p_stackaddr (pthreads ?m t) = next_stack_base s" "at_stacksize (default_attr ?m) = stack_size cf s"
    "p_sp (pthreads ?m t) = stack_top (cf_threadvar_max cf) (next_stack_base s) (stack_size cf s)"
    using ks unbornD(4) [OF u'] by (simp_all add: main_started_def Let_def set_up_def)
  obtain x y where "\<And>s'. h (Extern ''__mig_init'' [uint (next_stack_base s)]) s' = Some ((OK, x s', y s'), s')"
    using start_okD(5) [OF so] by metis
  with 0 1 r f have "run (init_routine cf self) h s =
      Done (stack_top (cf_threadvar_max cf) (next_stack_base s) (stack_size cf s)) (booted cf me t ?m)"
    by (simp add: init_routine_def run_simps set_self_def atomic_dec_def booted_def)
  with r(1) show ?thesis by blast
qed

lemma fresh_block_exists:
  assumes "startup_ok h cf me sig_of m0 a z" and "unborn cf s"
  shows "\<exists>t. fresh_block h t s"
proof -
  from assms(1) obtain e p x where "p > 0" "h Malloc s = Some ((e, p, x), s)"
    unfolding startup_ok_def supply_ok_def by blast
  with unbornD(5) [OF assms(2)] have "fresh_block h (nat p) s" by (auto simp: fresh_block_def)
  then show ?thesis by blast
qed

text \<open>
  C19: The startup of the library turns the running kernel thread into the main thread, when nothing fails: it has
  identifier 1 in a new table, the stack at the first free place and the signal mask of the process; the
  number of threads is 0 again, not counting the signal thread to come; the returned stack pointer is the end of
  the stack below the words of the Hurd; and the variable \<^verbatim>\<open>___pthread_self\<close> leads the kernel thread to the structure.
\<close>

theorem startup_makes_main_thread:
  assumes ok: "startup_ok h cf me sig_of m0 (next_stack_base s) (stack_size cf s)" and u: "unborn cf s"
  shows "\<exists>t sp s1. run (init_routine cf self) h s = Done sp s1 \<and> main_running cf me sig_of m0 s t sp s1 \<and>
    run (current_pthread me) h s1 = Done t s1"
proof -
  have u': "unborn cf (sized cf s)" using u by simp
  from fresh_block_exists [OF ok u'] obtain t where t: "fresh_block h t (sized cf s)" by blast
  from run_init_routine [OF ok u t, of self] obtain p port tcb v where
    p: "p > 0" and 1: "run (init_routine cf self) h s =
      Done (stack_top (cf_threadvar_max cf) (next_stack_base s) (stack_size cf s))
        (booted cf me t (main_started cf t sig_of m0 v (with_kernel_thread t p port me tcb (sized cf s))))" by blast
  let ?s1 = "booted cf me t (main_started cf t sig_of m0 v (with_kernel_thread t p port me tcb (sized cf s)))"
  note m = main_running_start [OF u p, where t = t and port = port and me = me and tcb = tcb and sig_of = sig_of and ?m0.0 = m0 and v = v]
  have so: "start_ok h (cf_threadvar_max cf) me sig_of (next_stack_base s) (stack_size cf s)"
    using ok by (simp add: startup_ok_def)
  obtain x' r' where "h Mach_thread_self ?s1 = Some ((OK, me, x'), ?s1)" "h (Mach_port_deallocate me) ?s1 = Some (r', ?s1)"
    using start_okD(2,3) [OF so] by metis
  with m have "run (current_pthread me) h ?s1 = Done t ?s1"
    by (simp add: current_pthread_def run_simps main_running_def Let_def)
  with 1 m(1) show ?thesis by blast
qed

lemma boot_env_startup_ok: "startup_ok boot_env life_config 3 (\<lambda>k. Suc (nat k)) 5 0 2097152"
  using boot_env_ok by (simp add: startup_ok_def life_config_def boot_env_def)

lemma zero_unborn: "unborn life_config zero_state" "stack_size life_config zero_state = 2097152"
  by (simp_all add: unborn_def roomy_def threads_inv_def stack_size_def life_config_def idle_rwlock_def idle_mutex_def unlocked_def known_type_def
      mutex_type_of_def resolve_attr_def zero_pthread_def zero_attr_def)

theorem startup_makes_main_thread_witness:
  "\<exists>t sp s1. run (init_routine life_config 0) boot_env zero_state = Done sp s1 \<and>
    main_running life_config 3 (\<lambda>k. Suc (nat k)) 5 zero_state t sp s1 \<and>
    run (current_pthread 3) boot_env s1 = Done t s1"
  by (rule startup_makes_main_thread [OF _ zero_unborn(1)]) (use boot_env_startup_ok in \<open>simp add: zero_unborn(2)\<close>)

text \<open>
  The masks that the startup leaves in \<^verbatim>\<open>__hurd_threadvar_stack_mask\<close> and \<^verbatim>\<open>__hurd_threadvar_stack_offset\<close> lead from every
  address on a stack that is aligned to its size, a power of two, to the end of the stack, where its initial
  stack pointer is.
\<close>

theorem threadvar_location:
  fixes a p :: "32 word"
  assumes "z = 2 ^ n" and "n < 32" and "unat a mod 2 ^ n = 0" and "unat a \<le> unat p" and "unat p < unat a + 2 ^ n"
    and "main_running cf me sig_of m0 s t sp s1" and "a = next_stack_base s" and "z = stack_size cf s"
  shows "(p AND threadvar_stack_mask s1) + threadvar_stack_offset s1 = sp"
proof -
  have "unat p div 2 ^ n = unat a div 2 ^ n"
  proof -
    obtain q where q: "unat a = 2 ^ n * q" using assms(3) by (auto simp: mod_eq_0_iff_dvd dvd_def)
    with assms(4,5) have "unat p div 2 ^ n = q"
      by (intro div_nat_eqI) (auto simp: algebra_simps)
    with q show ?thesis by simp
  qed
  then have d: "drop_bit n p = drop_bit n a"
    by (intro word_unat_eq_iff [THEN iffD2]) (simp only: unat_drop_bit_eq, simp add: drop_bit_eq_div)
  have m: "x AND NOT (2 ^ n - 1) = push_bit n (drop_bit n x)" for x :: "32 word"
    by (simp add: mask_eq_exp_minus_1 [symmetric] bit_eq_iff bit_simps) (metis le_add_diff_inverse not_le)
  have "take_bit n a = 0"
    using assms(3) by (intro word_unat_eq_iff [THEN iffD2]) (simp only: unsigned_take_bit_eq, simp add: take_bit_eq_mod)
  then have "push_bit n (drop_bit n a) = a" using bits_ident [of n a] by simp
  then have "p AND NOT (z - 1) = a" using d m assms(1) by simp
  then show ?thesis using assms(6-8) by (simp add: main_running_def Let_def stack_top_def)
qed

section \<open>The first thread after the startup\<close>

text \<open>There is place for a second stack, which is large enough, and for a second thread.\<close>

definition room_for_two :: "pt_config \<Rightarrow> pt_state \<Rightarrow> bool" where
  "room_for_two cf s \<longleftrightarrow>
     unat (next_stack_base s) + 2 * unat (stack_size cf s) < 2 ^ 32 \<and>
     next_stack_base s + stack_size cf s < cf_vm_max cf \<and>
     unat (at_guardsize (default_attr s)) + 4 * unat (cf_threadvar_max cf) + 32 \<le> unat (stack_size cf s) \<and>
     (case cf_threads_max cf of Some m \<Rightarrow> 1 < m | None \<Rightarrow> True)"

lemma booted_roomy:
  fixes t :: thr and p :: ptr and port me tcb m0 :: int and sig_of :: "int \<Rightarrow> nat" and v :: "32 word"
  assumes u: "unborn cf s" and r: "room_for_two cf s"
  defines "s1 \<equiv> booted cf me t (main_started cf t sig_of m0 v (with_kernel_thread t p port me tcb (sized cf s)))"
  shows "roomy cf s1" "next_stack_base s1 = next_stack_base s + stack_size cf s" "default_attr s1 = default_attr (sized cf s)"
    "w \<noteq> t \<Longrightarrow> pthreads s1 w = pthreads s w"
proof -
  let ?k = "with_kernel_thread t p port me tcb (sized cf s)"
  have u': "unborn cf (sized cf s)" using u by simp
  note ui = unbornD [OF u']
  note ks = with_kernel_thread_simps [OF ui(2), where t = t and p = p and port = port and kt = me and tcb = tcb]
  show n: "next_stack_base s1 = next_stack_base s + stack_size cf s" "default_attr s1 = default_attr (sized cf s)"
    by (simp_all add: s1_def booted_def main_started_def Let_def set_up_def with_kernel_thread_def with_mem_def create_attr_def)
  show "w \<noteq> t \<Longrightarrow> pthreads s1 w = pthreads s w"
    using ks(15) by (simp add: s1_def booted_def main_started_def Let_def set_up_def)
  have b: "mutexes s1 = mutexes ?k" "num_threads s1 = num_threads ?k" "cell s1 = cell ?k" "spin s1 = spin ?k"
    by (simp_all add: s1_def booted_def main_started_def Let_def set_up_def)
  have n1: "num_threads s1 = 1" "spin s1 (Sigstate_lock j) = 0" for j
    using b(2) ks(1) ui(3) ks(13) [of j] ui(7) [of j] by (simp_all add: b(4))
  note fl = with_kernel_thread_free_list [of t p port me tcb "sized cf s", folded b]
  have "threads_inv s1"
    using ks by (simp add: s1_def booted_def main_started_def Let_def set_up_def threads_inv_def idle_rwlock_def)
  with fl n1 n r ui(1) show "roomy cf s1"
    by (auto simp: roomy_def room_for_two_def idle_mutex_def unlocked_def known_type_def mutex_type_of_def split: option.splits)
qed

text \<open>
  A process that creates a thread after its startup gets the thread with identifier 2, on a stack after the stack of
  the main thread, with the signal mask of the process; identifier 1 still denotes the main thread.
\<close>

theorem startup_then_create:
  assumes ok: "startup_ok h cf me sig_of m0 (next_stack_base s) (stack_size cf s)" and u: "unborn cf s"
    and r: "room_for_two cf s"
    and sup: "supply_ok h (next_stack_base s + stack_size cf s) (stack_size cf s)"
    and so: "start_ok h (cf_threadvar_max cf) me sig_of (next_stack_base s + stack_size cf s) (stack_size cf s)"
    and kt: "\<And>s. \<exists>x. h Thread_create s = Some ((OK, kt, x), s)" "kt \<noteq> me"
    and m: "\<And>s. \<exists>e x. h Malloc s = Some ((e, int (if num_threads s = 0 then t1 else t2), x), s)" "t1 > 0" "t2 > 0" "t1 \<noteq> t2"
    and f: "f \<noteq> 0"
  shows "\<exists>sp s1 s2. run (init_routine cf self) h s = Done sp s1 \<and> main_running cf me sig_of m0 s t1 sp s1 \<and>
    run (pthread_create cf t1 None f arg) h s1 = Done (OK, Some 2) s2 \<and> created sig_of cf t1 t2 kt f arg s1 s2 \<and>
    p_stackaddr (pthreads s2 t2) = next_stack_base s + stack_size cf s \<and>
    hss_blocked (sigstates s2 (sig_of kt)) = word_of_int m0 \<and> threads_tab s2 ! 0 = Some t1 \<and> threads_tab s2 ! 1 = Some t2"
proof -
  have fb: "fresh_block h t1 (sized cf s)"
    using m(1) [of "sized cf s"] m(2) unbornD(3,5) [OF u] by (simp add: fresh_block_def sized_def)
  from run_init_routine [OF ok u fb, of self] obtain p port tcb v where
    p: "p > 0" and 1: "run (init_routine cf self) h s =
      Done (stack_top (cf_threadvar_max cf) (next_stack_base s) (stack_size cf s))
        (booted cf me t1 (main_started cf t1 sig_of m0 v (with_kernel_thread t1 p port me tcb (sized cf s))))" by blast
  define s1 where "s1 = booted cf me t1 (main_started cf t1 sig_of m0 v (with_kernel_thread t1 p port me tcb (sized cf s)))"
  note mr = main_running_start(1) [OF u p, where t = t1 and port = port and me = me and tcb = tcb and sig_of = sig_of
      and ?m0.0 = m0 and v = v, folded s1_def]
  note br = booted_roomy [OF u r, where t = t1 and p = p and port = port and me = me and tcb = tcb and sig_of = sig_of
      and ?m0.0 = m0 and v = v, folded s1_def]
  have n: "num_threads s1 = 1" "p_kernel_thread (pthreads s1 t1) = me" using mr by (simp_all add: main_running_def Let_def)
  have z: "at_stacksize (default_attr s1) = stack_size cf s" "at_guardsize (default_attr s1) = at_guardsize (default_attr s)"
    by (simp_all add: br(3) sized_def)
  have fb2: "fresh_block h t2 s1"
    using m(1) [of s1] m(3,4) n br(4) [of t2] unbornD(5) [OF u] by (simp add: fresh_block_def)
  have "unat (next_stack_base s + stack_size cf s) = unat (next_stack_base s) + unat (stack_size cf s)"
    using r by (simp add: room_for_two_def unat_word_ariths)
  then have "\<exists>s2. run (pthread_create cf t1 None f arg) h s1 = Done (OK, Some (num_threads s1 + 1)) s2 \<and>
      created sig_of cf t1 t2 kt f arg s1 s2 \<and>
      starts_thread (requests (pthread_create cf t1 None f arg) h s1) kt (p_sp (pthreads s2 t2)) (cf_entry_point cf)"
    by (intro run_create_fresh [where me = me])
      (use sup so kt br(1,2) fb2 n z r f m(4) in \<open>simp_all add: room_for_two_def\<close>)
  then obtain s2 where 2: "run (pthread_create cf t1 None f arg) h s1 = Done (OK, Some 2) s2"
    "created sig_of cf t1 t2 kt f arg s1 s2" unfolding n by auto
  with n z br(2) mr have "p_stackaddr (pthreads s2 t2) = next_stack_base s + stack_size cf s"
    "hss_blocked (sigstates s2 (sig_of kt)) = word_of_int m0" "threads_tab s2 ! 0 = Some t1" "threads_tab s2 ! 1 = Some t2"
    by (simp_all add: created_def main_running_def Let_def)
  with 1 2 mr show ?thesis unfolding s1_def by blast
qed

lemma zero_room_for_two: "room_for_two life_config zero_state"
  using zero_unborn(2) by (simp add: room_for_two_def one_running_simps) (simp add: life_config_def)

theorem startup_then_create_witness:
  "\<exists>sp s1 s2. run (init_routine life_config 0) boot_env zero_state = Done sp s1 \<and>
    main_running life_config 3 (\<lambda>k. Suc (nat k)) 5 zero_state 7 sp s1 \<and>
    run (pthread_create life_config 7 None 5 6) boot_env s1 = Done (OK, Some 2) s2 \<and>
    created (\<lambda>k. Suc (nat k)) life_config 7 8 5 5 6 s1 s2 \<and>
    p_stackaddr (pthreads s2 8) = next_stack_base zero_state + stack_size life_config zero_state \<and>
    hss_blocked (sigstates s2 (Suc (nat 5))) = word_of_int 5 \<and> threads_tab s2 ! 0 = Some 7 \<and> threads_tab s2 ! 1 = Some 8"
  by (rule startup_then_create [OF _ zero_unborn(1) zero_room_for_two, where me = 3])
    (use boot_env_startup_ok boot_env_ok in \<open>simp_all add: zero_unborn(2) one_running_simps boot_env_def\<close>)

end
