(* ===== verification/Recycle.thy ===== *)
theory Recycle
  imports Create_Props
begin

text \<open>
  What happens to the structure of a joined thread when it is used again.  Joining terminates the kernel
  thread and destroys the wakeup port of the thread, but the member \<^verbatim>\<open>have_kernel_resources\<close> of the structure
  stays set, and \<^verbatim>\<open>__pthread_alloc\<close> terminates the kernel thread of a recycled structure once more.
\<close>

section \<open>The free list after a join\<close>

text \<open>The hypotheses of a join that reaps \<open>t\<close>.\<close>

definition joinable_now :: "thr \<Rightarrow> thr \<Rightarrow> int \<Rightarrow> queue_view \<Rightarrow> pt_state \<Rightarrow> bool" where
  "joinable_now self t i Q s \<longleftrightarrow>
     threads_inv s \<and> idle_mutex s Free_threads_lock \<and> idle_mutex s (State_lock t) \<and> queues s Q \<and> \<not> queued s t \<and>
     p_state (pthreads s t) = PTHREAD_EXITED \<and> p_stack (pthreads s t) \<noteq> 0 \<and> p_thread (pthreads s t) = i \<and>
     1 \<le> i \<and> i \<le> num_threads s \<and> threads_tab s ! nat (i - 1) = Some t \<and> self \<noteq> t"

lemma run_join_recycle:
  assumes "reap_ok h" and "joinable_now self t i Q s" and "0 < n"
  shows "\<exists>s1 s2. run (pthread_join (Suc k) cf self i) h s = Done (OK, Some (p_status (pthreads s t))) s1 \<and>
    requests (pthread_join (Suc k) cf self i) h s = reap_requests (pthreads s t) \<and>
    run (pthread_alloc_recycle n self) h' s1 = Done (Some t) s2 \<and>
    pthreads s2 t = (pthreads s t)\<lparr>p_stack := 0, p_state := PTHREAD_TERMINATED\<rparr>"
proof -
  note j = assms(2) [unfolded joinable_now_def]
  from run_join_freed [OF assms(1), of s t Q i self k cf] j obtain c v where
    r: "run (pthread_join (Suc k) cf self i) h s =
      Done (OK, Some (p_status (pthreads s t))) (freed t c v (upd_pthread t (\<lambda>x. x\<lparr>p_stack := 0\<rparr>) s))"
      "requests (pthread_join (Suc k) cf self i) h s = reap_requests (pthreads s t)"
    and l: "linked c v (Q(Free_threads := t # Q Free_threads))" by blast
  let ?s1 = "freed t c v (upd_pthread t (\<lambda>x. x\<lparr>p_stack := 0\<rparr>) s)" and ?Q = "Q(Free_threads := t # Q Free_threads)"
  have "idle_mutex (s\<lparr>cell := c, prevp := v\<rparr>) Free_threads_lock"
    using j idle_other_links(1) [of s Q c v] l by simp
  then have "idle_mutex ?s1 Free_threads_lock"
    by (simp add: freed_def idle_mutex_def unlocked_def known_type_def mutex_type_of_def)
  moreover have "queues ?s1 ?Q" using l by (simp add: freed_def)
  ultimately obtain c' v' where
    r2: "run (pthread_alloc_recycle n self) h' ?s1 = Done (Some t) (?s1\<lparr>cell := c', prevp := v'\<rparr>)"
    using run_recycle_some [of ?s1 ?Q "[]" t "Q Free_threads" n self h'] assms(3) by (auto simp: freed_def)
  show ?thesis
    using r r2 by (intro exI [of _ ?s1] exI [of _ "?s1\<lparr>cell := c', prevp := v'\<rparr>"]) (simp add: freed_def)
qed

text \<open>
  The first function of the next creation, when the kernel replies \<open>e\<close> to the second termination of the kernel
  thread: it goes on with what the structure still names, or its assertion fails.
\<close>

lemma run_alloc_recycled:
  assumes "run (pthread_alloc_recycle n self) h s1 = Done (Some t) s0"
    and "h (Thread_terminate (p_kernel_thread (pthreads s0 t))) s0 = Some ((e, x, y), s0)"
    and "\<And>a s. \<exists>r. h (Dl_deallocate_tls a) s = Some (r, s)"
  shows "run (pthread_alloc m n mx self) h s1 =
    (if e = OK
     then Done (OK, t) (initialized t True (if p_tcb (pthreads s0 t) \<noteq> 0 then upd_pthread t (\<lambda>x. x\<lparr>p_tcb := 0\<rparr>) s0 else s0))
     else Failed Assert_failed s0)"
proof -
  obtain z where "h (Dl_deallocate_tls (p_tcb (pthreads s0 t))) s0 = Some (z, s0)" using assms(3) by blast
  with assms(1,2) show ?thesis
    by (simp add: pthread_alloc_def run_simps pthread_thread_halt_def run_initialize del: alloc_slot.simps)
qed

section \<open>A thread without a kernel thread\<close>

text \<open>
  C22: A thread that is created in the structure of a joined one gets no kernel thread and no wakeup port.  The calls of the
  join terminate the kernel thread, release the stack and destroy the port.  The next allocation takes the structure and
  terminates the same kernel thread a second time.  If the kernel accepts this (\<open>e\<close> is 0), the structure
  still names the dead thread and port, and \<^verbatim>\<open>__pthread_thread_alloc\<close> returns 0 without any call to the kernel, because
  \<^verbatim>\<open>have_kernel_resources\<close> has been left set.  If the kernel refuses to terminate a thread that is dead (\<open>e\<close> is not 0), the
  assertion in \<^verbatim>\<open>__pthread_thread_halt\<close> fails and \<^verbatim>\<open>pthread_create\<close> aborts the program.
\<close>

theorem recycled_gets_no_kernel_thread:
  assumes "reap_ok h" and "joinable_now self t i Q s" and "0 < cf_queue cf"
    and "p_have_kernel_resources (pthreads s t) \<noteq> 0"
    and "\<And>s'. \<exists>x y. h' (Thread_terminate (p_kernel_thread (pthreads s t))) s' = Some ((e, x, y), s')"
    and "\<And>a s'. \<exists>r. h' (Dl_deallocate_tls a) s' = Some (r, s')"
  shows "\<exists>s1. run (pthread_join (Suc k) cf self i) h s = Done (OK, Some (p_status (pthreads s t))) s1 \<and>
    requests (pthread_join (Suc k) cf self i) h s =
      [Thread_terminate (p_kernel_thread (pthreads s t)),
       Vm_deallocate (uint (p_stackaddr (pthreads s t))) (uint (p_stacksize (pthreads s t))),
       Mach_port_destroy (p_wakeup_port (pthreads s t))] \<and>
    (if e = OK then
       \<exists>s2. run (pthread_alloc (cf_tries cf) (cf_queue cf) (cf_threads_max cf) self) h' s1 = Done (OK, t) s2 \<and>
         run (pthread_thread_alloc t) h' s2 = Done OK s2 \<and> requests (pthread_thread_alloc t) h' s2 = [] \<and>
         p_kernel_thread (pthreads s2 t) = p_kernel_thread (pthreads s t) \<and>
         p_wakeup_port (pthreads s2 t) = p_wakeup_port (pthreads s t)
     else \<exists>s2. run (pthread_create cf self attr f arg) h' s1 = Failed Assert_failed s2)"
proof -
  from run_join_recycle [OF assms(1-3), of k cf h'] obtain s1 s0 where
    r: "run (pthread_join (Suc k) cf self i) h s = Done (OK, Some (p_status (pthreads s t))) s1"
      "requests (pthread_join (Suc k) cf self i) h s = reap_requests (pthreads s t)"
      "run (pthread_alloc_recycle (cf_queue cf) self) h' s1 = Done (Some t) s0"
      "pthreads s0 t = (pthreads s t)\<lparr>p_stack := 0, p_state := PTHREAD_TERMINATED\<rparr>" by blast
  let ?x = "pthreads s0 t"
  from assms(5) obtain x y where "h' (Thread_terminate (p_kernel_thread ?x)) s0 = Some ((e, x, y), s0)"
    using r(4) by fastforce
  note a = run_alloc_recycled [OF r(3) this assms(6)]
  show ?thesis
  proof (cases "e = OK")
    case True
    let ?s2 = "initialized t True (if p_tcb ?x \<noteq> 0 then upd_pthread t (\<lambda>x. x\<lparr>p_tcb := 0\<rparr>) s0 else s0)"
    have k: "p_have_kernel_resources (pthreads ?s2 t) \<noteq> 0" "p_kernel_thread (pthreads ?s2 t) = p_kernel_thread (pthreads s t)"
      "p_wakeup_port (pthreads ?s2 t) = p_wakeup_port (pthreads s t)"
      using r(4) assms(4) by (simp_all add: initialized_defs Let_def)
    then have "run (pthread_thread_alloc t) h' ?s2 = Done OK ?s2" "requests (pthread_thread_alloc t) h' ?s2 = []"
      by (simp_all add: pthread_thread_alloc_def run_simps requests_simps)
    with True r(1,2) a k show ?thesis
      by (intro exI [of _ s1] conjI) (simp_all add: reap_requests_def)
  next
    case False
    with a have "run (pthread_create cf self attr f arg) h' s1 = Failed Assert_failed s0"
      by (simp add: pthread_create_def pthread_create_internal_def run_simps)
    with False r(1,2) show ?thesis by (auto simp: reap_requests_def)
  qed
qed

definition joinee_run :: pt_state where
  "joinee_run = upd_pthread 2 (\<lambda>x. x\<lparr>p_have_kernel_resources := 1\<rparr>) joinee"

lemma joinee_run_now: "joinable_now 1 2 2 (\<lambda>_. []) joinee_run"
  by (simp add: joinable_now_def joinee_run_def joinee_def threads_inv_def idle_rwlock_def idle_mutex_def unlocked_def
      known_type_def mutex_type_of_def resolve_attr_def linked_def)

theorem recycled_gets_no_kernel_thread_witness:
  "\<exists>s1. run (pthread_join (Suc 0) life_config 1 2) alloc_env joinee_run = Done (OK, Some 42) s1 \<and>
    requests (pthread_join (Suc 0) life_config 1 2) alloc_env joinee_run =
      [Thread_terminate 22, Vm_deallocate 0x200000 0x1000, Mach_port_destroy 23] \<and>
    (\<exists>s2. run (pthread_alloc (cf_tries life_config) (cf_queue life_config) (cf_threads_max life_config) 1) alloc_env s1 =
        Done (OK, 2) s2 \<and>
      run (pthread_thread_alloc 2) alloc_env s2 = Done OK s2 \<and> requests (pthread_thread_alloc 2) alloc_env s2 = [] \<and>
      p_kernel_thread (pthreads s2 2) = 22 \<and> p_wakeup_port (pthreads s2 2) = 23)"
  using recycled_gets_no_kernel_thread [OF _ joinee_run_now, of alloc_env life_config alloc_env OK 0]
  by (simp add: reap_ok_def alloc_env_def life_config_def joinee_run_def joinee_def)

end
