(* ===== verification/Signal.thy ===== *)
theory Signal
  imports Thread
begin

text \<open>
  The signal implementation for systems that manage signals in user space (\<^verbatim>\<open>signal/*.c\<close>, with
  \<^verbatim>\<open>killpg.c\<close>, \<^verbatim>\<open>raise.c\<close>, \<^verbatim>\<open>pt-kill.c\<close>, \<^verbatim>\<open>siginterrupt.c\<close>, \<^verbatim>\<open>signal.c\<close> and \<^verbatim>\<open>sigwait.c\<close> of
  \<^verbatim>\<open>sysdeps/generic\<close>).  Functions that return 0, or -1 with \<^verbatim>\<open>errno\<close> set, return \<open>Some OK\<close> or \<open>None\<close>;
  \<^verbatim>\<open>kill\<close> may also return the code of \<^verbatim>\<open>pthread_kill\<close>.  The argument \<open>self\<close> is the calling thread.

  Code of the port is a parameter, reached by system calls: \<^verbatim>\<open>l4_lsb64\<close> and \<^verbatim>\<open>l4_msb64\<close> (the position,
  from 1, of the lowest and the highest bit set), \<^verbatim>\<open>futex_wait\<close> and \<^verbatim>\<open>futex_wake\<close> on the word
  \<^verbatim>\<open>info.si_signo\<close> of a thread's waiter, \<^verbatim>\<open>getpid\<close> and \<^verbatim>\<open>signal_dispatch_lowlevel\<close>; so are the signal
  handlers.  The tracing calls of \<^verbatim>\<open>raise.c\<close> are left out.  The argument \<open>n\<close> bounds three loops: the
  iterations of \<^verbatim>\<open>signal_dispatch\<close>, the walk along \<^verbatim>\<open>sigwaiters\<close>, and the wakeups of \<^verbatim>\<open>__pthread_getid\<close>'s
  lock.
\<close>

unbundle bit_operations_syntax

abbreviation ss_of :: "pt_state \<Rightarrow> thr \<Rightarrow> signal_state" where
  "ss_of s t \<equiv> state_of (sigs s) t"

abbreviation upd_sigs :: "(signals \<Rightarrow> signals) \<Rightarrow> pt_state \<Rightarrow> pt_state" where
  "upd_sigs f s \<equiv> s\<lparr>sigs := f (sigs s)\<rparr>"

definition upd_ss :: "thr \<Rightarrow> (signal_state \<Rightarrow> signal_state) \<Rightarrow> pt_state \<Rightarrow> pt_state" where
  "upd_ss t f s = upd_sigs (\<lambda>g. g\<lparr>state_of := (state_of g)(t := f (state_of g t))\<rparr>) s"

definition upd_waiter :: "thr \<Rightarrow> (sigwaiter \<Rightarrow> sigwaiter) \<Rightarrow> pt_state \<Rightarrow> pt_state" where
  "upd_waiter w f s = upd_sigs (\<lambda>g. g\<lparr>waiter_at := (waiter_at g)(w := f (waiter_at g w))\<rparr>) s"

text \<open>The end of a function that fails, and a call of \<^verbatim>\<open>sigdelset\<close> whose result is ignored.\<close>

definition fail_with :: "thr \<Rightarrow> rc \<Rightarrow> rc option pt" where
  "fail_with self e = andthen (modify (\<lambda>s. s\<lparr>errno := (errno s)(self := e)\<rparr>)) (\<lambda>_. Return None)"

definition del_process :: "thr \<Rightarrow> int \<Rightarrow> pt_state \<Rightarrow> pt_state" where
  "del_process self signo s =
     (case sigdelset (process_pending (sigs s)) signo of
        (e, w) \<Rightarrow> upd_sigs (\<lambda>g. g\<lparr>process_pending := w\<rparr>)
                   (if e = OK then s else s\<lparr>errno := (errno s)(self := e)\<rparr>))"

definition del_pending :: "thr \<Rightarrow> thr \<Rightarrow> int \<Rightarrow> pt_state \<Rightarrow> pt_state" where
  "del_pending self t signo s =
     (case sigdelset (ss_pending (ss_of s t)) signo of
        (e, w) \<Rightarrow> upd_ss t (\<lambda>x. x\<lparr>ss_pending := w\<rparr>)
                   (if e = OK then s else s\<lparr>errno := (errno s)(self := e)\<rparr>))"

definition lock_held :: "maddr \<Rightarrow> thr \<Rightarrow> unit pt" where
  "lock_held m self = andthen (pthread_mutex_trylock m self) (\<lambda>r. assert_p (r = EBUSY))"

section \<open>Waiting for signals\<close>

text \<open>
  \<^verbatim>\<open>sigwaiter_block\<close>: the waiter of \<open>self\<close> is put at the front of \<^verbatim>\<open>sigwaiters\<close>.  The two assertions on
  pointers are faults of \<open>waiter_push\<close>.
\<close>

definition waiter_push :: "thr \<Rightarrow> pt_state \<Rightarrow> (fault + unit) \<times> pt_state" where
  "waiter_push self s =
     (if ss_sigwaiter (ss_of s self) \<noteq> None then (Inl Assert_failed, s)
      else
        (let s1 = upd_waiter self (\<lambda>w. w\<lparr>w_next := sigwaiters (sigs s)\<rparr>) s
         in case w_next (waiter_at (sigs s1) self) of
              Some x \<Rightarrow>
                if w_prev (waiter_at (sigs s1) x) \<noteq> None then (Inl Assert_failed, s1)
                else (Inr (), upd_waiter x (\<lambda>w. w\<lparr>w_prev := Some self\<rparr>) s1)
            | None \<Rightarrow> (Inr (), s1)))"

definition waiter_fill :: "thr \<Rightarrow> sigset \<Rightarrow> pt_state \<Rightarrow> pt_state" where
  "waiter_fill self set0 s =
     upd_ss self (\<lambda>x. x\<lparr>ss_sigwaiter := Some self\<rparr>)
       (upd_waiter self (\<lambda>w. w\<lparr>w_prev := None, w_ss := self,
            w_info := (w_info w)\<lparr>si_signo := 0\<rparr>, w_signals := set0\<rparr>)
         (upd_sigs (\<lambda>g. g\<lparr>sigwaiters := Some self\<rparr>) s))"

definition waiter_awake :: "thr \<Rightarrow> siginfo pt" where
  "waiter_awake self =
     andthen (pthread_mutex_lock (Ss_lock self) self) (\<lambda>_.
     andthen (modify (upd_ss self (\<lambda>x. x\<lparr>ss_sigwaiter := None\<rparr>))) (\<lambda>_.
     andthen (pthread_mutex_unlock (Ss_lock self) self) (\<lambda>_.
     andthen (gets (\<lambda>s. w_info (waiter_at (sigs s) self))) (\<lambda>i.
     andthen (assert_p (si_signo i \<noteq> 0)) (\<lambda>_. Return i)))))"

text \<open>
  \<^verbatim>\<open>futex_wait\<close> on the word of the waiter of \<open>self\<close>, with the value that is expected there, is two calls of the
  port: the first compares and, if the word still has that value, marks the thread as asleep; the second returns when
  the thread is not, or no longer, asleep.  Others run in between only after the comparison and the falling asleep, which
  are one step.
\<close>

definition futex_wait :: "thr \<Rightarrow> int \<Rightarrow> unit pt" where
  "futex_wait self v =
     andthen (syscall (Extern ''futex_wait'' [int self, v])) (\<lambda>_.
     andthen (syscall (Extern ''futex_sleep'' [int self])) (\<lambda>_. Return ()))"

definition sigwaiter_block :: "thr \<Rightarrow> sigset \<Rightarrow> siginfo pt" where
  "sigwaiter_block self set0 =
     andthen (lock_held Sig_lock self) (\<lambda>_.
     andthen (lock_held (Ss_lock self) self) (\<lambda>_.
     andthen (section_of (\<lambda>_. True) (waiter_push self)) (\<lambda>_.
     andthen (modify (waiter_fill self set0)) (\<lambda>_.
     andthen (pthread_mutex_unlock (Ss_lock self) self) (\<lambda>_.
     andthen (pthread_mutex_unlock Sig_lock self) (\<lambda>_.
     andthen (futex_wait self 0) (\<lambda>_. waiter_awake self)))))))"

text \<open>\<^verbatim>\<open>sigwaiter_unblock\<close>: the waiter is unlinked, whether or not it is in the list.\<close>

definition waiter_unlink :: "thr \<Rightarrow> pt_state \<Rightarrow> pt_state" where
  "waiter_unlink w s =
     (let prev = w_prev (waiter_at (sigs s) w);
          next = w_next (waiter_at (sigs s) w);
          s1 = (case next of
                  Some x \<Rightarrow> upd_waiter x (\<lambda>y. y\<lparr>w_prev := prev\<rparr>) s
                | None \<Rightarrow> s)
      in case prev of
           Some x \<Rightarrow> upd_waiter x (\<lambda>y. y\<lparr>w_next := next\<rparr>) s1
         | None \<Rightarrow> upd_sigs (\<lambda>g. g\<lparr>sigwaiters := next\<rparr>) s1)"

definition waiter_taken :: "thr \<Rightarrow> thr \<Rightarrow> pt_state \<Rightarrow> pt_state" where
  "waiter_taken self w s =
     (let s1 = waiter_unlink w s;
          signo = si_signo (w_info (waiter_at (sigs s1) w))
      in del_pending self (w_ss (waiter_at (sigs s1) w)) signo (del_process self signo s1))"

definition sigwaiter_unblock :: "thr \<Rightarrow> thr \<Rightarrow> unit pt" where
  "sigwaiter_unblock self w =
     andthen (gets (\<lambda>s. w_ss (waiter_at (sigs s) w))) (\<lambda>t.
     andthen (lock_held Sig_lock self) (\<lambda>_.
     andthen (lock_held (Ss_lock t) self) (\<lambda>_.
     andthen (modify (waiter_taken self w)) (\<lambda>_.
     andthen (pthread_mutex_unlock (Ss_lock t) self) (\<lambda>_.
     andthen (pthread_mutex_unlock Sig_lock self) (\<lambda>_.
     andthen (syscall (Extern ''futex_wake'' [int w, 1])) (\<lambda>_. Return ())))))))"

text \<open>
  \<^verbatim>\<open>sigwaitinfo\<close>; \<open>want\<close> tells that \<^verbatim>\<open>info\<close> is not null, and the second result is what is stored there.
  The flag \<^verbatim>\<open>local\<close> is true when the signal was found pending on the process.
\<close>

definition extant_signals :: "thr \<Rightarrow> sigset \<Rightarrow> pt_state \<Rightarrow> bool \<times> sigset" where
  "extant_signals self set0 s =
     (let extant = process_pending (sigs s) AND set0
      in if extant \<noteq> 0 then (True, extant) else (False, ss_pending (ss_of s self) AND set0))"

definition info_slot :: "thr \<Rightarrow> bool \<Rightarrow> int \<Rightarrow> pt_state \<Rightarrow> (fault + siginfo) \<times> pt_state" where
  "info_slot self local signo s =
     (if \<not> (1 \<le> signo \<and> signo \<le> NSIG) then (Inl Wild_access, s)
      else (Inr ((if local then ss_info (ss_of s self) (signo - 1)
                  else process_pending_info (sigs s) (signo - 1))\<lparr>si_signo := signo\<rparr>), s))"

definition sigwaitinfo_pending ::
    "thr \<Rightarrow> bool \<times> sigset \<Rightarrow> bool \<Rightarrow> (rc option \<times> siginfo option) pt" where
  "sigwaitinfo_pending self found want =
     andthen (assert_p (snd found \<noteq> 0)) (\<lambda>_.
     andthen (syscall (Extern ''l4_msb64'' [uint (snd found)])) (\<lambda>(_, signo, _).
     andthen (if want then andthen (section_of (\<lambda>_. True) (info_slot self (fst found) signo))
                             (\<lambda>i. Return (Some i))
              else Return None) (\<lambda>info.
     andthen (modify (\<lambda>s. del_pending self self signo (del_process self signo s))) (\<lambda>_.
     andthen (pthread_mutex_unlock (Ss_lock self) self) (\<lambda>_.
     andthen (pthread_mutex_unlock Sig_lock self) (\<lambda>_. Return (Some OK, info)))))))"

definition sigwaitinfo :: "thr \<Rightarrow> sigset \<Rightarrow> bool \<Rightarrow> (rc option \<times> siginfo option) pt" where
  "sigwaitinfo self set0 want =
     andthen (pthread_mutex_lock Sig_lock self) (\<lambda>_.
     andthen (pthread_mutex_lock (Ss_lock self) self) (\<lambda>_.
     andthen (gets (\<lambda>s. process_pending (sigs s) AND set0 \<noteq> 0 \<or> ss_pending (ss_of s self) AND set0 \<noteq> 0)) (\<lambda>some.
       if some then
         andthen (gets (extant_signals self set0)) (\<lambda>found. sigwaitinfo_pending self found want)
       else
         andthen (sigwaiter_block self set0) (\<lambda>i.
         andthen (assert_p (si_signo i \<noteq> 0)) (\<lambda>_.
           if \<not> shift_defined (si_signo i) then Crash Undefined_shift
           else
             andthen (assert_p (sigmask (si_signo i) AND set0 \<noteq> 0)) (\<lambda>_.
               Return (Some OK, if want then Some i else None)))))))"

definition sigwait :: "thr \<Rightarrow> sigset \<Rightarrow> (rc option \<times> int option) pt" where
  "sigwait self set0 =
     andthen (sigwaitinfo self set0 True) (\<lambda>(r, info).
       if r = None then Return (None, None) else Return (Some OK, map_option si_signo info))"

definition sigtimedwait :: "thr \<Rightarrow> sigset \<Rightarrow> timespec option \<Rightarrow> rc option pt" where
  "sigtimedwait self set0 timeout = fail_with self EOPNOTSUPP"

definition sigsuspend :: "thr \<Rightarrow> sigset \<Rightarrow> rc option pt" where
  "sigsuspend self set0 = fail_with self EOPNOTSUPP"

definition sigpending :: "thr \<Rightarrow> (rc option \<times> sigset) pt" where
  "sigpending self =
     andthen (pthread_mutex_lock (Ss_lock self) self) (\<lambda>_.
     andthen (gets (\<lambda>s. (ss_pending (ss_of s self) OR process_pending (sigs s)) AND ss_blocked (ss_of s self))) (\<lambda>r.
     andthen (pthread_mutex_unlock (Ss_lock self) self) (\<lambda>_. Return (Some OK, r))))"

section \<open>Actions\<close>

text \<open>\<^verbatim>\<open>sigaction\<close>: \<open>sa\<close> is \<open>None\<close> for a null pointer; the second result is what is stored at \<^verbatim>\<open>osa\<close>.\<close>

definition ignores :: "int \<Rightarrow> int \<Rightarrow> bool" where
  "ignores handler sig \<longleftrightarrow>
     handler = SIG_IGN \<or> handler = SIG_DFL \<and> default_action sig = Some sig_ignore"

definition sigaction_section :: "thr \<Rightarrow> int \<Rightarrow> sigaction_t \<Rightarrow> pt_state \<Rightarrow> (fault + unit) \<times> pt_state" where
  "sigaction_section self sig sa s =
     (let s1 = upd_ss self (\<lambda>x. x\<lparr>ss_actions := (ss_actions x)(sig - 1 := sa)\<rparr>) s;
          s2 = upd_ss self (\<lambda>x. x\<lparr>ss_blocked := snd (sigdelset (ss_blocked x) SIGKILL)\<rparr>) s1;
          s3 = upd_ss self (\<lambda>x. x\<lparr>ss_blocked := snd (sigdelset (ss_blocked x) SIGSTOP)\<rparr>) s2
      in if sa_handler sa = SIG_DFL \<and> default_action sig = None then (Inl Panicked, s3)
         else if ignores (sa_handler sa) sig
         then (Inr (), del_process self sig (del_pending self self sig s3))
         else (Inr (), s3))"

definition sigaction :: "thr \<Rightarrow> int \<Rightarrow> sigaction_t option \<Rightarrow> (rc option \<times> sigaction_t option) pt" where
  "sigaction self sig sa =
     (if sig \<le> 0 \<or> sig \<ge> NSIG then andthen (fail_with self EINVAL) (\<lambda>r. Return (r, None))
      else
        andthen (pthread_mutex_lock (Ss_lock self) self) (\<lambda>_.
        andthen (gets (\<lambda>s. ss_actions (ss_of s self) (sig - 1))) (\<lambda>osa.
        andthen (case sa of
                   None \<Rightarrow> Return ()
                 | Some a \<Rightarrow> section_of (\<lambda>_. True) (sigaction_section self sig a)) (\<lambda>_.
        andthen (pthread_mutex_unlock (Ss_lock self) self) (\<lambda>_. Return (Some OK, Some osa))))))"

text \<open>\<^verbatim>\<open>siginterrupt\<close>; \<open>act\<close> is the content of its uninitialised local variable.\<close>

definition siginterrupt :: "sigaction_t \<Rightarrow> thr \<Rightarrow> int \<Rightarrow> int \<Rightarrow> rc option pt" where
  "siginterrupt act self sig flag =
     andthen (sigaction self sig None) (\<lambda>(_, osa).
     let a = (case osa of None \<Rightarrow> act | Some x \<Rightarrow> x);
         a1 = (if flag \<noteq> 0 then a\<lparr>sa_flags := sa_flags a AND NOT SA_RESTART\<rparr>
               else a\<lparr>sa_flags := sa_flags a OR SA_RESTART\<rparr>)
     in andthen (sigaction self sig (Some a1)) (\<lambda>(ret, _). Return ret))"

definition signal :: "thr \<Rightarrow> int \<Rightarrow> int \<Rightarrow> int pt" where
  "signal self sig handler =
     (case sigaddset (snd (sigemptyset 0)) sig of
        (e, set0) \<Rightarrow>
          if e \<noteq> OK then andthen (fail_with self e) (\<lambda>_. Return SIG_ERR)
          else
            andthen (sigaction self sig
                (Some \<lparr>sa_handler = handler, sa_mask = set0, sa_flags = SA_RESTART\<rparr>)) (\<lambda>(r, osa).
              case (r, osa) of
                (Some _, Some a) \<Rightarrow> Return (sa_handler a)
              | _ \<Rightarrow> Return SIG_ERR))"

definition bsd_signal :: "thr \<Rightarrow> int \<Rightarrow> int \<Rightarrow> int pt" where
  "bsd_signal self sig func = signal self sig func"

text \<open>\<^verbatim>\<open>sigaltstack\<close>: \<open>minsigstksz\<close> is the port's page size; the second result goes to \<^verbatim>\<open>old\<close>.\<close>

definition altstack_check :: "32 word \<Rightarrow> stack_t \<Rightarrow> stack_t \<Rightarrow> rc" where
  "altstack_check minsigstksz current stack =
     (if ss_size stack < minsigstksz then ENOMEM
      else if ss_flags stack AND NOT SS_DISABLE \<noteq> 0 then EINVAL
      else if ss_flags current AND SS_ONSTACK \<noteq> 0 then EPERM
      else OK)"

definition sigaltstack_section ::
    "32 word \<Rightarrow> thr \<Rightarrow> stack_t option \<Rightarrow> pt_state \<Rightarrow> (fault + rc \<times> stack_t) \<times> pt_state" where
  "sigaltstack_section minsigstksz self stack s =
     (let old = ss_stack (ss_of s self)
      in case stack of
           None \<Rightarrow> (Inr (OK, old), s)
         | Some st \<Rightarrow>
             let e = altstack_check minsigstksz old st
             in (Inr (e, old), if e = OK then upd_ss self (\<lambda>x. x\<lparr>ss_stack := st\<rparr>) s else s))"

definition sigaltstack :: "32 word \<Rightarrow> thr \<Rightarrow> stack_t option \<Rightarrow> (rc option \<times> stack_t) pt" where
  "sigaltstack minsigstksz self stack =
     andthen (pthread_mutex_lock (Ss_lock self) self) (\<lambda>_.
     andthen (section_of (\<lambda>_. True) (sigaltstack_section minsigstksz self stack)) (\<lambda>(err, old).
     andthen (pthread_mutex_unlock (Ss_lock self) self) (\<lambda>_.
       if err \<noteq> OK then andthen (fail_with self err) (\<lambda>r. Return (r, old))
       else Return (Some OK, old))))"

section \<open>Delivery\<close>

text \<open>
  The parts of an iteration of \<^verbatim>\<open>signal_dispatch\<close> for the signal \<open>signo\<close> and the state of \<open>t\<close>.  First,
  stop signals clear a pending \<^verbatim>\<open>SIGCONT\<close> and conversely.
\<close>

definition clear_opposites :: "thr \<Rightarrow> thr \<Rightarrow> int \<Rightarrow> pt_state \<Rightarrow> pt_state" where
  "clear_opposites self t signo s =
     (if sigmask signo AND STOPSIGS \<noteq> 0 then
        del_process self SIGCONT (del_pending self t SIGCONT s)
      else if signo = SIGCONT then
        upd_sigs (\<lambda>g. g\<lparr>process_pending := process_pending g AND NOT STOPSIGS\<rparr>)
          (upd_ss t (\<lambda>x. x\<lparr>ss_pending := ss_pending x AND NOT STOPSIGS\<rparr>) s)
      else s)"

text \<open>
  Lines 54 to 72: the handler to call and the mask to restore are the results.  A number beyond the
  arrays is a fault.
\<close>

definition mask_for_handler :: "int \<Rightarrow> signal_state \<Rightarrow> signal_state" where
  "mask_for_handler signo x =
     (let a = ss_actions x (signo - 1);
          x1 = (if sa_flags a AND SA_RESETHAND \<noteq> 0 \<and> signo \<noteq> SIGILL \<and> signo \<noteq> SIGTRAP
                then x\<lparr>ss_actions := (ss_actions x)(signo - 1 := a\<lparr>sa_handler := SIG_DFL\<rparr>)\<rparr>
                else x);
          x2 = x1\<lparr>ss_blocked := ss_blocked x1 OR sa_mask (ss_actions x1 (signo - 1))\<rparr>
      in if sa_flags (ss_actions x2 (signo - 1)) AND (SA_RESETHAND OR SA_NODEFER) = 0
         then x2\<lparr>ss_blocked := snd (sigaddset (ss_blocked x2) signo)\<rparr> else x2)"

definition prepare_delivery :: "thr \<Rightarrow> thr \<Rightarrow> int \<Rightarrow> pt_state \<Rightarrow> (fault + int \<times> sigset) \<times> pt_state" where
  "prepare_delivery self t signo s =
     (if \<not> (1 \<le> signo \<and> signo \<le> NSIG) then (Inl Wild_access, s)
      else let s1 = clear_opposites self t signo s;
          x = ss_of s1 t
      in (Inr (sa_handler (ss_actions x (signo - 1)), ss_blocked x),
          del_pending self t signo (upd_ss t (mask_for_handler signo) s1)))"

text \<open>
  Lines 79 to 97.  Because of the semicolon in line 91, \<^verbatim>\<open>panic\<close> in line 92 is executed for every
  default action that does not end the process before.
\<close>

definition take_action :: "int \<Rightarrow> int \<Rightarrow> siginfo \<Rightarrow> unit pt" where
  "take_action handler signo si =
     (if handler = SIG_DFL then
        (case default_action signo of
           None \<Rightarrow> Crash Panicked
         | Some action \<Rightarrow>
             if action = sig_terminate \<or> action = sig_core then Crash (Process_exit (128 + signo))
             else Crash Panicked)
      else if handler = SIG_IGN then Return ()
      else andthen (syscall (Sig_handler handler signo si)) (\<lambda>_. Return ()))"

definition next_pending :: "thr \<Rightarrow> pt_state \<Rightarrow> sigset" where
  "next_pending t s =
     (let pending = NOT (ss_blocked (ss_of s t)) AND ss_pending (ss_of s t)
      in if pending = 0 then NOT (ss_blocked (ss_of s t)) AND process_pending (sigs s) else pending)"

definition deliver_one :: "thr \<Rightarrow> thr \<Rightarrow> int \<Rightarrow> siginfo \<Rightarrow> int pt" where
  "deliver_one self t signo si =
     andthen (section_of (\<lambda>_. True) (prepare_delivery self t signo)) (\<lambda>(handler, orig_blocked).
     andthen (pthread_mutex_unlock (Ss_lock t) self) (\<lambda>_.
     andthen (pthread_mutex_lock Sig_lock self) (\<lambda>_.
     andthen (modify (del_process self signo)) (\<lambda>_.
     andthen (pthread_mutex_unlock Sig_lock self) (\<lambda>_.
     andthen (take_action handler signo si) (\<lambda>_.
     andthen (pthread_mutex_lock (Ss_lock t) self) (\<lambda>_.
     andthen (modify (upd_ss t (\<lambda>x. x\<lparr>ss_blocked := orig_blocked\<rparr>))) (\<lambda>_.
     andthen (gets (next_pending t)) (\<lambda>pending.
     andthen (syscall (Extern ''l4_lsb64'' [uint pending])) (\<lambda>(_, next, _). Return next))))))))))"

fun deliver_loop :: "nat \<Rightarrow> thr \<Rightarrow> thr \<Rightarrow> int \<Rightarrow> siginfo \<Rightarrow> unit pt" where
  "deliver_loop 0 self t signo si = stuck"
| "deliver_loop (Suc n) self t signo si =
     andthen (deliver_one self t signo si) (\<lambda>next.
       if next \<noteq> 0 then deliver_loop n self t next si else Return ())"

definition signal_dispatch :: "nat \<Rightarrow> thr \<Rightarrow> thr \<Rightarrow> siginfo \<Rightarrow> unit pt" where
  "signal_dispatch n self t si =
     andthen (assert_p (si_signo si > 0 \<and> si_signo si < NSIG)) (\<lambda>_.
     andthen (lock_held (Ss_lock t) self) (\<lambda>_.
     andthen (deliver_loop n self t (si_signo si) si) (\<lambda>_.
     andthen (pthread_mutex_unlock (Ss_lock t) self) (\<lambda>_. Return ()))))"

section \<open>Generation\<close>

text \<open>
  \<^verbatim>\<open>pthread_kill_siginfo_np\<close>.  For an identifier without a thread the state is found at a small
  address, and locking its mutex faults.
\<close>

definition on_own_stack :: "signal_state \<Rightarrow> int \<Rightarrow> bool" where
  "on_own_stack x signo \<longleftrightarrow>
     sa_flags (ss_actions x (signo - 1)) AND SA_ONSTACK = 0 \<or>
     ss_flags (ss_stack x) AND SS_DISABLE \<noteq> 0 \<or> ss_flags (ss_stack x) AND SS_ONSTACK \<noteq> 0"

definition waits_for :: "pt_state \<Rightarrow> thr \<Rightarrow> int \<Rightarrow> thr option" where
  "waits_for s t sig =
     (case ss_sigwaiter (ss_of s t) of
        None \<Rightarrow> None
      | Some w \<Rightarrow> if w_signals (waiter_at (sigs s) w) AND sigmask sig \<noteq> 0 then Some w else None)"

definition generate :: "nat \<Rightarrow> thr \<Rightarrow> int \<Rightarrow> thr \<Rightarrow> siginfo \<Rightarrow> rc pt" where
  "generate n self tid t si =
     andthen (gets (\<lambda>s. ss_of s t)) (\<lambda>x.
     let sig = si_signo si; handler = sa_handler (ss_actions x (sig - 1))
     in if handler = SIG_DFL \<and> default_action sig = None then Crash Panicked
        else if ignores handler sig then
          andthen (pthread_mutex_unlock (Ss_lock t) self) (\<lambda>_. Return OK)
        else if sigmask sig AND ss_blocked x \<noteq> 0 then
          andthen (modify (upd_ss t (\<lambda>x. x\<lparr>ss_pending := ss_pending x OR sigmask sig\<rparr>))) (\<lambda>_.
          andthen (pthread_mutex_unlock (Ss_lock t) self) (\<lambda>_. Return OK))
        else
          andthen (gets (\<lambda>s. p_thread (pthreads s self))) (\<lambda>me.
            if me = tid \<and> on_own_stack x sig
            then andthen (signal_dispatch n self t si) (\<lambda>_. Return OK)
            else andthen (syscall (Dispatch_lowlevel t tid si)) (\<lambda>_. Return OK)))"

definition pthread_kill_siginfo_np :: "nat \<Rightarrow> thr \<Rightarrow> int \<Rightarrow> siginfo \<Rightarrow> rc pt" where
  "pthread_kill_siginfo_np n self tid si =
     (if si_signo si < 0 \<or> si_signo si \<ge> NSIG then Return EINVAL
      else if si_signo si = 0 then Return OK
      else
        andthen (pthread_getid n self tid) (\<lambda>p.
        andthen (pthread_mutex_lock Sig_lock self) (\<lambda>_.
          case p of
            None \<Rightarrow> Crash Wild_access
          | Some t \<Rightarrow>
              andthen (pthread_mutex_lock (Ss_lock t) self) (\<lambda>_.
              andthen (gets (\<lambda>s. waits_for s t (si_signo si))) (\<lambda>r.
                case r of
                  Some w \<Rightarrow>
                    andthen (modify (upd_waiter w (\<lambda>x. x\<lparr>w_info := si\<rparr>))) (\<lambda>_.
                    andthen (sigwaiter_unblock self w) (\<lambda>_. Return OK))
                | None \<Rightarrow>
                    andthen (pthread_mutex_unlock Sig_lock self) (\<lambda>_. generate n self tid t si))))))"

definition generic_pthread_kill :: "nat \<Rightarrow> thr \<Rightarrow> int \<Rightarrow> int \<Rightarrow> rc pt" where
  "generic_pthread_kill n self tid signo =
     pthread_kill_siginfo_np n self tid (zero_siginfo\<lparr>si_signo := signo\<rparr>)"

definition raise_signal :: "nat \<Rightarrow> thr \<Rightarrow> int \<Rightarrow> rc option pt" where
  "raise_signal n self signo =
     andthen (gets (\<lambda>s. p_thread (pthreads s self))) (\<lambda>tid.
     andthen (generic_pthread_kill n self tid signo) (\<lambda>err.
       if err \<noteq> OK then fail_with self err else Return (Some OK)))"

text \<open>\<^verbatim>\<open>kill\<close>; the walk along \<^verbatim>\<open>sigwaiters\<close> yields the first waiter that selects a signal of the mask.\<close>

fun find_waiter :: "nat \<Rightarrow> sigset \<Rightarrow> thr option \<Rightarrow> pt_state \<Rightarrow> thr option option" where
  "find_waiter n m None s = Some None"
| "find_waiter 0 m (Some w) s = None"
| "find_waiter (Suc n) m (Some w) s =
     (if w_signals (waiter_at (sigs s) w) AND m \<noteq> 0 then Some (Some w)
      else find_waiter n m (w_next (waiter_at (sigs s) w)) s)"

definition kill_waiter :: "thr \<Rightarrow> thr \<Rightarrow> int \<Rightarrow> rc option pt" where
  "kill_waiter self w signo =
     andthen (modify (del_process self signo)) (\<lambda>_.
     andthen (gets (\<lambda>s. w_ss (waiter_at (sigs s) w))) (\<lambda>t.
     andthen (pthread_mutex_lock (Ss_lock t) self) (\<lambda>_.
     andthen (modify (\<lambda>s. upd_waiter w (\<lambda>x. x\<lparr>w_info := zero_siginfo\<lparr>si_signo := signo\<rparr>\<rparr>)
                            (del_pending self t signo s))) (\<lambda>_.
     andthen (sigwaiter_unblock self w) (\<lambda>_. Return (Some OK))))))"

definition kill :: "nat \<Rightarrow> thr \<Rightarrow> int \<Rightarrow> int \<Rightarrow> rc option pt" where
  "kill n self pid signo =
     andthen (syscall (Extern ''getpid'' [])) (\<lambda>(_, me, _).
       if pid \<noteq> me then fail_with self EOPNOTSUPP
       else
         andthen (pthread_mutex_lock Sig_lock self) (\<lambda>_.
         andthen (gets (\<lambda>s. sigwaiters (sigs s))) (\<lambda>first.
           if first \<noteq> None \<and> \<not> shift_defined signo then Crash Undefined_shift
           else
             andthen (gets (find_waiter n (sigmask signo) first)) (\<lambda>r.
               case r of
                 None \<Rightarrow> stuck
               | Some (Some w) \<Rightarrow> kill_waiter self w signo
               | Some None \<Rightarrow>
                   andthen (pthread_mutex_unlock Sig_lock self) (\<lambda>_.
                   andthen (gets (\<lambda>s. p_thread (pthreads s self))) (\<lambda>tid.
                   andthen (generic_pthread_kill n self tid signo) (\<lambda>err. Return (Some err))))))))"

definition killpg :: "nat \<Rightarrow> thr \<Rightarrow> int \<Rightarrow> int \<Rightarrow> rc option pt" where
  "killpg n self pid sig = kill n self (- pid) sig"

end
