(* ===== verification/Signal_Props.thy ===== *)
theory Signal_Props
  imports Signal Thread_Props
begin

text \<open>
  What the signal implementation does: signal sets are sets; a signal for the process goes to the
  first waiter that selects it, and only there; waiters form a list; delivery ends with no
  deliverable signal left.  Also two ways in which the code departs from its comments.
\<close>

unbundle bit_operations_syntax

section \<open>Plain mutexes\<close>

text \<open>
  \<^verbatim>\<open>sig_lock\<close> and the locks of signal states have no attributes.  Such a mutex, when nobody holds or
  waits for it, differs in the one flag from the same mutex held.
\<close>

definition plain_idle :: "pt_state \<Rightarrow> maddr \<Rightarrow> bool" where
  "plain_idle s m \<longleftrightarrow>
     spin s (M_lock m) = 0 \<and> spin s (M_held m) = 0 \<and> m_attr (mutexes s m) = Attr_null \<and>
     cell s (Mutex_queue m) = None"

definition hold :: "maddr \<Rightarrow> pt_state \<Rightarrow> pt_state" where
  "hold m s = upd_spin (M_held m) 1 s"

interpretation plain_lock: bracket_lock "pthread_mutex_lock m t" "pthread_mutex_unlock m t"
  "\<lambda>s. plain_idle s m" "hold m" h for m t h
proof
  fix s assume i: "plain_idle s m"
  show "run (pthread_mutex_lock m t) h s = Done OK (hold m s)"
    using i by (auto simp: pthread_mutex_lock_def pthread_mutex_timedlock_internal_def run_simps
        plain_idle_def hold_def mutex_sections resolve_attr_def)
  show "run (pthread_mutex_unlock m t) h (hold m s) = Done OK s"
    using i by (auto simp: pthread_mutex_unlock_def run_simps plain_idle_def hold_def mutex_sections
        resolve_attr_def fun_eq_iff intro!: pt_state.equality)
  show "requests (pthread_mutex_lock m t) h s = []"
    using i by (auto simp: pthread_mutex_lock_def pthread_mutex_timedlock_internal_def requests_simps run_simps
        plain_idle_def mutex_sections resolve_attr_def)
  show "requests (pthread_mutex_unlock m t) h (hold m s) = []"
    using i by (auto simp: pthread_mutex_unlock_def requests_simps run_simps plain_idle_def hold_def mutex_sections
        resolve_attr_def)
qed

lemma hold_simps [simp]:
  "sigs (hold m s) = sigs s" "pthreads (hold m s) = pthreads s" "errno (hold m s) = errno s"
  "(hold m s)\<lparr>sigs := g\<rparr> = hold m (s\<lparr>sigs := g\<rparr>)"
  "(hold m s)\<lparr>errno := e\<rparr> = hold m (s\<lparr>errno := e\<rparr>)"
  "plain_idle (hold m s) k \<longleftrightarrow> plain_idle s k \<and> k \<noteq> m"
  by (auto simp: hold_def plain_idle_def)

lemma plain_idle_sigs [simp]:
  "plain_idle (s\<lparr>sigs := g\<rparr>) k = plain_idle s k" "plain_idle (s\<lparr>errno := e\<rparr>) k = plain_idle s k"
  by (simp_all add: plain_idle_def)

lemma hold_commute: "hold m (hold k s) = hold k (hold m s)"
  by (cases "m = k") (simp_all add: hold_def fun_upd_twist)

lemma run_lock_held:
  assumes "plain_idle s m"
  shows "run (lock_held m t) h (hold m s) = Done () (hold m s)"
  using assms by (auto simp: lock_held_def pthread_mutex_trylock_def run_simps plain_idle_def
      hold_def mutex_sections resolve_attr_def fun_eq_iff intro!: pt_state.equality)

lemmas plain_run = plain_lock.lock_free plain_lock.unlock_taken run_lock_held

lemma run_lock_held_under:
  assumes "plain_idle s m" and "k \<noteq> m"
  shows "run (lock_held m t) h (hold k (hold m s)) = Done () (hold k (hold m s))"
  using run_lock_held [of "hold k s" m] assms by (simp add: hold_commute)

section \<open>The list of waiters\<close>

fun wlist :: "(thr \<Rightarrow> sigwaiter) \<Rightarrow> thr option \<Rightarrow> thr option \<Rightarrow> thr list \<Rightarrow> bool" where
  "wlist f prev p [] \<longleftrightarrow> p = None"
| "wlist f prev p (x # xs) \<longleftrightarrow> p = Some x \<and> w_prev (f x) = prev \<and> wlist f (Some x) (w_next (f x)) xs"

definition waiters_inv :: "signals \<Rightarrow> thr list \<Rightarrow> bool" where
  "waiters_inv g xs \<longleftrightarrow>
     wlist (waiter_at g) None (sigwaiters g) xs \<and> distinct xs \<and>
     (\<forall>w\<in>set xs. w_ss (waiter_at g w) = w \<and> ss_sigwaiter (state_of g w) = Some w)"

lemma wlist_cong:
  "wlist f prev p xs \<Longrightarrow> (\<And>x. x \<in> set xs \<Longrightarrow> w_prev (f' x) = w_prev (f x) \<and> w_next (f' x) = w_next (f x)) \<Longrightarrow>
   wlist f' prev p xs"
  by (induction xs arbitrary: prev p) auto

lemma wlist_relink_head:
  assumes "wlist f q p xs" and "distinct xs"
    and "\<And>x. x \<in> set xs \<Longrightarrow> w_next (f' x) = w_next (f x)"
    and "\<And>x. x \<in> set xs \<Longrightarrow> w_prev (f' x) = (if p = Some x then r else w_prev (f x))"
  shows "wlist f' r p xs"
proof (cases xs)
  case (Cons z zs)
  with assms(1,2) have *: "wlist f (Some z) (w_next (f z)) zs" "p = Some z" "z \<notin> set zs" by auto
  have "wlist f' (Some z) (w_next (f z)) zs"
    by (rule wlist_cong [OF *(1)]) (use assms(3,4) Cons *(2,3) in auto)
  with Cons * assms(3,4) [of z] show ?thesis by simp
qed (use assms(1) in simp)

lemma wlist_suffix: "wlist f r p (ys @ w # zs) \<Longrightarrow> wlist f (Some w) (w_next (f w)) zs"
  by (induction ys arbitrary: r p) auto

lemma wlist_next: "wlist f r p (ys @ w # zs) \<Longrightarrow> w_next (f w) = (case zs of [] \<Rightarrow> None | z # _ \<Rightarrow> Some z)"
  by (drule wlist_suffix) (cases zs; simp)

lemma wlist_unlink:
  assumes "wlist f r p (ys @ y # w # zs)" and "distinct (ys @ y # w # zs)"
    and "\<And>x. x \<noteq> w \<Longrightarrow> w_next (f' x) = (if x = y then w_next (f w) else w_next (f x))"
    and "\<And>x. x \<noteq> w \<Longrightarrow> w_prev (f' x) = (if w_next (f w) = Some x then Some y else w_prev (f x))"
  shows "wlist f' r p (ys @ y # zs)"
  using assms(1,2)
proof (induction ys arbitrary: r p)
  case Nil
  then have w: "wlist f (Some w) (w_next (f w)) zs" "w_next (f w) \<noteq> Some y"
    using wlist_next [of f r p "[y]" w zs] by (auto split: list.splits)
  have n: "x \<noteq> w" "x \<noteq> y" if "x \<in> set zs" for x using Nil that by auto
  have "wlist f' (Some y) (w_next (f w)) zs"
    by (rule wlist_relink_head [OF w(1)]) (use Nil(2) in \<open>simp_all add: assms(3,4) n\<close>)
  with Nil w(2) assms(3,4) [of y] show ?case by auto
next
  case (Cons a ys)
  have "w_next (f w) \<noteq> Some a"
    using Cons.prems wlist_next [of f r p "a # ys @ [y]" w zs] by (auto split: list.splits)
  with Cons assms(3,4) [of a] show ?case by auto
qed

text \<open>The operations on the signals' data change nothing else, and commute with holding a mutex.\<close>

lemmas sig_updates = upd_ss_def upd_waiter_def del_process_def del_pending_def

lemma hold_updates [simp]:
  "upd_ss t f (hold m s) = hold m (upd_ss t f s)"
  "upd_waiter w k (hold m s) = hold m (upd_waiter w k s)"
  "del_process u signo (hold m s) = hold m (del_process u signo s)"
  "del_pending u t signo (hold m s) = hold m (del_pending u t signo s)"
  by (simp_all add: sig_updates split: prod.split)

lemma plain_idle_updates [simp]:
  "plain_idle (upd_ss t f s) m = plain_idle s m"
  "plain_idle (upd_waiter w k s) m = plain_idle s m"
  "plain_idle (del_process u signo s) m = plain_idle s m"
  "plain_idle (del_pending u t signo s) m = plain_idle s m"
  by (simp_all add: sig_updates split: prod.split)

lemma hold_sections [simp]:
  "waiter_unlink w (hold m s) = hold m (waiter_unlink w s)"
  "waiter_fill u x (hold m s) = hold m (waiter_fill u x s)"
  "fst (waiter_push u (hold m s)) = fst (waiter_push u s)"
  "snd (waiter_push u (hold m s)) = hold m (snd (waiter_push u s))"
  by (simp_all add: waiter_unlink_def waiter_fill_def waiter_push_def Let_def split: option.split)

lemma plain_idle_sections [simp]:
  "plain_idle (waiter_unlink w s) m = plain_idle s m"
  "plain_idle (waiter_fill u x s) m = plain_idle s m"
  "plain_idle (snd (waiter_push u s)) m = plain_idle s m"
  by (simp_all add: waiter_unlink_def waiter_fill_def waiter_push_def Let_def split: option.split)

lemma waiter_taken_hold [simp]:
  "waiter_taken u w (hold m s) = hold m (waiter_taken u w s)"
  "plain_idle (waiter_taken u w s) m = plain_idle s m"
  by (simp_all add: waiter_taken_def Let_def)

text \<open>Putting a waiter in front, and taking one out.\<close>

definition same_waiter :: "sigwaiter \<Rightarrow> sigwaiter \<Rightarrow> bool" where
  "same_waiter x y \<longleftrightarrow> w_ss x = w_ss y \<and> w_signals x = w_signals y \<and> w_info x = w_info y"

definition waiter_queued :: "thr \<Rightarrow> sigset \<Rightarrow> signals \<Rightarrow> signals \<Rightarrow> bool" where
  "waiter_queued t x g g' \<longleftrightarrow>
     process_pending g' = process_pending g \<and> process_pending_info g' = process_pending_info g \<and>
     state_of g' = (state_of g)(t := (state_of g t)\<lparr>ss_sigwaiter := Some t\<rparr>) \<and>
     w_signals (waiter_at g' t) = x \<and> si_signo (w_info (waiter_at g' t)) = 0 \<and>
     (\<forall>w. w \<noteq> t \<longrightarrow> same_waiter (waiter_at g' w) (waiter_at g w))"

lemma waiter_push_inv:
  fixes x :: sigset
  assumes "waiters_inv (sigs s) xs" and "t \<notin> set xs" and "ss_sigwaiter (ss_of s t) = None"
    and s1: "s1 = waiter_fill t x (snd (waiter_push t s))"
  shows "fst (waiter_push t s) = Inr ()" and "waiters_inv (sigs s1) (t # xs)"
    and "waiter_queued t x (sigs s) (sigs s1)"
proof -
  let ?f = "waiter_at (sigs s)"
  have l: "wlist ?f None (sigwaiters (sigs s)) xs" "distinct xs" using assms(1) by (auto simp: waiters_inv_def)
  have prev: "w_prev (?f y) = None" "y \<noteq> t" if "sigwaiters (sigs s) = Some y" for y
    using l(1) that assms(2) by (cases xs; simp)+
  note defs = waiter_push_def waiter_fill_def upd_ss_def upd_waiter_def Let_def
  show "fst (waiter_push t s) = Inr ()"
    using assms(3) prev by (auto simp: defs split: option.split)
  have wl: "wlist (waiter_at (sigs s1)) (Some t) (sigwaiters (sigs s)) xs"
    by (rule wlist_relink_head [OF l]) (use assms(2,3) prev in \<open>auto simp: s1 defs split: option.split\<close>)
  show q: "waiter_queued t x (sigs s) (sigs s1)"
    unfolding waiter_queued_def
    using assms(3) prev by (auto simp: s1 defs same_waiter_def split: option.split)
  have hd: "sigwaiters (sigs s1) = Some t" "w_prev (waiter_at (sigs s1) t) = None"
      "w_next (waiter_at (sigs s1) t) = sigwaiters (sigs s)" "w_ss (waiter_at (sigs s1) t) = t"
    using assms(3) prev by (auto simp: s1 defs split: option.split)
  show "waiters_inv (sigs s1) (t # xs)"
    using wl hd q assms(1,2) by (auto simp: waiters_inv_def waiter_queued_def same_waiter_def)
qed

definition waiter_gone :: "signals \<Rightarrow> signals \<Rightarrow> bool" where
  "waiter_gone g g' \<longleftrightarrow>
     process_pending g' = process_pending g \<and> process_pending_info g' = process_pending_info g \<and>
     state_of g' = state_of g \<and> (\<forall>w. same_waiter (waiter_at g' w) (waiter_at g w))"

lemma waiter_unlink_inv:
  assumes "waiters_inv (sigs s) xs" and "w \<in> set xs"
  shows "waiters_inv (sigs (waiter_unlink w s)) (removeAll w xs)"
    and "waiter_gone (sigs s) (sigs (waiter_unlink w s))"
proof -
  let ?f = "waiter_at (sigs s)" and ?g = "sigs (waiter_unlink w s)"
  note defs = waiter_unlink_def upd_waiter_def Let_def
  from assms obtain ys zs where xs: "xs = ys @ w # zs" by (auto dest: split_list)
  have l: "wlist ?f None (sigwaiters (sigs s)) (ys @ w # zs)" and d: "distinct (ys @ w # zs)"
    using assms(1) xs by (auto simp: waiters_inv_def)
  show gone: "waiter_gone (sigs s) ?g"
    by (auto simp: waiter_gone_def same_waiter_def defs split: option.split)
  have "wlist (waiter_at ?g) None (sigwaiters ?g) (ys @ zs)"
  proof (cases ys rule: rev_cases)
    case Nil
    with l have h: "sigwaiters (sigs s) = Some w" "w_prev (?f w) = None" "wlist ?f (Some w) (w_next (?f w)) zs"
      by auto
    have "wlist (waiter_at ?g) None (w_next (?f w)) zs"
      by (rule wlist_relink_head [OF h(3)]) (use d h(2) in \<open>auto simp: defs split: option.split\<close>)
    moreover have "sigwaiters ?g = w_next (?f w)" using h(2) by (simp add: defs split: option.split)
    ultimately show ?thesis using Nil by simp
  next
    case (snoc vs y)
    have p: "wlist ?f r p (vs @ y # w # zs) \<Longrightarrow> w_prev (?f w) = Some y" for r p
      by (induction vs arbitrary: r p) auto
    with l snoc have pw: "w_prev (?f w) = Some y" by simp
    have "w_next (?f w) \<noteq> Some y" using d snoc wlist_next [OF l] by (auto split: list.splits)
    with pw have links:
        "w_next (waiter_at ?g v) = (if v = y then w_next (?f w) else w_next (?f v))"
        "w_prev (waiter_at ?g v) = (if w_next (?f w) = Some v then Some y else w_prev (?f v))" for v
      by (auto simp: defs split: option.split)
    have "wlist (waiter_at ?g) None (sigwaiters (sigs s)) (vs @ y # zs)"
      by (rule wlist_unlink [of ?f None _ vs y w]) (use l d snoc links in simp_all)
    moreover have "sigwaiters ?g = sigwaiters (sigs s)" using pw by (simp add: defs split: option.split)
    ultimately show ?thesis using snoc by simp
  qed
  with gone d xs assms(1) show "waiters_inv ?g (removeAll w xs)"
    by (auto simp: waiters_inv_def waiter_gone_def same_waiter_def removeAll_distinct_split)
qed

section \<open>The port\<close>

text \<open>
  What is relied on of the port.  \<^verbatim>\<open>futex_wait\<close> puts the thread to sleep if the word has the expected value,
  and otherwise does nothing; a thread that sleeps goes on when \<^verbatim>\<open>futex_wake\<close> is called for its word, and not before,
  whatever the word contains; \<^verbatim>\<open>getpid\<close> returns; the functions on bits return the position of the lowest bit, 0 for
  no bit.
\<close>

definition set_asleep :: "thr \<Rightarrow> bool \<Rightarrow> pt_state \<Rightarrow> pt_state" where
  "set_asleep t b s = upd_sigs (\<lambda>g. g\<lparr>asleep := (asleep g)(t := b)\<rparr>) s"

definition futex_ok :: "pt_state env \<Rightarrow> bool" where
  "futex_ok h \<longleftrightarrow>
     (\<forall>s t. h (Extern ''futex_wait'' [int t, 0]) s =
        Some ((OK, 0, 0), if si_signo (w_info (waiter_at (sigs s) t)) = 0 then set_asleep t True s else s)) \<and>
     (\<forall>s t. h (Extern ''futex_sleep'' [int t]) s =
        (if asleep (sigs s) t then None else Some ((OK, 0, 0), s))) \<and>
     (\<forall>s t. h (Extern ''futex_wake'' [int t, 1]) s = Some ((OK, 0, 0), set_asleep t False s))"

lemma set_asleep_simps [simp]:
  "waiter_at (sigs (set_asleep t b s)) = waiter_at (sigs s)"
  "state_of (sigs (set_asleep t b s)) = state_of (sigs s)"
  "sigwaiters (sigs (set_asleep t b s)) = sigwaiters (sigs s)"
  "process_pending (sigs (set_asleep t b s)) = process_pending (sigs s)"
  "process_pending_info (sigs (set_asleep t b s)) = process_pending_info (sigs s)"
  "asleep (sigs (set_asleep t b s)) = (asleep (sigs s))(t := b)"
  "waiters_inv (sigs (set_asleep t b s)) xs = waiters_inv (sigs s) xs"
  "plain_idle (set_asleep t b s) m = plain_idle s m"
  "(set_asleep t b s)\<lparr>sigs := g\<rparr> = s\<lparr>sigs := g\<rparr>"
  by (simp_all add: set_asleep_def waiters_inv_def)

definition getpid_is :: "int \<Rightarrow> pt_state env \<Rightarrow> bool" where
  "getpid_is pid h \<longleftrightarrow> (\<forall>s. h (Extern ''getpid'' []) s = Some ((OK, pid, 0), s))"

definition lowest_bit :: "sigset \<Rightarrow> int" where
  "lowest_bit w = (case find (bit w) [0..<64] of None \<Rightarrow> 0 | Some n \<Rightarrow> int n + 1)"

definition lsb_ok :: "pt_state env \<Rightarrow> bool" where
  "lsb_ok h \<longleftrightarrow> (\<forall>s w. h (Extern ''l4_lsb64'' [uint (w :: sigset)]) s = Some ((OK, lowest_bit w, 0), s))"

section \<open>Signals for the process\<close>

abbreviation selects :: "signals \<Rightarrow> int \<Rightarrow> thr \<Rightarrow> bool" where
  "selects g signo w \<equiv> bit (w_signals (waiter_at g w)) (nat (signo - 1))"

lemma find_waiter_first:
  assumes "wlist (waiter_at (sigs s)) r p (ys @ w # zs)" and "\<forall>y\<in>set ys. \<not> selects (sigs s) signo y"
    and "selects (sigs s) signo w" and "length ys < n"
  shows "find_waiter n (sigmask signo) p s = Some (Some w)"
  using assms
proof (induction ys arbitrary: r p n)
  case Nil
  then show ?case by (cases n) (auto simp: and_sigmask)
next
  case (Cons a ys)
  then show ?case using and_sigmask by (cases n) auto
qed

lemma find_waiter_none:
  assumes "wlist (waiter_at (sigs s)) r p xs" and "\<forall>y\<in>set xs. \<not> selects (sigs s) signo y"
    and "length xs \<le> n"
  shows "find_waiter n (sigmask signo) p s = Some None"
  using assms
proof (induction xs arbitrary: r p n)
  case (Cons a xs)
  then show ?case using and_sigmask by (cases n) auto
qed simp

lemma find_waiter_hold [simp]: "find_waiter n m p (hold k s) = find_waiter n m p s"
  by (induction n m p s rule: find_waiter.induct) auto

lemma sigdelset_valid: "\<not> bad_signo n \<Longrightarrow> sigdelset w n = (OK, w AND NOT (sigmask n))"
  by (simp add: sigdelset_def)

text \<open>The data after a waiter has been given a signal: unlinked, and the signal pending nowhere.\<close>

definition accepted :: "thr \<Rightarrow> siginfo \<Rightarrow> signals \<Rightarrow> signals \<Rightarrow> bool" where
  "accepted w si g g' \<longleftrightarrow>
     w_info (waiter_at g' w) = si \<and>
     members (process_pending g') = members (process_pending g) - {si_signo si} \<and>
     state_of g' = (state_of g)(w := (state_of g w)\<lparr>ss_pending := snd (sigdelset (ss_pending (state_of g w)) (si_signo si))\<rparr>) \<and>
     (\<forall>v. v \<noteq> w \<longrightarrow> same_waiter (waiter_at g' v) (waiter_at g v)) \<and>
     w_signals (waiter_at g' w) = w_signals (waiter_at g w) \<and>
     process_pending_info g' = process_pending_info g"

lemma accepted_asleep [simp]: "accepted w si g (sigs (set_asleep t b s)) = accepted w si g (sigs s)"
  by (simp add: accepted_def)

lemma set_asleep_frame: "set_asleep t b s = s\<lparr>sigs := sigs (set_asleep t b s)\<rparr>"
  by (simp add: set_asleep_def)

lemma sigdelset_twice: "snd (sigdelset (snd (sigdelset x n)) n) = snd (sigdelset x n)"
  by (simp add: sigdelset_def)

lemma run_unblock:
  assumes "plain_idle s Sig_lock" and "plain_idle s (Ss_lock w)" and "w_ss (waiter_at (sigs s) w) = w"
    and "futex_ok h"
  shows "run (sigwaiter_unblock u w) h (hold (Ss_lock w) (hold Sig_lock s)) =
    Done () (set_asleep w False (waiter_taken u w s))"
  using assms
  by (simp add: sigwaiter_unblock_def run_simps run_lock_held_under run_lock_held
      plain_lock.unlock_taken futex_ok_def)

lemma wlist_info:
  "(\<And>x. w_next (f' x) = w_next (f x) \<and> w_prev (f' x) = w_prev (f x)) \<Longrightarrow> wlist f' r p xs = wlist f r p xs"
  by (induction xs arbitrary: r p) auto

lemma waiter_taken_accepts:
  assumes "waiters_inv (sigs s) xs" and "w \<in> set xs" and "\<not> bad_signo (si_signo si)"
    and "w_info (waiter_at (sigs s) w) = si"
  shows "waiters_inv (sigs (waiter_taken u w s)) (removeAll w xs)"
    and "accepted w si (sigs s) (sigs (waiter_taken u w s))"
    and "waiter_taken u w s = s\<lparr>sigs := sigs (waiter_taken u w s)\<rparr>"
proof -
  let ?k = "waiter_unlink w s"
  note inv = waiter_unlink_inv [OF assms(1,2)]
  have w: "w_info (waiter_at (sigs ?k) w) = si" "w_ss (waiter_at (sigs ?k) w) = w"
    using inv(2) assms(1,2,4) by (auto simp: waiter_gone_def same_waiter_def waiters_inv_def)
  have t: "waiter_taken u w s = upd_ss w (\<lambda>x. x\<lparr>ss_pending := snd (sigdelset (ss_pending x) (si_signo si))\<rparr>)
      (upd_sigs (\<lambda>g. g\<lparr>process_pending := snd (sigdelset (process_pending g) (si_signo si))\<rparr>) ?k)"
    using assms(3) w by (simp add: waiter_taken_def Let_def del_pending_def del_process_def upd_ss_def sigdelset_valid)
  show "waiters_inv (sigs (waiter_taken u w s)) (removeAll w xs)"
    using inv(1) by (simp add: t upd_ss_def waiters_inv_def)
  show "accepted w si (sigs s) (sigs (waiter_taken u w s))"
    using inv(2) w by (auto simp: t upd_ss_def accepted_def waiter_gone_def same_waiter_def members_sigdelset)
  show "waiter_taken u w s = s\<lparr>sigs := sigs (waiter_taken u w s)\<rparr>"
    by (simp add: t upd_ss_def waiter_unlink_def upd_waiter_def Let_def split: option.split)
qed

text \<open>Storing the information of a signal in a waiter, with the signal cleared, keeps the list.\<close>

definition given :: "thr \<Rightarrow> thr \<Rightarrow> int \<Rightarrow> pt_state \<Rightarrow> pt_state" where
  "given u w signo s = upd_waiter w (\<lambda>x. x\<lparr>w_info := zero_siginfo\<lparr>si_signo := signo\<rparr>\<rparr>)
     (del_pending u w signo (del_process u signo s))"

lemma given_facts:
  assumes "\<not> bad_signo signo"
  shows "waiters_inv (sigs (given u w signo s)) xs = waiters_inv (sigs s) xs"
    and "w_info (waiter_at (sigs (given u w signo s)) w) = zero_siginfo\<lparr>si_signo := signo\<rparr>"
    and "w_ss (waiter_at (sigs (given u w signo s)) w) = w_ss (waiter_at (sigs s) w)"
    and "(given u w signo s)\<lparr>sigs := g\<rparr> = s\<lparr>sigs := g\<rparr>"
    and "accepted w si (sigs (given u w signo s)) g \<Longrightarrow> si_signo si = signo \<Longrightarrow> accepted w si (sigs s) g"
proof -
  let ?s = "given u w signo s"
  have s: "?s = s\<lparr>sigs := sigs ?s\<rparr>"
    using assms by (simp add: given_def sig_updates sigdelset_valid)
  have "wlist (waiter_at (sigs ?s)) r p xs = wlist (waiter_at (sigs s)) r p xs" for r p
    by (rule wlist_info) (use assms in \<open>simp add: given_def sig_updates sigdelset_valid\<close>)
  then show "waiters_inv (sigs ?s) xs = waiters_inv (sigs s) xs"
    using assms by (auto simp: waiters_inv_def given_def sig_updates sigdelset_valid)
  show "w_info (waiter_at (sigs ?s) w) = zero_siginfo\<lparr>si_signo := signo\<rparr>"
    "w_ss (waiter_at (sigs ?s) w) = w_ss (waiter_at (sigs s) w)" "?s\<lparr>sigs := g\<rparr> = s\<lparr>sigs := g\<rparr>"
    using assms by (simp_all add: given_def sig_updates sigdelset_valid)
  have "process_pending (sigs ?s) = snd (sigdelset (process_pending (sigs s)) signo)"
    "state_of (sigs ?s) = (state_of (sigs s))(w := (ss_of s w)\<lparr>ss_pending := snd (sigdelset (ss_pending (ss_of s w)) signo)\<rparr>)"
    "\<forall>v. v \<noteq> w \<longrightarrow> same_waiter (waiter_at (sigs ?s) v) (waiter_at (sigs s) v)"
    "w_signals (waiter_at (sigs ?s) w) = w_signals (waiter_at (sigs s) w)"
    "process_pending_info (sigs ?s) = process_pending_info (sigs s)"
    using assms by (auto simp: given_def sig_updates sigdelset_valid same_waiter_def)
  then show "accepted w si (sigs s) g" if "accepted w si (sigs ?s) g" "si_signo si = signo"
    using that by (auto simp: accepted_def same_waiter_def members_sigdelset sigdelset_twice)
qed

lemma run_kill_waiter:
  assumes "plain_idle s Sig_lock" and "plain_idle s (Ss_lock w)" and "waiters_inv (sigs s) xs"
    and "w \<in> set xs" and "futex_ok h" and "\<not> bad_signo signo"
  shows "run (kill_waiter u w signo) h (hold Sig_lock s) =
    Done (Some OK) (set_asleep w False (waiter_taken u w (given u w signo s)))"
proof -
  let ?g = "given u w signo s"
  have ss: "w_ss (waiter_at (sigs s) w) = w" "w_ss (waiter_at (sigs ?g) w) = w"
      "w_ss (waiter_at (sigs (del_process u signo s)) w) = w"
    using assms(3,4) given_facts(3) [OF assms(6)] assms(6)
    by (auto simp: waiters_inv_def del_process_def sigdelset_valid)
  have i: "plain_idle ?g Sig_lock" "plain_idle ?g (Ss_lock w)" using assms(1,2) by (simp_all add: given_def)
  show ?thesis
    using run_unblock [OF i ss(2) assms(5), of u] assms(1,2)
    by (simp add: kill_waiter_def run_simps ss plain_lock.lock_free given_def [symmetric])
qed

lemma kill_end:
  assumes "plain_idle s Sig_lock" and "plain_idle s (Ss_lock w)"
    and "waiters_inv (sigs s) (ys @ w # zs)" and "\<forall>y\<in>set ys. \<not> selects (sigs s) signo y"
    and "selects (sigs s) signo w" and "\<not> bad_signo signo" and "length ys < n"
    and "futex_ok h" and "getpid_is pid h"
  shows "\<exists>g. run (kill n u pid signo) h s = Done (Some OK) (s\<lparr>sigs := g\<rparr>) \<and> \<not> asleep g w \<and>
    waiters_inv g (ys @ zs) \<and> accepted w (zero_siginfo\<lparr>si_signo := signo\<rparr>) (sigs s) g"
proof -
  let ?xs = "ys @ w # zs" and ?si = "zero_siginfo\<lparr>si_signo := signo\<rparr>" and ?k = "given u w signo s"
  have l: "wlist (waiter_at (sigs s)) None (sigwaiters (sigs s)) ?xs" "distinct ?xs"
    using assms(3) by (simp_all add: waiters_inv_def)
  have "shift_defined signo" using assms(6) by (auto simp: bad_signo_iff shift_defined_def)
  then have run: "run (kill n u pid signo) h s = Done (Some OK) (set_asleep w False (waiter_taken u w ?k))"
    using assms(9) run_kill_waiter [OF assms(1,2,3) _ assms(8,6), of u]
      find_waiter_first [OF l(1) assms(4,5,7)]
    by (simp add: kill_def run_simps getpid_is_def plain_lock.lock_free assms(1))
  have inv: "waiters_inv (sigs ?k) ?xs" "w \<in> set ?xs" "\<not> bad_signo (si_signo ?si)"
      "w_info (waiter_at (sigs ?k) w) = ?si"
    using assms(3,6) given_facts [OF assms(6)] by auto
  note taken = waiter_taken_accepts [OF inv, of u]
  let ?s = "set_asleep w False (waiter_taken u w ?k)"
  have "(waiter_taken u w ?k)\<lparr>sigs := g\<rparr> = s\<lparr>sigs := g\<rparr>" for g
    by (subst taken(3)) (simp add: given_facts(4) [OF assms(6)])
  then have "?s = s\<lparr>sigs := sigs ?s\<rparr>" by (subst set_asleep_frame)
  moreover have "accepted w ?si (sigs s) (sigs ?s)"
    using taken(2) given_facts(5) [OF assms(6)] by simp
  ultimately show ?thesis
    using run taken(1) removeAll_distinct_split [OF l(2)] by (intro exI [of _ "sigs ?s"]) simp
qed

text \<open>
  C24: \<^verbatim>\<open>kill\<close> for the own process hands a valid signal to the first thread in the list of waiters that
  selects it, and to no other: that thread's waiter holds the signal's information and is out of the
  list, the other waiters stay in it in their order, and the signal is pending neither on the process
  nor on that thread.  Nothing but the signals' data has changed when \<^verbatim>\<open>kill\<close> returns 0, so both locks
  are free.
\<close>

theorem kill_wakes_first_waiter:
  assumes "plain_idle s Sig_lock" and "plain_idle s (Ss_lock w)"
    and "waiters_inv (sigs s) (ys @ w # zs)" and "\<forall>y\<in>set ys. \<not> selects (sigs s) signo y"
    and "selects (sigs s) signo w" and "\<not> bad_signo signo" and "length ys < n"
    and "futex_ok h" and "getpid_is pid h"
  shows "\<exists>g. run (kill n u pid signo) h s = Done (Some OK) (s\<lparr>sigs := g\<rparr>) \<and>
    waiters_inv g (ys @ zs) \<and> accepted w (zero_siginfo\<lparr>si_signo := signo\<rparr>) (sigs s) g"
  using kill_end [OF assms] by blast

definition waiter_rec :: "thr option \<Rightarrow> thr option \<Rightarrow> thr \<Rightarrow> sigset \<Rightarrow> sigwaiter" where
  "waiter_rec next prev t x = \<lparr>w_next = next, w_prev = prev, w_ss = t, w_signals = x, w_info = zero_siginfo\<rparr>"

definition two_waiters :: pt_state where
  "two_waiters = zero_state\<lparr>sigs := zero_signals\<lparr>sigwaiters := Some 1,
     waiter_at := (waiter_at zero_signals)(1 := waiter_rec (Some 2) None 1 1, 2 := waiter_rec None (Some 1) 2 3),
     state_of := (state_of zero_signals)(1 := (state_of zero_signals 1)\<lparr>ss_sigwaiter := Some 1\<rparr>,
                                          2 := (state_of zero_signals 2)\<lparr>ss_sigwaiter := Some 2\<rparr>)\<rparr>\<rparr>"

definition sig_port :: "pt_state env" where
  "sig_port c s =
     (case c of
        Extern f args \<Rightarrow>
          if f = ''futex_wait'' then
            Some ((OK, 0, 0),
              if si_signo (w_info (waiter_at (sigs s) (nat (hd args)))) = 0 then set_asleep (nat (hd args)) True s else s)
          else if f = ''futex_sleep'' then
            (if asleep (sigs s) (nat (hd args)) then None else Some ((OK, 0, 0), s))
          else if f = ''futex_wake'' then Some ((OK, 0, 0), set_asleep (nat (hd args)) False s)
          else if f = ''getpid'' then Some ((OK, 7, 0), s)
          else if f = ''l4_lsb64'' then Some ((OK, lowest_bit (word_of_int (hd args)), 0), s)
          else Some ((OK, 0, 0), s)
      | _ \<Rightarrow> Some ((OK, 0, 0), s))"

lemma sig_port_ok: "futex_ok sig_port" "getpid_is 7 sig_port" "lsb_ok sig_port"
  by (simp_all add: futex_ok_def getpid_is_def lsb_ok_def sig_port_def)

lemma plain_idle_zero: "plain_idle zero_state m"
  by (simp add: plain_idle_def)

lemma two_waiters_inv: "waiters_inv (sigs two_waiters) ([1] @ 2 # [])"
  by (simp add: waiters_inv_def two_waiters_def waiter_rec_def)

theorem kill_wakes_first_waiter_witness:
  "\<exists>g. run (kill 2 3 7 SIGINT) sig_port two_waiters = Done (Some OK) (two_waiters\<lparr>sigs := g\<rparr>) \<and>
    waiters_inv g ([1] @ []) \<and> accepted 2 (zero_siginfo\<lparr>si_signo := SIGINT\<rparr>) (sigs two_waiters) g"
  by (rule kill_wakes_first_waiter [OF _ _ two_waiters_inv _ _ _ _ sig_port_ok(1,2)])
    (simp_all add: two_waiters_def plain_idle_zero bad_signo_iff SIGINT_def waiter_rec_def bit_simps)

section \<open>Waiting and killing together\<close>

lemma run_sigwaiter_block:
  assumes "plain_idle s Sig_lock" and "plain_idle s (Ss_lock t)" and "waiters_inv (sigs s) xs"
    and "t \<notin> set xs" and "ss_sigwaiter (ss_of s t) = None" and "futex_ok h"
  shows "run (sigwaiter_block t x) h (hold (Ss_lock t) (hold Sig_lock s)) =
    Waiting (andthen (syscall (Extern ''futex_sleep'' [int t])) (\<lambda>_. waiter_awake t))
      (set_asleep t True (waiter_fill t x (snd (waiter_push t s))))"
proof -
  note p1 = waiter_push_inv(1) [OF assms(3-5) HOL.refl]
    and p = waiter_push_inv(3) [OF assms(3-5) HOL.refl, of x]
  have "si_signo (w_info (waiter_at (sigs (waiter_fill t x (snd (waiter_push t s)))) t)) = 0"
    using p by (simp add: waiter_queued_def)
  with assms(1,2,6) p1 show ?thesis
    by (simp add: sigwaiter_block_def futex_wait_def run_simps run_lock_held_under run_lock_held
        plain_lock.unlock_taken futex_ok_def syscall_def)
qed

lemma run_waiter_awake:
  assumes "plain_idle s (Ss_lock t)" and "w_info (waiter_at (sigs s) t) = i" and "si_signo i \<noteq> 0"
  shows "run (waiter_awake t) h s = Done i (upd_ss t (\<lambda>x. x\<lparr>ss_sigwaiter := None\<rparr>) s)"
proof -
  have "waiter_at (sigs (upd_ss t (\<lambda>x. x\<lparr>ss_sigwaiter := None\<rparr>) s)) = waiter_at (sigs s)"
    by (simp add: upd_ss_def)
  with assms show ?thesis
    by (simp add: waiter_awake_def run_simps plain_lock.lock_free plain_lock.unlock_taken)
qed

definition nothing_pending :: "thr \<Rightarrow> sigset \<Rightarrow> pt_state \<Rightarrow> bool" where
  "nothing_pending t x s \<longleftrightarrow> process_pending (sigs s) AND x = 0 \<and> ss_pending (ss_of s t) AND x = 0"

lemma run_sigwaitinfo_blocks:
  assumes "plain_idle s Sig_lock" and "plain_idle s (Ss_lock t)" and "waiters_inv (sigs s) xs"
    and "t \<notin> set xs" and "ss_sigwaiter (ss_of s t) = None" and "futex_ok h" and "nothing_pending t x s"
  shows "\<exists>p s1. run (sigwaitinfo t x True) h s = Waiting p s1 \<and>
    s1 = set_asleep t True (waiter_fill t x (snd (waiter_push t s))) \<and>
    (\<forall>s2 i. \<not> asleep (sigs s2) t \<and> plain_idle s2 (Ss_lock t) \<and> w_info (waiter_at (sigs s2) t) = i \<and> si_signo i \<noteq> 0 \<and>
       shift_defined (si_signo i) \<and> bit x (nat (si_signo i - 1)) \<longrightarrow>
       run p h s2 = Done (Some OK, Some i) (upd_ss t (\<lambda>x. x\<lparr>ss_sigwaiter := None\<rparr>) s2))"
proof -
  let ?fin = "\<lambda>i. andthen (assert_p (si_signo i \<noteq> 0)) (\<lambda>_.
       if \<not> shift_defined (si_signo i) then Crash Undefined_shift
       else andthen (assert_p (sigmask (si_signo i) AND x \<noteq> 0)) (\<lambda>_. Return (Some OK, if True then Some i else None)))"
  let ?p = "andthen (andthen (syscall (Extern ''futex_sleep'' [int t])) (\<lambda>_. waiter_awake t)) ?fin"
  let ?s1 = "set_asleep t True (waiter_fill t x (snd (waiter_push t s)))"
  have "run (sigwaitinfo t x True) h s = Waiting ?p ?s1"
    using assms(1,2,7) run_sigwaiter_block [OF assms(1-6), of x]
    by (simp add: sigwaitinfo_def run_simps plain_lock.lock_free nothing_pending_def)
  moreover have "run ?p h s2 = Done (Some OK, Some i) (upd_ss t (\<lambda>x. x\<lparr>ss_sigwaiter := None\<rparr>) s2)"
    if "\<not> asleep (sigs s2) t" "plain_idle s2 (Ss_lock t)" "w_info (waiter_at (sigs s2) t) = i" "si_signo i \<noteq> 0"
       "shift_defined (si_signo i)" "bit x (nat (si_signo i - 1))" for s2 i
    using run_waiter_awake [OF that(2-4)] that assms(6) and_sigmask [of x "si_signo i"]
    by (simp add: run_simps futex_ok_def and.commute)
  ultimately show ?thesis by (intro exI [of _ ?p] exI [of _ ?s1]) blast
qed

text \<open>
  C35: A thread that calls \<^verbatim>\<open>sigwaitinfo\<close> with none of the selected signals pending blocks and is put in
  front of the list of waiters.  If another thread then sends the process any selected signal with
  \<^verbatim>\<open>kill\<close>, the waiting thread, which sleeps until its futex is woken, wakes up and its call returns 0 with exactly that signal's information;
  the list of waiters is as before, and the thread no longer counts as waiting.
\<close>

theorem sigwaitinfo_receives_kill:
  assumes "plain_idle s Sig_lock" and "plain_idle s (Ss_lock t)" and "waiters_inv (sigs s) xs"
    and "t \<notin> set xs" and "ss_sigwaiter (ss_of s t) = None" and "nothing_pending t x s"
    and "\<not> bad_signo signo" and "signo \<in> members x" and "0 < n"
    and "futex_ok h" and "getpid_is pid h"
  shows "\<exists>p s1 s2 s3. run (sigwaitinfo t x True) h s = Waiting p s1 \<and> waiters_inv (sigs s1) (t # xs) \<and>
    run (kill n u pid signo) h s1 = Done (Some OK) s2 \<and> waiters_inv (sigs s2) xs \<and>
    run p h s2 = Done (Some OK, Some (zero_siginfo\<lparr>si_signo := signo\<rparr>)) s3 \<and>
    waiters_inv (sigs s3) xs \<and> ss_sigwaiter (ss_of s3 t) = None"
proof -
  let ?i = "zero_siginfo\<lparr>si_signo := signo\<rparr>"
  from run_sigwaitinfo_blocks [OF assms(1-5,10,6)] obtain p s1 where
    w: "run (sigwaitinfo t x True) h s = Waiting p s1"
      "s1 = set_asleep t True (waiter_fill t x (snd (waiter_push t s)))"
    and resume: "\<And>s2 i. \<not> asleep (sigs s2) t \<Longrightarrow> plain_idle s2 (Ss_lock t) \<Longrightarrow> w_info (waiter_at (sigs s2) t) = i \<Longrightarrow>
       si_signo i \<noteq> 0 \<Longrightarrow> shift_defined (si_signo i) \<Longrightarrow> bit x (nat (si_signo i - 1)) \<Longrightarrow>
       run p h s2 = Done (Some OK, Some i) (upd_ss t (\<lambda>x. x\<lparr>ss_sigwaiter := None\<rparr>) s2)" by blast
  note push = waiter_push_inv(2,3) [OF assms(3-5) HOL.refl, of x]
  have pushed: "waiters_inv (sigs s1) (t # xs)" "waiter_queued t x (sigs s) (sigs s1)"
    using push w(2) by (simp_all add: waiter_queued_def)
  have i: "plain_idle s1 Sig_lock" "plain_idle s1 (Ss_lock t)" using assms(1,2) w(2) by simp_all
  have "selects (sigs s1) signo t" using pushed(2) assms(8) by (simp add: waiter_queued_def members_def)
  with kill_end [of s1 t "[]" xs signo n h pid u] i pushed(1) assms(7,9,10,11) obtain g where
    k: "run (kill n u pid signo) h s1 = Done (Some OK) (s1\<lparr>sigs := g\<rparr>)" "waiters_inv g xs"
      "accepted t ?i (sigs s1) g" "\<not> asleep g t" by auto
  let ?s2 = "s1\<lparr>sigs := g\<rparr>"
  let ?s3 = "upd_ss t (\<lambda>x. x\<lparr>ss_sigwaiter := None\<rparr>) ?s2"
  have "run p h ?s2 = Done (Some OK, Some ?i) ?s3"
    using resume [of ?s2 ?i] i k(3,4) assms(7,8)
    by (simp add: accepted_def bad_signo_iff shift_defined_def members_def)
  moreover have "waiters_inv (sigs ?s3) xs" "ss_sigwaiter (ss_of ?s3 t) = None"
    using k(2) assms(4) by (auto simp: waiters_inv_def upd_ss_def)
  ultimately show ?thesis
    using w(1) pushed(1) k(1,2) by (intro exI [of _ p] exI [of _ s1] exI [of _ ?s2] exI [of _ ?s3]) simp
qed

theorem sigwaitinfo_receives_kill_witness:
  "\<exists>p s1 s2 s3. run (sigwaitinfo 3 (sigmask SIGUSR1) True) sig_port two_waiters = Waiting p s1 \<and>
    waiters_inv (sigs s1) (3 # [1, 2]) \<and>
    run (kill 4 5 7 SIGUSR1) sig_port s1 = Done (Some OK) s2 \<and> waiters_inv (sigs s2) [1, 2] \<and>
    run p sig_port s2 = Done (Some OK, Some (zero_siginfo\<lparr>si_signo := SIGUSR1\<rparr>)) s3 \<and>
    waiters_inv (sigs s3) [1, 2] \<and> ss_sigwaiter (ss_of s3 3) = None"
proof -
  have "waiters_inv (sigs two_waiters) [1, 2]" using two_waiters_inv by simp
  then show ?thesis
    by (rule sigwaitinfo_receives_kill [OF _ _ _ _ _ _ _ _ _ sig_port_ok(1,2), rotated 2])
      (simp_all add: two_waiters_def plain_idle_zero bad_signo_iff SIGUSR1_def zero_signals_def
        nothing_pending_def members_def bit_sigmask)
qed

section \<open>A waiter that is unblocked twice\<close>

text \<open>A signal for a thread that waits for it.\<close>

lemma idle_rwlock_sigs [simp]: "idle_rwlock (s\<lparr>sigs := g\<rparr>) r = idle_rwlock s r"
  by (simp add: idle_rwlock_def)

lemma waits_for_hold [simp]: "waits_for (hold m s) t sig = waits_for s t sig"
  by (simp add: waits_for_def split: option.split)

definition names_thread :: "pt_state \<Rightarrow> int \<Rightarrow> thr \<Rightarrow> bool" where
  "names_thread s tid t \<longleftrightarrow>
     idle_rwlock s Threads_lock \<and> 1 \<le> tid \<and> tid \<le> num_threads s \<and> threads_tab s ! nat (tid - 1) = Some t"

lemma run_getid_names: "names_thread s tid t \<Longrightarrow> run (pthread_getid n u tid) h s = Done (Some t) s"
  by (simp add: names_thread_def run_getid)

lemma run_kill_siginfo_waits:
  assumes "names_thread s tid t" and "plain_idle s Sig_lock" and "plain_idle s (Ss_lock t)"
    and "waits_for s t (si_signo si) = Some t" and "w_ss (waiter_at (sigs s) t) = t"
    and "\<not> bad_signo (si_signo si)" and "futex_ok h"
  shows "run (pthread_kill_siginfo_np n u tid si) h s =
    Done OK (set_asleep t False (waiter_taken u t (upd_waiter t (\<lambda>x. x\<lparr>w_info := si\<rparr>) s)))"
proof -
  let ?s = "upd_waiter t (\<lambda>x. x\<lparr>w_info := si\<rparr>) s"
  have "w_ss (waiter_at (sigs ?s) t) = t" using assms(5) by (simp add: upd_waiter_def)
  with run_unblock [of ?s t h u] assms show ?thesis
    by (simp add: pthread_kill_siginfo_np_def bad_signo_def run_simps run_getid_names plain_lock.lock_free)
qed

definition three_threads :: pt_state where
  "three_threads = zero_state\<lparr>threads_tab := [Some 1, Some 2, Some 3], num_threads := 3, max_threads := 3\<rparr>"

text \<open>
  C36: The window between the wakeup of a waiter and the moment it runs again: its thread is still
  marked as waiting, with a waiter that is no longer in the list.  If a second signal is sent to that
  thread and meanwhile another thread has begun to wait, the second \<^verbatim>\<open>sigwaiter_unblock\<close> empties the
  list: the other thread still waits but \<^verbatim>\<open>kill\<close> does not find it any more.  The first signal is
  overwritten by the second.
\<close>

theorem second_unblock_loses_waiter:
  "\<exists>p1 s1 s2 p3 s3 s4.
    run (sigwaitinfo 1 (sigmask SIGUSR1 OR sigmask SIGUSR2) True) sig_port three_threads = Waiting p1 s1 \<and>
    run (generic_pthread_kill 4 2 1 SIGUSR1) sig_port s1 = Done OK s2 \<and>
    run (sigwaitinfo 3 (sigmask SIGINT) True) sig_port s2 = Waiting p3 s3 \<and>
    sigwaiters (sigs s3) = Some 3 \<and>
    run (generic_pthread_kill 4 2 1 SIGUSR2) sig_port s3 = Done OK s4 \<and>
    sigwaiters (sigs s4) = None \<and> ss_sigwaiter (ss_of s4 3) = Some 3 \<and>
    si_signo (w_info (waiter_at (sigs s4) 3)) = 0 \<and>
    si_signo (w_info (waiter_at (sigs s4) 1)) = SIGUSR2"
proof -
  let ?x = "sigmask SIGUSR1 OR sigmask SIGUSR2" and ?si = "\<lambda>n. zero_siginfo\<lparr>si_signo := n\<rparr>"
  let ?s1 = "set_asleep 1 True (waiter_fill 1 ?x (snd (waiter_push 1 three_threads)))"
  let ?s2 = "set_asleep 1 False (waiter_taken 2 1 (upd_waiter 1 (\<lambda>x. x\<lparr>w_info := ?si SIGUSR1\<rparr>) ?s1))"
  let ?s3 = "set_asleep 3 True (waiter_fill 3 (sigmask SIGINT) (snd (waiter_push 3 ?s2)))"
  let ?s4 = "set_asleep 1 False (waiter_taken 2 1 (upd_waiter 1 (\<lambda>x. x\<lparr>w_info := ?si SIGUSR2\<rparr>) ?s3))"
  note defs = set_asleep_def three_threads_def waiter_push_def waiter_fill_def waiter_taken_def waiter_unlink_def
    sig_updates sigdelset_def bad_signo_iff zero_signals_def Let_def signal_numbers zero_siginfo_def
  have names: "names_thread ?s1 1 1" "names_thread ?s3 1 1"
    by (simp_all add: names_thread_def defs idle_rwlock_def)
  have z: "plain_idle three_threads m" "waiters_inv (sigs three_threads) []" "waiters_inv (sigs ?s2) []" for m
    by (simp_all add: defs plain_idle_def waiters_inv_def)
  have w: "waits_for ?s1 1 SIGUSR1 = Some 1" "waits_for ?s3 1 SIGUSR2 = Some 1"
    by (simp_all add: waits_for_def defs sigmask_def)
  have facts: "ss_sigwaiter (ss_of three_threads 1) = None" "nothing_pending 1 ?x three_threads"
      "ss_sigwaiter (ss_of ?s2 3) = None" "nothing_pending 3 (sigmask SIGINT) ?s2"
      "w_ss (waiter_at (sigs ?s1) 1) = 1" "w_ss (waiter_at (sigs ?s3) 1) = 1"
      "sigwaiters (sigs ?s3) = Some 3" "sigwaiters (sigs ?s4) = None" "ss_sigwaiter (ss_of ?s4 3) = Some 3"
      "si_signo (w_info (waiter_at (sigs ?s4) 3)) = 0" "si_signo (w_info (waiter_at (sigs ?s4) 1)) = SIGUSR2"
    by (simp_all add: defs nothing_pending_def)
  have "\<exists>p. run (sigwaitinfo 1 ?x True) sig_port three_threads = Waiting p ?s1"
    using run_sigwaitinfo_blocks [OF z(1) z(1) z(2) _ facts(1) sig_port_ok(1) facts(2)] by auto
  moreover have "\<exists>p. run (sigwaitinfo 3 (sigmask SIGINT) True) sig_port ?s2 = Waiting p ?s3"
    using run_sigwaitinfo_blocks [OF _ _ z(3) _ facts(3) sig_port_ok(1) facts(4)] z(1) by auto
  moreover have "run (generic_pthread_kill 4 2 1 SIGUSR1) sig_port ?s1 = Done OK ?s2"
    "run (generic_pthread_kill 4 2 1 SIGUSR2) sig_port ?s3 = Done OK ?s4"
    unfolding generic_pthread_kill_def
    using run_kill_siginfo_waits [OF names(1), of "?si SIGUSR1" sig_port]
      run_kill_siginfo_waits [OF names(2), of "?si SIGUSR2" sig_port] z(1) w facts(5,6) sig_port_ok(1)
    by (simp_all add: bad_signo_iff SIGUSR1_def SIGUSR2_def)
  ultimately show ?thesis using facts(7-11) by metis
qed

end
