(* ===== verification/Dispatch.thy ===== *)
theory Dispatch
  imports Signal_Props
begin

text \<open>
  The loop of \<^verbatim>\<open>signal_dispatch\<close> ends, with no deliverable signal left and the mask restored.
\<close>

unbundle bit_operations_syntax

section \<open>What is still to be delivered\<close>

definition deliverable :: "thr \<Rightarrow> signals \<Rightarrow> int set" where
  "deliverable t g =
     members ((ss_pending (state_of g t) OR process_pending g) AND NOT (ss_blocked (state_of g t)))"

text \<open>Sets that the functions on signal sets build have no bit beyond the last signal.\<close>

definition only_signals :: "sigset \<Rightarrow> bool" where
  "only_signals w \<longleftrightarrow> (\<forall>n. bit w n \<longrightarrow> n < 31)"

definition sets_ok :: "thr \<Rightarrow> signals \<Rightarrow> bool" where
  "sets_ok t g \<longleftrightarrow> only_signals (ss_pending (state_of g t)) \<and> only_signals (process_pending g)"

definition caught :: "thr \<Rightarrow> signals \<Rightarrow> int \<Rightarrow> bool" where
  "caught t g n \<longleftrightarrow> sa_handler (ss_actions (state_of g t) (n - 1)) \<noteq> SIG_DFL"

text \<open>Handlers that return, and touch neither the signals' data nor the free locks.\<close>

definition quiet_handlers :: "pt_state env \<Rightarrow> bool" where
  "quiet_handlers h \<longleftrightarrow>
     (\<forall>a n si s. \<exists>r s1. h (Sig_handler a n si) s = Some (r, s1) \<and> sigs s1 = sigs s \<and>
        (\<forall>m. plain_idle s m \<longrightarrow> plain_idle s1 m))"

lemma lowest_bit_cases:
  "lowest_bit w = 0 \<and> w = 0 \<or> 1 \<le> lowest_bit w \<and> bit w (nat (lowest_bit w - 1))"
proof (cases "find (bit w) [0..<64]")
  case None
  then have "\<not> bit w n" if "n < 64" for n using that by (auto simp: find_None_iff)
  then have "w = 0" by (intro bit_word_eqI) simp
  with None show ?thesis by (simp add: lowest_bit_def)
next
  case (Some n)
  then have "bit w n" by (auto simp: find_Some_iff)
  with Some show ?thesis by (simp add: lowest_bit_def)
qed

lemma finite_deliverable [simp]: "finite (deliverable t g)"
  by (rule finite_subset [of _ "{1..<32}"]) (auto simp: deliverable_def members_def bad_signo_iff)

section \<open>One delivery\<close>

text \<open>The data after the delivery of a signal, the mask being restored.\<close>

definition delivered :: "thr \<Rightarrow> int \<Rightarrow> signals \<Rightarrow> signals \<Rightarrow> bool" where
  "delivered t signo g g' \<longleftrightarrow>
     deliverable t g' \<subseteq> deliverable t g - {signo} \<and> sets_ok t g' \<and>
     ss_blocked (state_of g' t) = ss_blocked (state_of g t) \<and>
     (\<forall>n. n \<noteq> signo \<longrightarrow> caught t g' n = caught t g n)"

lemma prepare_bits:
  assumes "\<not> bad_signo signo" and "prepare_delivery u t signo s = (Inr (a, b), s1)"
  shows "bit (ss_pending (ss_of s1 t)) k \<Longrightarrow> bit (ss_pending (ss_of s t)) k \<and> k \<noteq> nat (signo - 1)"
    and "bit (process_pending (sigs s1)) k \<Longrightarrow> bit (process_pending (sigs s)) k"
    and "b = ss_blocked (ss_of s t)" and "a = sa_handler (ss_actions (ss_of s t) (signo - 1))"
    and "n \<noteq> signo \<Longrightarrow> caught t (sigs s1) n = caught t (sigs s) n"
  using assms
  by (auto simp: prepare_delivery_def clear_opposites_def Let_def sig_updates sigdelset_def
      mask_for_handler_def bit_simps bit_sigmask caught_def bad_signo_iff split: if_splits)

lemma prepare_hold [simp]:
  "fst (prepare_delivery u t signo (hold m s)) = fst (prepare_delivery u t signo s)"
  "snd (prepare_delivery u t signo (hold m s)) = hold m (snd (prepare_delivery u t signo s))"
  "plain_idle (snd (prepare_delivery u t signo s)) k = plain_idle s k"
  by (simp_all add: prepare_delivery_def clear_opposites_def Let_def)

lemma deliver_one_step:
  assumes "plain_idle s Sig_lock" and "plain_idle s (Ss_lock t)" and "\<not> bad_signo signo"
    and "sets_ok t (sigs s)" and "caught t (sigs s) signo" and "quiet_handlers h" and "lsb_ok h"
  shows "\<exists>s1. run (deliver_one u t signo si) h (hold (Ss_lock t) s) =
      Done (lowest_bit (next_pending t s1)) (hold (Ss_lock t) s1) \<and>
    plain_idle s1 Sig_lock \<and> plain_idle s1 (Ss_lock t) \<and> delivered t signo (sigs s) (sigs s1)"
proof -
  obtain a b sa where prep: "prepare_delivery u t signo s = (Inr (a, b), sa)"
    using assms(3) by (auto simp: prepare_delivery_def Let_def bad_signo_iff NSIG_def)
  note bits = prepare_bits [OF assms(3) prep]
  let ?sb = "del_process u signo sa"
  have i: "plain_idle ?sb Sig_lock" "plain_idle ?sb (Ss_lock t)" "plain_idle sa (Ss_lock t)" "plain_idle sa Sig_lock"
    using assms(1,2) prepare_hold(3) [of u t signo s] prep by simp_all
  have "a \<noteq> SIG_DFL" using bits(4) assms(5) by (simp add: caught_def)
  have act: "\<exists>sc. run (take_action a signo si) h ?sb = Done () sc \<and> sigs sc = sigs ?sb \<and>
      plain_idle sc Sig_lock \<and> plain_idle sc (Ss_lock t)"
  proof (cases "a = SIG_IGN")
    case True
    with \<open>a \<noteq> SIG_DFL\<close> i show ?thesis by (simp add: take_action_def)
  next
    case False
    moreover obtain r sc where "h (Sig_handler a signo si) ?sb = Some (r, sc)" "sigs sc = sigs ?sb"
        "\<forall>m. plain_idle ?sb m \<longrightarrow> plain_idle sc m"
      using assms(6) unfolding quiet_handlers_def by blast
    ultimately show ?thesis using \<open>a \<noteq> SIG_DFL\<close> i by (auto simp: take_action_def run_simps)
  qed
  then obtain sc where sc: "run (take_action a signo si) h ?sb = Done () sc" "sigs sc = sigs ?sb"
      "plain_idle sc Sig_lock" "plain_idle sc (Ss_lock t)" by blast
  let ?s1 = "upd_ss t (\<lambda>x. x\<lparr>ss_blocked := b\<rparr>) sc"
  have np: "next_pending t (hold m s') = next_pending t s'" for m s' by (simp add: next_pending_def Let_def)
  have run: "run (deliver_one u t signo si) h (hold (Ss_lock t) s) =
      Done (lowest_bit (next_pending t ?s1)) (hold (Ss_lock t) ?s1)"
    using assms(7) i sc prep by (simp add: deliver_one_def run_simps plain_lock.lock_free plain_lock.unlock_taken
        np lsb_ok_def)
  have pend: "bit (ss_pending (ss_of ?s1 t)) k \<Longrightarrow> bit (ss_pending (ss_of s t)) k \<and> k \<noteq> nat (signo - 1)"
    "bit (process_pending (sigs ?s1)) k \<Longrightarrow> bit (process_pending (sigs s)) k \<and> k \<noteq> nat (signo - 1)" for k
    using bits(1,2) assms(3) sc(2)
    by (auto simp: upd_ss_def del_process_def sigdelset_valid bit_simps bit_sigmask dest: bit_imp_le_length)
  have ss: "ss_blocked (ss_of ?s1 t) = ss_blocked (ss_of s t)"
    "ss_actions (ss_of ?s1 t) = ss_actions (ss_of sa t)"
    using bits(3) sc(2) assms(3) by (simp_all add: upd_ss_def del_process_def sigdelset_valid)
  have "delivered t signo (sigs s) (sigs ?s1)"
    using pend ss assms(4) bits(5)
    by (auto simp: delivered_def deliverable_def members_def bit_simps sets_ok_def only_signals_def caught_def)
  with run sc(3,4) show ?thesis by (intro exI [of _ ?s1]) simp
qed

section \<open>The loop\<close>

lemma next_pending_deliverable:
  assumes "sets_ok t (sigs s)" and "lowest_bit (next_pending t s) \<noteq> 0"
  shows "lowest_bit (next_pending t s) \<in> deliverable t (sigs s)"
proof -
  let ?r = "lowest_bit (next_pending t s)"
  have r: "1 \<le> ?r" "bit (next_pending t s) (nat (?r - 1))" using lowest_bit_cases [of "next_pending t s"] assms(2) by auto
  then have "nat (?r - 1) < 31"
    using assms(1) by (auto simp: next_pending_def Let_def bit_simps sets_ok_def only_signals_def split: if_splits)
  with r show ?thesis
    by (auto simp: deliverable_def members_def next_pending_def Let_def bit_simps bad_signo_iff split: if_splits)
qed

lemma no_next_pending:
  assumes "lowest_bit (next_pending t s) = 0"
  shows "deliverable t (sigs s) = {}"
proof -
  have "next_pending t s = 0" using lowest_bit_cases [of "next_pending t s"] assms by auto
  then have "NOT (ss_blocked (ss_of s t)) AND ss_pending (ss_of s t) = 0"
      "NOT (ss_blocked (ss_of s t)) AND process_pending (sigs s) = 0"
    by (simp_all add: next_pending_def Let_def split: if_splits)
  then have "\<not> bit (NOT (ss_blocked (ss_of s t)) AND ss_pending (ss_of s t)) k"
      "\<not> bit (NOT (ss_blocked (ss_of s t)) AND process_pending (sigs s)) k" for k
    by (simp_all only: bit_0_eq bot_apply) simp_all
  then show ?thesis
    by (auto simp: deliverable_def members_def bit_simps dest: bit_imp_le_length)
qed

lemma deliver_loop_ends:
  assumes "plain_idle s Sig_lock" and "plain_idle s (Ss_lock t)" and "\<not> bad_signo signo"
    and "sets_ok t (sigs s)" and "\<forall>n \<in> insert signo (deliverable t (sigs s)). caught t (sigs s) n"
    and "quiet_handlers h" and "lsb_ok h" and "card (deliverable t (sigs s) - {signo}) < n"
  shows "\<exists>s1. run (deliver_loop n u t signo si) h (hold (Ss_lock t) s) = Done () (hold (Ss_lock t) s1) \<and>
    plain_idle s1 Sig_lock \<and> plain_idle s1 (Ss_lock t) \<and> deliverable t (sigs s1) = {} \<and>
    ss_blocked (ss_of s1 t) = ss_blocked (ss_of s t)"
  using assms(1-5,8)
proof (induction n arbitrary: s signo)
  case (Suc n)
  from deliver_one_step [OF Suc.prems(1-4) _ assms(6,7)] Suc.prems(5) obtain s1 where
    one: "run (deliver_one u t signo si) h (hold (Ss_lock t) s) =
        Done (lowest_bit (next_pending t s1)) (hold (Ss_lock t) s1)"
      "plain_idle s1 Sig_lock" "plain_idle s1 (Ss_lock t)" and d: "delivered t signo (sigs s) (sigs s1)" by blast
  let ?r = "lowest_bit (next_pending t s1)"
  show ?case
  proof (cases "?r = 0")
    case True
    with one d no_next_pending [OF True] show ?thesis
      by (intro exI [of _ s1]) (simp add: run_simps delivered_def)
  next
    case False
    have ok: "sets_ok t (sigs s1)" and sub: "deliverable t (sigs s1) \<subseteq> deliverable t (sigs s) - {signo}"
      using d by (simp_all add: delivered_def)
    have r: "?r \<in> deliverable t (sigs s1)" using next_pending_deliverable [OF ok False] .
    have "card (deliverable t (sigs s1) - {?r}) < card (deliverable t (sigs s1))"
      using r by (rule card_Diff1_less [OF finite_deliverable])
    also have "\<dots> \<le> card (deliverable t (sigs s) - {signo})" using sub by (simp add: card_mono)
    finally have "card (deliverable t (sigs s1) - {?r}) < n" using Suc.prems(6) by simp
    moreover have "\<not> bad_signo ?r" using r by (auto simp: deliverable_def members_def)
    moreover have "\<forall>n \<in> insert ?r (deliverable t (sigs s1)). caught t (sigs s1) n"
      using r sub d Suc.prems(5) by (auto simp: delivered_def)
    ultimately obtain s2 where "run (deliver_loop n u t ?r si) h (hold (Ss_lock t) s1) = Done () (hold (Ss_lock t) s2)"
        "plain_idle s2 Sig_lock \<and> plain_idle s2 (Ss_lock t) \<and> deliverable t (sigs s2) = {}"
        "ss_blocked (ss_of s2 t) = ss_blocked (ss_of s1 t)"
      using Suc.IH [OF one(2,3) _ ok] by blast
    with one(1) False d show ?thesis by (intro exI [of _ s2]) (simp add: run_simps delivered_def)
  qed
qed simp

lemma card_deliverable: "card (deliverable t g - {signo}) < 32"
proof -
  have "card (deliverable t g - {signo}) \<le> card {1..<32::int}"
    by (rule card_mono) (auto simp: deliverable_def members_def bad_signo_iff)
  then show ?thesis by simp
qed

text \<open>
  C25: \<^verbatim>\<open>signal_dispatch\<close> returns, after at most 32 iterations, whatever signals are pending on the thread
  and on the process, if none of those it has to deliver has the default action and handlers generate
  no signals.  Then nothing that the thread does not block is pending any more, the thread's
  mask is the one from before, and both locks are free.
\<close>

theorem dispatch_terminates:
  assumes "plain_idle s Sig_lock" and "plain_idle s (Ss_lock t)" and "\<not> bad_signo (si_signo si)"
    and "sets_ok t (sigs s)" and "\<forall>n \<in> insert (si_signo si) (deliverable t (sigs s)). caught t (sigs s) n"
    and "quiet_handlers h" and "lsb_ok h" and "32 \<le> n"
  shows "\<exists>s1. run (signal_dispatch n u t si) h (hold (Ss_lock t) s) = Done () s1 \<and>
    plain_idle s1 Sig_lock \<and> plain_idle s1 (Ss_lock t) \<and> deliverable t (sigs s1) = {} \<and>
    ss_blocked (ss_of s1 t) = ss_blocked (ss_of s t)"
proof -
  have "card (deliverable t (sigs s) - {si_signo si}) < n" using card_deliverable assms(8) by (rule less_le_trans)
  from deliver_loop_ends [OF assms(1-7) this] obtain s1 where
    "run (deliver_loop n u t (si_signo si) si) h (hold (Ss_lock t) s) = Done () (hold (Ss_lock t) s1)"
    "plain_idle s1 Sig_lock" "plain_idle s1 (Ss_lock t)" "deliverable t (sigs s1) = {}"
    "ss_blocked (ss_of s1 t) = ss_blocked (ss_of s t)" by blast
  with assms(2,3) show ?thesis
    by (intro exI [of _ s1])
      (simp add: signal_dispatch_def run_simps run_lock_held plain_lock.unlock_taken bad_signo_def)
qed

text \<open>\<^verbatim>\<open>SIGINT\<close> and \<^verbatim>\<open>SIGUSR1\<close> pending on thread 1 and \<^verbatim>\<open>SIGTERM\<close> on the process, all with handlers.\<close>

definition pending_three :: pt_state where
  "pending_three = zero_state\<lparr>sigs := zero_signals\<lparr>process_pending := sigmask SIGTERM,
     state_of := (state_of zero_signals)(1 := (state_of zero_signals 1)\<lparr>
       ss_pending := sigmask SIGINT OR sigmask SIGUSR1,
       ss_actions := (\<lambda>_. \<lparr>sa_handler = 4096, sa_mask = 0, sa_flags = 0\<rparr>)\<rparr>)\<rparr>\<rparr>"

lemma quiet_sig_port: "quiet_handlers sig_port"
  by (auto simp: quiet_handlers_def sig_port_def)

theorem dispatch_terminates_witness:
  "\<exists>s1. run (signal_dispatch 32 1 1 (zero_siginfo\<lparr>si_signo := SIGHUP\<rparr>)) sig_port
      (hold (Ss_lock 1) pending_three) = Done () s1 \<and>
    plain_idle s1 Sig_lock \<and> plain_idle s1 (Ss_lock 1) \<and> deliverable 1 (sigs s1) = {} \<and>
    ss_blocked (ss_of s1 1) = ss_blocked (ss_of pending_three 1)"
  by (rule dispatch_terminates [OF _ _ _ _ _ quiet_sig_port sig_port_ok(3)])
    (simp_all add: pending_three_def plain_idle_zero bad_signo_iff sets_ok_def only_signals_def
      caught_def signal_numbers signal_flags bit_simps bit_sigmask)

section \<open>Generation\<close>

text \<open>The action of a signal, and what generating it for a thread does.\<close>

definition discards :: "signal_state \<Rightarrow> int \<Rightarrow> bool" where
  "discards x sig \<longleftrightarrow> ignores (sa_handler (ss_actions x (sig - 1))) sig"

lemma run_pthread_kill:
  assumes "names_thread s tid t" and "plain_idle s Sig_lock" and "plain_idle s (Ss_lock t)"
    and "waits_for s t signo = None"
  shows "run (generic_pthread_kill n u tid signo) h s =
    (if signo < 0 \<or> signo \<ge> NSIG then Done EINVAL s
     else if signo = 0 \<or> discards (ss_of s t) signo then Done OK s
     else if signo \<in> members (ss_blocked (ss_of s t))
     then Done OK (upd_ss t (\<lambda>x. x\<lparr>ss_pending := snd (sigaddset (ss_pending x) signo)\<rparr>) s)
     else if p_thread (pthreads s u) = tid \<and> on_own_stack (ss_of s t) signo
     then run (andthen (signal_dispatch n u t (zero_siginfo\<lparr>si_signo := signo\<rparr>)) (\<lambda>_. Return OK)) h (hold (Ss_lock t) s)
     else run (andthen (syscall (Dispatch_lowlevel t tid (zero_siginfo\<lparr>si_signo := signo\<rparr>))) (\<lambda>_. Return OK)) h
            (hold (Ss_lock t) s))"
proof (cases "bad_signo signo")
  case True
  then show ?thesis
    by (auto simp: generic_pthread_kill_def pthread_kill_siginfo_np_def bad_signo_def)
next
  case False
  let ?si = "zero_siginfo\<lparr>si_signo := signo\<rparr>"
  have "run (generic_pthread_kill n u tid signo) h s = run (generate n u tid t ?si) h (hold (Ss_lock t) s)"
    using False assms plain_lock.unlock_taken [of "hold (Ss_lock t) s" Sig_lock]
    by (simp add: generic_pthread_kill_def pthread_kill_siginfo_np_def bad_signo_def run_simps
        run_getid_names plain_lock.lock_free hold_commute [of "Ss_lock t"])
  moreover obtain a where "default_action signo = Some a" using default_action_total [OF False] by blast
  moreover have "sigmask signo AND ss_blocked (ss_of s t) \<noteq> 0 \<longleftrightarrow> signo \<in> members (ss_blocked (ss_of s t))"
    using False and_sigmask [of "ss_blocked (ss_of s t)" signo] by (simp add: members_def and.commute)
  ultimately show ?thesis
    using False assms(3) by (simp add: generate_def Let_def run_simps discards_def sigaddset_def
        plain_lock.unlock_taken bad_signo_def)
qed

text \<open>
  What \<^verbatim>\<open>pthread_kill\<close> does for a thread that does not wait for the signal.  A number that is no
  signal is refused with \<^verbatim>\<open>EINVAL\<close> and 0 has no effect; a signal whose action is to be ignored is
  discarded without a trace; a blocked one becomes pending on that thread and nowhere else; any other
  signal for the own thread on its own stack is dispatched at once, with the thread's lock held.
\<close>

theorem pthread_kill_generates:
  assumes "names_thread s tid t" and "plain_idle s Sig_lock" and "plain_idle s (Ss_lock t)"
    and "waits_for s t signo = None"
  shows "run (generic_pthread_kill n u tid signo) h s =
    (if signo < 0 \<or> signo \<ge> NSIG then Done EINVAL s
     else if signo = 0 \<or> discards (ss_of s t) signo then Done OK s
     else if signo \<in> members (ss_blocked (ss_of s t))
     then Done OK (upd_ss t (\<lambda>x. x\<lparr>ss_pending := snd (sigaddset (ss_pending x) signo)\<rparr>) s)
     else if p_thread (pthreads s u) = tid \<and> on_own_stack (ss_of s t) signo
     then run (andthen (signal_dispatch n u t (zero_siginfo\<lparr>si_signo := signo\<rparr>)) (\<lambda>_. Return OK)) h (hold (Ss_lock t) s)
     else run (andthen (syscall (Dispatch_lowlevel t tid (zero_siginfo\<lparr>si_signo := signo\<rparr>))) (\<lambda>_. Return OK)) h
            (hold (Ss_lock t) s))"
  using assms by (rule run_pthread_kill)

text \<open>Thread 1 has the identifier 1, handles \<^verbatim>\<open>SIGUSR1\<close> and blocks \<^verbatim>\<open>SIGINT\<close>.\<close>

definition handling :: "sigset \<Rightarrow> pt_state" where
  "handling mask0 = upd_ss 1 (\<lambda>x. x\<lparr>ss_blocked := mask0,
       ss_actions := (\<lambda>_. \<lparr>sa_handler = 4096, sa_mask = 0, sa_flags = 0\<rparr>)\<rparr>)
     (upd_pthread 1 (\<lambda>p. p\<lparr>p_thread := 1\<rparr>) three_threads)"

lemma handling_simps:
  "names_thread (handling b) 1 1" "plain_idle (handling b) m" "waits_for (handling b) 1 signo = None"
  "waiter_at (sigs (handling b)) = waiter_at zero_signals"
  "ss_of (handling b) 1 = (state_of zero_signals 1)\<lparr>ss_blocked := b,
      ss_actions := (\<lambda>_. \<lparr>sa_handler = 4096, sa_mask = 0, sa_flags = 0\<rparr>)\<rparr>"
  "p_thread (pthreads (handling b) 1) = 1"
  by (simp_all add: handling_def three_threads_def names_thread_def idle_rwlock_def plain_idle_def
      upd_ss_def waits_for_def zero_signals_def)

theorem pthread_kill_generates_witness:
  "run (generic_pthread_kill 32 2 1 SIGINT) sig_port (handling (sigmask SIGINT)) =
     Done OK (upd_ss 1 (\<lambda>x. x\<lparr>ss_pending := snd (sigaddset (ss_pending x) SIGINT)\<rparr>) (handling (sigmask SIGINT)))"
  using pthread_kill_generates [OF handling_simps(1) handling_simps(2) handling_simps(2) handling_simps(3),
      of 32 2 SIGINT sig_port "sigmask SIGINT"]
  by (simp add: handling_simps discards_def ignores_def signal_numbers signal_flags members_def
      bad_signo_iff bit_sigmask del: One_nat_def)

section \<open>Masks of handlers\<close>

text \<open>A port in which the handlers never return: the state while a handler runs can be seen.\<close>

definition stop_env :: "pt_state env" where
  "stop_env c s = (case c of Sig_handler _ _ _ \<Rightarrow> None | _ \<Rightarrow> sig_port c s)"

definition kill_mask :: sigaction_t where
  "kill_mask = \<lparr>sa_handler = 4096, sa_mask = sigmask SIGKILL, sa_flags = 0\<rparr>"

definition masked :: pt_state where
  "masked = snd (sigaction_section 1 SIGUSR1 kill_mask (handling 0))"

lemma run_sigaction:
  assumes "plain_idle s (Ss_lock t)" and "\<not> bad_signo sig" and "sa_handler a \<notin> {SIG_DFL, SIG_IGN}"
  shows "run (sigaction t sig (Some a)) h s =
    Done (Some OK, Some (ss_actions (ss_of s t) (sig - 1))) (snd (sigaction_section t sig a s))"
proof -
  have "sigaction_section t sig a (hold m s) = (Inr (), hold m (snd (sigaction_section t sig a s)))"
      "plain_idle (snd (sigaction_section t sig a s)) m = plain_idle s m" for m
    using assms(3) by (simp_all add: sigaction_section_def Let_def ignores_def)
  with assms(1,2) show ?thesis
    by (simp add: sigaction_def run_simps plain_lock.lock_free plain_lock.unlock_taken bad_signo_def)
qed

lemma run_dispatch_stops:
  assumes "plain_idle s Sig_lock" and "plain_idle s (Ss_lock t)" and "\<not> bad_signo (si_signo si)"
    and "sa_handler (ss_actions (ss_of s t) (si_signo si - 1)) \<notin> {SIG_DFL, SIG_IGN}"
    and "\<And>a n x s. h (Sig_handler a n x) s = None" and "0 < n"
  shows "\<exists>p. run (signal_dispatch n u t si) h (hold (Ss_lock t) s) =
    Waiting p (del_process u (si_signo si) (snd (prepare_delivery u t (si_signo si) s)))"
proof -
  obtain a b sa where prep: "prepare_delivery u t (si_signo si) s = (Inr (a, b), sa)"
    using assms(3) by (auto simp: prepare_delivery_def Let_def bad_signo_iff NSIG_def)
  obtain k where n: "n = Suc k" using assms(6) by (cases n) auto
  have i: "plain_idle sa (Ss_lock t)" "plain_idle sa Sig_lock"
    using assms(1,2) prepare_hold(3) [of u t "si_signo si" s] prep by simp_all
  show ?thesis
    using assms(2-5) i prep prepare_bits(4) [OF assms(3) prep]
    by (simp add: signal_dispatch_def deliver_one_def run_simps run_lock_held plain_lock.lock_free
        plain_lock.unlock_taken bad_signo_def n take_action_def)
qed

text \<open>
  A thread installs, for \<^verbatim>\<open>SIGUSR1\<close>, a handler with \<^verbatim>\<open>SIGKILL\<close> in its mask, and sends itself
  \<^verbatim>\<open>SIGUSR1\<close>.  While the handler runs, \<^verbatim>\<open>SIGKILL\<close> is blocked: \<^verbatim>\<open>sigaction\<close> removes \<^verbatim>\<open>SIGKILL\<close> from the
  thread's current mask, not from the mask of the action it stores.
\<close>

theorem handler_mask_blocks_sigkill:
  "\<exists>osa s1 p s2. run (sigaction 1 SIGUSR1 (Some kill_mask)) stop_env (handling 0) = Done (Some OK, osa) s1 \<and>
    run (generic_pthread_kill 32 1 1 SIGUSR1) stop_env s1 = Waiting p s2 \<and>
    SIGKILL \<in> members (ss_blocked (ss_of s2 1))"
proof -
  have act: "run (sigaction 1 SIGUSR1 (Some kill_mask)) stop_env (handling 0) =
      Done (Some OK, Some (ss_actions (ss_of (handling 0) 1) (SIGUSR1 - 1))) masked"
    unfolding masked_def
    by (rule run_sigaction) (simp_all add: handling_simps bad_signo_iff SIGUSR1_def kill_mask_def signal_flags)
  let ?s2 = "del_process 1 SIGUSR1 (snd (prepare_delivery 1 1 SIGUSR1 masked))"
  note defs = masked_def sigaction_section_def Let_def kill_mask_def upd_ss_def ignores_def signal_flags
  have m: "names_thread masked 1 1" "plain_idle masked k" "waits_for masked 1 SIGUSR1 = None"
      "ss_blocked (ss_of masked 1) = 0" "p_thread (pthreads masked 1) = 1"
      "ss_actions (ss_of masked 1) (SIGUSR1 - 1) = kill_mask" for k
    using handling_simps(1-3) [of 0] handling_simps(4-6)
    by (simp_all add: defs names_thread_def plain_idle_def waits_for_def zero_signals_def sigdelset_def)
  from run_dispatch_stops [of masked 1 "zero_siginfo\<lparr>si_signo := SIGUSR1\<rparr>" stop_env 32 1] obtain p where
    "run (signal_dispatch 32 1 1 (zero_siginfo\<lparr>si_signo := SIGUSR1\<rparr>)) stop_env (hold (Ss_lock 1) masked) = Waiting p ?s2"
    using m by (auto simp: bad_signo_iff SIGUSR1_def kill_mask_def stop_env_def signal_flags simp del: One_nat_def)
  then have "\<exists>p. run (generic_pthread_kill 32 1 1 SIGUSR1) stop_env masked = Waiting p ?s2"
    using run_pthread_kill [OF m(1) m(2) m(2) m(3), of 32 1 stop_env] m
    by (simp add: run_simps discards_def ignores_def on_own_stack_def kill_mask_def signal_flags signal_numbers
        del: One_nat_def)
  moreover have "SIGKILL \<in> members (ss_blocked (ss_of ?s2 1))"
    using m(4,6) by (simp add: prepare_delivery_def clear_opposites_def Let_def sig_updates sigdelset_def
        mask_for_handler_def members_def bad_signo_iff signal_numbers kill_mask_def bit_simps bit_sigmask
        sigaddset_def del: One_nat_def)
  ultimately show ?thesis using act by metis
qed

end
