(* ===== verification/Atfork.thy ===== *)
theory Atfork
  imports Prog
begin

text \<open>
  The handlers around \<^verbatim>\<open>fork\<close>, of the part of the library that is linked into the C library
  (\<^verbatim>\<open>forward.c\<close>) and \<^verbatim>\<open>sysdeps/generic/pt-atfork.c\<close>.  The C library has its own variables and its own
  kind of mutex, so this component has its own state; the calls of \<^verbatim>\<open>__mutex_lock\<close>, of \<^verbatim>\<open>malloc\<close> and of
  the handlers are calls to code outside.  The state is an extensible record, so that outside code can
  have a state of its own.  Null pointers are 0.  The argument \<open>n\<close> bounds the walks along the list.
\<close>

section \<open>The code\<close>

record atfork =
  af_prepare :: ptr
  af_parent :: ptr
  af_child :: ptr
  af_prev :: ptr
  af_next :: ptr

record fork_state =
  fork_handlers :: ptr
  fork_last_handler :: ptr
  atfork_at :: "ptr \<Rightarrow> atfork"

type_synonym ('z, 'a) fork_prog = "('z fork_state_scheme, 'a) prog"

definition atfork_locked :: "('z fork_state_scheme \<Rightarrow> 'a) \<Rightarrow> ('z, 'a) fork_prog" where
  "atfork_locked f =
     andthen (syscall (Extern ''__mutex_lock'' [])) (\<lambda>_.
     andthen (gets f) (\<lambda>r.
     andthen (syscall (Extern ''__mutex_unlock'' [])) (\<lambda>_. Return r)))"

definition call_if :: "ptr \<Rightarrow> ('z, unit) fork_prog" where
  "call_if f = (if f \<noteq> 0 then andthen (syscall (Callback f 0)) (\<lambda>_. Return ()) else Return ())"

text \<open>Reading a member of the handler at an address; a null pointer faults.\<close>

definition at_handler :: "ptr \<Rightarrow> (atfork \<Rightarrow> 'a) \<Rightarrow> ('z, 'a) fork_prog" where
  "at_handler p f = (if p = 0 then Crash Wild_access else gets (\<lambda>s. f (atfork_at s p)))"

fun prepare_loop :: "nat \<Rightarrow> ptr \<Rightarrow> ptr \<Rightarrow> ('z, unit) fork_prog" where
  "prepare_loop 0 handlers last_handler = stuck"
| "prepare_loop (Suc n) handlers last_handler =
     andthen (at_handler last_handler af_prepare) (\<lambda>f.
     andthen (call_if f) (\<lambda>_.
       if last_handler = handlers then Return ()
       else andthen (at_handler last_handler af_prev) (\<lambda>prev. prepare_loop n handlers prev)))"

definition atfork_pthread_prepare :: "nat \<Rightarrow> ('z, unit) fork_prog" where
  "atfork_pthread_prepare n =
     andthen (atfork_locked (\<lambda>s. (fork_handlers s, fork_last_handler s))) (\<lambda>(handlers, last_handler).
       if last_handler = 0 then Return () else prepare_loop n handlers last_handler)"

fun after_loop :: "nat \<Rightarrow> (atfork \<Rightarrow> ptr) \<Rightarrow> ptr \<Rightarrow> ('z, unit) fork_prog" where
  "after_loop n m 0 = Return ()"
| "after_loop 0 m (Suc p) = stuck"
| "after_loop (Suc n) m (Suc p) =
     andthen (at_handler (Suc p) m) (\<lambda>f.
     andthen (call_if f) (\<lambda>_.
     andthen (at_handler (Suc p) af_next) (\<lambda>next. after_loop n m next)))"

definition atfork_pthread_parent :: "nat \<Rightarrow> ('z, unit) fork_prog" where
  "atfork_pthread_parent n =
     andthen (atfork_locked fork_handlers) (\<lambda>handlers. after_loop n af_parent handlers)"

definition atfork_pthread_child :: "nat \<Rightarrow> ('z, unit) fork_prog" where
  "atfork_pthread_child n =
     andthen (atfork_locked fork_handlers) (\<lambda>handlers. after_loop n af_child handlers)"

definition register_section :: "ptr \<Rightarrow> 'z fork_state_scheme \<Rightarrow> 'z fork_state_scheme" where
  "register_section new s =
     (let s1 = s\<lparr>atfork_at := (atfork_at s)(new := (atfork_at s new)\<lparr>af_next := fork_handlers s\<rparr>)\<rparr>;
          first = fork_handlers s1;
          s2 = (if first \<noteq> 0
                then s1\<lparr>atfork_at := (atfork_at s1)(first := (atfork_at s1 first)\<lparr>af_prev := new\<rparr>)\<rparr>
                else s1);
          s3 = s2\<lparr>fork_handlers := new\<rparr>
      in if fork_last_handler s3 = 0 then s3\<lparr>fork_last_handler := new\<rparr> else s3)"

definition register_atfork :: "ptr \<Rightarrow> ptr \<Rightarrow> ptr \<Rightarrow> ('z, rc) fork_prog" where
  "register_atfork prepare parent child =
     andthen (syscall Malloc) (\<lambda>(e, p, _).
       if p = 0 then Return e
       else
         andthen (modify (\<lambda>s. s\<lparr>atfork_at := (atfork_at s)(nat p := (atfork_at s (nat p))\<lparr>
             af_prepare := prepare, af_parent := parent, af_child := child, af_prev := 0\<rparr>)\<rparr>)) (\<lambda>_.
         andthen (syscall (Extern ''__mutex_lock'' [])) (\<lambda>_.
         andthen (modify (register_section (nat p))) (\<lambda>_.
         andthen (syscall (Extern ''__mutex_unlock'' [])) (\<lambda>_. Return OK)))))"

definition pthread_atfork :: "ptr \<Rightarrow> ptr \<Rightarrow> ptr \<Rightarrow> ('z, rc) fork_prog" where
  "pthread_atfork prepare parent child = register_atfork prepare parent child"

section \<open>The list of handlers\<close>

text \<open>
  The handlers from the last registered to the first, at the addresses \<open>ps\<close>: a list linked by
  \<^verbatim>\<open>next\<close> from \<^verbatim>\<open>fork_handlers\<close> and by \<^verbatim>\<open>prev\<close> from \<^verbatim>\<open>fork_last_handler\<close>.
\<close>

fun hlist :: "(ptr \<Rightarrow> atfork) \<Rightarrow> ptr \<Rightarrow> ptr \<Rightarrow> ptr list \<Rightarrow> bool" where
  "hlist f prev p [] \<longleftrightarrow> p = 0"
| "hlist f prev p (x # xs) \<longleftrightarrow> p = x \<and> x \<noteq> 0 \<and> af_prev (f x) = prev \<and> hlist f x (af_next (f x)) xs"

definition handlers_inv :: "'z fork_state_scheme \<Rightarrow> ptr list \<Rightarrow> bool" where
  "handlers_inv s ps \<longleftrightarrow>
     hlist (atfork_at s) 0 (fork_handlers s) ps \<and> distinct ps \<and>
     fork_last_handler s = (if ps = [] then 0 else last ps)"

text \<open>The functions registered with a handler.\<close>

definition functions_at :: "'z fork_state_scheme \<Rightarrow> ptr \<Rightarrow> ptr \<times> ptr \<times> ptr" where
  "functions_at s p = (af_prepare (atfork_at s p), af_parent (atfork_at s p), af_child (atfork_at s p))"

text \<open>
  The outside code: locking returns, \<^verbatim>\<open>malloc\<close> returns the address \<open>a\<close>, and a call of a handler is recorded
  in the log that is the rest of the state.
\<close>

type_synonym logged = "ptr list fork_state_scheme"

definition log_calls :: "ptr list \<Rightarrow> logged \<Rightarrow> logged" where
  "log_calls fs s = fork_state.more_update (\<lambda>l. l @ fs) s"

definition logging :: "ptr \<Rightarrow> logged env \<Rightarrow> bool" where
  "logging a h \<longleftrightarrow>
     (\<forall>s. \<exists>e x. h Malloc s = Some ((e, int a, x), s)) \<and> (\<forall>f s. \<exists>r. h (Extern f []) s = Some (r, s)) \<and>
     (\<forall>f x s. \<exists>r. h (Callback f x) s = Some (r, log_calls [f] s))"

lemma log_calls_simps [simp]:
  "fork_handlers (log_calls fs s) = fork_handlers s" "fork_last_handler (log_calls fs s) = fork_last_handler s"
  "atfork_at (log_calls fs s) = atfork_at s" "log_calls fs (log_calls gs s) = log_calls (gs @ fs) s"
  "log_calls [] s = s"
  by (simp_all add: log_calls_def)

definition calls :: "ptr list \<Rightarrow> ptr list" where
  "calls fs = filter (\<lambda>f. f \<noteq> 0) fs"

lemma calls_simps [simp]: "calls [] = []" "calls (fs @ gs) = calls fs @ calls gs" "calls (f # fs) = (if f = 0 then calls fs else f # calls fs)"
  by (simp_all add: calls_def)

lemma run_locked:
  assumes "logging a h"
  shows "run (atfork_locked f) h s = Done (f s) s"
proof -
  obtain r1 r2 where "h (Extern ''__mutex_lock'' []) s = Some (r1, s)" "h (Extern ''__mutex_unlock'' []) s = Some (r2, s)"
    using assms unfolding logging_def by blast
  then show ?thesis by (simp add: atfork_locked_def run_simps)
qed

lemma run_call_if:
  assumes "logging a h"
  shows "run (call_if f) h s = Done () (log_calls (calls [f]) s)"
proof -
  obtain r where "h (Callback f 0) s = Some (r, log_calls [f] s)" using assms unfolding logging_def by blast
  then show ?thesis by (simp add: call_if_def run_simps calls_def)
qed

lemma run_prepare_loop:
  assumes "hlist (atfork_at s) 0 p (us @ x # vs)" and "distinct (us @ x # vs)" and "length us < n"
    and "logging a h"
  shows "run (prepare_loop n p x) h s =
    Done () (log_calls (calls (map (\<lambda>p. af_prepare (atfork_at s p)) (x # rev us))) s)"
  using assms(1-3)
proof (induction us arbitrary: x vs n s rule: rev_induct)
  case Nil
  then show ?case
    by (cases n) (auto simp: at_handler_def run_simps run_call_if [OF assms(4)])
next
  case (snoc y us)
  have x: "x \<noteq> p" "x \<noteq> 0" "af_prev (atfork_at s x) = y"
  proof -
    have "hlist f q p (us @ y # x # vs) \<Longrightarrow> x \<noteq> 0 \<and> af_prev (f x) = y \<and> p \<in> set (us @ [y])" for f q p
      by (induction us arbitrary: q p) auto
    from this [of "atfork_at s" 0 p] snoc.prems(1,2)
    show "x \<noteq> p" "x \<noteq> 0" "af_prev (atfork_at s x) = y" by auto
  qed
  obtain k where n: "n = Suc k" using snoc.prems(3) by (cases n) auto
  let ?s = "log_calls (calls [af_prepare (atfork_at s x)]) s"
  have "run (prepare_loop k p y) h ?s =
      Done () (log_calls (calls (map (\<lambda>p. af_prepare (atfork_at ?s p)) (y # rev us))) ?s)"
    by (rule snoc.IH [of ?s y "x # vs"]) (use snoc.prems n in auto)
  with x n show ?case by (simp add: at_handler_def run_simps run_call_if [OF assms(4)])
qed

lemma run_after_loop:
  assumes "hlist (atfork_at s) q p xs" and "length xs \<le> n" and "logging a h"
  shows "run (after_loop n m p) h s = Done () (log_calls (calls (map (\<lambda>p. m (atfork_at s p)) xs)) s)"
  using assms(1,2)
proof (induction xs arbitrary: q p n s)
  case (Cons x xs)
  obtain k where n: "n = Suc k" using Cons.prems(2) by (cases n) auto
  obtain y where x: "x = Suc y" "p = Suc y" using Cons.prems(1) by (cases x) auto
  let ?s = "log_calls (calls [m (atfork_at s x)]) s"
  have "run (after_loop k m (af_next (atfork_at s x))) h ?s =
      Done () (log_calls (calls (map (\<lambda>p. m (atfork_at ?s p)) xs)) ?s)"
    by (rule Cons.IH [of ?s x]) (use Cons.prems n in auto)
  with x n show ?case by (simp add: at_handler_def run_simps run_call_if [OF assms(3)])
qed simp

lemma run_atfork_hooks:
  assumes "handlers_inv s ps" and "length ps \<le> n" and "logging a h"
  shows "run (atfork_pthread_prepare n) h s =
      Done () (log_calls (calls (map (\<lambda>p. af_prepare (atfork_at s p)) (rev ps))) s)"
    and "run (atfork_pthread_parent n) h s = Done () (log_calls (calls (map (\<lambda>p. af_parent (atfork_at s p)) ps)) s)"
    and "run (atfork_pthread_child n) h s = Done () (log_calls (calls (map (\<lambda>p. af_child (atfork_at s p)) ps)) s)"
proof -
  have l: "hlist (atfork_at s) 0 (fork_handlers s) ps" "distinct ps" using assms(1) by (simp_all add: handlers_inv_def)
  show "run (atfork_pthread_prepare n) h s =
      Done () (log_calls (calls (map (\<lambda>p. af_prepare (atfork_at s p)) (rev ps))) s)"
  proof (cases ps rule: rev_cases)
    case Nil
    then show ?thesis using assms(1) by (simp add: atfork_pthread_prepare_def run_simps run_locked [OF assms(3)] handlers_inv_def)
  next
    case (snoc us x)
    have "hlist f q p (us @ [x]) \<Longrightarrow> x \<noteq> 0" for f q p by (induction us arbitrary: q p) auto
    with l snoc have "x \<noteq> 0" by blast
    with snoc l assms run_prepare_loop [of s "fork_handlers s" us x "[]" n a h] show ?thesis
      by (simp add: atfork_pthread_prepare_def run_simps run_locked [OF assms(3)] handlers_inv_def)
  qed
  show "run (atfork_pthread_parent n) h s = Done () (log_calls (calls (map (\<lambda>p. af_parent (atfork_at s p)) ps)) s)"
    "run (atfork_pthread_child n) h s = Done () (log_calls (calls (map (\<lambda>p. af_child (atfork_at s p)) ps)) s)"
    using run_after_loop [OF l(1) assms(2,3)]
    by (simp_all add: atfork_pthread_parent_def atfork_pthread_child_def run_simps run_locked [OF assms(3)])
qed

section \<open>Registration\<close>

lemma hlist_cong:
  "hlist f q p xs \<Longrightarrow> (\<And>x. x \<in> set xs \<Longrightarrow> af_prev (f' x) = af_prev (f x) \<and> af_next (f' x) = af_next (f x)) \<Longrightarrow>
   hlist f' q p xs"
  by (induction xs arbitrary: q p) auto

lemma register_inv:
  assumes "handlers_inv s ps" and "a \<noteq> 0" and "a \<notin> set ps" and "af_prev (atfork_at s a) = 0"
  shows "handlers_inv (register_section a s) (a # ps)"
    and "\<And>p. functions_at (register_section a s) p = functions_at s p"
    and "fork_state.more (register_section a s) = fork_state.more s"
proof -
  have l: "hlist (atfork_at s) 0 (fork_handlers s) ps" "distinct ps"
      "fork_last_handler s = (if ps = [] then 0 else last ps)"
    using assms(1) by (simp_all add: handlers_inv_def)
  have nz: "last ps \<noteq> 0" if "ps \<noteq> []"
  proof -
    have "hlist f q p xs \<Longrightarrow> 0 \<notin> set xs" for f q p xs by (induction xs arbitrary: q p) auto
    with l(1) that show ?thesis using last_in_set by metis
  qed
  show "handlers_inv (register_section a s) (a # ps)"
  proof (cases ps)
    case Nil
    then show ?thesis using l assms(2,4) by (simp add: handlers_inv_def register_section_def Let_def)
  next
    case (Cons x xs)
    then have h: "fork_handlers s = x" "x \<noteq> 0" "hlist (atfork_at s) x (af_next (atfork_at s x)) xs" "x \<noteq> a"
      using l(1) assms(3) by auto
    let ?f = "(atfork_at s)(a := (atfork_at s a)\<lparr>af_next := x\<rparr>, x := (atfork_at s x)\<lparr>af_prev := a\<rparr>)"
    have "hlist ?f x (af_next (atfork_at s x)) xs"
      by (rule hlist_cong [OF h(3)]) (use l(2) assms(3) Cons in auto)
    with h Cons l(2,3) nz assms(2-4) show ?thesis
      by (simp add: handlers_inv_def register_section_def Let_def)
  qed
qed (simp_all add: register_section_def Let_def functions_at_def)

lemma run_pthread_atfork:
  assumes "handlers_inv s ps" and "logging a h" and "a \<noteq> 0" and "a \<notin> set ps"
  shows "\<exists>s1. run (pthread_atfork f g k) h s = Done OK s1 \<and> handlers_inv s1 (a # ps) \<and>
    (\<forall>p. functions_at s1 p = (if p = a then (f, g, k) else functions_at s p))"
proof -
  let ?s = "s\<lparr>atfork_at := (atfork_at s)(a := (atfork_at s a)\<lparr>af_prepare := f, af_parent := g, af_child := k, af_prev := 0\<rparr>)\<rparr>"
  let ?s1 = "register_section a ?s"
  obtain e x where "h Malloc s = Some ((e, int a, x), s)" using assms(2) unfolding logging_def by blast
  moreover obtain r1 r2 where "h (Extern ''__mutex_lock'' []) ?s = Some (r1, ?s)"
      "h (Extern ''__mutex_unlock'' []) ?s1 = Some (r2, ?s1)" using assms(2) unfolding logging_def by blast
  ultimately have run: "run (pthread_atfork f g k) h s = Done OK ?s1"
    using assms(3) by (simp add: pthread_atfork_def register_atfork_def run_simps)
  have "hlist (atfork_at ?s) 0 (fork_handlers s) ps"
    by (rule hlist_cong [of "atfork_at s"]) (use assms(1,4) in \<open>auto simp: handlers_inv_def\<close>)
  then have "handlers_inv ?s ps" using assms(1) by (simp add: handlers_inv_def)
  note reg = register_inv [OF this assms(3,4)]
  have fns: "functions_at ?s1 p = (if p = a then (f, g, k) else functions_at s p)" for p
    using reg(2) by (simp add: functions_at_def)
  with run reg(1) show ?thesis by (intro exI [of _ ?s1]) simp
qed

text \<open>
  C26: A call of \<^verbatim>\<open>pthread_atfork\<close> puts its handler in front of the list.  When the process forks, all
  registered functions are called, each once and null pointers being skipped, but the prepare functions
  in the order of their registration, the new one last, and the parent and child functions in the
  reverse order, the new ones first.  The declaration in \<^verbatim>\<open>pthread.h\<close> promises the opposite orders.
\<close>

theorem atfork_order:
  assumes "handlers_inv s ps" and "logging a h" and "a \<noteq> 0" and "a \<notin> set ps" and "length ps < n"
  shows "\<exists>s1. run (pthread_atfork f g k) h s = Done OK s1 \<and> handlers_inv s1 (a # ps) \<and>
    run (atfork_pthread_prepare n) h s1 =
      Done () (log_calls (calls (map (\<lambda>p. af_prepare (atfork_at s p)) (rev ps) @ [f])) s1) \<and>
    run (atfork_pthread_parent n) h s1 =
      Done () (log_calls (calls (g # map (\<lambda>p. af_parent (atfork_at s p)) ps)) s1) \<and>
    run (atfork_pthread_child n) h s1 =
      Done () (log_calls (calls (k # map (\<lambda>p. af_child (atfork_at s p)) ps)) s1)"
proof -
  from run_pthread_atfork [OF assms(1-4)] obtain s1 where
    run: "run (pthread_atfork f g k) h s = Done OK s1" and inv: "handlers_inv s1 (a # ps)"
    and fns: "\<And>p. functions_at s1 p = (if p = a then (f, g, k) else functions_at s p)" by blast
  have new: "af_prepare (atfork_at s1 a) = f" "af_parent (atfork_at s1 a) = g" "af_child (atfork_at s1 a) = k"
    using fns [of a] by (simp_all add: functions_at_def)
  have old: "af_prepare (atfork_at s1 p) = af_prepare (atfork_at s p)"
      "af_parent (atfork_at s1 p) = af_parent (atfork_at s p)"
      "af_child (atfork_at s1 p) = af_child (atfork_at s p)" if "p \<in> set ps" for p
  proof -
    have "p \<noteq> a" using that assms(4) by auto
    with fns [of p] show "af_prepare (atfork_at s1 p) = af_prepare (atfork_at s p)"
      "af_parent (atfork_at s1 p) = af_parent (atfork_at s p)"
      "af_child (atfork_at s1 p) = af_child (atfork_at s p)" by (simp_all add: functions_at_def)
  qed
  have "length (a # ps) \<le> n" using assms(5) by simp
  note hooks = run_atfork_hooks [OF inv this assms(2)]
  have maps: "map (\<lambda>p. af_prepare (atfork_at s1 p)) (rev (a # ps)) = map (\<lambda>p. af_prepare (atfork_at s p)) (rev ps) @ [f]"
      "map (\<lambda>p. af_parent (atfork_at s1 p)) (a # ps) = g # map (\<lambda>p. af_parent (atfork_at s p)) ps"
      "map (\<lambda>p. af_child (atfork_at s1 p)) (a # ps) = k # map (\<lambda>p. af_child (atfork_at s p)) ps"
    using old new by (auto simp: rev_map [symmetric])
  show ?thesis
    using run inv hooks by (intro exI [of _ s1]) (simp only: maps simp_thms)
qed

text \<open>A witness: one handler, at the address 1, is registered already.\<close>

definition log_env :: "logged env" where
  "log_env c s =
     (case c of
        Malloc \<Rightarrow> Some ((OK, 2, 0), s)
      | Callback f x \<Rightarrow> Some ((OK, 0, 0), log_calls [f] s)
      | _ \<Rightarrow> Some ((OK, 0, 0), s))"

definition one_handler :: logged where
  "one_handler = \<lparr>fork_handlers = 1, fork_last_handler = 1,
     atfork_at = (\<lambda>_. \<lparr>af_prepare = 10, af_parent = 11, af_child = 12, af_prev = 0, af_next = 0\<rparr>), \<dots> = []\<rparr>"

theorem atfork_order_witness:
  "\<exists>s1. run (pthread_atfork 20 21 22) log_env one_handler = Done OK s1 \<and> handlers_inv s1 (2 # [1]) \<and>
    run (atfork_pthread_prepare 2) log_env s1 =
      Done () (log_calls (calls (map (\<lambda>p. af_prepare (atfork_at one_handler p)) (rev [1]) @ [20])) s1) \<and>
    run (atfork_pthread_parent 2) log_env s1 =
      Done () (log_calls (calls (21 # map (\<lambda>p. af_parent (atfork_at one_handler p)) [1])) s1) \<and>
    run (atfork_pthread_child 2) log_env s1 =
      Done () (log_calls (calls (22 # map (\<lambda>p. af_child (atfork_at one_handler p)) [1])) s1)"
  by (rule atfork_order) (simp_all add: handlers_inv_def one_handler_def logging_def log_env_def)

end
