(* ===== verification/Forward.thy ===== *)
theory Forward
  imports Cancel
begin

text \<open>
  The functions that the C library provides for programs without the thread library and forwards to it
  once it has been loaded (\<^verbatim>\<open>forward.c\<close>, \<^verbatim>\<open>pthread/pthread-functions.h\<close>, \<^verbatim>\<open>libc_pthread_init.c\<close> and the table of
  \<^verbatim>\<open>pthread/pt-initialize.c\<close>, compiled when the library is built inside the C library).  A function pointer is \<open>None\<close> when it is null.  The functions here are named
  after the member they call, with \<open>fwd_\<close> in place of \<open>ptr_\<close>; \<open>self\<close> is the calling thread.  A stub that
  returns without storing its result leaves the caller's variable at its content \<open>old\<close>.
\<close>

section \<open>The table\<close>

record pthread_functions =
  ptr_pthread_attr_destroy :: "(pthread_attr \<Rightarrow> rc \<times> pthread_attr) option"
  ptr_pthread_attr_init :: "(pthread_attr \<Rightarrow> rc \<times> pthread_attr) option"
  ptr_pthread_attr_getdetachstate :: "(pthread_attr \<Rightarrow> rc \<times> int) option"
  ptr_pthread_attr_setdetachstate :: "(pthread_attr \<Rightarrow> int \<Rightarrow> rc \<times> pthread_attr) option"
  ptr_pthread_attr_getinheritsched :: "(pthread_attr \<Rightarrow> rc \<times> int) option"
  ptr_pthread_attr_setinheritsched :: "(pthread_attr \<Rightarrow> int \<Rightarrow> rc \<times> pthread_attr) option"
  ptr_pthread_attr_getschedparam :: "(pthread_attr \<Rightarrow> rc \<times> int) option"
  ptr_pthread_attr_setschedparam :: "(pthread_attr \<Rightarrow> int \<Rightarrow> rc \<times> pthread_attr) option"
  ptr_pthread_attr_getschedpolicy :: "(pthread_attr \<Rightarrow> rc \<times> int) option"
  ptr_pthread_attr_setschedpolicy :: "(pthread_attr \<Rightarrow> int \<Rightarrow> rc \<times> pthread_attr) option"
  ptr_pthread_attr_getscope :: "(pthread_attr \<Rightarrow> rc \<times> int) option"
  ptr_pthread_attr_setscope :: "(pthread_attr \<Rightarrow> int \<Rightarrow> rc \<times> pthread_attr) option"
  ptr_pthread_condattr_destroy :: "(pthread_condattr \<Rightarrow> rc \<times> pthread_condattr) option"
  ptr_pthread_condattr_init :: "(pthread_condattr \<Rightarrow> rc \<times> pthread_condattr) option"
  ptr_pthread_cond_broadcast :: "(caddr \<Rightarrow> rc pt) option"
  ptr_pthread_cond_destroy :: "(caddr \<Rightarrow> rc pt) option"
  ptr_pthread_cond_init :: "(caddr \<Rightarrow> pthread_condattr option \<Rightarrow> rc pt) option"
  ptr_pthread_cond_signal :: "(caddr \<Rightarrow> rc pt) option"
  ptr_pthread_cond_wait :: "(caddr \<Rightarrow> maddr \<Rightarrow> thr \<Rightarrow> rc pt) option"
  ptr_pthread_cond_timedwait :: "(caddr \<Rightarrow> maddr \<Rightarrow> thr \<Rightarrow> timespec option \<Rightarrow> rc pt) option"
  ptr_pthread_equal :: "(int \<Rightarrow> int \<Rightarrow> bool) option"
  ptr_pthread_exit :: "(thr \<Rightarrow> int \<Rightarrow> unit pt) option"
  ptr_pthread_getschedparam :: "(int \<Rightarrow> rc) option"
  ptr_pthread_setschedparam :: "(int \<Rightarrow> int \<Rightarrow> int \<Rightarrow> pt_state \<Rightarrow> rc \<times> pt_state) option"
  ptr_pthread_mutex_destroy :: "(maddr \<Rightarrow> rc pt) option"
  ptr_pthread_mutex_init :: "(maddr \<Rightarrow> pthread_mutexattr option \<Rightarrow> rc pt) option"
  ptr_pthread_mutex_lock :: "(maddr \<Rightarrow> thr \<Rightarrow> rc pt) option"
  ptr_pthread_mutex_trylock :: "(maddr \<Rightarrow> thr \<Rightarrow> rc pt) option"
  ptr_pthread_mutex_unlock :: "(maddr \<Rightarrow> thr \<Rightarrow> rc pt) option"
  ptr_pthread_self :: "(thr \<Rightarrow> int pt) option"
  ptr_pthread_setcancelstate :: "(thr \<Rightarrow> int \<Rightarrow> (rc \<times> int option) pt) option"
  ptr_pthread_setcanceltype :: "(thr \<Rightarrow> int \<Rightarrow> (rc \<times> int option) pt) option"
  ptr_pthread_get_cleanup_stack :: "(thr \<Rightarrow> pt_state \<Rightarrow> cleanup list) option"

text \<open>
  The table of the thread library.  The attribute functions read the default attributes \<open>dflt\<close>;
  \<open>cf\<close> holds the bounds of the loops.
\<close>

definition pthread_functions_table :: "pt_config \<Rightarrow> pthread_attr \<Rightarrow> pthread_functions" where
  "pthread_functions_table cf dflt =
     \<lparr>ptr_pthread_attr_destroy = Some pthread_attr_destroy,
      ptr_pthread_attr_init = Some (\<lambda>_. pthread_attr_init dflt),
      ptr_pthread_attr_getdetachstate = Some pthread_attr_getdetachstate,
      ptr_pthread_attr_setdetachstate = Some pthread_attr_setdetachstate,
      ptr_pthread_attr_getinheritsched = Some pthread_attr_getinheritsched,
      ptr_pthread_attr_setinheritsched = Some pthread_attr_setinheritsched,
      ptr_pthread_attr_getschedparam = Some pthread_attr_getschedparam,
      ptr_pthread_attr_setschedparam = Some (pthread_attr_setschedparam dflt),
      ptr_pthread_attr_getschedpolicy = Some pthread_attr_getschedpolicy,
      ptr_pthread_attr_setschedpolicy = Some pthread_attr_setschedpolicy,
      ptr_pthread_attr_getscope = Some pthread_attr_getscope,
      ptr_pthread_attr_setscope = Some (pthread_attr_setscope dflt),
      ptr_pthread_condattr_destroy = Some pthread_condattr_destroy,
      ptr_pthread_condattr_init = Some (\<lambda>_. pthread_condattr_init),
      ptr_pthread_cond_broadcast = Some (pthread_cond_broadcast (cf_queue cf)),
      ptr_pthread_cond_destroy = Some pthread_cond_destroy,
      ptr_pthread_cond_init = Some pthread_cond_init,
      ptr_pthread_cond_signal = Some pthread_cond_signal,
      ptr_pthread_cond_wait = Some (pthread_cond_wait cf),
      ptr_pthread_cond_timedwait = Some (pthread_cond_timedwait cf),
      ptr_pthread_equal = Some pthread_equal,
      ptr_pthread_exit = Some (pthread_exit cf),
      ptr_pthread_getschedparam = Some pthread_getschedparam,
      ptr_pthread_setschedparam = Some pthread_setschedparam,
      ptr_pthread_mutex_destroy = Some pthread_mutex_destroy,
      ptr_pthread_mutex_init = Some pthread_mutex_init,
      ptr_pthread_mutex_lock = Some pthread_mutex_lock,
      ptr_pthread_mutex_trylock = Some pthread_mutex_trylock,
      ptr_pthread_mutex_unlock = Some pthread_mutex_unlock,
      ptr_pthread_self = Some pthread_self,
      ptr_pthread_setcancelstate = Some pthread_setcancelstate,
      ptr_pthread_setcanceltype = Some pthread_setcanceltype,
      ptr_pthread_get_cleanup_stack = Some pthread_get_cleanup_stack\<rparr>"

text \<open>The variable \<^verbatim>\<open>__libc_pthread_functions\<close> as static storage initialises it.\<close>

definition no_functions :: pthread_functions where
  "no_functions =
     \<lparr>ptr_pthread_attr_destroy = None,
      ptr_pthread_attr_init = None,
      ptr_pthread_attr_getdetachstate = None,
      ptr_pthread_attr_setdetachstate = None,
      ptr_pthread_attr_getinheritsched = None,
      ptr_pthread_attr_setinheritsched = None,
      ptr_pthread_attr_getschedparam = None,
      ptr_pthread_attr_setschedparam = None,
      ptr_pthread_attr_getschedpolicy = None,
      ptr_pthread_attr_setschedpolicy = None,
      ptr_pthread_attr_getscope = None,
      ptr_pthread_attr_setscope = None,
      ptr_pthread_condattr_destroy = None,
      ptr_pthread_condattr_init = None,
      ptr_pthread_cond_broadcast = None,
      ptr_pthread_cond_destroy = None,
      ptr_pthread_cond_init = None,
      ptr_pthread_cond_signal = None,
      ptr_pthread_cond_wait = None,
      ptr_pthread_cond_timedwait = None,
      ptr_pthread_equal = None,
      ptr_pthread_exit = None,
      ptr_pthread_getschedparam = None,
      ptr_pthread_setschedparam = None,
      ptr_pthread_mutex_destroy = None,
      ptr_pthread_mutex_init = None,
      ptr_pthread_mutex_lock = None,
      ptr_pthread_mutex_trylock = None,
      ptr_pthread_mutex_unlock = None,
      ptr_pthread_self = None,
      ptr_pthread_setcancelstate = None,
      ptr_pthread_setcanceltype = None,
      ptr_pthread_get_cleanup_stack = None\<rparr>"

text \<open>\<^verbatim>\<open>__libc_pthread_init\<close>, in the shared C library, overwrites the variable.\<close>

definition libc_pthread_init :: "pthread_functions \<Rightarrow> pthread_functions \<Rightarrow> pthread_functions" where
  "libc_pthread_init functions libc_pthread_functions = functions"

section \<open>The forwarding functions\<close>

definition FORWARD2 :: "'f option \<Rightarrow> 'f \<Rightarrow> 'f" where
  "FORWARD2 pointer defaction = (case pointer of None \<Rightarrow> defaction | Some f \<Rightarrow> f)"

definition fwd_pthread_attr_destroy :: "pthread_functions \<Rightarrow> pthread_attr \<Rightarrow> rc \<times> pthread_attr" where
  "fwd_pthread_attr_destroy p = FORWARD2 (ptr_pthread_attr_destroy p) (\<lambda>attr. (OK, attr))"

definition fwd_pthread_attr_init :: "pthread_functions \<Rightarrow> pthread_attr \<Rightarrow> rc \<times> pthread_attr" where
  "fwd_pthread_attr_init p = FORWARD2 (ptr_pthread_attr_init p) (\<lambda>attr. (OK, attr))"

definition fwd_pthread_attr_getdetachstate :: "int \<Rightarrow> pthread_functions \<Rightarrow> pthread_attr \<Rightarrow> rc \<times> int" where
  "fwd_pthread_attr_getdetachstate old p = FORWARD2 (ptr_pthread_attr_getdetachstate p) (\<lambda>attr. (OK, old))"

definition fwd_pthread_attr_setdetachstate :: "pthread_functions \<Rightarrow> pthread_attr \<Rightarrow> int \<Rightarrow> rc \<times> pthread_attr" where
  "fwd_pthread_attr_setdetachstate p = FORWARD2 (ptr_pthread_attr_setdetachstate p) (\<lambda>attr detachstate. (OK, attr))"

definition fwd_pthread_attr_getinheritsched :: "int \<Rightarrow> pthread_functions \<Rightarrow> pthread_attr \<Rightarrow> rc \<times> int" where
  "fwd_pthread_attr_getinheritsched old p = FORWARD2 (ptr_pthread_attr_getinheritsched p) (\<lambda>attr. (OK, old))"

definition fwd_pthread_attr_setinheritsched :: "pthread_functions \<Rightarrow> pthread_attr \<Rightarrow> int \<Rightarrow> rc \<times> pthread_attr" where
  "fwd_pthread_attr_setinheritsched p = FORWARD2 (ptr_pthread_attr_setinheritsched p) (\<lambda>attr inherit. (OK, attr))"

definition fwd_pthread_attr_getschedparam :: "int \<Rightarrow> pthread_functions \<Rightarrow> pthread_attr \<Rightarrow> rc \<times> int" where
  "fwd_pthread_attr_getschedparam old p = FORWARD2 (ptr_pthread_attr_getschedparam p) (\<lambda>attr. (OK, old))"

definition fwd_pthread_attr_setschedparam :: "pthread_functions \<Rightarrow> pthread_attr \<Rightarrow> int \<Rightarrow> rc \<times> pthread_attr" where
  "fwd_pthread_attr_setschedparam p = FORWARD2 (ptr_pthread_attr_setschedparam p) (\<lambda>attr param. (OK, attr))"

definition fwd_pthread_attr_getschedpolicy :: "int \<Rightarrow> pthread_functions \<Rightarrow> pthread_attr \<Rightarrow> rc \<times> int" where
  "fwd_pthread_attr_getschedpolicy old p = FORWARD2 (ptr_pthread_attr_getschedpolicy p) (\<lambda>attr. (OK, old))"

definition fwd_pthread_attr_setschedpolicy :: "pthread_functions \<Rightarrow> pthread_attr \<Rightarrow> int \<Rightarrow> rc \<times> pthread_attr" where
  "fwd_pthread_attr_setschedpolicy p = FORWARD2 (ptr_pthread_attr_setschedpolicy p) (\<lambda>attr policy. (OK, attr))"

definition fwd_pthread_attr_getscope :: "int \<Rightarrow> pthread_functions \<Rightarrow> pthread_attr \<Rightarrow> rc \<times> int" where
  "fwd_pthread_attr_getscope old p = FORWARD2 (ptr_pthread_attr_getscope p) (\<lambda>attr. (OK, old))"

definition fwd_pthread_attr_setscope :: "pthread_functions \<Rightarrow> pthread_attr \<Rightarrow> int \<Rightarrow> rc \<times> pthread_attr" where
  "fwd_pthread_attr_setscope p = FORWARD2 (ptr_pthread_attr_setscope p) (\<lambda>attr scope. (OK, attr))"

definition fwd_pthread_condattr_destroy :: "pthread_functions \<Rightarrow> pthread_condattr \<Rightarrow> rc \<times> pthread_condattr" where
  "fwd_pthread_condattr_destroy p = FORWARD2 (ptr_pthread_condattr_destroy p) (\<lambda>attr. (OK, attr))"

definition fwd_pthread_condattr_init :: "pthread_functions \<Rightarrow> pthread_condattr \<Rightarrow> rc \<times> pthread_condattr" where
  "fwd_pthread_condattr_init p = FORWARD2 (ptr_pthread_condattr_init p) (\<lambda>attr. (OK, attr))"

definition fwd_pthread_cond_broadcast :: "pthread_functions \<Rightarrow> caddr \<Rightarrow> rc pt" where
  "fwd_pthread_cond_broadcast p = FORWARD2 (ptr_pthread_cond_broadcast p) (\<lambda>cond. Return OK)"

definition fwd_pthread_cond_destroy :: "pthread_functions \<Rightarrow> caddr \<Rightarrow> rc pt" where
  "fwd_pthread_cond_destroy p = FORWARD2 (ptr_pthread_cond_destroy p) (\<lambda>cond. Return OK)"

definition fwd_pthread_cond_init :: "pthread_functions \<Rightarrow> caddr \<Rightarrow> pthread_condattr option \<Rightarrow> rc pt" where
  "fwd_pthread_cond_init p = FORWARD2 (ptr_pthread_cond_init p) (\<lambda>cond cond_attr. Return OK)"

definition fwd_pthread_cond_signal :: "pthread_functions \<Rightarrow> caddr \<Rightarrow> rc pt" where
  "fwd_pthread_cond_signal p = FORWARD2 (ptr_pthread_cond_signal p) (\<lambda>cond. Return OK)"

definition fwd_pthread_cond_wait :: "pthread_functions \<Rightarrow> caddr \<Rightarrow> maddr \<Rightarrow> thr \<Rightarrow> rc pt" where
  "fwd_pthread_cond_wait p = FORWARD2 (ptr_pthread_cond_wait p) (\<lambda>cond mutex self. Return OK)"

definition fwd_pthread_cond_timedwait :: "pthread_functions \<Rightarrow> caddr \<Rightarrow> maddr \<Rightarrow> thr \<Rightarrow> timespec option \<Rightarrow> rc pt" where
  "fwd_pthread_cond_timedwait p = FORWARD2 (ptr_pthread_cond_timedwait p) (\<lambda>cond mutex self abstime. Return OK)"

definition fwd_pthread_equal :: "pthread_functions \<Rightarrow> int \<Rightarrow> int \<Rightarrow> bool" where
  "fwd_pthread_equal p = FORWARD2 (ptr_pthread_equal p) (\<lambda>thread1 thread2. True)"

definition fwd_pthread_exit :: "pthread_functions \<Rightarrow> thr \<Rightarrow> int \<Rightarrow> unit pt" where
  "fwd_pthread_exit p = FORWARD2 (ptr_pthread_exit p) (\<lambda>self retval. Crash (Process_exit 0))"

definition fwd_pthread_getschedparam :: "pthread_functions \<Rightarrow> int \<Rightarrow> rc" where
  "fwd_pthread_getschedparam p = FORWARD2 (ptr_pthread_getschedparam p) (\<lambda>thread. OK)"

definition fwd_pthread_setschedparam :: "pthread_functions \<Rightarrow> int \<Rightarrow> int \<Rightarrow> int \<Rightarrow> pt_state \<Rightarrow> rc \<times> pt_state" where
  "fwd_pthread_setschedparam p = FORWARD2 (ptr_pthread_setschedparam p) (\<lambda>thread policy param s. (OK, s))"

definition fwd_pthread_mutex_destroy :: "pthread_functions \<Rightarrow> maddr \<Rightarrow> rc pt" where
  "fwd_pthread_mutex_destroy p = FORWARD2 (ptr_pthread_mutex_destroy p) (\<lambda>mutex. Return OK)"

definition fwd_pthread_mutex_init :: "pthread_functions \<Rightarrow> maddr \<Rightarrow> pthread_mutexattr option \<Rightarrow> rc pt" where
  "fwd_pthread_mutex_init p = FORWARD2 (ptr_pthread_mutex_init p) (\<lambda>mutex mutexattr. Return OK)"

definition fwd_pthread_mutex_lock :: "pthread_functions \<Rightarrow> maddr \<Rightarrow> thr \<Rightarrow> rc pt" where
  "fwd_pthread_mutex_lock p = FORWARD2 (ptr_pthread_mutex_lock p) (\<lambda>mutex self. Return OK)"

definition fwd_pthread_mutex_unlock :: "pthread_functions \<Rightarrow> maddr \<Rightarrow> thr \<Rightarrow> rc pt" where
  "fwd_pthread_mutex_unlock p = FORWARD2 (ptr_pthread_mutex_unlock p) (\<lambda>mutex self. Return OK)"

definition fwd_pthread_self :: "pthread_functions \<Rightarrow> thr \<Rightarrow> int pt" where
  "fwd_pthread_self p = FORWARD2 (ptr_pthread_self p) (\<lambda>self. Return 0)"

definition fwd_pthread_setcancelstate :: "pthread_functions \<Rightarrow> thr \<Rightarrow> int \<Rightarrow> (rc \<times> int option) pt" where
  "fwd_pthread_setcancelstate p = FORWARD2 (ptr_pthread_setcancelstate p) (\<lambda>self state. Return (OK, None))"

definition fwd_pthread_setcanceltype :: "pthread_functions \<Rightarrow> thr \<Rightarrow> int \<Rightarrow> (rc \<times> int option) pt" where
  "fwd_pthread_setcanceltype p = FORWARD2 (ptr_pthread_setcanceltype p) (\<lambda>self type. Return (OK, None))"

definition fwd_pthread_get_cleanup_stack :: "cleanup list \<Rightarrow> pthread_functions \<Rightarrow> thr \<Rightarrow> pt_state \<Rightarrow> cleanup list" where
  "fwd_pthread_get_cleanup_stack dummy_list p = FORWARD2 (ptr_pthread_get_cleanup_stack p) (\<lambda>self s. dummy_list)"

lemmas forwarding_defs =
  fwd_pthread_attr_destroy_def
  fwd_pthread_attr_init_def
  fwd_pthread_attr_getdetachstate_def
  fwd_pthread_attr_setdetachstate_def
  fwd_pthread_attr_getinheritsched_def
  fwd_pthread_attr_setinheritsched_def
  fwd_pthread_attr_getschedparam_def
  fwd_pthread_attr_setschedparam_def
  fwd_pthread_attr_getschedpolicy_def
  fwd_pthread_attr_setschedpolicy_def
  fwd_pthread_attr_getscope_def
  fwd_pthread_attr_setscope_def
  fwd_pthread_condattr_destroy_def
  fwd_pthread_condattr_init_def
  fwd_pthread_cond_broadcast_def
  fwd_pthread_cond_destroy_def
  fwd_pthread_cond_init_def
  fwd_pthread_cond_signal_def
  fwd_pthread_cond_wait_def
  fwd_pthread_cond_timedwait_def
  fwd_pthread_equal_def
  fwd_pthread_exit_def
  fwd_pthread_getschedparam_def
  fwd_pthread_setschedparam_def
  fwd_pthread_mutex_destroy_def
  fwd_pthread_mutex_init_def
  fwd_pthread_mutex_lock_def
  fwd_pthread_mutex_unlock_def
  fwd_pthread_self_def
  fwd_pthread_setcancelstate_def
  fwd_pthread_setcanceltype_def
  fwd_pthread_get_cleanup_stack_def

section \<open>Before and after initialisation\<close>

text \<open>Once initialised, every forwarding function is the function of the thread library.\<close>

lemma forwards_after_init:
  fixes cf dflt p
  defines "t \<equiv> libc_pthread_init (pthread_functions_table cf dflt) p"
  shows "fwd_pthread_mutex_lock t = pthread_mutex_lock" "fwd_pthread_mutex_unlock t = pthread_mutex_unlock"
    "fwd_pthread_mutex_init t = pthread_mutex_init" "fwd_pthread_mutex_destroy t = pthread_mutex_destroy"
    "fwd_pthread_cond_wait t = pthread_cond_wait cf" "fwd_pthread_cond_timedwait t = pthread_cond_timedwait cf"
    "fwd_pthread_cond_signal t = pthread_cond_signal"
    "fwd_pthread_cond_broadcast t = pthread_cond_broadcast (cf_queue cf)"
    "fwd_pthread_exit t = pthread_exit cf" "fwd_pthread_self t = pthread_self"
    "fwd_pthread_setcancelstate t = pthread_setcancelstate" "fwd_pthread_setcanceltype t = pthread_setcanceltype"
    "fwd_pthread_get_cleanup_stack d t = pthread_get_cleanup_stack"
  by (simp_all add: t_def libc_pthread_init_def pthread_functions_table_def forwarding_defs FORWARD2_def)

text \<open>
  A section of code in the C library that is protected by a mutex: with the stubs it is executed as it
  is, whatever the state of the mutex; after initialisation the free mutex is held around it.
\<close>

lemma forwarded_critical_section:
  assumes "idle_mutex s m" and "idle_mutex s1 m"
    and "run body h (acquired m t s) = Done r (acquired m t s1)"
  shows "run (bracket (fwd_pthread_mutex_lock no_functions m t) (fwd_pthread_mutex_unlock no_functions m t) body) h s2 =
      run body h s2"
    and "run (bracket (fwd_pthread_mutex_lock (libc_pthread_init (pthread_functions_table cf dflt) p) m t)
           (fwd_pthread_mutex_unlock (libc_pthread_init (pthread_functions_table cf dflt) p) m t) body) h s = Done r s1"
proof -
  show "run (bracket (fwd_pthread_mutex_lock no_functions m t) (fwd_pthread_mutex_unlock no_functions m t) body) h s2 =
      run body h s2"
    by (simp add: bracket_def fwd_pthread_mutex_lock_def fwd_pthread_mutex_unlock_def no_functions_def FORWARD2_def)
  show "run (bracket (fwd_pthread_mutex_lock (libc_pthread_init (pthread_functions_table cf dflt) p) m t)
           (fwd_pthread_mutex_unlock (libc_pthread_init (pthread_functions_table cf dflt) p) m t) body) h s = Done r s1"
    unfolding forwards_after_init by (rule mutex_lock.bracketed [OF assms(1,3,2)])
qed

end
