(* ===== verification/Spec2Isabelle.thy ===== *)
theory Spec2Isabelle
  imports Mutex_Machine Semaphore_Machine Rwlock_Machine Barrier_Machine Inlines Startup Recycle Dispatch Atfork Forward
begin

text \<open>
  A verification development for the GNU Hurd's libpthread: the POSIX threads library over Mach
  messages, its generic synchronisation objects, and a signal implementation in user space.

  \<^bold>\<open>The program.\<close>  A thread is a \<^verbatim>\<open>struct __pthread\<close> (\<^verbatim>\<open>pthread/pt-internal.h\<close>).  Everything that blocks, blocks
  the same way: under the spin lock of an object the thread puts itself on the object's intrusive queue,
  releases the spin lock and receives on its own wakeup port (\<^verbatim>\<open>__pthread_block\<close>); whoever makes the object
  available takes a thread off the queue and sends it one message (\<^verbatim>\<open>__pthread_wakeup\<close>).  Mutexes,
  read-write locks, semaphores, barriers and condition variables are built on this; thread creation,
  exit, joining, cancellation and thread-specific data are built on those.

  \<^bold>\<open>How code is modelled.\<close>  A C function is a program (theory \<open>Prog\<close>): a tree of atomic actions on the one
  process state \<open>pt_state\<close> (theory \<open>Pt_State\<close>) and of calls to outside code.  Pointers into the process
  state are addresses of datatypes, so aliasing is equality of addresses.  Code under a spin lock is one
  atomic action, guarded by the lock being free; that the lock is released on every path is visible,
  since the lock word is part of the state.  \<^verbatim>\<open>run\<close> executes a program alone and ends in \<open>Done\<close>,
  \<open>Waiting\<close> (with the rest of the program) or \<open>Failed\<close> (a failed assertion, a null store, an exit, and the undefined
  behaviours that matter here: an overflow of an \<^verbatim>\<open>int\<close> and the use of an uninitialised variable);
  \<open>requests\<close> lists the calls to outside code that this execution makes, so a theorem can state which resources are
  released, and \<open>visits\<close> the states it passes through; \<open>pstep\<close> is one atomic step, for interleavings.  Return codes are values of \<open>rc\<close>.  The caller of
  a function, \<^verbatim>\<open>_pthread_self ()\<close>, is an argument; \<open>current_pthread\<close> models the macro itself.  The build that is modelled is the stand-alone one for
  i386 with assertions enabled, thread-local storage, and \<^verbatim>\<open>ALWAYS_TRACK_MUTEX_OWNER\<close> undefined.

  Code outside the repository (the Mach kernel, \<^verbatim>\<open>malloc\<close>, libihash, the dynamic linker, the futexes and
  bit functions of the L4 port, functions of the program) is a parameter, the \<open>env\<close> of a run.  What a theorem
  relies on is a named predicate on it: \<open>mach_ports\<close> (a message that is sent is received once),
  \<open>malloc_ok\<close>, \<open>vm_ok\<close>, \<open>ihash_ok\<close> (for the values other than the two that libihash reserves), \<open>futex_ok\<close> (a thread that sleeps on a
  futex goes on only after somebody has woken it), \<open>reap_ok\<close> and \<open>reuse_ok\<close> (the kernel accepts the termination of a thread),
  \<open>lsb_ok\<close>, \<open>quiet_handlers\<close> and so on; each has an instance in the witnesses.

  The theorems on interleavings let every thread call every operation at any time, within the rules for callers that
  \<open>mutex_allowed\<close>, \<open>rw_allowed\<close> and \<open>sem_allowed\<close> spell out: one unlocks what one holds, does not lock again what would deadlock, and
  passes valid deadlines (the code mishandles invalid ones, see \<open>Mutex_Props\<close>).

  \<^bold>\<open>The theories.\<close>

  \<^item> \<open>Prelude\<close>, \<open>Sigset\<close>, \<open>Prog\<close>, \<open>Pt_State\<close>: result codes, signal sets (\<^verbatim>\<open>signal/signal.h\<close>,
    \<^verbatim>\<open>sig-internal.h\<close>, \<^verbatim>\<open>sigaddset.c\<close> and others; the functions are shown to be operations on sets), programs,
    and the records of the library.
  \<^item> \<open>Wait_Queue\<close>: \<^verbatim>\<open>__pthread_enqueue\<close>, \<^verbatim>\<open>__pthread_dequeue\<close> and the iterations, on the level of links.
    \<open>queues\<close> relates links to lists; enqueueing refines consing and dequeueing refines removal,
    for all queues at once.  So queues are last in, first out.  A locale states the contract.
  \<^item> \<open>Spin_Lock\<close>, \<open>Mach_Spin\<close>, \<open>Block\<close>: spin locks of the i386 and the Mach build (the machine's lock operations are a locale),
    blocking, waking, and the computation of timeouts with its bounds.
  \<^item> \<open>Mutex\<close>, \<open>Mutex_Props\<close>: all mutex operations and types; locking, nesting, misuse,
    handing over, and the lock that the \<^verbatim>\<open>EINVAL\<close> return leaks.
  \<^item> \<open>Gate\<close>: the protocol that all blocking objects share, as an abstract machine.  An object has a state and
    queues; an operation enters under the spin lock and either joins a queue or passes, perhaps taking
    waiters off a queue whom it then wakes, one message each.  The locale \<open>gate_laws\<close> gives the invariant of the
    protocol (nobody is queued twice or sent a second message, nobody waits without a message to come) and
    the \<open>effect\<close> of a step on what the threads hold.
  \<^item> \<open>Gate_Impl\<close>: systems of threads that call operations, as interleavings of steps of their programs; the
    locale \<open>gate_impl\<close> states section by section what the programs of an object must do and gives that
    every reachable state is represented by the machine; \<open>gate_live\<close> gives what a standstill looks like.  Executions may be
    restricted to states in a range (\<open>creach_in\<close>): for semaphores, those in which the value has not reached \<^verbatim>\<open>INT_MAX\<close>, where the
    next post overflows; for the other objects the range is everything.
  \<^item> \<open>Mutex_Gate\<close>, \<open>Mutex_Machine\<close>, \<open>Semaphore_Machine\<close>, \<open>Rwlock_Machine\<close>: interpretations on the programs of mutexes (of all
    three types), semaphores and read-write locks, for any number of threads, with and without deadlines.  They give mutual exclusion,
    exclusion of readers and writers, conservation of the units of a semaphore (while its value fits an \<^verbatim>\<open>int\<close>), well-formed data, the absence of
    crashes and, without deadlines, of lost wakeups; and the run in which a timed lock loses the mutex.
  \<^item> \<open>Barrier_Machine\<close>: a barrier is a gate too, but it wakes a detached queue without its spin lock, so its programs
    have a simulation of their own; it gives that rounds are separated and, for barriers of two or more threads, that no wakeup is lost.
  \<^item> \<open>Bracket\<close>: a locale for code protected by a lock whose operations, when nobody contends, call nothing outside; interpreted on mutexes, read-write locks, spin locks
    and (in \<open>Signal_Props\<close>) the plain mutexes of the signal code.
  \<^item> \<open>Rwlock\<close>, \<open>Semaphore\<close>, \<open>Barrier\<close>, \<open>Cond\<close>, \<open>Once\<close>, \<open>Attr\<close>, \<open>Key\<close>: the other objects.  Lock operations against
    an abstract read-write lock; posts and waits against a counter; a round of a barrier; signal and
    broadcast; that an initialisation routine runs exactly once in every interleaving; attribute setters and
    getters; creation, use and deletion of keys.
  \<^item> \<open>Thread\<close>, \<open>Create\<close>, \<open>Cancel\<close>: structures and identifiers, stacks, kernel threads, machine contexts, signal
    states, creation with all its error exits, exit, detaching, cancellation, condition waits, joining.
  \<^item> \<open>Thread_Props\<close>, \<open>Life\<close>: the search for a stack finds one if there is one and ends; the initial frame
    is inside the stack; the segment descriptor has the control block as its base; a new thread has its own identifier; exit leaves status and wakes joiners;
    join returns the status and recycles the structure; the protocol of a condition wait, with no state in which a signal could be missed; cancelling.
  \<^item> \<open>Create_Props\<close>: the error exits of the creation release what was acquired, call by call; one of them reports success without
    having written its result.
    \<open>Create_Start\<close>: when nothing fails, the thread that is created runs, with its frame, mask and identifier.
    \<open>Create_Fresh\<close>: a creation with a new structure succeeds, from the allocations to the start, in every state with room.
    \<open>Startup\<close>: the startup makes the running kernel thread the main thread, which then finds its own structure; a
    creation after it gives the thread with identifier 2.
    \<open>Recycle\<close>: the structure of a joined thread is used again with the kernel thread that the join has terminated.
    The theorem that spans exit and join is in this theory, below.
  \<^item> \<open>Signal\<close>, \<open>Signal_Props\<close>, \<open>Dispatch\<close>: \<^verbatim>\<open>signal/*.c\<close> and its companions in \<^verbatim>\<open>sysdeps/generic\<close>.  The list of
    waiters; that a signal for the process goes to the first waiter that selects it, who then returns with
    it; that dispatching ends with nothing deliverable left; generation of signals; a
    waiter that is unblocked twice; masks with \<^verbatim>\<open>SIGKILL\<close>.
  \<^item> \<open>Atfork\<close>, \<open>Forward\<close>: the handlers around \<^verbatim>\<open>fork\<close> and the stubs of the C library (\<^verbatim>\<open>forward.c\<close>).
  \<^item> \<open>Inlines\<close>: the inline functions of \<^verbatim>\<open>pthread.h\<close>, compare-and-swap, and \<^verbatim>\<open>lockfile.c\<close>.

  \<^bold>\<open>Bounds.\<close>  Loops that walk a linked structure take a bound and are \<open>stuck\<close> or undefined beyond it: the theorems
  ask for a bound of at least the length of the list, which the invariants make finite.  \<^verbatim>\<open>signal_dispatch\<close>
  takes at most 32 iterations, one per signal and the first.  \<open>join_wait\<close> bounds the number of spurious
  wakeups.  The search for a stack needs as many iterations as there are stack-sized places in the
  address space, and \<open>stack_alloc_complete\<close> shows that this many suffice.  In sections
  spinning is waiting for the lock word; the spinning loop itself, \<open>spin_lock_slow\<close>, is bounded by a number of rounds, and
  \<open>spin_lock_meets_spec\<close> shows that it takes the lock if this exceeds the number of times it has to yield.

  \<^bold>\<open>Not modelled.\<close>  The public headers' declarations and macros for the linker, the
  tests, weak memory: actions are
  sequentially consistent.  A stack variable that is used after its function has returned (a stale
  \<^verbatim>\<open>struct sigwaiter\<close>) keeps its contents.  The port's \<^verbatim>\<open>signal_dispatch_lowlevel\<close> is not in the repository.
\<close>

section \<open>Exit and join\<close>

text \<open>
  C18: The status of a thread reaches the thread that joins it.  A joinable thread exits, not as the last
  one; another thread then joins it.  The exiting thread ends in the call that terminates it, the join
  returns 0 with the exit status (or \<^verbatim>\<open>PTHREAD_CANCELED\<close> for a cancelled thread), and afterwards the identifier
  denotes no thread.  The kernel is seen differently by the two: terminating oneself does not
  return, terminating the other thread does.
\<close>

theorem join_receives_exit_status:
  assumes "may_exit h cf t s" and "p_state (pthreads s t) = PTHREAD_JOINABLE"
    and "cond_inv s Q (State_cond t)" and "mach_ports h"
    and "\<And>u. u \<in> set (Q (Cond_queue (State_cond t))) \<Longrightarrow> kmsgs s u = 0"
    and "length (Q (Cond_queue (State_cond t))) \<le> cf_queue cf"
    and "\<And>s'. h (Thread_terminate (p_kernel_thread (pthreads s t))) s' = None" and "total_threads s \<noteq> 1"
    and "reap_ok h'" and "threads_inv s" and "idle_mutex s Free_threads_lock" and "\<not> queued s t"
    and "p_stack (pthreads s t) \<noteq> 0" and "p_thread (pthreads s t) = i" and "1 \<le> i" and "i \<le> num_threads s"
    and "threads_tab s ! nat (i - 1) = Some t" and "self \<noteq> t"
  shows "\<exists>p s1 s2. run (pthread_exit cf t status :: unit pt) h s = Waiting p s1 \<and>
    run (pthread_join (Suc k) cf self i) h' s1 = Done (OK, Some (exit_status t status s)) s2 \<and>
    threads_tab s2 = (threads_tab s)[nat (i - 1) := None] \<and> p_state (pthreads s2 t) = PTHREAD_TERMINATED"
proof -
  let ?s1 = "left_by t (exit_status t status s) (Q (Cond_queue (State_cond t))) s"
  let ?Q = "Q(Cond_queue (State_cond t) := [])"
  from run_exit_joinable [OF assms(1-8)] obtain p where
    e: "run (pthread_exit cf t status :: unit pt) h s = Waiting p ?s1" by blast
  have q: "queues ?s1 ?Q" using left_by_inv [OF assms(3)] by (simp add: cond_inv_def)
  have "queues s Q" using assms(3) by (simp add: cond_inv_def)
  with assms(12) have "t \<notin> set (Q l)" if "is_head l" for l using wq.waits_view that by blast
  then have nq: "\<not> queued ?s1 t" using wq.waits_view [OF q] by (auto split: if_splits)
  have "idle_mutex s (State_lock t)" using assms(1) by (simp add: may_exit_def)
  with run_join_exited [OF assms(9) _ _ _ q nq] assms(10,11,13-18) show ?thesis
    using e by (fastforce simp: left_by_simps)
qed

definition leaving :: pt_state where
  "leaving = upd_pthread 1 (\<lambda>x. x\<lparr>p_kernel_thread := 1, p_stack := 1, p_thread := 1\<rparr>)
     (zero_state\<lparr>total_threads := 2, threads_tab := [Some 1, Some 2], num_threads := 2, max_threads := 2\<rparr>)"

lemma leaving_simps:
  "may_exit life_env life_config 1 leaving" "cond_inv leaving (\<lambda>_. []) (State_cond 1)" "threads_inv leaving"
  "idle_mutex leaving m" "reap_ok alloc_env"
  by (simp_all add: may_exit_def leaving_def idle_mutex_def unlocked_def known_type_def mutex_type_of_def
      resolve_attr_def handlers_ok_def life_config_def zero_pthread_def pthread_consts cond_inv_def linked_def
      threads_inv_def idle_rwlock_def reap_ok_def alloc_env_def)

theorem join_receives_exit_status_witness:
  "\<exists>p s1 s2. run (pthread_exit life_config 1 42 :: unit pt) life_env leaving = Waiting p s1 \<and>
    run (pthread_join (Suc 0) life_config 2 1) alloc_env s1 = Done (OK, Some (exit_status 1 42 leaving)) s2 \<and>
    threads_tab s2 = (threads_tab leaving)[nat (1 - 1) := None] \<and> p_state (pthreads s2 1) = PTHREAD_TERMINATED"
  by (rule join_receives_exit_status [OF leaving_simps(1) _ leaving_simps(2) life_env_ports _ _ _ _ leaving_simps(5,3,4)])
    (simp_all add: leaving_def life_env_def zero_pthread_def)

end
